(* ===== verification/Prelude.thy ===== *)
theory Prelude
  imports Main "HOL-Library.Word"
begin

text \<open>
  Shared vocabulary of the development: the fixed-width integer types of the C sources, the
  convention for undefined behaviour, counted loops, and the word lemmas that the components
  use. Definitions that model source code live in the component theories.
\<close>

unbundle bit_operations_syntax

type_synonym u8 = "8 word"
type_synonym u16 = "16 word"
type_synonym u32 = "32 word"
type_synonym u64 = "64 word"

text \<open>Pointers of the 64-bit kernel are 64-bit words; the null pointer is 0.\<close>

type_synonym ptr = u64

abbreviation NULL :: ptr where
  "NULL \<equiv> 0"

text \<open>
  An operation whose C text can execute undefined behaviour (a shift past the width, an access
  outside an array, a dereference of the null pointer) returns an option: \<open>None\<close> is
  undefined behaviour, \<open>Some r\<close> a defined execution with result \<open>r\<close>.
\<close>

type_synonym 'a defined = "'a option"

text \<open>A C counted loop \<open>for (i = 0; i < n; i++) body\<close> whose body has no exit.\<close>

definition for_upto :: "nat \<Rightarrow> (nat \<Rightarrow> 's \<Rightarrow> 's) \<Rightarrow> 's \<Rightarrow> 's" where
  "for_upto n body s = fold body [0..<n] s"

lemma for_upto_0 [simp]: "for_upto 0 body s = s"
  by (simp add: for_upto_def)

lemma for_upto_Suc [simp]: "for_upto (Suc n) body s = body n (for_upto n body s)"
  by (simp add: for_upto_def)

lemma for_upto_numeral: "for_upto (numeral k) body s = body (pred_numeral k) (for_upto (pred_numeral k) body s)"
  by (simp add: numeral_eq_Suc)

lemma for_upto_inv:
  assumes "P 0 s" and "\<And>i t. i < n \<Longrightarrow> P i t \<Longrightarrow> P (Suc i) (body i t)"
  shows "P n (for_upto n body s)"
  using assms by (induction n) auto

text \<open>Masks of one bit (a shifted 1 simplifies to a power of 2): test, set and clear, the three operations of every bit set below.\<close>

named_theorems bitset_simps

lemma and_exp_zero [bitset_simps]:
  "(w AND 2 ^ n = 0) = (\<not> bit (w :: 'a::len word) n)"
  by (rule and_exp_eq_0_iff_not_bit)

lemma bit_or_exp [bitset_simps]:
  "n < LENGTH('a) \<Longrightarrow> bit ((w :: 'a::len word) OR 2 ^ n) m = (bit w m \<or> m = n)"
  by (auto simp: bit_simps)

lemma bit_and_not_exp [bitset_simps]:
  "bit ((w :: 'a::len word) AND NOT (2 ^ n)) m = (bit w m \<and> m \<noteq> n)"
  by (auto simp: bit_simps dest: bit_imp_le_length)

text \<open>Splitting a bit number into a word index and a position is injective.\<close>

lemma div_mod_inj:
  "(i div k = j div k \<and> i mod k = j mod k) = (i = (j :: nat))"
  by (metis div_mult_mod_eq)

lemma nat_minus_one_inj: "1 \<le> i \<Longrightarrow> 1 \<le> j \<Longrightarrow> (nat (i - 1) = nat (j - 1)) = (i = (j :: int))"
  by auto

text \<open>Bit \<open>i\<close> of an array of 32-bit words, and the two updates of one bit.\<close>

definition wbit :: "u32 list \<Rightarrow> nat \<Rightarrow> bool" where
  "wbit ws i = bit (ws ! (i div 32)) (i mod 32)"

lemma wbit_set:
  assumes "i div 32 < length ws"
  shows "wbit (ws[i div 32 := (ws ! (i div 32)) OR 2 ^ (i mod 32)]) j = (j = i \<or> wbit ws j)"
  using assms div_mod_inj [of i 32 j]
  by (auto simp: wbit_def nth_list_update bit_or_exp)

lemma wbit_clear:
  assumes "i div 32 < length ws"
  shows "wbit (ws[i div 32 := (ws ! (i div 32)) AND NOT (2 ^ (i mod 32))]) j = (j \<noteq> i \<and> wbit ws j)"
  using assms div_mod_inj [of i 32 j]
  by (auto simp: wbit_def nth_list_update bit_and_not_exp)

lemma wbit_replicate: "i div 32 < n \<Longrightarrow> wbit (replicate n w) i = bit w (i mod 32)"
  by (simp add: wbit_def)

text \<open>Reading an unsigned 32-bit value as an int.\<close>

lemma sint_small:
  assumes "unat (w :: u32) < 2147483648"
  shows "sint w = int (unat w)"
proof -
  from assms have "int (unat w) < 2147483648" by linarith
  then have "uint w < 2147483648" by simp
  moreover have "- 2147483648 \<le> uint w" by (rule order_trans [of _ 0]) simp_all
  ultimately have "signed_take_bit 31 (uint w) = uint w"
    by (intro signed_take_bit_int_eq_self) simp_all
  then show ?thesis by (simp add: sint_uint)
qed

lemma sint_large:
  assumes "2147483648 \<le> unat (w :: u32)"
  shows "sint w = int (unat w) - 4294967296"
proof -
  from assms have "2147483648 \<le> int (unat w)" by linarith
  then have a: "2147483648 \<le> uint w" by simp
  have "signed_take_bit 31 (uint w) = signed_take_bit 31 (uint w - 4294967296)"
    by (simp add: signed_take_bit_eq_iff_take_bit_eq take_bit_eq_mod)
  also have "\<dots> = uint w - 4294967296"
    using a uint_bounded [of w] by (intro signed_take_bit_int_eq_self) simp_all
  finally show ?thesis by (simp add: sint_uint)
qed

lemma sint_large_neg:
  assumes "2147483648 \<le> unat (w :: u32)"
  shows "sint w < 0"
proof -
  have "int (unat w) < 4294967296" using uint_bounded [of w] by simp
  with sint_large [OF assms] show ?thesis by linarith
qed

text \<open>Pointer arithmetic: a 64-bit address and a 32-bit length, without wrap-around.\<close>

lemma ptr_below_top: "unat (p :: ptr) < 18446744073709551616"
  using unsigned_less [of p, where ?'a = nat] by simp

lemma u32_below_top: "unat (w :: u32) < 4294967296"
  using unsigned_less [of w, where ?'a = nat] by simp

lemma unat_ucast64 [simp]: "unat (ucast (w :: u32) :: u64) = unat w"
  using u32_below_top [of w] by (simp add: unsigned_ucast_eq take_bit_nat_eq_self)

lemma ptr_add_unat:
  "unat (p :: ptr) + unat (n :: u32) < 18446744073709551616 \<Longrightarrow> unat (p + ucast n) = unat p + unat n"
  by (simp add: unat_word_ariths)

lemma ptr_sub_unat: "unat (n :: u32) \<le> unat (p :: ptr) \<Longrightarrow> unat (p - ucast n) = unat p - unat n"
  by (simp add: unat_sub_if')

lemma ptr_diff_unat:
  assumes "(q :: ptr) \<le> p" "unat p - unat q < 4294967296"
  shows "unat (ucast (p - q) :: u32) = unat p - unat q"
proof -
  have "unat (p - q) = unat p - unat q"
    using assms(1) by (simp add: unat_sub_if' word_le_nat_alt)
  with assms(2) show ?thesis by (simp add: unsigned_ucast_eq take_bit_nat_eq_self)
qed

lemma u32_add_unat: "unat (a :: u32) + unat b < 4294967296 \<Longrightarrow> unat (a + b) = unat a + unat b"
  by (simp add: unat_word_ariths)

lemma upt_split_add: "[0..<a + b] = [0..<a] @ map (\<lambda>i. a + i) [0..<b]"
  by (induction b) auto

lemma of_nat_unat_ucast [simp]: "of_nat (unat (n :: u32)) = (ucast n :: u64)"
proof -
  have "unat (of_nat (unat n) :: u64) = unat n"
    using u32_below_top [of n] by (simp only: unat_of_nat) simp
  then show ?thesis by (simp add: word_unat_eq_iff)
qed

end
