(* ===== verification/Linked_List.thy ===== *)
theory Linked_List
  imports Prelude
begin

text \<open>
  Null-terminated singly linked lists in a heap of \<open>next\<close> fields, and the contract of the
  search loop \<open>for (p = head; p; p = p->next) if (hit(p)) return p; return NULL;\<close> that
  \<open>find_task_by_pid\<close> (kernel/fork.c) and \<open>dev_get_by_name\<close> (net/dev.c) share.
\<close>

fun lpath :: "(ptr \<Rightarrow> ptr) \<Rightarrow> ptr \<Rightarrow> ptr list \<Rightarrow> bool" where
  "lpath nxt p [] \<longleftrightarrow> p = NULL"
| "lpath nxt p (a # as) \<longleftrightarrow> p = a \<and> a \<noteq> NULL \<and> lpath nxt (nxt a) as"

lemma lpath_NULL [simp]: "lpath nxt NULL as \<longleftrightarrow> as = []"
  by (cases as) auto

lemma lpath_unique: "lpath nxt p as \<Longrightarrow> lpath nxt p bs \<Longrightarrow> as = bs"
proof (induction as arbitrary: p bs)
  case Nil
  then show ?case by simp
next
  case (Cons a as)
  then show ?case by (cases bs) auto
qed

lemma lpath_append:
  "lpath nxt p (as @ bs) \<Longrightarrow> \<exists>q. lpath nxt q bs"
  by (induction as arbitrary: p) auto

lemma lpath_distinct: "lpath nxt p as \<Longrightarrow> distinct as"
proof (induction as arbitrary: p)
  case Nil
  then show ?case by simp
next
  case (Cons a as)
  have "a \<notin> set as"
  proof
    assume "a \<in> set as"
    then obtain bs cs where as: "as = bs @ a # cs" by (auto dest: split_list)
    have whole: "lpath nxt a (a # as)" using Cons.prems by simp
    from Cons.prems as have "lpath nxt (nxt a) (bs @ a # cs)" by simp
    from lpath_append [OF this] have "lpath nxt a (a # cs)" by auto
    from lpath_unique [OF whole this] as show False by (simp add: append_eq_Cons_conv)
  qed
  with Cons show ?case by auto
qed

lemma lpath_upd: "a \<notin> set as \<Longrightarrow> lpath (nxt(a := v)) p as = lpath nxt p as"
  by (induction as arbitrary: p) auto

lemma lpath_not_NULL: "lpath nxt p as \<Longrightarrow> a \<in> set as \<Longrightarrow> a \<noteq> NULL"
  by (induction as arbitrary: p) auto

lemma lpath_NULL_notin: "lpath nxt p as \<Longrightarrow> NULL \<notin> set as"
  using lpath_not_NULL by blast

text \<open>The first element of a list that satisfies a test, null when there is none.\<close>

definition first_hit :: "(ptr \<Rightarrow> bool) \<Rightarrow> ptr list \<Rightarrow> ptr" where
  "first_hit P as = (case find P as of None \<Rightarrow> NULL | Some a \<Rightarrow> a)"

lemma first_hit_Nil [simp]: "first_hit P [] = NULL"
  by (simp add: first_hit_def)

lemma first_hit_Cons [simp]: "first_hit P (a # as) = (if P a then a else first_hit P as)"
  by (simp add: first_hit_def)

lemma first_hit_NULL: "NULL \<notin> set as \<Longrightarrow> (first_hit P as = NULL) = (\<forall>a \<in> set as. \<not> P a)"
  by (induction as) auto

lemma first_hit_image: "NULL \<notin> set as \<Longrightarrow> (first_hit (\<lambda>a. f a = k) as = NULL) = (k \<notin> f ` set as)"
  by (auto simp: first_hit_NULL)

lemma first_hit_in: "first_hit P as \<noteq> NULL \<Longrightarrow> first_hit P as \<in> set as \<and> P (first_hit P as)"
  by (induction as) (auto split: if_splits)

locale list_search =
  fixes nxt :: "'h \<Rightarrow> ptr \<Rightarrow> ptr"
    and hit :: "'h \<Rightarrow> 'k \<Rightarrow> ptr \<Rightarrow> bool"
    and search :: "'h \<Rightarrow> 'k \<Rightarrow> ptr \<Rightarrow> ptr option"
  assumes search_unfold: "search h k p =
    (if p = NULL then Some NULL else if hit h k p then Some p else search h k (nxt h p))"
begin

text \<open>On a well-formed list the loop returns, and returns the first match.\<close>

lemma search_path: "lpath (nxt h) p as \<Longrightarrow> search h k p = Some (first_hit (hit h k) as)"
proof (induction as arbitrary: p)
  case Nil
  then show ?case by (simp add: search_unfold)
next
  case (Cons a as)
  then have "search h k (nxt h a) = Some (first_hit (hit h k) as)" by simp
  with Cons.prems show ?case by (subst search_unfold) auto
qed

lemma search_None:
  "lpath (nxt h) p as \<Longrightarrow> (search h k p = Some NULL) = (\<forall>a \<in> set as. \<not> hit h k a)"
  by (simp add: search_path first_hit_NULL lpath_NULL_notin)

text \<open>Where at most one element matches, the loop finds exactly that one.\<close>

lemma search_unique:
  assumes "lpath (nxt h) p as" and "a \<in> set as" and "hit h k a"
    and "\<And>b. b \<in> set as \<Longrightarrow> hit h k b \<Longrightarrow> b = a"
  shows "search h k p = Some a"
proof -
  have "first_hit (hit h k) as \<noteq> NULL"
    using assms(1-3) by (subst first_hit_NULL) (auto dest: lpath_not_NULL)
  then have "first_hit (hit h k) as = a"
    using assms(4) first_hit_in by blast
  with search_path [OF assms(1)] show ?thesis by simp
qed

end

end
