(* ===== verification/Task.thy ===== *)
theory Task
  imports Linked_List "HOL-Library.Monad_Syntax"
begin

text \<open>
  Process bookkeeping: kernel/fork.c (task list, pid allocation, the \<open>copy_\<close> helpers of clone,
  release of the address space on exit) and the state-changing part of kernel/exit.c. The heap
  is field-wise: one map for task structures, one for address spaces.
\<close>

subsection \<open>Data\<close>

record mm_struct =
  mm_pgd :: u64
  mm_refcount :: u32
  mm_start_code :: u64
  mm_end_code :: u64
  mm_start_data :: u64
  mm_end_data :: u64
  mm_start_brk :: u64
  mm_brk :: u64
  mm_start_stack :: u64
  mm_arg_start :: u64
  mm_arg_end :: u64
  mm_env_start :: u64
  mm_env_end :: u64

record task_struct =
  t_pid :: u32
  t_tgid :: u32
  t_ppid :: u32
  t_state :: int
  t_exit_state :: int
  t_exit_code :: int
  t_exit_signal :: int
  t_pdeath_signal :: int
  t_mm :: ptr
  t_active_mm :: ptr
  t_files :: ptr
  t_signal :: ptr
  t_sighand :: ptr
  t_stack :: u64
  t_stack_size :: u64
  t_flags :: u32
  t_ptrace :: u32
  t_prio :: int
  t_static_prio :: int
  t_normal_prio :: int
  t_rt_priority :: u32
  t_utime :: u64
  t_stime :: u64
  t_start_time :: u64
  t_comm :: string
  t_parent :: ptr
  t_real_parent :: ptr
  t_group_leader :: ptr
  t_next :: ptr
  t_prev :: ptr
  t_set_child_tid :: ptr
  t_clear_child_tid :: ptr
  t_tls :: u64

record task_state =
  tasks :: "ptr \<Rightarrow> task_struct"
  mms :: "ptr \<Rightarrow> mm_struct"
  task_list :: ptr
  next_pid :: u32
  current_task :: ptr

definition TASK_RUNNING :: int where "TASK_RUNNING = 0"
definition EXIT_ZOMBIE :: int where "EXIT_ZOMBIE = 16"
definition EXIT_DEAD :: int where "EXIT_DEAD = 32"
definition CLONE_VM :: u64 where "CLONE_VM = 0x100"
definition CLONE_FILES :: u64 where "CLONE_FILES = 0x400"
definition CLONE_SIGHAND :: u64 where "CLONE_SIGHAND = 0x800"
definition CLONE_VFORK :: u64 where "CLONE_VFORK = 0x4000"
definition CLONE_THREAD :: u64 where "CLONE_THREAD = 0x10000"
definition SIGCHLD :: u64 where "SIGCHLD = 17"

text \<open>Reads and writes through a pointer; the null pointer is undefined behaviour.\<close>

definition rd_task :: "ptr \<Rightarrow> task_state \<Rightarrow> task_struct defined" where
  "rd_task p s = (if p = NULL then None else Some (tasks s p))"

definition wr_task :: "ptr \<Rightarrow> (task_struct \<Rightarrow> task_struct) \<Rightarrow> task_state \<Rightarrow> task_state defined" where
  "wr_task p f s = (if p = NULL then None else Some (s\<lparr>tasks := (tasks s)(p := f (tasks s p))\<rparr>))"

definition wr_mm :: "ptr \<Rightarrow> (mm_struct \<Rightarrow> mm_struct) \<Rightarrow> task_state \<Rightarrow> task_state defined" where
  "wr_mm p f s = (if p = NULL then None else Some (s\<lparr>mms := (mms s)(p := f (mms s p))\<rparr>))"

subsection \<open>The task list and pids\<close>

definition get_current :: "task_state \<Rightarrow> ptr" where
  "get_current s = current_task s"

definition set_current :: "ptr \<Rightarrow> task_state \<Rightarrow> task_state" where
  "set_current task s = s\<lparr>current_task := task\<rparr>"

text \<open>The argument is the address of the static object \<open>init_task\<close>.\<close>

definition fork_init :: "ptr \<Rightarrow> task_state \<Rightarrow> task_state" where
  "fork_init init_task s = s\<lparr>task_list := init_task, next_pid := 1\<rparr>"

definition get_pid :: "task_state \<Rightarrow> u32 \<times> task_state" where
  "get_pid s = (next_pid s, s\<lparr>next_pid := next_pid s + 1\<rparr>)"

text \<open>The \<open>while (task)\<close> loop; \<open>None\<close> if it never leaves a cyclic list.\<close>

partial_function (option) find_task_loop :: "(ptr \<Rightarrow> task_struct) \<Rightarrow> u32 \<Rightarrow> ptr \<Rightarrow> ptr option" where
  "find_task_loop h pid task =
     (if task = NULL then Some NULL
      else if t_pid (h task) = pid then Some task
      else find_task_loop h pid (t_next (h task)))"

definition find_task_by_pid :: "u32 \<Rightarrow> task_state \<Rightarrow> ptr option" where
  "find_task_by_pid pid s = find_task_loop (tasks s) pid (task_list s)"

subsection \<open>Address spaces\<close>

text \<open>\<open>mm_alloc\<close> initialises a local pointer to null and writes through it.\<close>

definition mm_alloc :: "task_state \<Rightarrow> (ptr \<times> task_state) defined" where
  "mm_alloc s = do {
     let mm = NULL;
     s \<leftarrow> wr_mm mm (mm_refcount_update (\<lambda>_. 1)) s;
     s \<leftarrow> wr_mm mm (mm_pgd_update (\<lambda>_. 0)) s;
     Some (mm, s) }"

definition mmput :: "ptr \<Rightarrow> task_state \<Rightarrow> task_state defined" where
  "mmput mm s = (if mm = NULL then Some s
     else wr_mm mm (\<lambda>m. m\<lparr>mm_refcount := mm_refcount m - 1\<rparr>) s)"

definition dup_mm :: "ptr \<Rightarrow> task_state \<Rightarrow> (ptr \<times> task_state) defined" where
  "dup_mm tsk s = do {
     cur \<leftarrow> rd_task (current_task s) s;
     if t_mm cur = NULL then Some (NULL, s)
     else do {
       (mm, s) \<leftarrow> mm_alloc s;
       if mm = NULL then Some (NULL, s) else Some (mm, s) } }"

definition copy_mm :: "u64 \<Rightarrow> ptr \<Rightarrow> task_state \<Rightarrow> (int \<times> task_state) defined" where
  "copy_mm clone_flags tsk s =
     (if clone_flags AND CLONE_VM \<noteq> 0 then do {
        cur \<leftarrow> rd_task (current_task s) s;
        let mm = t_mm cur;
        if mm = NULL then Some (-1, s)
        else do {
          s \<leftarrow> wr_task tsk (t_mm_update (\<lambda>_. mm)) s;
          s \<leftarrow> wr_task tsk (t_active_mm_update (\<lambda>_. mm)) s;
          Some (0, s) } }
      else do {
        (mm, s) \<leftarrow> dup_mm tsk s;
        if mm = NULL then Some (-1, s)
        else do {
          s \<leftarrow> wr_task tsk (t_mm_update (\<lambda>_. mm)) s;
          s \<leftarrow> wr_task tsk (t_active_mm_update (\<lambda>_. mm)) s;
          Some (0, s) } })"

subsection \<open>The other clone helpers\<close>

definition dup_files :: "ptr \<Rightarrow> ptr" where
  "dup_files oldf = oldf"

definition copy_files :: "u64 \<Rightarrow> ptr \<Rightarrow> task_state \<Rightarrow> (int \<times> task_state) defined" where
  "copy_files clone_flags tsk s = do {
     cur \<leftarrow> rd_task (current_task s) s;
     let oldf = t_files cur;
     if clone_flags AND CLONE_FILES \<noteq> 0 then do {
       s \<leftarrow> wr_task tsk (t_files_update (\<lambda>_. oldf)) s;
       Some (0, s) }
     else (let newf = dup_files oldf in
       if newf = NULL then Some (0, s)
       else do {
         s \<leftarrow> wr_task tsk (t_files_update (\<lambda>_. newf)) s;
         Some (0, s) }) }"

definition copy_sighand :: "u64 \<Rightarrow> ptr \<Rightarrow> task_state \<Rightarrow> (int \<times> task_state) defined" where
  "copy_sighand clone_flags tsk s =
     (if clone_flags AND CLONE_SIGHAND \<noteq> 0 then do {
        cur \<leftarrow> rd_task (current_task s) s;
        s \<leftarrow> wr_task tsk (t_sighand_update (\<lambda>_. t_sighand cur)) s;
        Some (0, s) }
      else Some (0, s))"

definition copy_signal :: "u64 \<Rightarrow> ptr \<Rightarrow> task_state \<Rightarrow> (int \<times> task_state) defined" where
  "copy_signal clone_flags tsk s =
     (if clone_flags AND CLONE_THREAD \<noteq> 0 then do {
        cur \<leftarrow> rd_task (current_task s) s;
        s \<leftarrow> wr_task tsk (t_signal_update (\<lambda>_. t_signal cur)) s;
        Some (0, s) }
      else Some (0, s))"

definition copy_thread :: "u64 \<Rightarrow> u64 \<Rightarrow> u64 \<Rightarrow> ptr \<Rightarrow> task_state \<Rightarrow> (int \<times> task_state) defined" where
  "copy_thread clone_flags sp arg p s =
     (if sp \<noteq> 0 then do {
        s \<leftarrow> wr_task p (t_stack_update (\<lambda>_. sp)) s;
        Some (0, s) }
      else Some (0, s))"

definition wake_up_new_task :: "ptr \<Rightarrow> task_state \<Rightarrow> task_state defined" where
  "wake_up_new_task p s = wr_task p (t_state_update (\<lambda>_. TASK_RUNNING)) s"

definition sched_fork :: "ptr \<Rightarrow> task_state \<Rightarrow> task_state defined" where
  "sched_fork p s = do {
     cur \<leftarrow> rd_task (current_task s) s;
     s \<leftarrow> wr_task p (t_prio_update (\<lambda>_. t_prio cur)) s;
     cur \<leftarrow> rd_task (current_task s) s;
     s \<leftarrow> wr_task p (t_static_prio_update (\<lambda>_. t_static_prio cur)) s;
     cur \<leftarrow> rd_task (current_task s) s;
     s \<leftarrow> wr_task p (t_normal_prio_update (\<lambda>_. t_normal_prio cur)) s;
     cur \<leftarrow> rd_task (current_task s) s;
     wr_task p (t_rt_priority_update (\<lambda>_. t_rt_priority cur)) s }"

subsection \<open>Exit\<close>

definition exit_files :: "ptr \<Rightarrow> task_state \<Rightarrow> task_state defined" where
  "exit_files tsk s = do {
     t \<leftarrow> rd_task tsk s;
     if t_files t \<noteq> NULL then wr_task tsk (t_files_update (\<lambda>_. NULL)) s else Some s }"

definition exit_mm :: "ptr \<Rightarrow> task_state \<Rightarrow> task_state defined" where
  "exit_mm tsk s = do {
     t \<leftarrow> rd_task tsk s;
     let mm = t_mm t;
     if mm = NULL then Some s
     else do {
       s \<leftarrow> wr_task tsk (t_mm_update (\<lambda>_. NULL)) s;
       mmput mm s } }"

text \<open>\<open>do_exit\<close> never returns: the result is the state in which it spins.\<close>

definition do_exit :: "int \<Rightarrow> task_state \<Rightarrow> task_state defined" where
  "do_exit code s = do {
     let tsk = current_task s;
     s \<leftarrow> exit_mm tsk s;
     s \<leftarrow> exit_files tsk s;
     s \<leftarrow> wr_task tsk (t_exit_code_update (\<lambda>_. code)) s;
     wr_task tsk (t_exit_state_update (\<lambda>_. EXIT_ZOMBIE)) s }"

definition do_fork :: "u64 \<Rightarrow> u64 \<Rightarrow> u64 \<Rightarrow> ptr \<Rightarrow> ptr \<Rightarrow> task_state \<Rightarrow> int \<times> task_state" where
  "do_fork clone_flags stack_start stack_size parent_tidptr child_tidptr s = (0, s)"

definition sys_fork :: "task_state \<Rightarrow> int \<times> task_state" where
  "sys_fork s = do_fork SIGCHLD 0 0 NULL NULL s"

definition sys_vfork :: "task_state \<Rightarrow> int \<times> task_state" where
  "sys_vfork s = do_fork (CLONE_VFORK OR CLONE_VM OR SIGCHLD) 0 0 NULL NULL s"

definition sys_clone :: "u64 \<Rightarrow> u64 \<Rightarrow> ptr \<Rightarrow> ptr \<Rightarrow> u64 \<Rightarrow> task_state \<Rightarrow> (int \<times> task_state) defined" where
  "sys_clone clone_flags newsp parent_tid child_tid tls s = do {
     newsp \<leftarrow> (if newsp = 0 then do { cur \<leftarrow> rd_task (current_task s) s; Some (t_stack cur) }
               else Some newsp);
     Some (do_fork clone_flags newsp 0 parent_tid child_tid s) }"

text \<open>From kernel/exit.c: the status word of \<open>sys_exit\<close> and the two state setters.\<close>

definition sys_exit_code :: "u32 \<Rightarrow> u32" where
  "sys_exit_code error_code = push_bit 8 (error_code AND 0xff)"

definition exit_zombie :: "ptr \<Rightarrow> task_state \<Rightarrow> task_state defined" where
  "exit_zombie p s = wr_task p (t_state_update (\<lambda>_. EXIT_ZOMBIE)) s"

definition exit_dead :: "ptr \<Rightarrow> task_state \<Rightarrow> task_state defined" where
  "exit_dead p s = wr_task p (t_state_update (\<lambda>_. EXIT_DEAD)) s"

definition sys_wait4 :: "int \<Rightarrow> int" where
  "sys_wait4 pid = -10"

subsection \<open>Library\<close>

lemmas task_access = rd_task_def wr_task_def wr_mm_def Let_def

interpretation task_search: list_search
  "\<lambda>h p. t_next (h p)" "\<lambda>h pid p. t_pid (h p) = pid" find_task_loop
  by unfold_locales (subst find_task_loop.simps, simp)

definition task_list_ok :: "task_state \<Rightarrow> ptr list \<Rightarrow> bool" where
  "task_list_ok s ps \<longleftrightarrow> lpath (\<lambda>p. t_next (tasks s p)) (task_list s) ps
     \<and> distinct (map (\<lambda>p. t_pid (tasks s p)) ps)"

lemma mm_alloc_undefined: "mm_alloc s = None"
  by (simp add: mm_alloc_def task_access)

lemma copy_mm_share:
  assumes "current_task s \<noteq> NULL" "tsk \<noteq> NULL" "t_mm (tasks s (current_task s)) \<noteq> NULL"
    and "clone_flags AND CLONE_VM \<noteq> 0"
  shows "copy_mm clone_flags tsk s = Some (0, s\<lparr>tasks := (tasks s)(tsk := (tasks s tsk)
    \<lparr>t_mm := t_mm (tasks s (current_task s)), t_active_mm := t_mm (tasks s (current_task s))\<rparr>)\<rparr>)"
  using assms by (simp add: copy_mm_def task_access)

lemma do_exit_with_mm:
  assumes "current_task s \<noteq> NULL" "m \<noteq> NULL" "t_mm (tasks s (current_task s)) = m"
  shows "\<exists>s'. do_exit code s = Some s' \<and> current_task s' = current_task s
    \<and> mms s' = (mms s)(m := (mms s m)\<lparr>mm_refcount := mm_refcount (mms s m) - 1\<rparr>)
    \<and> t_mm (tasks s' (current_task s)) = NULL
    \<and> t_exit_state (tasks s' (current_task s)) = EXIT_ZOMBIE
    \<and> t_exit_code (tasks s' (current_task s)) = code
    \<and> (\<forall>q. q \<noteq> current_task s \<longrightarrow> tasks s' q = tasks s q)"
  using assms by (simp add: do_exit_def exit_mm_def exit_files_def mmput_def task_access)

subsection \<open>Properties\<close>

text \<open>
  on a well-formed task list with distinct pids, \<open>find_task_by_pid\<close> returns, finds every
  listed task by its pid, and returns null exactly for the pids no listed task has.
\<close>

theorem find_task_by_pid_correct:
  assumes "task_list_ok s ps"
  shows "(\<forall>p \<in> set ps. find_task_by_pid (t_pid (tasks s p)) s = Some p)
    \<and> (find_task_by_pid pid s = Some NULL \<longleftrightarrow> (\<forall>p \<in> set ps. t_pid (tasks s p) \<noteq> pid))"
proof -
  have path: "lpath (\<lambda>p. t_next (tasks s p)) (task_list s) ps"
    and dist: "distinct (map (\<lambda>p. t_pid (tasks s p)) ps)"
    using assms by (auto simp: task_list_ok_def)
  have "find_task_by_pid (t_pid (tasks s p)) s = Some p" if "p \<in> set ps" for p
    unfolding find_task_by_pid_def
  proof (rule task_search.search_unique [OF path that])
    show "b = p" if "b \<in> set ps" and "t_pid (tasks s b) = t_pid (tasks s p)" for b
      using dist that \<open>p \<in> set ps\<close> by (auto simp: distinct_map inj_on_def)
  qed simp
  then show ?thesis
    using task_search.search_None [OF path, of pid] by (simp add: find_task_by_pid_def)
qed

text \<open>Two linked tasks with pids 1 and 2, and an address space with one user.\<close>

definition sample_mm :: mm_struct where
  "sample_mm = \<lparr>mm_pgd = 0, mm_refcount = 1, mm_start_code = 0, mm_end_code = 0,
     mm_start_data = 0, mm_end_data = 0, mm_start_brk = 0, mm_brk = 0, mm_start_stack = 0,
     mm_arg_start = 0, mm_arg_end = 0, mm_env_start = 0, mm_env_end = 0\<rparr>"

definition sample_task :: "u32 \<Rightarrow> ptr \<Rightarrow> ptr \<Rightarrow> task_struct" where
  "sample_task pid mm next = \<lparr>t_pid = pid, t_tgid = pid, t_ppid = 0, t_state = 0, t_exit_state = 0,
     t_exit_code = 0, t_exit_signal = 0, t_pdeath_signal = 0, t_mm = mm, t_active_mm = mm,
     t_files = 0, t_signal = 0, t_sighand = 0, t_stack = 0, t_stack_size = 0, t_flags = 0,
     t_ptrace = 0, t_prio = 0, t_static_prio = 0, t_normal_prio = 0, t_rt_priority = 0,
     t_utime = 0, t_stime = 0, t_start_time = 0, t_comm = [], t_parent = 0, t_real_parent = 0,
     t_group_leader = 0, t_next = next, t_prev = 0, t_set_child_tid = 0, t_clear_child_tid = 0,
     t_tls = 0\<rparr>"

definition sample_tasks :: task_state where
  "sample_tasks = \<lparr>tasks = (\<lambda>p. if p = 16 then sample_task 1 64 32 else sample_task 2 0 NULL),
     mms = (\<lambda>_. sample_mm), task_list = 16, next_pid = 3, current_task = 16\<rparr>"

lemmas sample_task_defs = sample_mm_def sample_task_def sample_tasks_def

theorem find_task_by_pid_correct_witness:
  "task_list_ok sample_tasks [16, 32] \<and> find_task_by_pid 2 sample_tasks = Some 32
     \<and> find_task_by_pid 7 sample_tasks = Some NULL"
proof -
  have ok: "task_list_ok sample_tasks [16, 32]"
    by (simp add: task_list_ok_def sample_task_defs)
  from find_task_by_pid_correct [OF ok, of 7] have
    "\<forall>p \<in> set [16, 32]. find_task_by_pid (t_pid (tasks sample_tasks p)) sample_tasks = Some p"
    and "find_task_by_pid 7 sample_tasks = Some NULL"
    by (simp_all add: sample_task_defs)
  with ok show ?thesis by (simp add: sample_task_defs)
qed

text \<open>
  a clone with \<open>CLONE_VM\<close> shares the address space without counting the new user. With a
  count of 1, the parent's exit brings the count to 0 although the child still uses the address
  space, and the child's exit wraps the count around to \<open>2^32 - 1\<close>.
\<close>

theorem clone_vm_refcount_underflow:
  assumes "current_task s \<noteq> NULL" "child \<noteq> NULL" "child \<noteq> current_task s" "m \<noteq> NULL"
    and "t_mm (tasks s (current_task s)) = m" "mm_refcount (mms s m) = 1"
    and "flags AND CLONE_VM \<noteq> 0"
  shows "\<exists>s1 s2 s3. copy_mm flags child s = Some (0, s1) \<and> mm_refcount (mms s1 m) = 1
    \<and> do_exit c1 s1 = Some s2 \<and> mm_refcount (mms s2 m) = 0 \<and> t_mm (tasks s2 child) = m
    \<and> do_exit c2 (set_current child s2) = Some s3 \<and> mm_refcount (mms s3 m) = 0xFFFFFFFF"
proof -
  define s1 where "s1 = s\<lparr>tasks := (tasks s)(child := (tasks s child)
    \<lparr>t_mm := t_mm (tasks s (current_task s)), t_active_mm := t_mm (tasks s (current_task s))\<rparr>)\<rparr>"
  have copy: "copy_mm flags child s = Some (0, s1)"
    using assms by (simp add: copy_mm_share s1_def)
  have s1: "current_task s1 = current_task s" "mms s1 = mms s" "t_mm (tasks s1 child) = m"
    "t_mm (tasks s1 (current_task s)) = m"
    using assms by (simp_all add: s1_def)
  obtain s2 where s2: "do_exit c1 s1 = Some s2" "mm_refcount (mms s2 m) = 0"
    "t_mm (tasks s2 child) = m"
    using do_exit_with_mm [of s1 m c1] s1 assms by auto
  obtain s3 where "do_exit c2 (set_current child s2) = Some s3" "mm_refcount (mms s3 m) = - 1"
    using do_exit_with_mm [of "set_current child s2" m c2] s2 assms by (auto simp: set_current_def)
  with copy s1 s2 assms show ?thesis
    by (intro exI [of _ s1] exI [of _ s2] exI [of _ s3]) simp
qed

theorem clone_vm_refcount_underflow_witness:
  "\<exists>s1 s2 s3. copy_mm CLONE_VM 32 sample_tasks = Some (0, s1) \<and> mm_refcount (mms s1 64) = 1
    \<and> do_exit 0 s1 = Some s2 \<and> mm_refcount (mms s2 64) = 0 \<and> t_mm (tasks s2 32) = 64
    \<and> do_exit 0 (set_current 32 s2) = Some s3 \<and> mm_refcount (mms s3 64) = 0xFFFFFFFF"
  by (rule clone_vm_refcount_underflow) (simp_all add: sample_task_defs CLONE_VM_def)

text \<open>
  without \<open>CLONE_VM\<close> the address space is never duplicated: \<open>copy_mm\<close> fails with -1 and
  changes nothing when the current task has no address space, and is undefined (it writes
  through a null pointer in \<open>mm_alloc\<close>) whenever there is one to duplicate.
\<close>

theorem copy_mm_never_duplicates:
  assumes "current_task s \<noteq> NULL" and "flags AND CLONE_VM = 0"
  shows "copy_mm flags tsk s =
    (if t_mm (tasks s (current_task s)) = NULL then Some (-1, s) else None)"
  using assms by (simp add: copy_mm_def dup_mm_def mm_alloc_undefined task_access)

theorem copy_mm_never_duplicates_witness:
  "copy_mm 0 32 sample_tasks = None"
  using copy_mm_never_duplicates [of sample_tasks 0 32] by (simp add: sample_task_defs)

end
