(* ===== verification/Bitset_Spec.thy ===== *)
theory Bitset_Spec
  imports Prelude
begin

text \<open>
  The contract of a bit set, as the signal masks (kernel/signal.c), the capability sets
  (kernel/capability.c), the CPU maps (kernel/cpu.c) and the control-flow bitmap (rust/cfi.c)
  provide it: a membership test, an operation that adds a key and one that removes it, both
  without effect on keys outside the domain. What the clients need is proved here once; each
  provider interprets the locale on its own definitions.
\<close>

datatype 'k setop = Add 'k | Del 'k

locale bitset =
  fixes mem_of :: "'s \<Rightarrow> 'k \<Rightarrow> bool"
    and add_of :: "'s \<Rightarrow> 'k \<Rightarrow> 's"
    and del_of :: "'s \<Rightarrow> 'k \<Rightarrow> 's"
    and dom_of :: "'k \<Rightarrow> bool"
    and invar :: "'s \<Rightarrow> bool"
  assumes mem_dom: "invar s \<Longrightarrow> mem_of s k \<Longrightarrow> dom_of k"
    and mem_add: "invar s \<Longrightarrow> dom_of k \<Longrightarrow> mem_of (add_of s k) j = (j = k \<or> mem_of s j)"
    and mem_del: "invar s \<Longrightarrow> dom_of k \<Longrightarrow> mem_of (del_of s k) j = (j \<noteq> k \<and> mem_of s j)"
    and add_outside: "invar s \<Longrightarrow> \<not> dom_of k \<Longrightarrow> add_of s k = s"
    and del_outside: "invar s \<Longrightarrow> \<not> dom_of k \<Longrightarrow> del_of s k = s"
    and invar_add: "invar s \<Longrightarrow> invar (add_of s k)"
    and invar_del: "invar s \<Longrightarrow> invar (del_of s k)"
begin

definition elems :: "'s \<Rightarrow> 'k set" where
  "elems s = {k. mem_of s k}"

lemma in_elems [simp]: "k \<in> elems s \<longleftrightarrow> mem_of s k"
  by (simp add: elems_def)

lemma elems_add: "invar s \<Longrightarrow> elems (add_of s k) = elems s \<union> {j. j = k \<and> dom_of j}"
  by (cases "dom_of k") (auto simp: mem_add add_outside)

lemma elems_del: "invar s \<Longrightarrow> elems (del_of s k) = elems s - {k}"
  by (cases "dom_of k") (auto simp: mem_del del_outside dest: mem_dom)

lemma elems_subset_dom: "invar s \<Longrightarrow> elems s \<subseteq> Collect dom_of"
  by (auto dest: mem_dom)

fun apply_op :: "'s \<Rightarrow> 'k setop \<Rightarrow> 's" where
  "apply_op s (Add k) = add_of s k"
| "apply_op s (Del k) = del_of s k"

fun abs_op :: "'k set \<Rightarrow> 'k setop \<Rightarrow> 'k set" where
  "abs_op A (Add k) = A \<union> {j. j = k \<and> dom_of j}"
| "abs_op A (Del k) = A - {k}"

lemma invar_apply: "invar s \<Longrightarrow> invar (apply_op s x)"
  by (cases x) (auto intro: invar_add invar_del)

lemma elems_apply: "invar s \<Longrightarrow> elems (apply_op s x) = abs_op (elems s) x"
  by (cases x) (simp_all add: elems_add elems_del)

text \<open>Any sequence of updates computes, on the bits, the finite set the same sequence computes
  on mathematical sets.\<close>

lemma run_refines:
  "invar s \<Longrightarrow> invar (foldl apply_op s xs) \<and> elems (foldl apply_op s xs) = foldl abs_op (elems s) xs"
proof (induction xs arbitrary: s)
  case Nil
  then show ?case by simp
next
  case (Cons x xs)
  from Cons.prems have "invar (apply_op s x)" by (rule invar_apply)
  with Cons.IH [OF this] show ?case
    by (simp add: elems_apply Cons.prems)
qed

lemma del_then_add_absent: "invar s \<Longrightarrow> \<not> mem_of (del_of s k) k"
  using elems_del [of s k] by (metis DiffD2 in_elems singletonI)

end

text \<open>A bit set with union, intersection and complement relative to its domain.\<close>

locale bitset_algebra = bitset mem_of add_of del_of dom_of invar
  for mem_of :: "'s \<Rightarrow> 'k \<Rightarrow> bool"
    and add_of :: "'s \<Rightarrow> 'k \<Rightarrow> 's"
    and del_of :: "'s \<Rightarrow> 'k \<Rightarrow> 's"
    and dom_of :: "'k \<Rightarrow> bool"
    and invar :: "'s \<Rightarrow> bool" +
  fixes join_of :: "'s \<Rightarrow> 's \<Rightarrow> 's"
    and meet_of :: "'s \<Rightarrow> 's \<Rightarrow> 's"
    and compl_of :: "'s \<Rightarrow> 's"
  assumes mem_join: "invar a \<Longrightarrow> invar b \<Longrightarrow> mem_of (join_of a b) k = (mem_of a k \<or> mem_of b k)"
    and mem_meet: "invar a \<Longrightarrow> invar b \<Longrightarrow> mem_of (meet_of a b) k = (mem_of a k \<and> mem_of b k)"
    and mem_compl: "invar a \<Longrightarrow> mem_of (compl_of a) k = (dom_of k \<and> \<not> mem_of a k)"
    and invar_join: "invar a \<Longrightarrow> invar b \<Longrightarrow> invar (join_of a b)"
    and invar_meet: "invar a \<Longrightarrow> invar b \<Longrightarrow> invar (meet_of a b)"
    and invar_compl: "invar a \<Longrightarrow> invar (compl_of a)"
begin

lemma elems_join: "invar a \<Longrightarrow> invar b \<Longrightarrow> elems (join_of a b) = elems a \<union> elems b"
  by (auto simp: mem_join)

lemma elems_diff:
  "invar a \<Longrightarrow> invar b \<Longrightarrow> elems (meet_of a (compl_of b)) = elems a - elems b"
  by (auto simp: mem_meet mem_compl invar_compl dest: mem_dom)

lemma invar_diff: "invar a \<Longrightarrow> invar b \<Longrightarrow> invar (meet_of a (compl_of b))"
  by (blast intro: invar_meet invar_compl)

end

end
