(* ===== verification/Signal.thy ===== *)
theory Signal
  imports Bitset_Spec Task
begin

text \<open>
  kernel/signal.c: signal sets as arrays of 32-bit words, the table of signal actions, the mask
  of blocked signals and the system calls that change them. The functions of the file whose body
  is empty or only returns a constant keep no state and are left out.
\<close>

subsection \<open>Signal sets\<close>

definition NSIG :: int where "NSIG = 64"
definition NSIG_BPW :: int where "NSIG_BPW = 32"
definition NSIG_WORDS :: nat where "NSIG_WORDS = nat (NSIG div NSIG_BPW)"
definition SIGKILL :: int where "SIGKILL = 9"
definition SIGSTOP :: int where "SIGSTOP = 19"

record sigset_t =
  sig_words :: "u32 list"

definition sig_word_of :: "int \<Rightarrow> nat" where
  "sig_word_of signum = nat ((signum - 1) div NSIG_BPW)"

definition sig_mask_of :: "int \<Rightarrow> u32" where
  "sig_mask_of signum = push_bit (nat ((signum - 1) mod NSIG_BPW)) 1"

definition sigemptyset :: "sigset_t \<Rightarrow> sigset_t" where
  "sigemptyset sset = for_upto NSIG_WORDS (\<lambda>i s. s\<lparr>sig_words := (sig_words s)[i := 0]\<rparr>) sset"

definition sigfillset :: "sigset_t \<Rightarrow> sigset_t" where
  "sigfillset sset = for_upto NSIG_WORDS (\<lambda>i s. s\<lparr>sig_words := (sig_words s)[i := NOT 0]\<rparr>) sset"

definition sigaddset :: "sigset_t \<Rightarrow> int \<Rightarrow> int \<times> sigset_t" where
  "sigaddset sset signum =
     (if signum < 1 \<or> signum > NSIG then (-1, sset)
      else (0, sset\<lparr>sig_words := (sig_words sset)[sig_word_of signum :=
              (sig_words sset ! sig_word_of signum) OR sig_mask_of signum]\<rparr>))"

definition sigdelset :: "sigset_t \<Rightarrow> int \<Rightarrow> int \<times> sigset_t" where
  "sigdelset sset signum =
     (if signum < 1 \<or> signum > NSIG then (-1, sset)
      else (0, sset\<lparr>sig_words := (sig_words sset)[sig_word_of signum :=
              (sig_words sset ! sig_word_of signum) AND NOT (sig_mask_of signum)]\<rparr>))"

definition sigismember :: "sigset_t \<Rightarrow> int \<Rightarrow> bool" where
  "sigismember sset signum =
     (if signum < 1 \<or> signum > NSIG then False
      else (sig_words sset ! sig_word_of signum) AND sig_mask_of signum \<noteq> 0)"

text \<open>
  The destination may be one of the operands, as in \<open>sys_sigprocmask\<close>: each word of the
  operands is read before the same word of the destination is written.
\<close>

definition sigorset :: "sigset_t \<Rightarrow> sigset_t \<Rightarrow> sigset_t \<Rightarrow> sigset_t" where
  "sigorset dest left right = for_upto NSIG_WORDS
     (\<lambda>i d. d\<lparr>sig_words := (sig_words d)[i := (sig_words left ! i) OR (sig_words right ! i)]\<rparr>) dest"

definition sigandset :: "sigset_t \<Rightarrow> sigset_t \<Rightarrow> sigset_t \<Rightarrow> sigset_t" where
  "sigandset dest left right = for_upto NSIG_WORDS
     (\<lambda>i d. d\<lparr>sig_words := (sig_words d)[i := (sig_words left ! i) AND (sig_words right ! i)]\<rparr>) dest"

definition signotset :: "sigset_t \<Rightarrow> sigset_t \<Rightarrow> sigset_t" where
  "signotset dest src = for_upto NSIG_WORDS
     (\<lambda>i d. d\<lparr>sig_words := (sig_words d)[i := NOT (sig_words src ! i)]\<rparr>) dest"

definition sigisempty :: "sigset_t \<Rightarrow> bool" where
  "sigisempty sset = (\<forall>i \<in> {0..<NSIG_WORDS}. sig_words sset ! i = 0)"

subsection \<open>Actions and masks\<close>

record sigaction =
  sa_handler :: ptr
  sa_sigaction :: ptr
  sa_mask :: sigset_t
  sa_flags :: u32
  sa_restorer :: ptr

definition SIG_DFL :: ptr where "SIG_DFL = 0"

record signal_state =
  sig_actions :: "sigaction list"
  blocked_sigs :: sigset_t

definition signal_init :: "signal_state \<Rightarrow> signal_state" where
  "signal_init st = for_upto (nat NSIG)
     (\<lambda>i s. s\<lparr>sig_actions := (sig_actions s)[i := (sig_actions s ! i)
        \<lparr>sa_handler := SIG_DFL, sa_mask := sigemptyset (sa_mask (sig_actions s ! i)), sa_flags := 0\<rparr>]\<rparr>)
     (st\<lparr>blocked_sigs := sigemptyset (blocked_sigs st)\<rparr>)"

text \<open>
  \<open>act\<close> is null or points to an action; \<open>want_old\<close> says whether \<open>oact\<close> is not null. The
  result is the return value, what is stored through \<open>oact\<close> and the new state; indexing
  \<open>sig_actions\<close> out of range is undefined.
\<close>

definition do_sigaction ::
  "int \<Rightarrow> sigaction option \<Rightarrow> bool \<Rightarrow> signal_state \<Rightarrow> (int \<times> sigaction option \<times> signal_state) defined" where
  "do_sigaction sig act want_old st =
     (if sig < 1 \<or> sig > NSIG then Some (-1, None, st)
      else if sig = SIGKILL \<or> sig = SIGSTOP then Some (-1, None, st)
      else if (want_old \<or> act \<noteq> None) \<and> \<not> nat sig < length (sig_actions st) then None
      else let old = (if want_old then Some (sig_actions st ! nat sig) else None) in
        (case act of
          None \<Rightarrow> Some (0, old, st)
        | Some a \<Rightarrow> Some (0, old, st\<lparr>sig_actions := (sig_actions st)[nat sig := a]\<rparr>)))"

definition SIG_BLOCK :: int where "SIG_BLOCK = 0"
definition SIG_UNBLOCK :: int where "SIG_UNBLOCK = 1"
definition SIG_SETMASK :: int where "SIG_SETMASK = 2"

text \<open>The local \<open>tmp\<close> is not initialised; \<open>signotset\<close> overwrites both its words.\<close>

definition sigset_local :: sigset_t where
  "sigset_local = \<lparr>sig_words = replicate NSIG_WORDS 0\<rparr>"

definition sys_sigprocmask ::
  "int \<Rightarrow> sigset_t option \<Rightarrow> bool \<Rightarrow> signal_state \<Rightarrow> int \<times> sigset_t option \<times> signal_state" where
  "sys_sigprocmask how sset want_old st =
     (let old = (if want_old then Some (blocked_sigs st) else None) in
      case sset of
        None \<Rightarrow> (0, old, st)
      | Some x \<Rightarrow>
          if how = SIG_BLOCK then
            (0, old, st\<lparr>blocked_sigs := sigorset (blocked_sigs st) (blocked_sigs st) x\<rparr>)
          else if how = SIG_UNBLOCK then
            (let tmp = signotset sigset_local x in
             (0, old, st\<lparr>blocked_sigs := sigandset (blocked_sigs st) (blocked_sigs st) tmp\<rparr>))
          else if how = SIG_SETMASK then (0, old, st\<lparr>blocked_sigs := x\<rparr>)
          else (-1, old, st))"

definition sys_sigpending :: "sigset_t \<Rightarrow> int \<times> sigset_t" where
  "sys_sigpending sset = (0, sigemptyset sset)"

definition block_all_signals :: "signal_state \<Rightarrow> signal_state" where
  "block_all_signals st = st\<lparr>blocked_sigs := sigfillset (blocked_sigs st)\<rparr>"

definition unblock_all_signals :: "signal_state \<Rightarrow> signal_state" where
  "unblock_all_signals st = st\<lparr>blocked_sigs := sigemptyset (blocked_sigs st)\<rparr>"

text \<open>
  \<open>sys_kill\<close> looks the task up (the pid is converted to the unsigned type of
  \<open>find_task_by_pid\<close>) and delivers nothing; -3 is \<open>-ESRCH\<close>.
\<close>

definition sys_kill :: "int \<Rightarrow> int \<Rightarrow> task_state \<Rightarrow> int option" where
  "sys_kill pid sig ts = (case find_task_by_pid (word_of_int pid) ts of
     None \<Rightarrow> None
   | Some p \<Rightarrow> Some (if p = NULL then -3 else 0))"

definition signal_wake_up :: "ptr \<Rightarrow> bool \<Rightarrow> task_state \<Rightarrow> task_state defined" where
  "signal_wake_up t resume ts = wr_task t (t_state_update (\<lambda>_. TASK_RUNNING)) ts"

subsection \<open>Library\<close>

definition sigset_ok :: "sigset_t \<Rightarrow> bool" where
  "sigset_ok s \<longleftrightarrow> length (sig_words s) = NSIG_WORDS"

definition sig_valid :: "int \<Rightarrow> bool" where
  "sig_valid n \<longleftrightarrow> 1 \<le> n \<and> n \<le> NSIG"

definition signal_state_ok :: "signal_state \<Rightarrow> bool" where
  "signal_state_ok st \<longleftrightarrow> length (sig_actions st) = nat NSIG \<and> sigset_ok (blocked_sigs st)"

lemmas sig_consts = NSIG_def NSIG_BPW_def NSIG_WORDS_def

lemma NSIG_WORDS_Suc: "NSIG_WORDS = Suc (Suc 0)"
  by (simp add: sig_consts)

lemma sig_words_loops:
  assumes "sigset_ok d"
  shows "sig_words (sigorset d l r) = [(sig_words l ! 0) OR (sig_words r ! 0), (sig_words l ! 1) OR (sig_words r ! 1)]"
    and "sig_words (sigandset d l r) = [(sig_words l ! 0) AND (sig_words r ! 0), (sig_words l ! 1) AND (sig_words r ! 1)]"
    and "sig_words (signotset d l) = [NOT (sig_words l ! 0), NOT (sig_words l ! 1)]"
    and "sig_words (sigemptyset d) = [0, 0]"
    and "sig_words (sigfillset d) = [NOT 0, NOT 0]"
proof -
  obtain a b where "sig_words d = [a, b]"
    using assms by (auto simp: sigset_ok_def NSIG_WORDS_Suc length_Suc_conv)
  then show "sig_words (sigorset d l r) = [(sig_words l ! 0) OR (sig_words r ! 0), (sig_words l ! 1) OR (sig_words r ! 1)]"
    and "sig_words (sigandset d l r) = [(sig_words l ! 0) AND (sig_words r ! 0), (sig_words l ! 1) AND (sig_words r ! 1)]"
    and "sig_words (signotset d l) = [NOT (sig_words l ! 0), NOT (sig_words l ! 1)]"
    and "sig_words (sigemptyset d) = [0, 0]"
    and "sig_words (sigfillset d) = [NOT 0, NOT 0]"
    by (simp_all add: sigorset_def sigandset_def signotset_def sigemptyset_def sigfillset_def
        NSIG_WORDS_Suc)
qed

lemma sigset_ok_loops:
  assumes "sigset_ok d"
  shows "sigset_ok (sigorset d l r)" "sigset_ok (sigandset d l r)" "sigset_ok (signotset d l)"
    "sigset_ok (sigemptyset d)" "sigset_ok (sigfillset d)"
  using sig_words_loops [OF assms] by (simp_all add: sigset_ok_def NSIG_WORDS_Suc)

lemma sigset_local_ok: "sigset_ok sigset_local"
  by (simp add: sigset_ok_def sigset_local_def)

lemma sig_position:
  assumes "sig_valid n"
  shows "sig_word_of n = nat (n - 1) div 32" and "sig_word_of n < 2"
    and "sig_mask_of n = push_bit (nat (n - 1) mod 32) 1"
  using assms by (auto simp: sig_valid_def sig_word_of_def sig_mask_of_def sig_consts nat_div_distrib nat_mod_distrib)

lemma sigismember_wbit: "sigismember s n \<longleftrightarrow> sig_valid n \<and> wbit (sig_words s) (nat (n - 1))"
  by (cases "sig_valid n") (auto simp: sigismember_def sig_position bitset_simps sig_valid_def wbit_def)

lemma sig_nat_inj: "sig_valid i \<Longrightarrow> sig_valid j \<Longrightarrow> (nat (i - 1) = nat (j - 1)) = (i = j)"
  by (simp add: sig_valid_def nat_minus_one_inj)

lemma sigismember_add:
  assumes "sigset_ok s" "sig_valid n"
  shows "sigismember (snd (sigaddset s n)) j = (j = n \<or> sigismember s j)"
proof -
  have "nat (n - 1) div 32 < length (sig_words s)"
    using assms sig_position [OF assms(2)] by (simp add: sigset_ok_def NSIG_WORDS_Suc)
  then have "wbit (sig_words (snd (sigaddset s n))) i = (i = nat (n - 1) \<or> wbit (sig_words s) i)" for i
    using assms(2) sig_position [OF assms(2)] wbit_set [of "nat (n - 1)" "sig_words s"]
    by (simp add: sigaddset_def sig_valid_def)
  then show ?thesis
    using assms(2) sig_nat_inj [of j n] by (cases "sig_valid j") (auto simp: sigismember_wbit)
qed

lemma sigismember_del:
  assumes "sigset_ok s" "sig_valid n"
  shows "sigismember (snd (sigdelset s n)) j = (j \<noteq> n \<and> sigismember s j)"
proof -
  have "nat (n - 1) div 32 < length (sig_words s)"
    using assms sig_position [OF assms(2)] by (simp add: sigset_ok_def NSIG_WORDS_Suc)
  then have "wbit (sig_words (snd (sigdelset s n))) i = (i \<noteq> nat (n - 1) \<and> wbit (sig_words s) i)" for i
    using assms(2) sig_position [OF assms(2)] wbit_clear [of "nat (n - 1)" "sig_words s"]
    by (simp add: sigdelset_def sig_valid_def)
  then show ?thesis
    using assms(2) sig_nat_inj [of j n] by (cases "sig_valid j") (auto simp: sigismember_wbit)
qed

lemma sigismember_pos:
  assumes "sig_valid k"
  obtains i b where "i = 0 \<or> i = 1" and "b < 32"
    and "\<And>s. sigismember s k = bit (sig_words s ! i) b"
proof
  show "nat (k - 1) div 32 = 0 \<or> nat (k - 1) div 32 = 1"
    using assms by (auto simp: sig_valid_def sig_consts)
  show "nat (k - 1) mod 32 < 32" by simp
  show "sigismember s k = bit (sig_words s ! (nat (k - 1) div 32)) (nat (k - 1) mod 32)" for s
    using assms by (simp add: sigismember_wbit wbit_def)
qed

lemma sigismember_valid: "sigismember s k \<Longrightarrow> sig_valid k"
  by (simp add: sigismember_wbit)

lemma sigismember_algebra:
  assumes "sigset_ok d"
  shows "sigismember (sigorset d a b) k = (sigismember a k \<or> sigismember b k) \<and>
    sigismember (sigandset d a b) k = (sigismember a k \<and> sigismember b k) \<and>
    sigismember (signotset d a) k = (sig_valid k \<and> \<not> sigismember a k) \<and>
    \<not> sigismember (sigemptyset d) k \<and> sigismember (sigfillset d) k = sig_valid k"
proof (cases "sig_valid k")
  case True
  obtain i n where pos: "i = 0 \<or> i = 1" "n < 32"
    and mem: "\<And>s. sigismember s k = bit (sig_words s ! i) n"
    by (rule sigismember_pos [OF True]) blast
  show ?thesis
    using pos True by (auto simp: mem sig_words_loops [OF assms] bit_simps)
next
  case False
  then show ?thesis by (simp add: sigismember_wbit)
qed

interpretation sigbits: bitset_algebra sigismember "\<lambda>s n. snd (sigaddset s n)"
  "\<lambda>s n. snd (sigdelset s n)" sig_valid sigset_ok "\<lambda>a b. sigorset a a b"
  "\<lambda>a b. sigandset a a b" "signotset sigset_local"
  by unfold_locales
    (auto simp: sigismember_add sigismember_del sigismember_algebra sigset_local_ok sigset_ok_loops,
     auto simp: sigaddset_def sigdelset_def sig_valid_def sigset_ok_def sigismember_wbit)

subsection \<open>Properties\<close>

text \<open>
  C31: \<open>sys_sigprocmask\<close> computes, on the two-word masks, the set operation its \<open>how\<close>
  argument names (union, difference, assignment), rejects every other \<open>how\<close> with -1 and no
  change, reports the previous mask, and keeps the table of actions and the state's shape. No
  signal is exempt: \<open>SIGKILL\<close> and \<open>SIGSTOP\<close> in the argument end up blocked like any other.
\<close>

theorem sys_sigprocmask_refines:
  assumes "signal_state_ok st" and "sigset_ok x"
    and "sys_sigprocmask how (Some x) want_old st = (r, old, st')"
  shows "{n. sigismember (blocked_sigs st') n} =
      (if how = SIG_BLOCK then {n. sigismember (blocked_sigs st) n} \<union> {n. sigismember x n}
       else if how = SIG_UNBLOCK then {n. sigismember (blocked_sigs st) n} - {n. sigismember x n}
       else if how = SIG_SETMASK then {n. sigismember x n}
       else {n. sigismember (blocked_sigs st) n})
    \<and> r = (if how \<in> {SIG_BLOCK, SIG_UNBLOCK, SIG_SETMASK} then 0 else -1)
    \<and> old = (if want_old then Some (blocked_sigs st) else None)
    \<and> sig_actions st' = sig_actions st \<and> signal_state_ok st'"
proof -
  let ?b = "blocked_sigs st"
  have b: "sigset_ok ?b" using assms(1) by (simp add: signal_state_ok_def)
  have sets: "sigismember (sigorset ?b ?b x) n = (sigismember ?b n \<or> sigismember x n)"
    "sigismember (sigandset ?b ?b (signotset sigset_local x)) n =
       (sigismember ?b n \<and> \<not> sigismember x n)" for n
    using sigbits.elems_join [OF b assms(2)] sigbits.elems_diff [OF b assms(2)]
    by (auto simp: sigbits.elems_def)
  from assms show ?thesis
    by (auto simp: sys_sigprocmask_def Let_def sets signal_state_ok_def sigset_ok_loops
        SIG_BLOCK_def SIG_UNBLOCK_def SIG_SETMASK_def split: if_splits)
qed

definition sample_signals :: signal_state where
  "sample_signals = \<lparr>sig_actions = replicate 64 \<lparr>sa_handler = 0, sa_sigaction = 0,
     sa_mask = sigset_local, sa_flags = 0, sa_restorer = 0\<rparr>, blocked_sigs = sigset_local\<rparr>"

lemma sample_signals_ok: "signal_state_ok sample_signals"
  by (simp add: signal_state_ok_def sample_signals_def sigset_local_ok NSIG_def)

theorem sys_sigprocmask_refines_witness:
  "signal_state_ok sample_signals \<and> sigset_ok \<lparr>sig_words = [0x100, 0]\<rparr> \<and>
   {n. sigismember (blocked_sigs (snd (snd (sys_sigprocmask SIG_BLOCK
      (Some \<lparr>sig_words = [0x100, 0]\<rparr>) False sample_signals)))) n} =
   {n. sigismember (blocked_sigs sample_signals) n} \<union> {n. sigismember \<lparr>sig_words = [0x100, 0]\<rparr> n}
   \<and> sigismember \<lparr>sig_words = [0x100, 0]\<rparr> SIGKILL"
proof -
  obtain r old st' where run: "sys_sigprocmask SIG_BLOCK (Some \<lparr>sig_words = [0x100, 0]\<rparr>) False
      sample_signals = (r, old, st')"
    by (metis prod_cases3)
  have ok: "sigset_ok \<lparr>sig_words = [0x100, 0]\<rparr>"
    by (simp add: sigset_ok_def NSIG_WORDS_Suc)
  have "sigismember \<lparr>sig_words = [0x100, 0]\<rparr> SIGKILL"
    by (simp add: sigismember_def sig_word_of_def sig_mask_of_def sig_consts SIGKILL_def)
  with sys_sigprocmask_refines [OF sample_signals_ok ok run] run ok sample_signals_ok
  show ?thesis by simp
qed

text \<open>
  for every signal below 64 except \<open>SIGKILL\<close> and \<open>SIGSTOP\<close>, \<open>do_sigaction\<close> stores the
  action, a later query returns it, and the entries of all other signals stay; \<open>SIGKILL\<close> and
  \<open>SIGSTOP\<close> are refused. Signal 64 passes the range check and indexes one past the 64-entry
  table, which is undefined.
\<close>

theorem do_sigaction_roundtrip:
  assumes "signal_state_ok st" and "sig_valid sig"
  shows "(sig \<in> {SIGKILL, SIGSTOP} \<longrightarrow> do_sigaction sig (Some a) False st = Some (-1, None, st))
    \<and> (sig \<notin> {SIGKILL, SIGSTOP, NSIG} \<longrightarrow> (\<exists>st'. do_sigaction sig (Some a) False st = Some (0, None, st')
        \<and> signal_state_ok st' \<and> do_sigaction sig None True st' = Some (0, Some a, st')
        \<and> (\<forall>j < length (sig_actions st). j \<noteq> nat sig \<longrightarrow> sig_actions st' ! j = sig_actions st ! j)
        \<and> blocked_sigs st' = blocked_sigs st))
    \<and> (sig = NSIG \<longrightarrow> do_sigaction sig (Some a) False st = None \<and> do_sigaction sig None True st = None)"
  using assms
  by (auto simp: do_sigaction_def signal_state_ok_def sig_valid_def NSIG_def SIGKILL_def SIGSTOP_def Let_def)

theorem do_sigaction_roundtrip_witness:
  "signal_state_ok sample_signals \<and> sig_valid 64 \<and> do_sigaction 64 None True sample_signals = None"
proof -
  have v: "sig_valid 64" by (simp add: sig_valid_def NSIG_def)
  from do_sigaction_roundtrip [OF sample_signals_ok v] v sample_signals_ok
  show ?thesis by (simp add: NSIG_def)
qed

end
