(* ===== verification/Capability.thy ===== *)
theory Capability
  imports Bitset_Spec
begin

text \<open>
  kernel/capability.c: capability sets as arrays of 32-bit words, credentials, and the checks of
  the identity-changing system calls.
\<close>

subsection \<open>Capability sets\<close>

abbreviation CAP_SETGID :: int where "CAP_SETGID \<equiv> 6"
abbreviation CAP_SETUID :: int where "CAP_SETUID \<equiv> 7"
abbreviation CAP_LAST_CAP :: int where "CAP_LAST_CAP \<equiv> 40"

definition CAP_TO_INDEX :: "int \<Rightarrow> nat" where
  "CAP_TO_INDEX x = nat (x div 32)"

definition CAP_TO_MASK :: "int \<Rightarrow> u32" where
  "CAP_TO_MASK x = push_bit (nat (x mod 32)) 1"

definition KERNEL_CAPABILITY_U32S :: nat where
  "KERNEL_CAPABILITY_U32S = nat ((CAP_LAST_CAP + 1 + 31) div 32)"

record kernel_cap_t =
  cap_words :: "u32 list"

record cred =
  cr_usage :: u32
  cr_uid :: u32
  cr_gid :: u32
  cr_suid :: u32
  cr_sgid :: u32
  cr_euid :: u32
  cr_egid :: u32
  cr_fsuid :: u32
  cr_fsgid :: u32
  cap_inheritable :: kernel_cap_t
  cap_permitted :: kernel_cap_t
  cap_effective :: kernel_cap_t
  cap_bset :: kernel_cap_t
  cap_ambient :: kernel_cap_t

definition cap_clear :: "kernel_cap_t \<Rightarrow> kernel_cap_t" where
  "cap_clear c = for_upto KERNEL_CAPABILITY_U32S (\<lambda>i c. c\<lparr>cap_words := (cap_words c)[i := 0]\<rparr>) c"

definition cap_set_full :: "kernel_cap_t \<Rightarrow> kernel_cap_t" where
  "cap_set_full c = for_upto KERNEL_CAPABILITY_U32S (\<lambda>i c. c\<lparr>cap_words := (cap_words c)[i := NOT 0]\<rparr>) c"

definition cap_raised :: "kernel_cap_t \<Rightarrow> int \<Rightarrow> bool" where
  "cap_raised c flag =
     (if flag < 0 \<or> flag > CAP_LAST_CAP then False
      else (cap_words c ! CAP_TO_INDEX flag) AND CAP_TO_MASK flag \<noteq> 0)"

definition cap_raise :: "kernel_cap_t \<Rightarrow> int \<Rightarrow> kernel_cap_t" where
  "cap_raise c flag =
     (if flag < 0 \<or> flag > CAP_LAST_CAP then c
      else c\<lparr>cap_words := (cap_words c)[CAP_TO_INDEX flag :=
             (cap_words c ! CAP_TO_INDEX flag) OR CAP_TO_MASK flag]\<rparr>)"

definition cap_lower :: "kernel_cap_t \<Rightarrow> int \<Rightarrow> kernel_cap_t" where
  "cap_lower c flag =
     (if flag < 0 \<or> flag > CAP_LAST_CAP then c
      else c\<lparr>cap_words := (cap_words c)[CAP_TO_INDEX flag :=
             (cap_words c ! CAP_TO_INDEX flag) AND NOT (CAP_TO_MASK flag)]\<rparr>)"

definition cap_is_full :: "kernel_cap_t \<Rightarrow> bool" where
  "cap_is_full c = list_all (\<lambda>i. cap_words c ! i = NOT 0) [0..<KERNEL_CAPABILITY_U32S]"

definition cap_is_empty :: "kernel_cap_t \<Rightarrow> bool" where
  "cap_is_empty c = list_all (\<lambda>i. cap_words c ! i = 0) [0..<KERNEL_CAPABILITY_U32S]"

subsection \<open>Credentials\<close>

text \<open>The state of the file is the static object \<open>init_cred\<close>, zero where its initialiser is
  silent; the loop of \<open>cap_init\<close> writes one word of all five sets per round. A shift
  \<open>1 << 31\<close> is taken as the two's complement value gcc gives it.\<close>

definition zero_cap :: kernel_cap_t where
  "zero_cap = \<lparr>cap_words = replicate KERNEL_CAPABILITY_U32S 0\<rparr>"

definition init_cred :: cred where
  "init_cred = \<lparr>cr_usage = 1, cr_uid = 0, cr_gid = 0, cr_suid = 0, cr_sgid = 0, cr_euid = 0,
     cr_egid = 0, cr_fsuid = 0, cr_fsgid = 0, cap_inheritable = zero_cap, cap_permitted = zero_cap,
     cap_effective = zero_cap, cap_bset = zero_cap, cap_ambient = zero_cap\<rparr>"

definition cap_init :: "cred \<Rightarrow> cred" where
  "cap_init cr = for_upto KERNEL_CAPABILITY_U32S (\<lambda>i c.
     c\<lparr>cap_inheritable := (cap_inheritable c)\<lparr>cap_words := (cap_words (cap_inheritable c))[i := 0]\<rparr>,
       cap_permitted := (cap_permitted c)\<lparr>cap_words := (cap_words (cap_permitted c))[i := 0]\<rparr>,
       cap_effective := (cap_effective c)\<lparr>cap_words := (cap_words (cap_effective c))[i := 0]\<rparr>,
       cap_bset := (cap_bset c)\<lparr>cap_words := (cap_words (cap_bset c))[i := NOT 0]\<rparr>,
       cap_ambient := (cap_ambient c)\<lparr>cap_words := (cap_words (cap_ambient c))[i := 0]\<rparr>\<rparr>) cr"

definition cap_set_init_eff :: "cred \<Rightarrow> cred" where
  "cap_set_init_eff cr = cr
     \<lparr>cap_effective := cap_set_full (cap_effective cr),
      cap_permitted := cap_set_full (cap_permitted cr),
      cap_inheritable := cap_set_full (cap_inheritable cr)\<rparr>"

definition cap_capable :: "cred \<Rightarrow> int \<Rightarrow> bool" where
  "cap_capable cr cap =
     (if cap < 0 \<or> cap > CAP_LAST_CAP then False
      else (cap_words (cap_effective cr) ! CAP_TO_INDEX cap) AND CAP_TO_MASK cap \<noteq> 0)"

definition cap_setuid :: "cred \<Rightarrow> cred \<Rightarrow> u32 \<Rightarrow> int \<times> cred" where
  "cap_setuid new old uid =
     (if uid = cr_uid old \<or> uid = cr_suid old \<or> uid = cr_euid old then (0, new\<lparr>cr_uid := uid\<rparr>)
      else if \<not> cap_capable old CAP_SETUID then (-1, new)
      else (0, new\<lparr>cr_uid := uid, cr_suid := uid, cr_euid := uid, cr_fsuid := uid,
                cap_ambient := cap_clear (cap_ambient new)\<rparr>))"

definition cap_setgid :: "cred \<Rightarrow> cred \<Rightarrow> u32 \<Rightarrow> int \<times> cred" where
  "cap_setgid new old gid =
     (if gid = cr_gid old \<or> gid = cr_sgid old \<or> gid = cr_egid old then (0, new\<lparr>cr_gid := gid\<rparr>)
      else if \<not> cap_capable old CAP_SETGID then (-1, new)
      else (0, new\<lparr>cr_gid := gid, cr_sgid := gid, cr_egid := gid, cr_fsgid := gid\<rparr>))"

definition cap_setgroups :: "cred \<Rightarrow> cred \<Rightarrow> int" where
  "cap_setgroups new old = (if \<not> cap_capable old CAP_SETGID then -1 else 0)"

text \<open>\<open>get_current_cred\<close> always answers the static object, whose value is the argument.\<close>

definition get_current_cred :: "cred \<Rightarrow> cred" where
  "get_current_cred cr = cr"

definition has_capability :: "cred \<Rightarrow> int \<Rightarrow> bool" where
  "has_capability cr cap = cap_capable (get_current_cred cr) cap"

definition has_capability_noaudit :: "cred \<Rightarrow> int \<Rightarrow> bool" where
  "has_capability_noaudit cr cap = has_capability cr cap"

subsection \<open>Library\<close>

definition cap_valid :: "int \<Rightarrow> bool" where
  "cap_valid c \<longleftrightarrow> 0 \<le> c \<and> c \<le> CAP_LAST_CAP"

definition capset_ok :: "kernel_cap_t \<Rightarrow> bool" where
  "capset_ok c \<longleftrightarrow> length (cap_words c) = KERNEL_CAPABILITY_U32S"

definition cred_ok :: "cred \<Rightarrow> bool" where
  "cred_ok c \<longleftrightarrow> capset_ok (cap_inheritable c) \<and> capset_ok (cap_permitted c)
     \<and> capset_ok (cap_effective c) \<and> capset_ok (cap_bset c) \<and> capset_ok (cap_ambient c)"

lemma cap_words_two: "KERNEL_CAPABILITY_U32S = Suc (Suc 0)"
  by (simp add: KERNEL_CAPABILITY_U32S_def)

lemma cap_position:
  assumes "cap_valid c"
  shows "CAP_TO_INDEX c = nat c div 32" and "CAP_TO_INDEX c < 2"
    and "CAP_TO_MASK c = 2 ^ (nat c mod 32)"
  using assms by (auto simp: cap_valid_def CAP_TO_INDEX_def CAP_TO_MASK_def
      nat_div_distrib nat_mod_distrib)

lemma cap_raised_wbit: "cap_raised s c \<longleftrightarrow> cap_valid c \<and> wbit (cap_words s) (nat c)"
  by (cases "cap_valid c") (auto simp: cap_raised_def cap_position bitset_simps cap_valid_def wbit_def)

lemma cap_capable_raised: "cap_capable cr c = cap_raised (cap_effective cr) c"
  by (simp add: cap_capable_def cap_raised_def)

lemma cap_nat_inj: "cap_valid i \<Longrightarrow> cap_valid j \<Longrightarrow> (nat i = nat j) = (i = j)"
  by (auto simp: cap_valid_def)

lemma capset_index: "capset_ok s \<Longrightarrow> cap_valid c \<Longrightarrow> nat c div 32 < length (cap_words s)"
  using cap_position [of c] by (simp add: capset_ok_def cap_words_two)

lemma cap_raised_raise:
  assumes "capset_ok s" "cap_valid c"
  shows "cap_raised (cap_raise s c) j = (j = c \<or> cap_raised s j)"
proof -
  have "wbit (cap_words (cap_raise s c)) i = (i = nat c \<or> wbit (cap_words s) i)" for i
    using assms(2) cap_position [OF assms(2)] wbit_set [OF capset_index [OF assms]]
    by (simp add: cap_raise_def cap_valid_def)
  then show ?thesis
    using assms(2) cap_nat_inj [of j c] by (cases "cap_valid j") (auto simp: cap_raised_wbit)
qed

lemma cap_raised_lower:
  assumes "capset_ok s" "cap_valid c"
  shows "cap_raised (cap_lower s c) j = (j \<noteq> c \<and> cap_raised s j)"
proof -
  have "wbit (cap_words (cap_lower s c)) i = (i \<noteq> nat c \<and> wbit (cap_words s) i)" for i
    using assms(2) cap_position [OF assms(2)] wbit_clear [OF capset_index [OF assms]]
    by (simp add: cap_lower_def cap_valid_def)
  then show ?thesis
    using assms(2) cap_nat_inj [of j c] by (cases "cap_valid j") (auto simp: cap_raised_wbit)
qed

lemma capset_ok_update: "capset_ok s \<Longrightarrow> capset_ok (cap_raise s c)" "capset_ok s \<Longrightarrow> capset_ok (cap_lower s c)"
  by (simp_all add: capset_ok_def cap_raise_def cap_lower_def)

lemma cap_outside: "\<not> cap_valid c \<Longrightarrow> cap_raise s c = s" "\<not> cap_valid c \<Longrightarrow> cap_lower s c = s"
  by (auto simp: cap_raise_def cap_lower_def cap_valid_def)

interpretation capbits: bitset cap_raised cap_raise cap_lower cap_valid capset_ok
proof unfold_locales
  show "cap_raised s k \<Longrightarrow> cap_valid k" for s k by (simp add: cap_raised_wbit)
qed (simp_all add: cap_raised_raise cap_raised_lower capset_ok_update cap_outside)

lemma cap_words_constant:
  assumes "capset_ok s"
  shows "cap_words (cap_clear s) = replicate 2 0" and "cap_words (cap_set_full s) = replicate 2 (NOT 0)"
proof -
  obtain a b where "cap_words s = [a, b]"
    using assms by (auto simp: capset_ok_def cap_words_two length_Suc_conv)
  then show "cap_words (cap_clear s) = replicate 2 0"
    and "cap_words (cap_set_full s) = replicate 2 (NOT 0)"
    by (simp_all add: cap_clear_def cap_set_full_def cap_words_two numeral_2_eq_2)
qed

lemma cap_raised_constant:
  assumes "capset_ok s"
  shows "\<not> cap_raised (cap_clear s) c" and "cap_raised (cap_set_full s) c = cap_valid c"
    and "capset_ok (cap_clear s)" and "capset_ok (cap_set_full s)"
proof -
  have index: "nat c div 32 < 2" if "cap_valid c" using cap_position [OF that] by simp
  show "\<not> cap_raised (cap_clear s) c"
    using index by (auto simp: cap_raised_wbit cap_words_constant [OF assms] wbit_replicate)
  show "cap_raised (cap_set_full s) c = cap_valid c"
    using index by (auto simp: cap_raised_wbit cap_words_constant [OF assms] wbit_replicate bit_simps)
qed (simp_all add: capset_ok_def cap_words_two cap_words_constant [OF assms])

lemma cap_is_full_empty:
  assumes "capset_ok s"
  shows "cap_is_full s = (s = cap_set_full s)" and "cap_is_empty s = (s = cap_clear s)"
proof -
  obtain a b where "cap_words s = [a, b]"
    using assms by (auto simp: capset_ok_def cap_words_two length_Suc_conv)
  then show "cap_is_full s = (s = cap_set_full s)" and "cap_is_empty s = (s = cap_clear s)"
    by (cases s; auto simp: cap_is_full_def cap_is_empty_def cap_words_two
        cap_clear_def cap_set_full_def)+
qed

lemma cap_init_sets:
  assumes "cred_ok cr"
  shows "cap_init cr = cr\<lparr>cap_inheritable := cap_clear (cap_inheritable cr),
    cap_permitted := cap_clear (cap_permitted cr), cap_effective := cap_clear (cap_effective cr),
    cap_bset := cap_set_full (cap_bset cr), cap_ambient := cap_clear (cap_ambient cr)\<rparr>"
  by (simp add: cap_init_def cap_clear_def cap_set_full_def cap_words_two)

lemma cred_ok_init: "cred_ok init_cred"
  by (simp add: cred_ok_def init_cred_def capset_ok_def zero_cap_def)

lemma cap_setuid_effective: "cap_effective (snd (cap_setuid c c uid)) = cap_effective c"
  by (simp add: cap_setuid_def)

text \<open>A process that replaces its credentials by what \<open>cap_setuid\<close> returns.\<close>

definition setuid_run :: "cred \<Rightarrow> u32 list \<Rightarrow> cred" where
  "setuid_run c uids = foldl (\<lambda>c uid. snd (cap_setuid c c uid)) c uids"

lemma setuid_unprivileged:
  assumes "\<not> cap_capable c CAP_SETUID"
  shows "snd (cap_setuid c c uid) =
    (if uid \<in> {cr_uid c, cr_suid c, cr_euid c} then c\<lparr>cr_uid := uid\<rparr> else c)"
  using assms by (auto simp: cap_setuid_def)

definition boot_cred :: cred where
  "boot_cred = cap_set_init_eff (cap_init init_cred)"

subsection \<open>Properties\<close>

text \<open>
  C32: A process whose effective set lacks CAP_SETUID cannot gain an identity with
  \<open>cap_setuid\<close>: whatever sequence of user ids it asks for, its saved, effective and
  file-system ids and all its capability sets are those it started with, and its real id is one
  of the three ids it started with.
\<close>

theorem unprivileged_setuid_confined:
  assumes "\<not> cap_capable c CAP_SETUID"
  shows "\<exists>uid \<in> {cr_uid c, cr_suid c, cr_euid c}. setuid_run c uids = c\<lparr>cr_uid := uid\<rparr>"
proof -
  have "\<exists>uid \<in> {cr_uid c, cr_suid c, cr_euid c}. foldl (\<lambda>c uid. snd (cap_setuid c c uid)) (c\<lparr>cr_uid := u\<rparr>) uids
      = c\<lparr>cr_uid := uid\<rparr>" if "u \<in> {cr_uid c, cr_suid c, cr_euid c}" for u
    using that
  proof (induction uids arbitrary: u)
    case Nil
    then show ?case by auto
  next
    case (Cons x xs)
    have "\<not> cap_capable (c\<lparr>cr_uid := u\<rparr>) CAP_SETUID" using assms by (simp add: cap_capable_raised)
    from setuid_unprivileged [OF this, of x]
    obtain v where "v \<in> {cr_uid c, cr_suid c, cr_euid c}"
      and "snd (cap_setuid (c\<lparr>cr_uid := u\<rparr>) (c\<lparr>cr_uid := u\<rparr>) x) = c\<lparr>cr_uid := v\<rparr>"
      using Cons.prems by (cases "x \<in> {u, cr_suid c, cr_euid c}") auto
    then show ?case using Cons.IH [of v] by (simp only: foldl_Cons)
  qed
  from this [of "cr_uid c"] show ?thesis by (simp add: setuid_run_def)
qed

theorem unprivileged_setuid_confined_witness:
  "\<not> cap_capable (init_cred\<lparr>cr_uid := 1000, cr_suid := 5, cr_euid := 1000\<rparr>) CAP_SETUID \<and>
   (\<exists>uid \<in> {1000, 5, 1000}. setuid_run (init_cred\<lparr>cr_uid := 1000, cr_suid := 5, cr_euid := 1000\<rparr>) [0, 5, 7]
      = init_cred\<lparr>cr_uid := uid, cr_suid := 5, cr_euid := 1000\<rparr>)"
proof -
  have no: "\<not> cap_capable (init_cred\<lparr>cr_uid := 1000, cr_suid := 5, cr_euid := 1000\<rparr>) CAP_SETUID"
    by (simp add: cap_capable_def init_cred_def zero_cap_def
        CAP_TO_INDEX_def cap_words_two)
  from unprivileged_setuid_confined [OF this, of "[0, 5, 7]"] no show ?thesis
    by (simp add: init_cred_def)
qed

text \<open>
  The boot sequence \<open>cap_init\<close>, \<open>cap_set_init_eff\<close> gives the first process exactly the
  defined capabilities 0 to CAP_LAST_CAP; from there any sequence of \<open>cap_raise\<close> and
  \<open>cap_lower\<close> on the effective set leaves the capabilities that the same sequence leaves of
  the mathematical set, requests outside the defined range having no effect.
\<close>

theorem boot_capabilities_refine:
  "has_capability (boot_cred\<lparr>cap_effective := foldl capbits.apply_op (cap_effective boot_cred) xs\<rparr>) c
    \<longleftrightarrow> c \<in> foldl capbits.abs_op {0..40} xs"
proof -
  have ok: "capset_ok (cap_clear (cap_effective init_cred))"
    using cred_ok_init cap_raised_constant by (simp add: cred_ok_def)
  then have eff: "cap_effective boot_cred = cap_set_full (cap_clear (cap_effective init_cred))"
    by (simp add: boot_cred_def cap_set_init_eff_def cap_init_sets [OF cred_ok_init])
  have "capbits.elems (cap_effective boot_cred) = {0..40}"
    by (auto simp: eff cap_raised_constant [OF ok] cap_valid_def)
  moreover have "capset_ok (cap_effective boot_cred)"
    by (simp add: eff cap_raised_constant [OF ok])
  ultimately have "capbits.elems (foldl capbits.apply_op (cap_effective boot_cred) xs) = foldl capbits.abs_op {0..40} xs"
    using capbits.run_refines [of "cap_effective boot_cred" xs] by simp
  moreover have "cap_raised (foldl capbits.apply_op (cap_effective boot_cred) xs) c
      = (c \<in> capbits.elems (foldl capbits.apply_op (cap_effective boot_cred) xs))" by simp
  ultimately show ?thesis
    by (simp add: has_capability_def get_current_cred_def cap_capable_raised del: capbits.in_elems)
qed

end
