(* ===== verification/Cpu.thy ===== *)
theory Cpu
  imports Bitset_Spec Linked_List "HOL-Library.Monad_Syntax"
begin

text \<open>
  kernel/cpu.c: the CPU maps, hot-plug, cross-CPU calls and the notifier chain. The maps are
  32-bit words, while the queries accept CPU numbers below NR_CPUS = 256: a query for a CPU from
  32 to 255 shifts past the width of the word, which is undefined behaviour (\<open>None\<close>).
\<close>

abbreviation NR_CPUS :: int where "NR_CPUS \<equiv> 256"

record cpuinfo_x86 =
  ci_x86 :: u8
  ci_vendor :: u8
  ci_model :: u8
  ci_mask :: u8
  ci_cpuid_level :: u32
  ci_extended_level :: u32
  ci_capability :: "u32 list"
  ci_vendor_id :: "u8 list"
  ci_model_id :: "u8 list"
  ci_cache_size :: u32
  ci_fpu :: u32
  ci_fpu_exception :: u32
  ci_wp_works_ok :: u8
  ci_hlt_works_ok :: u8
  ci_hard_math :: u8
  ci_rfu :: u8
  ci_fdiv_bug :: u8
  ci_f00f_bug :: u8
  ci_coma_bug :: u8
  ci_pad0 :: u8
  ci_loops_per_jiffy :: u64
  ci_max_hz :: u64
  ci_min_hz :: u64

record cpu_state =
  cpu_data :: "cpuinfo_x86 list"
  cpu_online_map :: u32
  cpu_present_map :: u32
  cpu_active_map :: u32
  cpu_possible_map :: u32
  nr_cpu_ids :: u32
  chain_head :: ptr
  chain_count :: u32
  nb_next :: "ptr \<Rightarrow> ptr"

definition cpu_init :: "cpu_state \<Rightarrow> cpu_state" where
  "cpu_init s = (for_upto (nat NR_CPUS) (\<lambda>i s. s\<lparr>cpu_data := (cpu_data s)[i :=
        (cpu_data s ! i)\<lparr>ci_x86 := 0, ci_vendor := 0, ci_cpuid_level := 0\<rparr>]\<rparr>) s)
     \<lparr>cpu_online_map := 1, cpu_present_map := 1, cpu_active_map := 1, cpu_possible_map := 1, nr_cpu_ids := 1\<rparr>"

subsection \<open>Notifier chain\<close>

definition register_cpu_notifier :: "ptr \<Rightarrow> cpu_state \<Rightarrow> int \<times> cpu_state" where
  "register_cpu_notifier nb s =
     (0, s\<lparr>nb_next := (nb_next s)(nb := chain_head s), chain_head := nb, chain_count := chain_count s + 1\<rparr>)"

definition unregister_cpu_notifier :: "ptr \<Rightarrow> cpu_state \<Rightarrow> int \<times> cpu_state" where
  "unregister_cpu_notifier nb s = (0, s)"

text \<open>The callbacks are a parameter that gives the value each block's function returns; the loop
  also reports the blocks it called, in order. \<open>None\<close> is a loop that never ends.\<close>

partial_function (option) cpu_notify_loop ::
  "(ptr \<Rightarrow> int) \<Rightarrow> (ptr \<Rightarrow> ptr) \<Rightarrow> ptr \<Rightarrow> int \<Rightarrow> ptr list \<Rightarrow> (int \<times> ptr list) option" where
  "cpu_notify_loop call nxt nb ret called =
     (if nb = NULL then Some (ret, called)
      else (if call nb AND 1 \<noteq> 0 then Some (call nb, called @ [nb])
            else cpu_notify_loop call nxt (nxt nb) (call nb) (called @ [nb])))"

definition cpu_notify :: "(ptr \<Rightarrow> u64 \<Rightarrow> int) \<Rightarrow> u64 \<Rightarrow> cpu_state \<Rightarrow> (int \<times> ptr list) option" where
  "cpu_notify call val s = cpu_notify_loop (\<lambda>nb. call nb val) (nb_next s) (chain_head s) 0 []"

subsection \<open>Queries\<close>

definition test_map :: "u32 \<Rightarrow> int \<Rightarrow> bool defined" where
  "test_map m cpu =
     (if cpu < 0 \<or> cpu \<ge> NR_CPUS then Some False
      else if cpu \<ge> 32 then None
      else Some (m AND push_bit (nat cpu) 1 \<noteq> 0))"

definition cpu_online :: "cpu_state \<Rightarrow> int \<Rightarrow> bool defined" where
  "cpu_online s cpu = test_map (cpu_online_map s) cpu"

definition cpu_present :: "cpu_state \<Rightarrow> int \<Rightarrow> bool defined" where
  "cpu_present s cpu = test_map (cpu_present_map s) cpu"

definition cpu_active :: "cpu_state \<Rightarrow> int \<Rightarrow> bool defined" where
  "cpu_active s cpu = test_map (cpu_active_map s) cpu"

definition cpu_possible :: "cpu_state \<Rightarrow> int \<Rightarrow> bool defined" where
  "cpu_possible s cpu = test_map (cpu_possible_map s) cpu"

lemma drop_bit_one_less: "(m :: u32) \<noteq> 0 \<Longrightarrow> unat (drop_bit 1 m) < unat m"
  by (simp only: unat_drop_bit_eq) (simp add: drop_bit_eq_div unat_gt_0)

function popcount_loop :: "u32 \<Rightarrow> int \<Rightarrow> int" where
  "popcount_loop m count =
     (if m = 0 then count else popcount_loop (drop_bit 1 m) (count + uint (m AND 1)))"
  by pat_completeness auto

termination
  by (relation "measure (\<lambda>(m, c). unat m)") (use drop_bit_one_less in auto)

declare popcount_loop.simps [simp del]

definition num_online_cpus :: "cpu_state \<Rightarrow> int" where
  "num_online_cpus s = popcount_loop (cpu_online_map s) 0"

definition num_present_cpus :: "cpu_state \<Rightarrow> int" where
  "num_present_cpus s = popcount_loop (cpu_present_map s) 0"

definition num_active_cpus :: "cpu_state \<Rightarrow> int" where
  "num_active_cpus s = popcount_loop (cpu_active_map s) 0"

definition num_possible_cpus :: "cpu_state \<Rightarrow> int" where
  "num_possible_cpus s = popcount_loop (cpu_possible_map s) 0"

definition get_cpu_mask :: "int \<Rightarrow> u32" where
  "get_cpu_mask cpu = (if cpu < 0 \<or> cpu \<ge> 32 then 0 else push_bit (nat cpu) 1)"

subsection \<open>Updates and hot-plug\<close>

definition set_cpu_online :: "int \<Rightarrow> bool \<Rightarrow> cpu_state \<Rightarrow> cpu_state" where
  "set_cpu_online cpu online s =
     (if cpu < 0 \<or> cpu \<ge> 32 then s
      else if online then s\<lparr>cpu_online_map := cpu_online_map s OR push_bit (nat cpu) 1\<rparr>
      else s\<lparr>cpu_online_map := cpu_online_map s AND NOT (push_bit (nat cpu) 1)\<rparr>)"

definition set_cpu_present :: "int \<Rightarrow> bool \<Rightarrow> cpu_state \<Rightarrow> cpu_state" where
  "set_cpu_present cpu present s =
     (if cpu < 0 \<or> cpu \<ge> 32 then s
      else if present then s\<lparr>cpu_present_map := cpu_present_map s OR push_bit (nat cpu) 1\<rparr>
      else s\<lparr>cpu_present_map := cpu_present_map s AND NOT (push_bit (nat cpu) 1)\<rparr>)"

text \<open>The address \<open>&cpu_data[cpu]\<close> is represented by its index.\<close>

definition cpu_data_ptr :: "int \<Rightarrow> nat option" where
  "cpu_data_ptr cpu = (if cpu < 0 \<or> cpu \<ge> NR_CPUS then None else Some (nat cpu))"

definition cpu_detect :: "cpuinfo_x86 \<Rightarrow> cpuinfo_x86" where
  "cpu_detect c = c\<lparr>ci_x86 := 6, ci_vendor := 0, ci_cpuid_level := 0xD, ci_extended_level := 0x80000008\<rparr>"

text \<open>A cross-CPU function is a state change on the caller's world; it does not touch the
  variables of this file.\<close>

definition smp_call_function_single :: "cpu_state \<Rightarrow> int \<Rightarrow> ('w \<Rightarrow> 'w) \<Rightarrow> 'w \<Rightarrow> (int \<times> 'w) defined" where
  "smp_call_function_single s cpu func w = do {
     on \<leftarrow> cpu_online s cpu;
     if \<not> on then Some (-1, w)
     else Some (0, if cpu = 0 then func w else w)
   }"

fun smp_call_loop :: "cpu_state \<Rightarrow> (int \<Rightarrow> bool) \<Rightarrow> int list \<Rightarrow> ('w \<Rightarrow> 'w) \<Rightarrow> 'w \<Rightarrow> 'w defined" where
  "smp_call_loop s want [] func w = Some w"
| "smp_call_loop s want (cpu # cpus) func w = do {
     on \<leftarrow> (if want cpu then cpu_online s cpu else Some False);
     w' \<leftarrow> (if on then map_option snd (smp_call_function_single s cpu func w) else Some w);
     smp_call_loop s want cpus func w'
   }"

definition smp_call_function :: "cpu_state \<Rightarrow> ('w \<Rightarrow> 'w) \<Rightarrow> 'w \<Rightarrow> (int \<times> 'w) defined" where
  "smp_call_function s func w =
     map_option (Pair 0) (smp_call_loop s (\<lambda>cpu. cpu \<noteq> 0) (map int [0..<unat (nr_cpu_ids s)]) func w)"

definition on_each_cpu :: "cpu_state \<Rightarrow> ('w \<Rightarrow> 'w) \<Rightarrow> 'w \<Rightarrow> 'w defined" where
  "on_each_cpu s func w = smp_call_loop s (\<lambda>cpu. True) (map int [0..<unat (nr_cpu_ids s)]) func w"

definition cpu_is_hotpluggable :: "int \<Rightarrow> bool" where
  "cpu_is_hotpluggable cpu = False"

text \<open>Both hot-plug calls pass their unsigned argument on as an int.\<close>

definition cpu_up :: "u32 \<Rightarrow> cpu_state \<Rightarrow> (int \<times> cpu_state) defined" where
  "cpu_up cpu s = do {
     on \<leftarrow> cpu_online s (sint cpu);
     if on then Some (-1, s)
     else Some (0, set_cpu_online (sint cpu) True s)
   }"

definition cpu_down :: "u32 \<Rightarrow> cpu_state \<Rightarrow> (int \<times> cpu_state) defined" where
  "cpu_down cpu s = do {
     on \<leftarrow> cpu_online s (sint cpu);
     if \<not> on then Some (-1, s)
     else if cpu = 0 then Some (-1, s)
     else Some (0, set_cpu_online (sint cpu) False s)
   }"

subsection \<open>Library\<close>

definition cpu_slot :: "int \<Rightarrow> bool" where
  "cpu_slot cpu \<longleftrightarrow> 0 \<le> cpu \<and> cpu < 32"

definition is_online :: "cpu_state \<Rightarrow> int \<Rightarrow> bool" where
  "is_online s cpu \<longleftrightarrow> cpu_online s cpu = Some True"

lemma is_online_bit: "is_online s cpu \<longleftrightarrow> cpu_slot cpu \<and> bit (cpu_online_map s) (nat cpu)"
  by (auto simp: is_online_def cpu_online_def test_map_def cpu_slot_def bitset_simps)

lemma cpu_online_slot: "cpu_slot cpu \<Longrightarrow> cpu_online s cpu = Some (is_online s cpu)"
  by (auto simp: is_online_def cpu_online_def test_map_def cpu_slot_def)

lemma set_cpu_online_bit:
  "cpu_slot cpu \<Longrightarrow> is_online (set_cpu_online cpu v s) j = (if j = cpu then v else is_online s j)"
  by (auto simp: is_online_bit set_cpu_online_def cpu_slot_def bitset_simps eq_nat_nat_iff)

lemma set_cpu_online_outside: "\<not> cpu_slot cpu \<Longrightarrow> set_cpu_online cpu v s = s"
  by (auto simp: set_cpu_online_def cpu_slot_def)

interpretation onlinebits: bitset is_online
  "\<lambda>s cpu. set_cpu_online cpu True s" "\<lambda>s cpu. set_cpu_online cpu False s" cpu_slot "\<lambda>s. True"
proof unfold_locales
  show "is_online s k \<Longrightarrow> cpu_slot k" for s k by (simp add: is_online_bit)
qed (auto simp: set_cpu_online_bit set_cpu_online_outside)

lemma popcount_split:
  "{i. bit (m :: u32) i} = (if bit m 0 then {0} else {}) \<union> Suc ` {i. bit (drop_bit 1 m) i}"
proof (rule set_eqI)
  have shifted: "bit (drop_bit 1 m) j = bit m (Suc j)" for j
    by (simp only: bit_drop_bit_eq) simp
  fix i show "i \<in> {i. bit m i} \<longleftrightarrow> i \<in> (if bit m 0 then {0} else {}) \<union> Suc ` {i. bit (drop_bit 1 m) i}"
    by (cases i) (simp_all add: shifted [simplified] image_iff)
qed

lemma finite_bits [simp]: "finite {i. bit (m :: u32) i}"
  by (rule finite_subset [of _ "{..<32}"]) (auto dest: bit_imp_le_length)

lemma card_bits_split: "card {i. bit (m :: u32) i} = of_bool (bit m 0) + card {i. bit (drop_bit 1 m) i}"
  by (subst popcount_split) (simp add: card_image card_insert_if)

lemma popcount_loop_card: "popcount_loop m c = c + int (card {i. bit m i})"
proof (induction m c rule: popcount_loop.induct)
  case (1 m c)
  show ?case
  proof (cases "m = 0")
    case True
    then show ?thesis by (simp add: popcount_loop.simps)
  next
    case False
    then have "popcount_loop m c = c + uint (m AND 1) + int (card {i. bit (drop_bit 1 m) i})"
      using 1 by (subst popcount_loop.simps) simp
    moreover have "uint (m AND 1) = of_bool (bit m 0)"
      by (simp add: and_one_eq bit_0 mod_2_eq_odd)
    ultimately show ?thesis by (subst card_bits_split) simp
  qed
qed

lemma online_card: "card (onlinebits.elems s) = card {i. bit (cpu_online_map s) i}"
proof -
  have "onlinebits.elems s = int ` {i. bit (cpu_online_map s) i}"
  proof (rule set_eqI)
    fix j
    show "j \<in> onlinebits.elems s \<longleftrightarrow> j \<in> int ` {i. bit (cpu_online_map s) i}"
      using bit_imp_le_length [of "cpu_online_map s" "nat j"]
      by (auto simp: is_online_bit cpu_slot_def image_iff intro: exI [of _ "nat j"])
  qed
  then show ?thesis by (simp add: card_image)
qed


text \<open>The states hot-plug requests can reach from the one \<open>cpu_init\<close> leaves.\<close>

inductive hotplug_reachable :: "cpu_state \<Rightarrow> bool" where
  boot: "hotplug_reachable (cpu_init s)"
| up: "hotplug_reachable s \<Longrightarrow> cpu_up cpu s = Some (r, s') \<Longrightarrow> hotplug_reachable s'"
| down: "hotplug_reachable s \<Longrightarrow> cpu_down cpu s = Some (r, s') \<Longrightarrow> hotplug_reachable s'"

lemma cpu_init_online: "is_online (cpu_init s) j = (j = 0)"
  by (auto simp: is_online_bit cpu_init_def cpu_slot_def bit_1_iff)

lemma cpu_up_online:
  assumes "cpu_up cpu s = Some (r, s')"
  shows "is_online s' j = (is_online s j \<or> (j = sint cpu \<and> cpu_slot j))"
  using assms set_cpu_online_bit [of "sint cpu" True s j] set_cpu_online_outside [of "sint cpu" True s]
  by (cases "cpu_slot (sint cpu)") (auto simp: cpu_up_def is_online_def split: bind_splits if_splits)

lemma cpu_down_online:
  assumes "cpu_down cpu s = Some (r, s')"
  shows "is_online s' j = (is_online s j \<and> (j = sint cpu \<longrightarrow> j = 0))"
proof (cases "is_online s (sint cpu) \<and> cpu \<noteq> 0")
  case True
  then have "cpu_slot (sint cpu)" and "sint cpu \<noteq> 0" by (auto simp: is_online_bit signed_eq_0_iff)
  moreover have "s' = set_cpu_online (sint cpu) False s"
    using assms True by (simp add: cpu_down_def is_online_def)
  ultimately show ?thesis by (auto simp: set_cpu_online_bit)
next
  case False
  then have "s' = s"
    using assms by (auto simp: cpu_down_def is_online_def split: bind_splits if_splits)
  with False show ?thesis by (auto simp: is_online_bit)
qed

lemma smp_call_loop_none:
  "(\<And>c. c \<in> set cpus \<Longrightarrow> cpu_slot c) \<Longrightarrow> (0 \<in> set cpus \<Longrightarrow> \<not> want 0) \<Longrightarrow> smp_call_loop s want cpus func w = Some w"
  by (induction cpus arbitrary: w) (auto simp: cpu_online_slot smp_call_function_single_def)

lemma smp_call_loop_all:
  "smp_call_loop s (\<lambda>cpu. True) (0 # cpus) func w =
     smp_call_loop s (\<lambda>cpu. True) cpus func (if is_online s 0 then func w else w)"
  by (simp add: cpu_online_slot cpu_slot_def smp_call_function_single_def)

text \<open>What a chain of blocks is meant to do: call the blocks in order, up to and including the
  first one whose result has the stop bit; the answer is the last result.\<close>

definition chain_called :: "(ptr \<Rightarrow> int) \<Rightarrow> ptr list \<Rightarrow> ptr list" where
  "chain_called call as = take (Suc (length (takeWhile (\<lambda>a. call a AND 1 = 0) as))) as"

definition chain_result :: "(ptr \<Rightarrow> int) \<Rightarrow> int \<Rightarrow> ptr list \<Rightarrow> int" where
  "chain_result call r called = (if called = [] then r else call (last called))"

lemma chain_called_Cons:
  "chain_called call (a # as) = a # (if call a AND 1 = 0 then chain_called call as else [])"
  by (simp add: chain_called_def)

lemma cpu_notify_loop_path:
  "lpath nxt nb as \<Longrightarrow> cpu_notify_loop call nxt nb r cs =
     Some (chain_result call r (chain_called call as), cs @ chain_called call as)"
proof (induction as arbitrary: nb r cs)
  case Nil
  then show ?case by (subst cpu_notify_loop.simps) (simp add: chain_called_def chain_result_def)
next
  case (Cons a as)
  from Cons.prems have nb: "nb = a" "a \<noteq> NULL" "lpath nxt (nxt a) as" by auto
  show ?case
  proof (cases "call a AND 1 = 0")
    case True
    have "cpu_notify_loop call nxt nb r cs = cpu_notify_loop call nxt (nxt a) (call a) (cs @ [a])"
      using nb True by (subst cpu_notify_loop.simps) simp
    also have "\<dots> = Some (chain_result call (call a) (chain_called call as), (cs @ [a]) @ chain_called call as)"
      using nb(3) by (rule Cons.IH)
    finally show ?thesis using True by (simp add: chain_called_Cons chain_result_def)
  next
    case False
    then show ?thesis using nb by (subst cpu_notify_loop.simps) (simp add: chain_called_Cons chain_result_def)
  qed
qed

text \<open>A loop that returns started outside a self-loop of non-stopping blocks.\<close>

lemma cpu_notify_loop_self:
  assumes "cpu_notify_loop call nxt nb r cs = Some y"
  shows "nxt a = a \<longrightarrow> a \<noteq> NULL \<longrightarrow> call a AND 1 = 0 \<longrightarrow> nb \<noteq> a"
proof (rule cpu_notify_loop.raw_induct [OF _ assms])
  fix f :: "(ptr \<Rightarrow> int) \<Rightarrow> (ptr \<Rightarrow> ptr) \<Rightarrow> ptr \<Rightarrow> int \<Rightarrow> ptr list \<Rightarrow> (int \<times> ptr list) option"
  fix call nxt nb r cs y
  assume ih: "\<And>call nxt nb r cs y. f call nxt nb r cs = Some y \<Longrightarrow>
      nxt a = a \<longrightarrow> a \<noteq> NULL \<longrightarrow> call a AND 1 = 0 \<longrightarrow> nb \<noteq> a"
    and body: "(if nb = NULL then Some (r, cs)
      else if call nb AND 1 \<noteq> 0 then Some (call nb, cs @ [nb])
      else f call nxt (nxt nb) (call nb) (cs @ [nb])) = Some y"
  show "nxt a = a \<longrightarrow> a \<noteq> NULL \<longrightarrow> call a AND 1 = 0 \<longrightarrow> nb \<noteq> a"
  proof (intro impI notI)
    assume a: "nxt a = a" "a \<noteq> NULL" "call a AND 1 = 0" "nb = a"
    with body have "f call nxt a (call a) (cs @ [a]) = Some y" by simp
    from ih [OF this] a show False by simp
  qed
qed

definition online_set :: "cpu_state \<Rightarrow> int set" where
  "online_set s = {cpu. cpu_online s cpu = Some True}"

lemma online_set_elems: "online_set s = onlinebits.elems s"
  by (simp add: online_set_def onlinebits.elems_def is_online_def)

lemma in_online_set: "(cpu \<in> online_set s) = is_online s cpu"
  by (simp add: online_set_def is_online_def)

subsection \<open>Properties\<close>

text \<open>
  \<open>cpu_up\<close> and \<open>cpu_down\<close> on every argument. Below 32 they bring the CPU up or take it
  down, refusing a CPU already in that state and refusing to take down CPU 0; for a CPU from 32
  to 255 the query shifts past the width of the map; for every larger number \<open>cpu_up\<close> reports
  success although nothing changes.
\<close>

theorem hotplug_all_branches:
  "cpu_up cpu s = (if cpu < 32 then Some (if int (unat cpu) \<in> online_set s then (-1, s) else (0, set_cpu_online (int (unat cpu)) True s))
     else if cpu < 256 then None else Some (0, s))
   \<and> cpu_down cpu s = (if cpu < 32 then Some (if int (unat cpu) \<in> online_set s \<and> cpu \<noteq> 0 then (0, set_cpu_online (int (unat cpu)) False s) else (-1, s))
     else if cpu < 256 then None else Some (-1, s))"
proof -
  consider "unat cpu < 32" | "32 \<le> unat cpu" "unat cpu < 256" | "256 \<le> unat cpu" by linarith
  then show ?thesis
  proof cases
    case 1
    then have "int (unat cpu) < 32" by linarith
    then have "cpu_slot (int (unat cpu))" by (simp add: cpu_slot_def)
    moreover from 1 have "sint cpu = int (unat cpu)" "cpu < 32"
      by (simp_all only: sint_small word_less_nat_alt) simp_all
    ultimately show ?thesis
      by (simp add: cpu_up_def cpu_down_def cpu_online_slot in_online_set)
  next
    case 2
    then have "sint cpu = int (unat cpu)" "\<not> cpu < 32" "cpu < 256"
      by (simp_all only: sint_small word_less_nat_alt) simp_all
    moreover from 2 have "32 \<le> int (unat cpu)" "int (unat cpu) < 256" by linarith+
    ultimately show ?thesis by (simp add: cpu_up_def cpu_down_def cpu_online_def test_map_def)
  next
    case 3
    then have c: "\<not> cpu < 32" "\<not> cpu < 256" by (simp_all add: word_less_nat_alt)
    have "sint cpu < 0 \<or> 256 \<le> sint cpu"
      using 3 sint_small [of cpu] sint_large_neg [of cpu] by linarith
    then show ?thesis
      using c by (auto simp: cpu_up_def cpu_down_def cpu_online_def test_map_def set_cpu_online_def)
  qed
qed

text \<open>
  C33: After \<open>cpu_init\<close> and any sequence of hot-plug requests that have all returned, the boot
  CPU is online, only CPUs below 32 are online, and the bit-counting loop of
  \<open>num_online_cpus\<close> ends and returns the number of CPUs the queries report as online. The
  requests with no defined result are named: they are those for the CPUs from 32 to 255, for which
  the query shifts past the width of the map; every other request returns.
\<close>

theorem hotplug_keeps_boot_cpu:
  assumes "hotplug_reachable s"
  shows "cpu_online s 0 = Some True \<and> online_set s \<subseteq> {0..<32} \<and> num_online_cpus s = int (card (online_set s))
    \<and> (cpu_up cpu s = None) = (32 \<le> cpu \<and> cpu < 256) \<and> (cpu_down cpu s = None) = (32 \<le> cpu \<and> cpu < 256)"
proof -
  from assms have "is_online s 0"
    by (induction rule: hotplug_reachable.induct)
      (auto simp: cpu_init_online cpu_up_online cpu_down_online)
  moreover have "online_set s \<subseteq> {0..<32}"
    using onlinebits.elems_subset_dom [of s] by (auto simp: online_set_elems cpu_slot_def)
  moreover have "num_online_cpus s = int (card (online_set s))"
    by (simp add: num_online_cpus_def popcount_loop_card online_set_elems online_card)
  moreover have "(cpu_up cpu s = None) = (32 \<le> cpu \<and> cpu < 256)" "(cpu_down cpu s = None) = (32 \<le> cpu \<and> cpu < 256)"
    by (auto simp: hotplug_all_branches not_less [symmetric])
  ultimately show ?thesis by (simp add: is_online_def)
qed

definition example_cpus :: cpu_state where
  "example_cpus = \<lparr>cpu_data = [], cpu_online_map = 0, cpu_present_map = 0, cpu_active_map = 0,
     cpu_possible_map = 0, nr_cpu_ids = 1, chain_head = NULL, chain_count = 0, nb_next = (\<lambda>_. NULL)\<rparr>"

theorem hotplug_keeps_boot_cpu_witness:
  "\<exists>s. cpu_up 3 (cpu_init example_cpus) = Some (0, s) \<and> cpu_online s 0 = Some True
     \<and> online_set s \<subseteq> {0..<32} \<and> num_online_cpus s = int (card (online_set s))
     \<and> cpu_up 40 s = None \<and> cpu_down 40 s = None"
proof -
  let ?s = "set_cpu_online 3 True (cpu_init example_cpus)"
  have "\<not> is_online (cpu_init example_cpus) 3" by (simp add: cpu_init_online)
  then have "cpu_online (cpu_init example_cpus) 3 = Some False"
    by (simp add: cpu_online_slot cpu_slot_def)
  then have up: "cpu_up 3 (cpu_init example_cpus) = Some (0, ?s)" by (simp add: cpu_up_def)
  have "hotplug_reachable ?s" by (rule hotplug_reachable.up [OF hotplug_reachable.boot up])
  from hotplug_keeps_boot_cpu [OF this, of 40] up show ?thesis by auto
qed

text \<open>
  On a chain that ends, \<open>cpu_notify\<close> returns: it calls the blocks from the most recently
  registered one on, up to and including the first whose result has the stop bit, and answers
  the last result.
\<close>

theorem cpu_notify_runs_chain:
  assumes "lpath (nb_next s) (chain_head s) as"
  shows "cpu_notify call val s = Some (chain_result (\<lambda>a. call a val) 0 (chain_called (\<lambda>a. call a val) as),
    chain_called (\<lambda>a. call a val) as)"
  using cpu_notify_loop_path [OF assms] by (simp add: cpu_notify_def)

theorem cpu_notify_runs_chain_witness:
  "\<exists>s. snd (register_cpu_notifier 8 (snd (register_cpu_notifier 16 example_cpus))) = s
     \<and> lpath (nb_next s) (chain_head s) [8, 16]
     \<and> cpu_notify (\<lambda>a v. if a = 16 then 0x8001 else 0) 2 s = Some (0x8001, [8, 16])"
proof -
  let ?s = "snd (register_cpu_notifier 8 (snd (register_cpu_notifier 16 example_cpus)))"
  have path: "lpath (nb_next ?s) (chain_head ?s) [8, 16]"
    by (simp add: register_cpu_notifier_def example_cpus_def)
  from cpu_notify_runs_chain [OF this, of "\<lambda>a v. if a = 16 then 0x8001 else 0" 2] path show ?thesis
    by (simp add: chain_called_def chain_result_def)
qed

text \<open>
  Registering the block at the head of the chain once more links it to itself, and from then
  on \<open>cpu_notify\<close> never returns unless that block stops the chain.
\<close>

theorem double_registration_diverges:
  assumes "nb \<noteq> NULL" and "call nb val AND 1 = 0"
  shows "cpu_notify call val (snd (register_cpu_notifier nb (snd (register_cpu_notifier nb s)))) = None"
proof (rule ccontr)
  let ?s = "snd (register_cpu_notifier nb (snd (register_cpu_notifier nb s)))"
  assume "cpu_notify call val ?s \<noteq> None"
  then obtain y where "cpu_notify_loop (\<lambda>nb. call nb val) (nb_next ?s) (chain_head ?s) 0 [] = Some y"
    by (auto simp: cpu_notify_def)
  from cpu_notify_loop_self [OF this, of nb] assms show False
    by (simp add: register_cpu_notifier_def)
qed

theorem double_registration_diverges_witness:
  "cpu_notify (\<lambda>a v. 0) 2 (snd (register_cpu_notifier 8 (snd (register_cpu_notifier 8 example_cpus)))) = None"
  using double_registration_diverges [of 8 "\<lambda>a v. 0" 2 example_cpus] by simp

text \<open>
  \<open>smp_call_function\<close>, whose comment promises a call on all other CPUs, runs the function on
  none, and \<open>on_each_cpu\<close> runs it exactly once, for CPU 0 when that is online, however many
  CPUs are online.
\<close>

theorem cross_calls_reach_only_cpu0:
  assumes "0 < unat (nr_cpu_ids s)" and "unat (nr_cpu_ids s) \<le> 32"
  shows "smp_call_function s func w = Some (0, w)
    \<and> on_each_cpu s func w = Some (if 0 \<in> online_set s then func w else w)"
proof
  have slots: "cpu_slot c" if "c \<in> set (map int [a..<unat (nr_cpu_ids s)])" for a c
    using that assms(2) by (auto simp: cpu_slot_def)
  have others: "smp_call_loop s (\<lambda>cpu. cpu \<noteq> 0) (map int [0..<unat (nr_cpu_ids s)]) func w = Some w"
    by (rule smp_call_loop_none) (erule slots, simp)
  have rest: "smp_call_loop s (\<lambda>cpu. True) (map int [Suc 0..<unat (nr_cpu_ids s)]) func v = Some v" for v
    by (rule smp_call_loop_none) (erule slots, auto)
  show "smp_call_function s func w = Some (0, w)"
    using others by (simp add: smp_call_function_def)
  have "map int [0..<unat (nr_cpu_ids s)] = 0 # map int [Suc 0..<unat (nr_cpu_ids s)]"
    using assms(1) by (simp add: upt_conv_Cons)
  then show "on_each_cpu s func w = Some (if 0 \<in> online_set s then func w else w)"
    by (simp only: on_each_cpu_def smp_call_loop_all in_online_set rest)
qed

theorem cross_calls_reach_only_cpu0_witness:
  "smp_call_function (example_cpus\<lparr>nr_cpu_ids := 4, cpu_online_map := 15\<rparr>) Suc 0 = Some (0, 0)
   \<and> on_each_cpu (example_cpus\<lparr>nr_cpu_ids := 4, cpu_online_map := 15\<rparr>) Suc 0 = Some 1"
  using cross_calls_reach_only_cpu0 [of "example_cpus\<lparr>nr_cpu_ids := 4, cpu_online_map := 15\<rparr>" Suc 0]
  by (simp add: example_cpus_def online_set_def cpu_online_def test_map_def)

end
