(* ===== verification/Atomic.thy ===== *)
theory Atomic
  imports Prelude
begin

text \<open>
  kernel/atomic.h: the atomic counters. Every operation is one locked instruction, hence one
  state change; an interleaving of several CPUs is a sequence of these operations. Counters wrap
  around as the instructions do.
\<close>

record atomic_t = counter :: u32
record atomic64_t = counter64 :: u64

definition atomic_read :: "atomic_t \<Rightarrow> u32" where
  "atomic_read v = counter v"

definition atomic_set :: "atomic_t \<Rightarrow> u32 \<Rightarrow> atomic_t" where
  "atomic_set v i = v\<lparr>counter := i\<rparr>"

definition atomic_add :: "u32 \<Rightarrow> atomic_t \<Rightarrow> atomic_t" where
  "atomic_add i v = v\<lparr>counter := counter v + i\<rparr>"

definition atomic_sub :: "u32 \<Rightarrow> atomic_t \<Rightarrow> atomic_t" where
  "atomic_sub i v = v\<lparr>counter := counter v - i\<rparr>"

definition atomic_sub_and_test :: "u32 \<Rightarrow> atomic_t \<Rightarrow> bool \<times> atomic_t" where
  "atomic_sub_and_test i v = (let v = v\<lparr>counter := counter v - i\<rparr> in (counter v = 0, v))"

definition atomic_inc :: "atomic_t \<Rightarrow> atomic_t" where
  "atomic_inc v = v\<lparr>counter := counter v + 1\<rparr>"

definition atomic_dec :: "atomic_t \<Rightarrow> atomic_t" where
  "atomic_dec v = v\<lparr>counter := counter v - 1\<rparr>"

definition atomic_dec_and_test :: "atomic_t \<Rightarrow> bool \<times> atomic_t" where
  "atomic_dec_and_test v = (let v = v\<lparr>counter := counter v - 1\<rparr> in (counter v = 0, v))"

definition atomic_inc_and_test :: "atomic_t \<Rightarrow> bool \<times> atomic_t" where
  "atomic_inc_and_test v = (let v = v\<lparr>counter := counter v + 1\<rparr> in (counter v = 0, v))"

text \<open>\<open>xadd\<close> leaves the old value in the register and the sum in memory.\<close>

definition atomic_fetch_add :: "u32 \<Rightarrow> atomic_t \<Rightarrow> u32 \<times> atomic_t" where
  "atomic_fetch_add i v = (counter v, v\<lparr>counter := counter v + i\<rparr>)"

definition atomic_add_return :: "u32 \<Rightarrow> atomic_t \<Rightarrow> u32 \<times> atomic_t" where
  "atomic_add_return i v =
     (let old_i = i; i = counter v; v = v\<lparr>counter := counter v + old_i\<rparr> in (i + old_i, v))"

definition atomic_sub_return :: "u32 \<Rightarrow> atomic_t \<Rightarrow> u32 \<times> atomic_t" where
  "atomic_sub_return i v = atomic_add_return (- i) v"

definition atomic64_read :: "atomic64_t \<Rightarrow> u64" where
  "atomic64_read v = counter64 v"

definition atomic64_set :: "atomic64_t \<Rightarrow> u64 \<Rightarrow> atomic64_t" where
  "atomic64_set v i = v\<lparr>counter64 := i\<rparr>"

definition atomic64_add :: "u64 \<Rightarrow> atomic64_t \<Rightarrow> atomic64_t" where
  "atomic64_add i v = v\<lparr>counter64 := counter64 v + i\<rparr>"

definition atomic64_add_return :: "u64 \<Rightarrow> atomic64_t \<Rightarrow> u64 \<times> atomic64_t" where
  "atomic64_add_return i v =
     (let old_i = i; i = counter64 v; v = v\<lparr>counter64 := counter64 v + old_i\<rparr> in (i + old_i, v))"

definition atomic64_fetch_add :: "u64 \<Rightarrow> atomic64_t \<Rightarrow> u64 \<times> atomic64_t" where
  "atomic64_fetch_add i v = (counter64 v, v\<lparr>counter64 := counter64 v + i\<rparr>)"

definition atomic64_inc :: "atomic64_t \<Rightarrow> atomic64_t" where
  "atomic64_inc v = v\<lparr>counter64 := counter64 v + 1\<rparr>"

definition atomic64_dec :: "atomic64_t \<Rightarrow> atomic64_t" where
  "atomic64_dec v = v\<lparr>counter64 := counter64 v - 1\<rparr>"

definition atomic64_dec_and_test :: "atomic64_t \<Rightarrow> bool \<times> atomic64_t" where
  "atomic64_dec_and_test v = (let v = v\<lparr>counter64 := counter64 v - 1\<rparr> in (counter64 v = 0, v))"

definition atomic_xchg :: "atomic_t \<Rightarrow> u32 \<Rightarrow> u32 \<times> atomic_t" where
  "atomic_xchg v new = (counter v, v\<lparr>counter := new\<rparr>)"

definition atomic64_xchg :: "atomic64_t \<Rightarrow> u64 \<Rightarrow> u64 \<times> atomic64_t" where
  "atomic64_xchg v new = (counter64 v, v\<lparr>counter64 := new\<rparr>)"

text \<open>\<open>cmpxchg\<close> loads the memory operand into the accumulator in both cases.\<close>

definition atomic_cmpxchg :: "atomic_t \<Rightarrow> u32 \<Rightarrow> u32 \<Rightarrow> bool \<times> atomic_t" where
  "atomic_cmpxchg v old new =
     (let prev = counter v; v = (if prev = old then v\<lparr>counter := new\<rparr> else v) in (prev = old, v))"

definition atomic64_cmpxchg :: "atomic64_t \<Rightarrow> u64 \<Rightarrow> u64 \<Rightarrow> bool \<times> atomic64_t" where
  "atomic64_cmpxchg v old new =
     (let prev = counter64 v; v = (if prev = old then v\<lparr>counter64 := new\<rparr> else v) in (prev = old, v))"

subsection \<open>The reference-count contract\<close>

text \<open>A counter with a get and a put operation; put reports whether it dropped the last
  reference. A client takes and drops references in some order; \<open>puts\<close> counts the reports.\<close>

datatype refop = Get | Put

locale refcount =
  fixes get_of :: "'c \<Rightarrow> 'c"
    and put_of :: "'c \<Rightarrow> bool \<times> 'c"
    and refs :: "'c \<Rightarrow> nat"
    and limit :: nat
  assumes refs_get: "refs c + 1 < limit \<Longrightarrow> refs (get_of c) = refs c + 1"
    and refs_put: "0 < refs c \<Longrightarrow> refs (snd (put_of c)) = refs c - 1"
    and put_last: "0 < refs c \<Longrightarrow> fst (put_of c) = (refs c = 1)"
begin

text \<open>The trace of \<open>put\<close> answers of a schedule, and the schedules that never put more than
  they hold nor exceed the limit.\<close>

fun run :: "refop list \<Rightarrow> 'c \<Rightarrow> bool list \<times> 'c" where
  "run [] c = ([], c)"
| "run (Get # xs) c = run xs (get_of c)"
| "run (Put # xs) c = (let (b, c) = put_of c; (bs, c) = run xs c in (b # bs, c))"

fun legal :: "refop list \<Rightarrow> nat \<Rightarrow> bool" where
  "legal [] n = True"
| "legal (Get # xs) n = (0 < n \<and> n + 1 < limit \<and> legal xs (n + 1))"
| "legal (Put # xs) n = (0 < n \<and> legal xs (n - 1))"

fun final :: "refop list \<Rightarrow> nat \<Rightarrow> nat" where
  "final [] n = n"
| "final (Get # xs) n = final xs (n + 1)"
| "final (Put # xs) n = final xs (n - 1)"

lemma legal_zero: "legal xs 0 \<Longrightarrow> xs = []"
  by (cases xs rule: list.exhaust; cases "hd xs") auto

lemma run_correct:
  "legal xs (refs c) \<Longrightarrow> 0 < refs c \<Longrightarrow> refs (snd (run xs c)) = final xs (refs c)
     \<and> filter id (fst (run xs c)) = (if final xs (refs c) = 0 then [True] else [])"
proof (induction xs arbitrary: c rule: list.induct)
  case Nil
  then show ?case by simp
next
  case (Cons x xs)
  show ?case
  proof (cases x)
    case Get
    with Cons.prems have "refs (get_of c) = refs c + 1" "legal xs (refs c + 1)" by (auto simp: refs_get)
    with Get Cons.IH [of "get_of c"] show ?thesis by simp
  next
    case Put
    with Cons.prems have c: "0 < refs c" and l: "legal xs (refs c - 1)" by auto
    obtain b d where put: "put_of c = (b, d)" by force
    with refs_put [OF c] put_last [OF c] have d: "refs d = refs c - 1" "b = (refs c = 1)" by auto
    show ?thesis
    proof (cases "refs c = 1")
      case True
      with l legal_zero have "xs = []" by simp
      with Put put d True show ?thesis by simp
    next
      case False
      with c d have "0 < refs d" by simp
      with Cons.IH [of d] l d Put put False show ?thesis
        by (simp add: split_beta)
    qed
  qed
qed

end

interpretation counter32: refcount atomic_inc atomic_dec_and_test "\<lambda>v. unat (counter v)" 4294967296
proof unfold_locales
  fix v :: atomic_t
  show "unat (counter v) + 1 < 4294967296 \<Longrightarrow> unat (counter (atomic_inc v)) = unat (counter v) + 1"
    by (simp add: atomic_inc_def unat_word_ariths)
  have dec: "unat (counter v - 1) = unat (counter v) - 1" if "0 < unat (counter v)"
    using that by (simp add: unat_minus_one unat_gt_0)
  show "0 < unat (counter v) \<Longrightarrow> unat (counter (snd (atomic_dec_and_test v))) = unat (counter v) - 1"
    by (simp add: atomic_dec_and_test_def Let_def dec)
  show "0 < unat (counter v) \<Longrightarrow> fst (atomic_dec_and_test v) = (unat (counter v) = 1)"
    using dec by (simp add: atomic_dec_and_test_def Let_def word_unat_eq_iff) linarith
qed

subsection \<open>Properties\<close>

text \<open>
  C34: Concurrent \<open>atomic_inc\<close> and \<open>atomic_dec_and_test\<close> on one counter form a sound reference
  count. In every interleaving in which references are taken only while one is held, and fewer than
  2^32 are held at any time, the counter
  ends at the number of references left; one \<open>atomic_dec_and_test\<close> answers true when no
  reference is left, and none does otherwise.
\<close>

theorem reference_released_once:
  assumes "counter32.legal xs (unat (counter v))" and "0 < unat (counter v)"
  shows "unat (counter (snd (counter32.run xs v))) = counter32.final xs (unat (counter v))
    \<and> filter id (fst (counter32.run xs v)) =
      (if counter32.final xs (unat (counter v)) = 0 then [True] else [])"
  using counter32.run_correct [OF assms] .

theorem reference_released_once_witness:
  "counter32.legal [Get, Put, Get, Put, Put] 1 \<and>
   counter (snd (counter32.run [Get, Put, Get, Put, Put] \<lparr>counter = 1\<rparr>)) = 0
   \<and> filter id (fst (counter32.run [Get, Put, Get, Put, Put] \<lparr>counter = 1\<rparr>)) = [True]"
proof -
  have legal: "counter32.legal [Get, Put, Get, Put, Put] (unat (counter \<lparr>counter = 1\<rparr>))" by simp
  have "0 < unat (counter \<lparr>counter = 1\<rparr>)" by simp
  from reference_released_once [OF legal this] legal show ?thesis
    by (simp add: unat_eq_zero del: counter32.run.simps)
qed

text \<open>The values a sequence of \<open>atomic_fetch_add 1\<close> hands out.\<close>

fun fetch_adds :: "nat \<Rightarrow> atomic_t \<Rightarrow> u32 list" where
  "fetch_adds 0 v = []"
| "fetch_adds (Suc n) v = (let (t, v) = atomic_fetch_add 1 v in t # fetch_adds n v)"

lemma fetch_adds_values: "fetch_adds n v = map (\<lambda>i. counter v + of_nat i) [0..<n]"
proof (induction n arbitrary: v)
  case 0
  then show ?case by simp
next
  case (Suc n)
  have "[0..<Suc n] = 0 # map Suc [0..<n]" by (simp add: map_Suc_upt upt_conv_Cons)
  then show ?case by (simp add: Suc atomic_fetch_add_def ac_simps)
qed

text \<open>
  Up to \<open>2 ^ 32\<close> concurrent calls of \<open>atomic_fetch_add 1\<close> receive pairwise different values,
  whatever the start value.
\<close>

theorem fetch_add_unique_tickets:
  assumes "n \<le> 2 ^ 32"
  shows "distinct (fetch_adds n v)"
proof -
  have "i = j" if "i < n" "j < n" "of_nat i = (of_nat j :: u32)" for i j
    using that assms by (simp add: word_of_nat_eq_iff take_bit_nat_eq_self)
  then show ?thesis
    by (auto simp: fetch_adds_values distinct_map inj_on_def)
qed

theorem fetch_add_unique_tickets_witness: "distinct (fetch_adds 5 \<lparr>counter = 0xFFFFFFFE\<rparr>)"
  using fetch_add_unique_tickets [of 5 "\<lparr>counter = 0xFFFFFFFE\<rparr>"] by simp

end
