(* ===== verification/Spinlock.thy ===== *)
theory Spinlock
  imports Prelude
begin

text \<open>
  kernel/spinlock.h: the ticket spinlock and the reader-writer lock. The ticket lock is modelled
  as one CPU runs it; the reader-writer lock as an interleaving of any number of CPUs, each
  executing its plain read and its compare-and-swap as two separate steps.
\<close>

subsection \<open>Ticket lock\<close>

record arch_spinlock_t =
  lk_head :: u32
  lk_tail :: u32

abbreviation SPIN_LOCK_UNLOCKED :: arch_spinlock_t where
  "SPIN_LOCK_UNLOCKED \<equiv> \<lparr>lk_head = 0, lk_tail = 0\<rparr>"

definition arch_spin_is_locked :: "arch_spinlock_t \<Rightarrow> bool" where
  "arch_spin_is_locked x = (lk_tail x \<noteq> lk_head x)"

definition arch_spin_is_contended :: "arch_spinlock_t \<Rightarrow> bool" where
  "arch_spin_is_contended x = (lk_tail x - lk_head x > 1)"

text \<open>Taking a ticket: the increment is computed from a read of the tail and then added to it.\<close>

definition take_ticket :: "arch_spinlock_t \<Rightarrow> u16 \<times> arch_spinlock_t" where
  "take_ticket lock =
     (let inc = push_bit 16 1; new = lk_tail lock + inc; old = lk_tail lock;
          lock = lock\<lparr>lk_tail := lk_tail lock + new\<rparr>
      in (ucast (drop_bit 16 old), lock))"

text \<open>The waiting loop, with no other CPU changing the lock meanwhile; \<open>None\<close> is waiting for ever.\<close>

partial_function (option) spin_wait :: "u16 \<Rightarrow> arch_spinlock_t \<Rightarrow> arch_spinlock_t option" where
  "spin_wait ticket lock = (if ucast (lk_head lock) = ticket then Some lock else spin_wait ticket lock)"

definition arch_spin_lock :: "arch_spinlock_t \<Rightarrow> arch_spinlock_t option" where
  "arch_spin_lock lock = (let (ticket, lock) = take_ticket lock in spin_wait ticket lock)"

text \<open>The compare-and-swap of \<open>arch_spin_trylock\<close> compares the tail with the head value.\<close>

definition arch_spin_trylock :: "arch_spinlock_t \<Rightarrow> bool \<times> arch_spinlock_t" where
  "arch_spin_trylock lock =
     (let old = lk_head lock; new = old + push_bit 16 1
      in if old \<noteq> drop_bit 16 (lk_tail lock) then (False, lock)
         else if lk_tail lock = old then (True, lock\<lparr>lk_tail := new\<rparr>) else (False, lock))"

definition arch_spin_unlock :: "arch_spinlock_t \<Rightarrow> arch_spinlock_t" where
  "arch_spin_unlock lock = lock\<lparr>lk_head := lk_head lock + 1\<rparr>"

lemma spin_wait_some:
  assumes "spin_wait t lock = Some lock'"
  shows "ucast (lk_head lock) = t"
proof (rule spin_wait.raw_induct [OF _ assms])
  fix f :: "u16 \<Rightarrow> arch_spinlock_t \<Rightarrow> arch_spinlock_t option" and ticket lock lock'
  assume "\<And>ticket lock lock'. f ticket lock = Some lock' \<Longrightarrow> ucast (lk_head lock) = ticket"
    and "(if ucast (lk_head lock) = ticket then Some lock else f ticket lock) = Some lock'"
  then show "ucast (lk_head lock) = ticket" by (cases "ucast (lk_head lock) = ticket") auto
qed

lemma spin_wait_eq: "spin_wait t lock = (if ucast (lk_head lock) = t then Some lock else None)"
proof (cases "ucast (lk_head lock) = t")
  case True
  then show ?thesis by (subst spin_wait.simps) simp
next
  case False
  then show ?thesis using spin_wait_some [of t lock] by (cases "spin_wait t lock") auto
qed

text \<open>A lock round: take the lock, then release it.\<close>

definition lock_round :: "arch_spinlock_t \<Rightarrow> arch_spinlock_t option" where
  "lock_round lock = map_option arch_spin_unlock (arch_spin_lock lock)"

lemma shift_self_zero: "drop_bit 16 (w :: u32) = w \<Longrightarrow> w = 0"
proof -
  assume eq: "drop_bit 16 w = w"
  have "bit w n = bit w (n + 16)" for n
    using arg_cong [OF eq, of "\<lambda>x. bit x n"] by (simp add: bit_drop_bit_eq add.commute)
  then have "bit w n = bit w (n + 16 + 16)" for n by metis
  then have "\<not> bit w n" for n using bit_imp_le_length [of w "n + 16 + 16"] by auto
  then show ?thesis by (auto intro: bit_word_eqI)
qed

subsection \<open>Reader-writer lock\<close>

text \<open>A CPU is idle, has read the lock word while trying to enter as a reader, has seen it zero
  while trying to enter as a writer, or holds the lock.\<close>

datatype rw_pc = RwIdle | ReadSeen u32 | WriteSeen | Reading | Writing

record rw_state =
  rw_lock :: u32
  rw_pc :: "nat \<Rightarrow> rw_pc"

text \<open>\<open>arch_read_lock\<close>: the test on the value read, and the compare-and-swap.\<close>

definition read_admits :: "u32 \<Rightarrow> bool" where
  "read_admits tmp \<longleftrightarrow> tmp AND 1 = 0 \<and> tmp \<noteq> NOT 0"

inductive rw_step :: "nat \<Rightarrow> rw_state \<Rightarrow> rw_state \<Rightarrow> bool" for n where
  read_see: "t < n \<Longrightarrow> rw_pc s t = RwIdle \<Longrightarrow> read_admits (rw_lock s) \<Longrightarrow>
     rw_step n s (s\<lparr>rw_pc := (rw_pc s)(t := ReadSeen (rw_lock s))\<rparr>)"
| read_fail: "t < n \<Longrightarrow> rw_pc s t = ReadSeen tmp \<Longrightarrow> rw_lock s \<noteq> tmp \<Longrightarrow>
     rw_step n s (s\<lparr>rw_pc := (rw_pc s)(t := RwIdle)\<rparr>)"
| read_enter: "t < n \<Longrightarrow> rw_pc s t = ReadSeen tmp \<Longrightarrow> rw_lock s = tmp \<Longrightarrow>
     rw_step n s (s\<lparr>rw_lock := tmp + 2, rw_pc := (rw_pc s)(t := Reading)\<rparr>)"
| read_unlock: "t < n \<Longrightarrow> rw_pc s t = Reading \<Longrightarrow>
     rw_step n s (s\<lparr>rw_lock := rw_lock s - 2, rw_pc := (rw_pc s)(t := RwIdle)\<rparr>)"
| write_see: "t < n \<Longrightarrow> rw_pc s t = RwIdle \<Longrightarrow> rw_lock s = 0 \<Longrightarrow>
     rw_step n s (s\<lparr>rw_pc := (rw_pc s)(t := WriteSeen)\<rparr>)"
| write_fail: "t < n \<Longrightarrow> rw_pc s t = WriteSeen \<Longrightarrow> rw_lock s \<noteq> 0 \<Longrightarrow>
     rw_step n s (s\<lparr>rw_pc := (rw_pc s)(t := RwIdle)\<rparr>)"
| write_enter: "t < n \<Longrightarrow> rw_pc s t = WriteSeen \<Longrightarrow> rw_lock s = 0 \<Longrightarrow>
     rw_step n s (s\<lparr>rw_lock := 1, rw_pc := (rw_pc s)(t := Writing)\<rparr>)"
| write_unlock: "t < n \<Longrightarrow> rw_pc s t = Writing \<Longrightarrow>
     rw_step n s (s\<lparr>rw_lock := 0, rw_pc := (rw_pc s)(t := RwIdle)\<rparr>)"

inductive rw_reachable :: "nat \<Rightarrow> rw_state \<Rightarrow> bool" for n where
  unlocked: "rw_reachable n \<lparr>rw_lock = 0, rw_pc = (\<lambda>t. RwIdle)\<rparr>"
| step: "rw_reachable n s \<Longrightarrow> rw_step n s s' \<Longrightarrow> rw_reachable n s'"

definition holders :: "rw_pc \<Rightarrow> nat \<Rightarrow> rw_state \<Rightarrow> nat set" where
  "holders pc n s = {t. t < n \<and> rw_pc s t = pc}"

text \<open>The lock word counts two per reader and one per writer; a writer is alone.\<close>

definition rw_inv :: "nat \<Rightarrow> rw_state \<Rightarrow> bool" where
  "rw_inv n s \<longleftrightarrow>
     unat (rw_lock s) = 2 * card (holders Reading n s) + card (holders Writing n s)
     \<and> card (holders Writing n s) \<le> 1
     \<and> (holders Writing n s \<noteq> {} \<longrightarrow> holders Reading n s = {})
     \<and> (\<forall>t tmp. rw_pc s t = ReadSeen tmp \<longrightarrow> read_admits tmp)"

lemma holders_finite [simp]: "finite (holders pc n s)"
  by (simp add: holders_def)

lemma holders_upd:
  "t < n \<Longrightarrow> holders pc n (s\<lparr>rw_lock := l, rw_pc := (rw_pc s)(t := x)\<rparr>) =
     (if x = pc then insert t (holders pc n s) else holders pc n s - {t})"
  "t < n \<Longrightarrow> holders pc n (s\<lparr>rw_pc := (rw_pc s)(t := x)\<rparr>) =
     (if x = pc then insert t (holders pc n s) else holders pc n s - {t})"
  by (auto simp: holders_def)

lemma in_holders: "t < n \<Longrightarrow> (t \<in> holders pc n s) = (rw_pc s t = pc)"
  by (simp add: holders_def)

lemma holders_bound: "t < n \<Longrightarrow> t \<notin> holders pc n s \<Longrightarrow> card (holders pc n s) < n"
proof -
  assume "t < n" "t \<notin> holders pc n s"
  then have "holders pc n s \<subset> {..<n}" by (auto simp: holders_def)
  from psubset_card_mono [OF _ this] show ?thesis by simp
qed

lemma read_admits_even: "read_admits tmp \<Longrightarrow> even (unat tmp)"
  by (auto simp: read_admits_def and_one_eq even_iff_mod_2_eq_zero unat_mod unat_eq_zero
      simp flip: unat_eq_zero)

lemma rw_inv_init: "rw_inv n \<lparr>rw_lock = 0, rw_pc = (\<lambda>t. RwIdle)\<rparr>"
  by (simp add: rw_inv_def holders_def)

lemma rw_inv_neutral:
  assumes "rw_inv n s" "t < n" "rw_pc s t \<noteq> Reading" "rw_pc s t \<noteq> Writing" "x \<noteq> Reading" "x \<noteq> Writing"
    "\<And>tmp. x = ReadSeen tmp \<Longrightarrow> read_admits tmp"
  shows "rw_inv n (s\<lparr>rw_pc := (rw_pc s)(t := x)\<rparr>)"
proof -
  have "holders pc n (s\<lparr>rw_pc := (rw_pc s)(t := x)\<rparr>) = holders pc n s" if "pc = Reading \<or> pc = Writing" for pc
    using that assms(3-6) by (auto simp: holders_upd(2) [OF assms(2)] in_holders [OF assms(2)])
  with assms show ?thesis by (simp add: rw_inv_def)
qed

lemma rw_inv_read_enter:
  assumes "rw_inv n s" "n < 2 ^ 31" "t < n" "rw_pc s t = ReadSeen (rw_lock s)"
  shows "rw_inv n (s\<lparr>rw_lock := rw_lock s + 2, rw_pc := (rw_pc s)(t := Reading)\<rparr>)"
proof -
  let ?R = "holders Reading n s" and ?W = "holders Writing n s"
  have notin: "t \<notin> ?R" "t \<notin> ?W" using assms(3,4) by (simp_all add: in_holders)
  from assms(1,4) have l: "unat (rw_lock s) = 2 * card ?R + card ?W" "card ?W \<le> 1"
    and "read_admits (rw_lock s)" by (auto simp: rw_inv_def)
  from read_admits_even [OF this(3)] l have W: "card ?W = 0" by (cases "card ?W") auto
  have "card ?R < n" using holders_bound [OF assms(3) notin(1)] .
  then have "unat (rw_lock s + 2) = unat (rw_lock s) + 2"
    using l W assms(2) by (simp add: unat_word_ariths)
  moreover from W have "?W = {}" by simp
  ultimately show ?thesis
    using assms(1,3) notin l W by (auto simp: rw_inv_def holders_upd)
qed

lemma rw_inv_read_unlock:
  assumes "rw_inv n s" "t < n" "rw_pc s t = Reading"
  shows "rw_inv n (s\<lparr>rw_lock := rw_lock s - 2, rw_pc := (rw_pc s)(t := RwIdle)\<rparr>)"
proof -
  let ?R = "holders Reading n s" and ?W = "holders Writing n s"
  have t: "t \<in> ?R" "t \<notin> ?W" using assms(2,3) by (simp_all add: in_holders)
  then have pos: "0 < card ?R" by (auto simp: card_gt_0_iff)
  from assms(1) have l: "unat (rw_lock s) = 2 * card ?R + card ?W" by (simp add: rw_inv_def)
  with pos have "2 \<le> unat (rw_lock s)" by simp
  then have "unat (rw_lock s - 2) = unat (rw_lock s) - 2"
    by (simp add: unat_sub_if')
  with assms(1,2) t l pos show ?thesis
    by (auto simp: rw_inv_def holders_upd)
qed

lemma rw_inv_write_enter:
  assumes "rw_inv n s" "t < n" "rw_pc s t = WriteSeen" "rw_lock s = 0"
  shows "rw_inv n (s\<lparr>rw_lock := 1, rw_pc := (rw_pc s)(t := Writing)\<rparr>)"
proof -
  from assms(1,4) have "holders Reading n s = {}" "holders Writing n s = {}" by (auto simp: rw_inv_def)
  with assms show ?thesis by (auto simp: rw_inv_def holders_upd)
qed

lemma rw_inv_write_unlock:
  assumes "rw_inv n s" "t < n" "rw_pc s t = Writing"
  shows "rw_inv n (s\<lparr>rw_lock := 0, rw_pc := (rw_pc s)(t := RwIdle)\<rparr>)"
proof -
  have t: "t \<in> holders Writing n s" using assms(2,3) by (simp add: in_holders)
  with assms(1) have "holders Reading n s = {}" by (auto simp: rw_inv_def)
  moreover from t assms(1) have "holders Writing n s = {t}"
    by (auto simp: rw_inv_def card_le_Suc0_iff_eq)
  ultimately show ?thesis using assms(1,2) by (auto simp: rw_inv_def holders_upd)
qed

lemma rw_inv_step: "rw_step n s s' \<Longrightarrow> rw_inv n s \<Longrightarrow> n < 2 ^ 31 \<Longrightarrow> rw_inv n s'"
proof (induction rule: rw_step.induct)
  case (read_enter t s tmp)
  then show ?case using rw_inv_read_enter [of n s t] by simp
qed (auto intro: rw_inv_neutral rw_inv_read_unlock rw_inv_write_enter rw_inv_write_unlock)

lemma rw_inv_reachable: "rw_reachable n s \<Longrightarrow> n < 2 ^ 31 \<Longrightarrow> rw_inv n s"
  by (induction rule: rw_reachable.induct) (auto intro: rw_inv_init rw_inv_step)

subsection \<open>Properties\<close>

text \<open>
  C35: The reader-writer lock excludes: with fewer than \<open>2 ^ 31\<close> CPUs, in every state the
  interleaved plain reads and compare-and-swaps can reach, a CPU that holds the lock for writing
  is the only holder.
\<close>

theorem rwlock_excludes:
  assumes "rw_reachable n s" and "n < 2 ^ 31" and "t < n" and "u < n"
    and "rw_pc s t = Writing" and "u \<noteq> t"
  shows "rw_pc s u \<noteq> Writing \<and> rw_pc s u \<noteq> Reading"
proof -
  from rw_inv_reachable [OF assms(1,2)] have inv: "rw_inv n s" .
  have "t \<in> holders Writing n s" using assms(3,5) by (simp add: in_holders)
  with inv have "holders Reading n s = {}" "u \<in> holders Writing n s \<Longrightarrow> u = t"
    by (auto simp: rw_inv_def card_le_Suc0_iff_eq)
  with assms(4,6) show ?thesis by (auto simp: in_holders [OF assms(4), symmetric])
qed

theorem rwlock_excludes_witness:
  "\<exists>s. rw_reachable 2 s \<and> rw_pc s 0 = Writing \<and> rw_pc s 1 = WriteSeen
     \<and> rw_pc s 1 \<noteq> Writing \<and> rw_pc s 1 \<noteq> Reading"
proof -
  let ?s0 = "\<lparr>rw_lock = 0, rw_pc = (\<lambda>t. RwIdle)\<rparr>"
  let ?s1 = "?s0\<lparr>rw_pc := (rw_pc ?s0)(0 := WriteSeen)\<rparr>"
  let ?s2 = "?s1\<lparr>rw_pc := (rw_pc ?s1)(1 := WriteSeen)\<rparr>"
  let ?s3 = "?s2\<lparr>rw_lock := 1, rw_pc := (rw_pc ?s2)(0 := Writing)\<rparr>"
  have "rw_reachable 2 ?s0" by (rule rw_reachable.unlocked)
  then have "rw_reachable 2 ?s1" by (rule rw_reachable.step) (rule rw_step.write_see, simp_all)
  then have "rw_reachable 2 ?s2" by (rule rw_reachable.step) (rule rw_step.write_see, simp_all)
  then have reach: "rw_reachable 2 ?s3" by (rule rw_reachable.step) (rule rw_step.write_enter, simp_all)
  have "rw_pc ?s3 1 \<noteq> Writing \<and> rw_pc ?s3 1 \<noteq> Reading"
    by (rule rwlock_excludes [OF reach, of 0 1]) simp_all
  then show ?thesis using reach by (intro exI [of _ ?s3]) simp
qed

text \<open>
  The ticket lock works twice. A single CPU that takes and releases a fresh lock succeeds
  two times; its third \<open>arch_spin_lock\<close> waits for a ticket that is never served and does not
  return, because every \<open>arch_spin_lock\<close> adds the tail to itself.
\<close>

theorem third_spin_lock_never_returns:
  "\<exists>l1 l2. lock_round SPIN_LOCK_UNLOCKED = Some l1 \<and> lock_round l1 = Some l2 \<and> arch_spin_lock l2 = None"
  by (simp add: lock_round_def arch_spin_lock_def take_ticket_def spin_wait_eq
      arch_spin_unlock_def Let_def drop_bit_eq_div)

text \<open>
  \<open>arch_spin_trylock\<close> succeeds on a lock exactly when head and tail are both zero, that is
  only on a lock that was never taken: a released lock is refused.
\<close>

theorem trylock_only_fresh:
  "fst (arch_spin_trylock lock) \<longleftrightarrow> lk_head lock = 0 \<and> lk_tail lock = 0"
  using shift_self_zero [of "lk_tail lock"]
  by (auto simp: arch_spin_trylock_def Let_def)

end
