(* ===== verification/Skbuff.thy ===== *)
theory Skbuff
  imports Linked_List Atomic "HOL-Library.Monad_Syntax"
begin

text \<open>
  net/skbuff.h and net/skbuff.c: socket buffers and their queues. The links \<open>next\<close> and
  \<open>prev\<close> are kept in maps of their own, because the queue head is cast to a buffer and shares
  exactly these two leading fields with it. \<open>kmalloc_page\<close> is not part of the sources: the page it
  returns (null on failure) is an argument; \<open>kfree_page\<close> and the destructors are recorded in the
  order they are called. The sources use a field \<open>protocol\<close> that the struct does not declare; the
  model has it.
\<close>

record sk_buff =
  sk_list :: ptr
  sk_tstamp :: u64
  sk_sk :: ptr
  sk_dev :: ptr
  sk_cb :: ptr
  sk_len :: u32
  sk_data_len :: u32
  sk_mac_len :: u16
  sk_hdr_len :: u16
  sk_queue_mapping :: u16
  sk_cloned :: u8
  sk_ip_summed :: u8
  sk_pkt_type :: u8
  sk_priority :: u32
  sk_users :: atomic_t
  sk_truesize :: u32
  sk_head :: ptr
  sk_data :: ptr
  sk_tail :: ptr
  sk_end :: ptr
  sk_nh :: ptr
  sk_destructor :: ptr
  sk_protocol :: u16

record skb_heap =
  sk_next :: "ptr \<Rightarrow> ptr"
  sk_prev :: "ptr \<Rightarrow> ptr"
  qlen :: "ptr \<Rightarrow> u32"
  skb :: "ptr \<Rightarrow> sk_buff"
  bytes :: "ptr \<Rightarrow> u8"
  destroyed :: "(ptr \<times> ptr) list"
  freed :: "ptr list"

definition upd_skb :: "ptr \<Rightarrow> (sk_buff \<Rightarrow> sk_buff) \<Rightarrow> skb_heap \<Rightarrow> skb_heap" where
  "upd_skb p f h = h\<lparr>skb := (skb h)(p := f (skb h p))\<rparr>"

text \<open>The size of the struct with 8-byte pointers and natural alignment.\<close>

definition sizeof_sk_buff :: u32 where "sizeof_sk_buff = 136"

definition SKB_DATA_ALIGN :: "u32 \<Rightarrow> u32" where
  "SKB_DATA_ALIGN x = (x + 63) AND NOT 63"

definition zero_skb :: sk_buff where
  "zero_skb = \<lparr>sk_list = NULL, sk_tstamp = 0, sk_sk = NULL, sk_dev = NULL, sk_cb = NULL, sk_len = 0,
     sk_data_len = 0, sk_mac_len = 0, sk_hdr_len = 0, sk_queue_mapping = 0, sk_cloned = 0, sk_ip_summed = 0,
     sk_pkt_type = 0, sk_priority = 0, sk_users = \<lparr>counter = 0\<rparr>, sk_truesize = 0, sk_head = NULL,
     sk_data = NULL, sk_tail = NULL, sk_end = NULL, sk_nh = NULL, sk_destructor = NULL, sk_protocol = 0\<rparr>"

subsection \<open>Data pointers\<close>

definition skb_put :: "ptr \<Rightarrow> u32 \<Rightarrow> skb_heap \<Rightarrow> ptr \<times> skb_heap" where
  "skb_put p len h =
     (sk_tail (skb h p), upd_skb p (\<lambda>s. s\<lparr>sk_tail := sk_tail s + ucast len, sk_len := sk_len s + len\<rparr>) h)"

definition skb_push :: "ptr \<Rightarrow> u32 \<Rightarrow> skb_heap \<Rightarrow> ptr \<times> skb_heap" where
  "skb_push p len h =
     (let h = upd_skb p (\<lambda>s. s\<lparr>sk_data := sk_data s - ucast len, sk_len := sk_len s + len\<rparr>) h
      in (sk_data (skb h p), h))"

definition skb_pull :: "ptr \<Rightarrow> u32 \<Rightarrow> skb_heap \<Rightarrow> ptr \<times> skb_heap" where
  "skb_pull p len h =
     (let h = upd_skb p (\<lambda>s. s\<lparr>sk_len := sk_len s - len, sk_data := sk_data s + ucast len\<rparr>) h
      in (sk_data (skb h p), h))"

text \<open>The length of \<open>skb_reserve\<close> is an int and is sign-extended.\<close>

definition skb_reserve :: "ptr \<Rightarrow> u32 \<Rightarrow> skb_heap \<Rightarrow> skb_heap" where
  "skb_reserve p len h =
     upd_skb p (\<lambda>s. s\<lparr>sk_data := sk_data s + scast len, sk_tail := sk_tail s + scast len\<rparr>) h"

definition skb_headroom :: "ptr \<Rightarrow> skb_heap \<Rightarrow> u32" where
  "skb_headroom p h = ucast (sk_data (skb h p) - sk_head (skb h p))"

definition skb_tailroom :: "ptr \<Rightarrow> skb_heap \<Rightarrow> u32" where
  "skb_tailroom p h = ucast (sk_end (skb h p) - sk_tail (skb h p))"

definition skb_reset_mac_header :: "ptr \<Rightarrow> skb_heap \<Rightarrow> skb_heap" where
  "skb_reset_mac_header p h = upd_skb p (\<lambda>s. s\<lparr>sk_nh := sk_data s\<rparr>) h"

definition skb_set_mac_header :: "ptr \<Rightarrow> u32 \<Rightarrow> skb_heap \<Rightarrow> skb_heap" where
  "skb_set_mac_header p offset h = upd_skb p (\<lambda>s. s\<lparr>sk_nh := sk_data s + scast offset\<rparr>) h"

definition skb_reset_network_header :: "ptr \<Rightarrow> skb_heap \<Rightarrow> skb_heap" where
  "skb_reset_network_header p h = upd_skb p (\<lambda>s. s\<lparr>sk_nh := sk_data s\<rparr>) h"

definition skb_network_header :: "ptr \<Rightarrow> skb_heap \<Rightarrow> ptr" where
  "skb_network_header p h = sk_nh (skb h p)"

definition skb_reset_transport_header :: "ptr \<Rightarrow> skb_heap \<Rightarrow> skb_heap" where
  "skb_reset_transport_header p h = upd_skb p (\<lambda>s. s\<lparr>sk_nh := sk_data s\<rparr>) h"

definition skb_transport_header :: "ptr \<Rightarrow> skb_heap \<Rightarrow> ptr" where
  "skb_transport_header p h = sk_nh (skb h p)"

subsection \<open>Allocation\<close>

definition alloc_skb :: "ptr \<Rightarrow> u32 \<Rightarrow> skb_heap \<Rightarrow> ptr \<times> skb_heap" where
  "alloc_skb page sz h =
     (let alloc_size = SKB_DATA_ALIGN sizeof_sk_buff + SKB_DATA_ALIGN sz
      in if page = NULL then (NULL, h)
         else let data = page + ucast (SKB_DATA_ALIGN sizeof_sk_buff);
                  h = h\<lparr>sk_next := (sk_next h)(page := NULL), sk_prev := (sk_prev h)(page := NULL)\<rparr>;
                  h = upd_skb page (\<lambda>_. zero_skb) h
              in (page, upd_skb page (\<lambda>s. s\<lparr>sk_head := data, sk_data := data, sk_tail := data,
                   sk_end := data + ucast sz, sk_len := 0, sk_data_len := 0, sk_truesize := alloc_size,
                   sk_users := atomic_set (sk_users s) 1\<rparr>) h))"

definition dev_alloc_skb :: "ptr \<Rightarrow> u32 \<Rightarrow> skb_heap \<Rightarrow> ptr \<times> skb_heap" where
  "dev_alloc_skb page len h =
     (let (p, h) = alloc_skb page (len + 64) h
      in (p, if p \<noteq> NULL then skb_reserve p 64 h else h))"

definition kfree_skb :: "ptr \<Rightarrow> skb_heap \<Rightarrow> skb_heap" where
  "kfree_skb p h =
     (if p = NULL then h
      else let (last, users) = atomic_dec_and_test (sk_users (skb h p));
               h = upd_skb p (\<lambda>s. s\<lparr>sk_users := users\<rparr>) h
           in if \<not> last then h
              else let h = (if sk_destructor (skb h p) \<noteq> NULL
                            then h\<lparr>destroyed := destroyed h @ [(sk_destructor (skb h p), p)]\<rparr> else h)
                   in h\<lparr>freed := freed h @ [p]\<rparr>)"

definition copy_byte :: "ptr \<Rightarrow> ptr \<Rightarrow> nat \<Rightarrow> skb_heap \<Rightarrow> skb_heap" where
  "copy_byte dst src i h = h\<lparr>bytes := (bytes h)(dst + of_nat i := bytes h (src + of_nat i))\<rparr>"

definition memcpy :: "ptr \<Rightarrow> ptr \<Rightarrow> nat \<Rightarrow> skb_heap \<Rightarrow> skb_heap" where
  "memcpy dst src n h = for_upto n (copy_byte dst src) h"

definition skb_clone :: "ptr \<Rightarrow> ptr \<Rightarrow> skb_heap \<Rightarrow> ptr \<times> skb_heap" where
  "skb_clone page p h =
     (let (n, h) = alloc_skb page (sk_len (skb h p)) h
      in if n = NULL then (NULL, h)
         else let (dst, h) = skb_put n (sk_len (skb h p)) h;
                  h = memcpy dst (sk_data (skb h p)) (unat (sk_len (skb h p))) h;
                  h = upd_skb n (\<lambda>s. s\<lparr>sk_dev := sk_dev (skb h p), sk_protocol := sk_protocol (skb h p),
                        sk_pkt_type := sk_pkt_type (skb h p), sk_priority := sk_priority (skb h p)\<rparr>) h
              in (n, h))"

definition skb_copy :: "ptr \<Rightarrow> ptr \<Rightarrow> skb_heap \<Rightarrow> ptr \<times> skb_heap" where
  "skb_copy page p h =
     (let headerlen = ucast (sk_data (skb h p) - sk_head (skb h p)) :: u32;
          (n, h) = alloc_skb page (sk_len (skb h p) + headerlen) h
      in if n = NULL then (NULL, h)
         else let h = skb_reserve n headerlen h;
                  (dst, h) = skb_put n (sk_len (skb h p)) h
              in (n, memcpy dst (sk_data (skb h p)) (unat (sk_len (skb h p))) h))"

subsection \<open>Queues\<close>

definition skb_queue_head_init :: "ptr \<Rightarrow> skb_heap \<Rightarrow> skb_heap" where
  "skb_queue_head_init list h =
     h\<lparr>sk_prev := (sk_prev h)(list := list), sk_next := (sk_next h)(list := list), qlen := (qlen h)(list := 0)\<rparr>"

definition skb_queue_tail :: "ptr \<Rightarrow> ptr \<Rightarrow> skb_heap \<Rightarrow> skb_heap" where
  "skb_queue_tail list newsk h =
     (let h = upd_skb newsk (\<lambda>s. s\<lparr>sk_list := list\<rparr>) h;
          h = h\<lparr>qlen := (qlen h)(list := qlen h list + 1)\<rparr>;
          prev = list; nxt = sk_next h list;
          h = h\<lparr>sk_next := (sk_next h)(newsk := nxt)\<rparr>;
          h = h\<lparr>sk_prev := (sk_prev h)(newsk := prev)\<rparr>;
          h = h\<lparr>sk_prev := (sk_prev h)(nxt := newsk)\<rparr>
      in h\<lparr>sk_next := (sk_next h)(prev := newsk)\<rparr>)"

definition skb_dequeue :: "ptr \<Rightarrow> skb_heap \<Rightarrow> ptr \<times> skb_heap" where
  "skb_dequeue list h =
     (let p = sk_next h list
      in if p = list then (NULL, h)
         else let h = h\<lparr>sk_next := (sk_next h)(list := sk_next h p)\<rparr>;
                  h = h\<lparr>sk_prev := (sk_prev h)(sk_next h p := list)\<rparr>;
                  h = h\<lparr>qlen := (qlen h)(list := qlen h list - 1)\<rparr>
              in (p, upd_skb p (\<lambda>s. s\<lparr>sk_list := NULL\<rparr>) h))"

partial_function (option) skb_queue_purge :: "ptr \<Rightarrow> skb_heap \<Rightarrow> skb_heap option" where
  "skb_queue_purge list h =
     (case skb_dequeue list h of (p, h) \<Rightarrow>
        if p = NULL then Some h else skb_queue_purge list (kfree_skb p h))"

definition skb_queue_len :: "ptr \<Rightarrow> skb_heap \<Rightarrow> u32" where
  "skb_queue_len list h = qlen h list"

subsection \<open>Circular lists\<close>

fun fpath :: "(ptr \<Rightarrow> ptr) \<Rightarrow> ptr \<Rightarrow> ptr list \<Rightarrow> ptr \<Rightarrow> bool" where
  "fpath f p [] q \<longleftrightarrow> f p = q"
| "fpath f p (a # as) q \<longleftrightarrow> f p = a \<and> fpath f a as q"

lemma fpath_append: "fpath f p (as @ b # bs) q \<longleftrightarrow> fpath f p as b \<and> fpath f b bs q"
  by (induction as arbitrary: p) auto

lemma fpath_upd [simp]: "x \<notin> set (p # as) \<Longrightarrow> fpath (f(x := v)) p as q = fpath f p as q"
  by (induction as arbitrary: p) auto

text \<open>The queue with head \<open>list\<close> holds the buffers \<open>as\<close>, first the one dequeued next.\<close>

definition queue_rep :: "ptr \<Rightarrow> skb_heap \<Rightarrow> ptr list \<Rightarrow> bool" where
  "queue_rep list h as \<longleftrightarrow> fpath (sk_next h) list as list \<and> fpath (sk_prev h) list (rev as) list
     \<and> distinct (list # as) \<and> NULL \<notin> set as \<and> qlen h list = of_nat (length as)"

lemma queue_rep_init: "queue_rep list (skb_queue_head_init list h) []"
  by (simp add: queue_rep_def skb_queue_head_init_def)

lemma queue_rep_enqueue:
  assumes "queue_rep list h as" "x \<notin> set (list # as)" "x \<noteq> NULL"
  shows "queue_rep list (skb_queue_tail list x h) (x # as)"
proof (cases as)
  case Nil
  with assms show ?thesis
    by (auto simp: queue_rep_def skb_queue_tail_def upd_skb_def Let_def)
next
  case (Cons a bs)
  with assms show ?thesis
    by (auto simp: queue_rep_def skb_queue_tail_def upd_skb_def Let_def fpath_append)
qed

lemma queue_rep_dequeue:
  assumes "queue_rep list h (a # as)"
  shows "fst (skb_dequeue list h) = a \<and> queue_rep list (snd (skb_dequeue list h)) as"
proof (cases as)
  case Nil
  with assms show ?thesis
    by (auto simp: queue_rep_def skb_dequeue_def upd_skb_def Let_def)
next
  case (Cons b bs)
  with assms show ?thesis
    by (auto simp: queue_rep_def skb_dequeue_def upd_skb_def Let_def fpath_append)
qed

lemma queue_rep_empty: "queue_rep list h [] \<Longrightarrow> skb_dequeue list h = (NULL, h)"
  by (simp add: queue_rep_def skb_dequeue_def)

subsection \<open>The queue contract\<close>

text \<open>What a container of buffers that hands out the last one first promises, as a relation
  between its state and the list of its contents.\<close>

locale lifo_store =
  fixes rep :: "'h \<Rightarrow> 'x list \<Rightarrow> bool"
    and put_in :: "'x \<Rightarrow> 'h \<Rightarrow> 'h"
    and take_out :: "'h \<Rightarrow> 'x \<times> 'h"
    and fresh :: "'x \<Rightarrow> 'x list \<Rightarrow> bool"
  assumes rep_put: "rep h as \<Longrightarrow> fresh x as \<Longrightarrow> rep (put_in x h) (x # as)"
    and rep_take: "rep h (a # as) \<Longrightarrow> fst (take_out h) = a \<and> rep (snd (take_out h)) as"
begin

fun put_all :: "'x list \<Rightarrow> 'h \<Rightarrow> 'h" where
  "put_all [] h = h"
| "put_all (x # xs) h = put_all xs (put_in x h)"

fun take_n :: "nat \<Rightarrow> 'h \<Rightarrow> 'x list \<times> 'h" where
  "take_n 0 h = ([], h)"
| "take_n (Suc n) h = (let (x, h) = take_out h; (xs, h) = take_n n h in (x # xs, h))"

fun all_fresh :: "'x list \<Rightarrow> 'x list \<Rightarrow> bool" where
  "all_fresh [] as = True"
| "all_fresh (x # xs) as = (fresh x as \<and> all_fresh xs (x # as))"

lemma rep_put_all: "rep h as \<Longrightarrow> all_fresh xs as \<Longrightarrow> rep (put_all xs h) (rev xs @ as)"
  by (induction xs arbitrary: h as) (auto intro: rep_put)

lemma rep_take_n: "rep h (as @ bs) \<Longrightarrow> fst (take_n (length as) h) = as \<and> rep (snd (take_n (length as) h)) bs"
proof (induction as arbitrary: h)
  case Nil
  then show ?case by simp
next
  case (Cons a as)
  from rep_take [of h a "as @ bs"] Cons.prems
  have "fst (take_out h) = a" "rep (snd (take_out h)) (as @ bs)" by simp_all
  with Cons.IH [of "snd (take_out h)"] show ?case by (simp add: split_beta Let_def)
qed

lemma put_all_take_n:
  assumes "rep h as" "all_fresh xs as"
  shows "fst (take_n (length xs) (put_all xs h)) = rev xs"
  using rep_take_n [of "put_all xs h" "rev xs" as] rep_put_all [OF assms] by simp

end

definition queue_fresh :: "ptr \<Rightarrow> ptr \<Rightarrow> ptr list \<Rightarrow> bool" where
  "queue_fresh list x as \<longleftrightarrow> x \<notin> set (list # as) \<and> x \<noteq> NULL"

interpretation skbq: lifo_store "queue_rep list" "skb_queue_tail list" "skb_dequeue list" "queue_fresh list"
  for list
  by unfold_locales (simp_all add: queue_rep_enqueue queue_rep_dequeue queue_fresh_def)

lemma skbq_all_fresh:
  "skbq.all_fresh list xs as \<longleftrightarrow> distinct xs \<and> list \<notin> set xs \<and> NULL \<notin> set xs \<and> set xs \<inter> set as = {}"
  by (induction xs arbitrary: as) (auto simp: queue_fresh_def)

subsection \<open>Purging\<close>

abbreviation users :: "skb_heap \<Rightarrow> ptr \<Rightarrow> u32" where
  "users h p \<equiv> counter (sk_users (skb h p))"

lemma kfree_skb_effect:
  assumes "p \<noteq> NULL"
  shows "queue_rep list (kfree_skb p h) as = queue_rep list h as"
    and "users (kfree_skb p h) q = users h q - (if q = p then 1 else 0)"
    and "freed (kfree_skb p h) = freed h @ (if users h p = 1 then [p] else [])"
  using assms
  by (simp_all add: kfree_skb_def atomic_dec_and_test_def upd_skb_def queue_rep_def Let_def)

lemma skb_dequeue_effect:
  "users (snd (skb_dequeue list h)) q = users h q" "freed (snd (skb_dequeue list h)) = freed h"
  by (simp_all add: skb_dequeue_def upd_skb_def Let_def)

lemma skb_queue_purge_unfold:
  "skb_queue_purge list h = (if fst (skb_dequeue list h) = NULL then Some (snd (skb_dequeue list h))
     else skb_queue_purge list (kfree_skb (fst (skb_dequeue list h)) (snd (skb_dequeue list h))))"
  by (subst skb_queue_purge.simps) (simp add: split_beta)

lemma purge_correct:
  "queue_rep list h as \<Longrightarrow> \<exists>h'. skb_queue_purge list h = Some h' \<and> queue_rep list h' []
     \<and> freed h' = freed h @ filter (\<lambda>a. users h a = 1) as
     \<and> (\<forall>q. users h' q = users h q - (if q \<in> set as then 1 else 0))"
proof (induction as arbitrary: h)
  case Nil
  then show ?case
    using queue_rep_empty [OF Nil] by (subst skb_queue_purge_unfold) simp
next
  case (Cons a as)
  let ?d = "snd (skb_dequeue list h)"
  from Cons.prems have a: "a \<noteq> NULL" "a \<notin> set as" by (auto simp: queue_rep_def)
  from queue_rep_dequeue [OF Cons.prems]
  have deq: "fst (skb_dequeue list h) = a" "queue_rep list ?d as" by auto
  then have "queue_rep list (kfree_skb a ?d) as" using a by (simp add: kfree_skb_effect)
  from Cons.IH [OF this] obtain h' where h': "skb_queue_purge list (kfree_skb a ?d) = Some h'"
    "queue_rep list h' []" "freed h' = freed (kfree_skb a ?d) @ filter (\<lambda>b. users (kfree_skb a ?d) b = 1) as"
    "\<forall>q. users h' q = users (kfree_skb a ?d) q - (if q \<in> set as then 1 else 0)" by blast
  have "skb_queue_purge list h = Some h'"
    using h'(1) deq(1) a(1) by (subst skb_queue_purge_unfold) simp
  moreover have "filter (\<lambda>b. users (kfree_skb a ?d) b = 1) as = filter (\<lambda>b. users h b = 1) as"
    using a by (intro filter_cong) (auto simp: kfree_skb_effect skb_dequeue_effect)
  ultimately show ?case
    using h' a by (auto simp: kfree_skb_effect skb_dequeue_effect)
qed

subsection \<open>Data area\<close>

text \<open>The data area of a buffer: \<open>head <= data <= tail <= end\<close> and \<open>len\<close> is the
  distance from data to tail.\<close>

definition skb_ok :: "sk_buff \<Rightarrow> bool" where
  "skb_ok s \<longleftrightarrow> sk_head s \<le> sk_data s \<and> sk_data s \<le> sk_tail s \<and> sk_tail s \<le> sk_end s
     \<and> unat (sk_end s) - unat (sk_head s) < 2 ^ 32
     \<and> unat (sk_len s) = unat (sk_tail s) - unat (sk_data s)"

text \<open>The bytes between data and tail.\<close>

definition skb_payload :: "ptr \<Rightarrow> skb_heap \<Rightarrow> u8 list" where
  "skb_payload p h = map (\<lambda>i. bytes h (sk_data (skb h p) + of_nat i)) [0..<unat (sk_len (skb h p))]"

lemma skb_ok_nat:
  "skb_ok s \<longleftrightarrow> unat (sk_head s) \<le> unat (sk_data s) \<and> unat (sk_data s) \<le> unat (sk_tail s)
     \<and> unat (sk_tail s) \<le> unat (sk_end s) \<and> unat (sk_end s) - unat (sk_head s) < 4294967296
     \<and> unat (sk_len s) = unat (sk_tail s) - unat (sk_data s)"
  by (simp add: skb_ok_def word_le_nat_alt)

lemma skb_okD:
  assumes "skb_ok s"
  shows "unat (sk_head s) \<le> unat (sk_data s)" and "unat (sk_data s) \<le> unat (sk_tail s)"
    and "unat (sk_tail s) \<le> unat (sk_end s)" and "unat (sk_end s) - unat (sk_head s) < 4294967296"
    and "unat (sk_len s) = unat (sk_tail s) - unat (sk_data s)"
  using assms by (simp_all add: skb_ok_nat)

lemma skb_room:
  assumes "skb_ok (skb h p)"
  shows "unat (skb_tailroom p h) = unat (sk_end (skb h p)) - unat (sk_tail (skb h p))"
    and "unat (skb_headroom p h) = unat (sk_data (skb h p)) - unat (sk_head (skb h p))"
proof -
  note o = skb_okD [OF assms]
  from o have "unat (sk_end (skb h p)) - unat (sk_tail (skb h p)) < 4294967296"
    "unat (sk_data (skb h p)) - unat (sk_head (skb h p)) < 4294967296" by linarith+
  with o show "unat (skb_tailroom p h) = unat (sk_end (skb h p)) - unat (sk_tail (skb h p))"
    and "unat (skb_headroom p h) = unat (sk_data (skb h p)) - unat (sk_head (skb h p))"
    by (simp_all add: skb_tailroom_def skb_headroom_def ptr_diff_unat word_le_nat_alt)
qed

lemma skb_put_ok:
  assumes "skb_ok (skb h p)" "unat n \<le> unat (skb_tailroom p h)"
  shows "skb_ok (skb (snd (skb_put p n h)) p)"
    and "skb_payload p (snd (skb_put p n h)) =
      skb_payload p h @ map (\<lambda>i. bytes h (sk_tail (skb h p) + of_nat i)) [0..<unat n]"
proof -
  let ?s = "skb h p"
  note o = skb_okD [OF assms(1)] and n = assms(2) [unfolded skb_room [OF assms(1)]]
  have t: "unat (sk_tail ?s + ucast n) = unat (sk_tail ?s) + unat n"
    using ptr_below_top [of "sk_end ?s"] o n by (intro ptr_add_unat) linarith
  have l: "unat (sk_len ?s + n) = unat (sk_len ?s) + unat n"
    using o n by (intro u32_add_unat) linarith
  from t l o n show "skb_ok (skb (snd (skb_put p n h)) p)"
    by (simp add: skb_put_def upd_skb_def skb_ok_nat)
  have tail: "sk_tail ?s = sk_data ?s + of_nat (unat (sk_len ?s))"
    using o by (simp add: word_unat_eq_iff unat_word_ariths ptr_below_top)
  show "skb_payload p (snd (skb_put p n h)) =
      skb_payload p h @ map (\<lambda>i. bytes h (sk_tail ?s + of_nat i)) [0..<unat n]"
    by (simp add: skb_put_def upd_skb_def skb_payload_def l tail upt_split_add add.assoc)
qed

lemma push_bounds:
  "(a :: nat) \<le> d \<Longrightarrow> d \<le> t \<Longrightarrow> n \<le> d - a \<Longrightarrow> a \<le> d - n \<and> d - n \<le> t \<and> t - (d - n) = t - d + n"
  by arith

lemma skb_push_ok:
  assumes "skb_ok (skb h p)" "unat n \<le> unat (skb_headroom p h)"
  shows "skb_ok (skb (snd (skb_push p n h)) p)"
    and "drop (unat n) (skb_payload p (snd (skb_push p n h))) = skb_payload p h"
proof -
  let ?s = "skb h p"
  note o = skb_okD [OF assms(1)] and n = assms(2) [unfolded skb_room [OF assms(1)]]
  have t: "unat (sk_data ?s - ucast n) = unat (sk_data ?s) - unat n"
    using o n by (intro ptr_sub_unat) linarith
  have l: "unat (sk_len ?s + n) = unat (sk_len ?s) + unat n"
    using o n by (intro u32_add_unat) linarith
  from t l o push_bounds [OF o(1,2) n] show "skb_ok (skb (snd (skb_push p n h)) p)"
    by (simp add: skb_push_def upd_skb_def skb_ok_nat Let_def)
  have "drop (unat n) [0..<unat (sk_len ?s) + unat n] = map (\<lambda>i. i + unat n) [0..<unat (sk_len ?s)]"
    by (simp add: map_add_upt)
  then show "drop (unat n) (skb_payload p (snd (skb_push p n h))) = skb_payload p h"
    by (simp add: skb_push_def upd_skb_def skb_payload_def l Let_def drop_map)
qed

lemma skb_pull_ok:
  assumes "skb_ok (skb h p)" "unat n \<le> unat (sk_len (skb h p))"
  shows "skb_ok (skb (snd (skb_pull p n h)) p)"
    and "skb_payload p (snd (skb_pull p n h)) = drop (unat n) (skb_payload p h)"
proof -
  let ?s = "skb h p"
  note o = skb_okD [OF assms(1)]
  have t: "unat (sk_data ?s + ucast n) = unat (sk_data ?s) + unat n"
    using ptr_below_top [of "sk_tail ?s"] o assms(2) by (intro ptr_add_unat) linarith
  have l: "unat (sk_len ?s - n) = unat (sk_len ?s) - unat n"
    using assms(2) by (simp add: unat_sub_if')
  have "unat (sk_data ?s) + unat n \<le> unat (sk_tail ?s)" using o assms(2) by linarith
  with t l o show "skb_ok (skb (snd (skb_pull p n h)) p)"
    by (simp add: skb_pull_def upd_skb_def skb_ok_nat Let_def)
  have "[unat n..<unat (sk_len ?s)] = map (\<lambda>i. i + unat n) [0..<unat (sk_len ?s) - unat n]"
    using assms(2) by (simp add: map_add_upt)
  then show "skb_payload p (snd (skb_pull p n h)) = drop (unat n) (skb_payload p h)"
    by (simp add: skb_pull_def upd_skb_def skb_payload_def l Let_def drop_map ac_simps)
qed

subsection \<open>Allocation and copies\<close>

lemma skb_align_struct: "SKB_DATA_ALIGN sizeof_sk_buff = 192"
  by (simp add: SKB_DATA_ALIGN_def sizeof_sk_buff_def)

lemma alloc_skb_success:
  assumes "page \<noteq> NULL"
  shows "fst (alloc_skb page n h) = page"
    and "q \<noteq> page \<Longrightarrow> skb (snd (alloc_skb page n h)) q = skb h q"
    and "bytes (snd (alloc_skb page n h)) = bytes h"
    and "sk_data (skb (snd (alloc_skb page n h)) page) = page + 192"
    and "sk_head (skb (snd (alloc_skb page n h)) page) = page + 192"
    and "sk_tail (skb (snd (alloc_skb page n h)) page) = page + 192"
    and "sk_end (skb (snd (alloc_skb page n h)) page) = page + 192 + ucast n"
    and "sk_len (skb (snd (alloc_skb page n h)) page) = 0"
    and "users (snd (alloc_skb page n h)) page = 1"
  using assms
  by (simp_all add: alloc_skb_def Let_def upd_skb_def skb_align_struct atomic_set_def)

lemma copy_byte_bytes [simp]:
  "bytes (copy_byte d s i h) = (bytes h)(d + of_nat i := bytes h (s + of_nat i))"
  by (simp add: copy_byte_def)

lemma memcpy_fields [simp]: "skb (memcpy d s n h) = skb h"
  unfolding memcpy_def by (rule for_upto_inv [where P = "\<lambda>_ t. skb t = skb h"]) (simp_all add: copy_byte_def)

text \<open>A copy between areas that do not meet moves the source bytes and nothing else.\<close>

lemma memcpy_bytes:
  assumes apart: "\<And>i j. i < n \<Longrightarrow> j < n \<Longrightarrow> s + of_nat i \<noteq> d + of_nat j"
    and small: "n \<le> 2 ^ 64"
  shows "i < n \<Longrightarrow> bytes (memcpy d s n h) (d + of_nat i) = bytes h (s + of_nat i)"
    and "\<forall>j < n. x \<noteq> d + of_nat j \<Longrightarrow> bytes (memcpy d s n h) x = bytes h x"
proof -
  have inj: "i = j" if "i < n" "j < n" "(of_nat i :: u64) = of_nat j" for i j
    using that small by (simp add: word_of_nat_eq_iff take_bit_nat_eq_self)
  have inv: "(\<forall>i < k. bytes (for_upto k (copy_byte d s) h) (d + of_nat i) = bytes h (s + of_nat i))
      \<and> (\<forall>x. (\<forall>j < k. x \<noteq> d + of_nat j) \<longrightarrow> bytes (for_upto k (copy_byte d s) h) x = bytes h x)" if "k \<le> n" for k
    using that
  proof (induction k)
    case 0
    then show ?case by simp
  next
    case (Suc k)
    then have old: "\<forall>i < k. bytes (for_upto k (copy_byte d s) h) (d + of_nat i) = bytes h (s + of_nat i)"
      and rest: "\<forall>x. (\<forall>j < k. x \<noteq> d + of_nat j) \<longrightarrow> bytes (for_upto k (copy_byte d s) h) x = bytes h x"
      by simp_all
    have "\<forall>j < k. s + of_nat k \<noteq> d + of_nat j" using Suc.prems apart [of k] by simp
    with rest have src: "bytes (for_upto k (copy_byte d s) h) (s + of_nat k) = bytes h (s + of_nat k)" by blast
    have "(of_nat i :: u64) \<noteq> of_nat k" if "i < k" for i using that Suc.prems inj [of i k] by auto
    with old rest src show ?case by (simp add: less_Suc_eq all_conj_distrib imp_disjL)
  qed
  from inv [of n] show "i < n \<Longrightarrow> bytes (memcpy d s n h) (d + of_nat i) = bytes h (s + of_nat i)"
    and "\<forall>j < n. x \<noteq> d + of_nat j \<Longrightarrow> bytes (memcpy d s n h) x = bytes h x"
    by (simp_all add: memcpy_def)
qed

lemma alloc_put_fields:
  fixes page p :: ptr and n :: u32 and h :: skb_heap
  assumes "page \<noteq> NULL" "p \<noteq> page"
  defines "h2 \<equiv> snd (skb_put page n (snd (alloc_skb page n h)))"
  shows "fst (skb_put page n (snd (alloc_skb page n h))) = page + 192" and "skb h2 p = skb h p"
    and "bytes h2 = bytes h" and "sk_data (skb h2 page) = page + 192" and "sk_len (skb h2 page) = n"
  using assms by (simp_all add: skb_put_def upd_skb_def alloc_skb_success)

lemma skb_clone_eq:
  fixes page p :: ptr and h :: skb_heap
  assumes "page \<noteq> NULL" "p \<noteq> page"
  defines "n \<equiv> sk_len (skb h p)"
  defines "h2 \<equiv> snd (skb_put page n (snd (alloc_skb page n h)))"
  defines "h3 \<equiv> memcpy (page + 192) (sk_data (skb h p)) (unat n) h2"
  shows "skb_clone page p h = (page, upd_skb page (\<lambda>s. s\<lparr>sk_dev := sk_dev (skb h p),
    sk_protocol := sk_protocol (skb h p), sk_pkt_type := sk_pkt_type (skb h p),
    sk_priority := sk_priority (skb h p)\<rparr>) h3)"
proof -
  obtain h1 where a: "alloc_skb page n h = (page, h1)"
    using alloc_skb_success(1) [OF assms(1)] by (metis prod.collapse)
  have b: "skb_put page n h1 = (page + 192, h2)"
    using alloc_put_fields(1) [OF assms(1,2)] a by (metis h2_def prod.collapse snd_conv)
  have c: "skb h1 p = skb h p"
    using alloc_skb_success(2) [OF assms(1,2)] a by (metis snd_conv)
  have d: "skb h2 p = skb h p"
    unfolding h2_def by (rule alloc_put_fields [OF assms(1,2)])
  show ?thesis
    using assms(1) by (simp add: skb_clone_def n_def [symmetric] a c b d h3_def)
qed

lemma skb_clone_payload:
  assumes "page \<noteq> NULL" "p \<noteq> page"
    and apart: "\<And>i j. i < unat (sk_len (skb h p)) \<Longrightarrow> j < unat (sk_len (skb h p)) \<Longrightarrow>
      sk_data (skb h p) + of_nat i \<noteq> page + 192 + of_nat j"
  shows "skb_payload page (snd (skb_clone page p h)) = skb_payload p h"
    and "skb (snd (skb_clone page p h)) p = skb h p"
    and "i < unat (sk_len (skb h p)) \<Longrightarrow>
      bytes (snd (skb_clone page p h)) (sk_data (skb h p) + of_nat i) = bytes h (sk_data (skb h p) + of_nat i)"
proof -
  have small: "unat (sk_len (skb h p)) \<le> 2 ^ 64" using u32_below_top [of "sk_len (skb h p)"] by simp
  note copy = memcpy_bytes [OF apart small] and fields = alloc_put_fields [OF assms(1,2)]
  note eq = skb_clone_eq [OF assms(1,2)]
  show "skb_payload page (snd (skb_clone page p h)) = skb_payload p h"
    by (simp add: eq skb_payload_def upd_skb_def fields copy(1))
  show "skb (snd (skb_clone page p h)) p = skb h p"
    using assms(2) by (simp add: eq upd_skb_def fields)
  show "i < unat (sk_len (skb h p)) \<Longrightarrow>
      bytes (snd (skb_clone page p h)) (sk_data (skb h p) + of_nat i) = bytes h (sk_data (skb h p) + of_nat i)"
    using apart by (simp add: eq upd_skb_def fields copy(2))
qed

subsection \<open>Properties\<close>

text \<open>
  C36: \<open>skb_queue_tail\<close> and \<open>skb_dequeue\<close> implement a stack, not a queue: any number of distinct
  buffers queued one after the other come back from \<open>skb_dequeue\<close> in the reverse order, whatever
  the queue held before.
\<close>

theorem skb_queue_is_lifo:
  assumes "queue_rep list h as" and "distinct xs" and "list \<notin> set xs" and "NULL \<notin> set xs"
    and "set xs \<inter> set as = {}"
  shows "fst (skbq.take_n list (length xs) (skbq.put_all list xs h)) = rev xs"
  using assms by (intro skbq.put_all_take_n) (auto simp: skbq_all_fresh)

definition sample_skb_heap :: skb_heap where
  "sample_skb_heap = \<lparr>sk_next = (\<lambda>_. NULL), sk_prev = (\<lambda>_. NULL), qlen = (\<lambda>_. 0),
     skb = (\<lambda>_. zero_skb\<lparr>sk_users := \<lparr>counter = 1\<rparr>\<rparr>), bytes = (\<lambda>a. ucast a), destroyed = [], freed = []\<rparr>"

theorem skb_queue_is_lifo_witness:
  "fst (skbq.take_n 8 3 (skbq.put_all 8 [100, 200, 300] (skb_queue_head_init 8 sample_skb_heap))) = [300, 200, 100]"
  using skb_queue_is_lifo [OF queue_rep_init, of "[100, 200, 300]" 8 sample_skb_heap]
  by (simp add: numeral_3_eq_3)

text \<open>
  \<open>skb_queue_purge\<close> always ends. It leaves the queue empty and drops exactly one reference of
  every queued buffer, and it returns to the page allocator, in queue order, exactly the buffers whose
  last reference that was.
\<close>

theorem skb_queue_purge_ends:
  assumes "queue_rep list h as"
  shows "\<exists>h'. skb_queue_purge list h = Some h' \<and> queue_rep list h' []
     \<and> freed h' = freed h @ filter (\<lambda>a. users h a = 1) as
     \<and> (\<forall>q. users h' q = users h q - (if q \<in> set as then 1 else 0))"
  using purge_correct [OF assms] .

theorem skb_queue_purge_ends_witness:
  "\<exists>h h'. queue_rep 8 h [200, 100] \<and> skb_queue_purge 8 h = Some h' \<and> freed h' = [200, 100]"
proof -
  let ?h = "skb_queue_tail 8 200 (skb_queue_tail 8 100 (skb_queue_head_init 8 sample_skb_heap))"
  have rep: "queue_rep 8 ?h [200, 100]"
    by (intro queue_rep_enqueue queue_rep_init) simp_all
  have "freed ?h = []" "users ?h 100 = 1" "users ?h 200 = 1"
    by (simp_all add: skb_queue_tail_def skb_queue_head_init_def sample_skb_heap_def upd_skb_def Let_def)
  with skb_queue_purge_ends [OF rep] rep show ?thesis by auto
qed

text \<open>
  The operations on the data area keep \<open>head <= data <= tail <= end\<close> as long as the
  length stays within the room the accessors report: \<open>skb_put\<close> appends the bytes found at the old
  tail to the payload, \<open>skb_push\<close> puts its bytes before the payload, and \<open>skb_pull\<close> drops the
  first bytes of the payload.
\<close>

theorem skb_area_operations:
  assumes "skb_ok (skb h p)" and "unat a \<le> unat (skb_tailroom p h)"
    and "unat b \<le> unat (skb_headroom p h)" and "unat c \<le> unat (sk_len (skb h p))"
  shows "skb_ok (skb (snd (skb_put p a h)) p) \<and> skb_ok (skb (snd (skb_push p b h)) p)
    \<and> skb_ok (skb (snd (skb_pull p c h)) p)
    \<and> skb_payload p (snd (skb_put p a h)) = skb_payload p h @ map (\<lambda>i. bytes h (sk_tail (skb h p) + of_nat i)) [0..<unat a]
    \<and> drop (unat b) (skb_payload p (snd (skb_push p b h))) = skb_payload p h
    \<and> skb_payload p (snd (skb_pull p c h)) = drop (unat c) (skb_payload p h)"
  using skb_put_ok [OF assms(1,2)] skb_push_ok [OF assms(1,3)] skb_pull_ok [OF assms(1,4)] by simp

theorem skb_area_operations_witness:
  "\<exists>h. skb_ok (skb h 4096) \<and> skb_payload 4096 (snd (skb_pull 4096 2 h)) = drop 2 (skb_payload 4096 h)
     \<and> length (skb_payload 4096 h) = 4"
proof -
  let ?h = "upd_skb 4096 (\<lambda>s. s\<lparr>sk_head := 5000, sk_data := 5010, sk_tail := 5014, sk_end := 5020, sk_len := 4\<rparr>)
    sample_skb_heap"
  have ok: "skb_ok (skb ?h 4096)" by (simp add: skb_ok_def upd_skb_def)
  have "unat (6 :: u32) \<le> unat (skb_tailroom 4096 ?h)" "unat (10 :: u32) \<le> unat (skb_headroom 4096 ?h)"
    "unat (2 :: u32) \<le> unat (sk_len (skb ?h 4096))"
    by (simp_all add: skb_tailroom_def skb_headroom_def upd_skb_def)
  from skb_area_operations [OF ok this] have "skb_payload 4096 (snd (skb_pull 4096 2 ?h)) = drop 2 (skb_payload 4096 ?h)"
    by simp
  with ok show ?thesis by (intro exI [of _ ?h]) (simp add: skb_payload_def upd_skb_def)
qed

text \<open>
  \<open>alloc_skb\<close> does not check the requested size against the page it allocates: below the top
  of the address space the data area of the new buffer stays inside the 4096-byte page exactly
  when at most 3904 bytes are requested.
\<close>

theorem alloc_skb_overruns_page:
  assumes "page \<noteq> NULL" and "unat page + 2 ^ 33 < 2 ^ 64"
  shows "unat (sk_end (skb (snd (alloc_skb page n h)) page)) \<le> unat page + 4096 \<longleftrightarrow> unat n \<le> 3904"
proof -
  have "unat (page + 192) = unat page + 192" using assms(2) by (simp add: unat_word_ariths)
  then have "unat (page + 192 + ucast n) = unat page + 192 + unat n"
    using assms(2) u32_below_top [of n] by (subst ptr_add_unat) simp_all
  then show ?thesis by (simp add: alloc_skb_success [OF assms(1)])
qed

theorem alloc_skb_overruns_page_witness:
  "\<not> unat (sk_end (skb (snd (alloc_skb 4096 4000 sample_skb_heap)) 4096)) \<le> 8192"
  using alloc_skb_overruns_page [of 4096 4000 sample_skb_heap] by simp

text \<open>
  \<open>skb_clone\<close> on a page whose data area does not meet the original's payload gives a buffer
  with the same payload and leaves the original and its payload bytes unchanged.
\<close>

theorem skb_clone_copies:
  assumes "page \<noteq> NULL" "p \<noteq> page"
    and "\<And>i j. i < unat (sk_len (skb h p)) \<Longrightarrow> j < unat (sk_len (skb h p)) \<Longrightarrow>
      sk_data (skb h p) + of_nat i \<noteq> page + 192 + of_nat j"
  shows "skb_payload page (snd (skb_clone page p h)) = skb_payload p h
    \<and> skb_payload p (snd (skb_clone page p h)) = skb_payload p h
    \<and> skb (snd (skb_clone page p h)) p = skb h p"
  using skb_clone_payload [OF assms] by (simp add: skb_payload_def [of p])

theorem skb_clone_copies_witness:
  "\<exists>h. length (skb_payload 4096 h) = 2 \<and>
     skb_payload 8192 (snd (skb_clone 8192 4096 h)) = skb_payload 4096 h"
proof -
  let ?h = "upd_skb 4096 (\<lambda>s. s\<lparr>sk_data := 5000, sk_len := 2\<rparr>) sample_skb_heap"
  have l: "sk_len (skb ?h 4096) = 2" "sk_data (skb ?h 4096) = 5000" by (simp_all add: upd_skb_def)
  have "sk_data (skb ?h 4096) + of_nat i \<noteq> 8192 + 192 + of_nat j"
    if "i < unat (sk_len (skb ?h 4096))" "j < unat (sk_len (skb ?h 4096))" for i j
    using that unfolding l by (auto simp: less_2_cases_iff)
  with skb_clone_copies [of 8192 4096 ?h]
  have "skb_payload 8192 (snd (skb_clone 8192 4096 ?h)) = skb_payload 4096 ?h" by simp
  then show ?thesis by (intro exI [of _ ?h]) (simp add: skb_payload_def upd_skb_def)
qed

end
