(* ===== verification/Netdev.thy ===== *)
theory Netdev
  imports Skbuff
begin

text \<open>
  net/dev.h and net/dev.c: the list of network devices, registration by name and the transmit
  entry point. The network state holds the buffers of Skbuff next to the devices. The driver
  functions are not part of the sources: the device stores their addresses, and the values they
  return are the argument \<open>drv\<close>; the calls of the transmit and teardown functions are recorded.
\<close>

abbreviation IFNAMSIZ :: nat where "IFNAMSIZ \<equiv> 16"
abbreviation IFF_UP :: u16 where "IFF_UP \<equiv> 1"
abbreviation IFF_RUNNING :: u16 where "IFF_RUNNING \<equiv> 0x40"

record net_device_stats =
  rx_packets :: u64
  tx_packets :: u64
  rx_bytes :: u64
  tx_bytes :: u64
  rx_errors :: u64
  tx_errors :: u64
  rx_dropped :: u64
  tx_dropped :: u64
  multicast :: u64
  collisions :: u64

record net_device =
  nd_name :: "u8 list"
  nd_ifalias :: ptr
  nd_mem_end :: u64
  nd_mem_start :: u64
  nd_base_addr :: u64
  nd_irq :: u32
  nd_flags :: u16
  nd_features :: u64
  nd_mtu :: u32
  nd_type :: u16
  nd_hard_header_len :: u16
  nd_dev_addr :: "u8 list"
  nd_broadcast :: "u8 list"
  nd_stats :: net_device_stats
  nd_init :: ptr
  nd_uninit :: ptr
  nd_hard_start_xmit :: ptr
  nd_next :: ptr

record net_state =
  pkts :: skb_heap
  devs :: "ptr \<Rightarrow> net_device"
  dev_base :: ptr
  dev_count :: int
  uninit_calls :: "(ptr \<times> ptr) list"
  xmit_calls :: "(ptr \<times> ptr \<times> ptr) list"
  arp_calls :: "ptr list"

record driver_ops =
  run_init :: "ptr \<Rightarrow> ptr \<Rightarrow> int"
  run_xmit :: "ptr \<Rightarrow> ptr \<Rightarrow> ptr \<Rightarrow> int"

abbreviation on_pkts :: "(skb_heap \<Rightarrow> skb_heap) \<Rightarrow> net_state \<Rightarrow> net_state" where
  "on_pkts f s \<equiv> s\<lparr>pkts := f (pkts s)\<rparr>"

definition upd_dev :: "ptr \<Rightarrow> (net_device \<Rightarrow> net_device) \<Rightarrow> net_state \<Rightarrow> net_state" where
  "upd_dev d f s = s\<lparr>devs := (devs s)(d := f (devs s d))\<rparr>"

subsection \<open>C strings\<close>

text \<open>The string a character array holds, and \<open>strcmp(a, b) == 0\<close>.\<close>

definition cstr :: "u8 list \<Rightarrow> u8 list" where
  "cstr a = takeWhile (\<lambda>c. c \<noteq> 0) a"

definition streq :: "u8 list \<Rightarrow> u8 list \<Rightarrow> bool" where
  "streq a b \<longleftrightarrow> cstr a = cstr b"

text \<open>\<open>snprintf(name, IFNAMSIZ, "eth%d", n)\<close>: at most 15 characters and the terminator; the rest
  of the array keeps its value.\<close>

fun decimal_nat :: "nat \<Rightarrow> u8 list" where
  "decimal_nat n = (if n < 10 then [48 + of_nat n] else decimal_nat (n div 10) @ [48 + of_nat (n mod 10)])"

declare decimal_nat.simps [simp del]

definition decimal :: "int \<Rightarrow> u8 list" where
  "decimal i = (if i < 0 then 45 # decimal_nat (nat (- i)) else decimal_nat (nat i))"

definition eth_name :: "int \<Rightarrow> u8 list" where
  "eth_name n = take (IFNAMSIZ - 1) ([101, 116, 104] @ decimal n)"

definition snprintf_eth :: "u8 list \<Rightarrow> int \<Rightarrow> u8 list" where
  "snprintf_eth name n = eth_name n @ [0] @ drop (Suc (length (eth_name n))) name"

subsection \<open>Registration\<close>

partial_function (option) dev_search :: "(ptr \<Rightarrow> net_device) \<Rightarrow> u8 list \<Rightarrow> ptr \<Rightarrow> ptr option" where
  "dev_search h name d =
     (if d = NULL then Some NULL
      else if streq (nd_name (h d)) name then Some d
      else dev_search h name (nd_next (h d)))"

definition register_netdev :: "driver_ops \<Rightarrow> ptr \<Rightarrow> net_state \<Rightarrow> (int \<times> net_state) option" where
  "register_netdev drv dev s =
     (let s = (if nd_name (devs s dev) ! 0 = 0
               then upd_dev dev (\<lambda>d. d\<lparr>nd_name := snprintf_eth (nd_name d) (dev_count s)\<rparr>) s else s)
      in do {
        d \<leftarrow> dev_search (devs s) (nd_name (devs s dev)) (dev_base s);
        if d \<noteq> NULL then Some (-1, s)
        else if nd_init (devs s dev) \<noteq> NULL \<and> run_init drv (nd_init (devs s dev)) dev \<noteq> 0 then Some (-1, s)
        else (let s = upd_dev dev (\<lambda>d. d\<lparr>nd_next := dev_base s\<rparr>) s
              in Some (0, s\<lparr>dev_base := dev, dev_count := dev_count s + 1\<rparr>))
      })"

text \<open>\<open>unregister_netdev\<close> walks the addresses of the links: the variable \<open>dev_base\<close> and the
  \<open>next\<close> fields.\<close>

datatype link = Base | NextOf ptr

fun rd_link :: "link \<Rightarrow> net_state \<Rightarrow> ptr" where
  "rd_link Base s = dev_base s"
| "rd_link (NextOf d) s = nd_next (devs s d)"

fun wr_link :: "link \<Rightarrow> ptr \<Rightarrow> net_state \<Rightarrow> net_state" where
  "wr_link Base v s = s\<lparr>dev_base := v\<rparr>"
| "wr_link (NextOf d) v s = upd_dev d (\<lambda>x. x\<lparr>nd_next := v\<rparr>) s"

partial_function (option) unlink_dev :: "link \<Rightarrow> ptr \<Rightarrow> net_state \<Rightarrow> net_state option" where
  "unlink_dev p dev s =
     (if rd_link p s = NULL then Some s
      else if rd_link p s = dev
      then Some ((wr_link p (nd_next (devs s dev)) s)\<lparr>dev_count := dev_count s - 1\<rparr>)
      else unlink_dev (NextOf (rd_link p s)) dev s)"

definition unregister_netdev :: "ptr \<Rightarrow> net_state \<Rightarrow> net_state option" where
  "unregister_netdev dev s = do {
     s \<leftarrow> unlink_dev Base dev s;
     if nd_uninit (devs s dev) \<noteq> NULL
     then Some (s\<lparr>uninit_calls := uninit_calls s @ [(nd_uninit (devs s dev), dev)]\<rparr>)
     else Some s
   }"

definition dev_get_by_name :: "u8 list \<Rightarrow> net_state \<Rightarrow> ptr option" where
  "dev_get_by_name name s = dev_search (devs s) name (dev_base s)"

subsection \<open>Transmission\<close>

definition netif_running :: "net_device \<Rightarrow> bool" where
  "netif_running d \<longleftrightarrow> nd_flags d AND IFF_RUNNING \<noteq> 0"

definition netif_device_present :: "net_device \<Rightarrow> bool" where
  "netif_device_present d \<longleftrightarrow> nd_flags d AND IFF_UP \<noteq> 0"

definition dev_queue_xmit :: "driver_ops \<Rightarrow> ptr \<Rightarrow> net_state \<Rightarrow> int \<times> net_state" where
  "dev_queue_xmit drv p s =
     (let dev = sk_dev (skb (pkts s) p)
      in if dev = NULL \<or> \<not> netif_running (devs s dev) then (-1, on_pkts (kfree_skb p) s)
         else if nd_hard_start_xmit (devs s dev) = NULL then (-1, on_pkts (kfree_skb p) s)
         else (run_xmit drv (nd_hard_start_xmit (devs s dev)) p dev,
               s\<lparr>xmit_calls := xmit_calls s @ [(nd_hard_start_xmit (devs s dev), p, dev)]\<rparr>))"

subsection \<open>Library\<close>

interpretation devsearch: list_search
  "\<lambda>h d. nd_next (h d)" "\<lambda>h name d. streq (nd_name (h d)) name" dev_search
  by unfold_locales (subst dev_search.simps, simp)

definition dev_name :: "net_state \<Rightarrow> ptr \<Rightarrow> u8 list" where
  "dev_name s d = cstr (nd_name (devs s d))"

text \<open>The device list of a state: a proper list whose length is the device count and whose names
  are pairwise different.\<close>

definition netdev_ok :: "net_state \<Rightarrow> ptr list \<Rightarrow> bool" where
  "netdev_ok s ds \<longleftrightarrow> lpath (\<lambda>d. nd_next (devs s d)) (dev_base s) ds
     \<and> dev_count s = int (length ds) \<and> inj_on (dev_name s) (set ds)"

lemma decimal_nat_nonzero: "c \<in> set (decimal_nat n) \<Longrightarrow> c \<noteq> 0"
proof (induction n rule: decimal_nat.induct)
  case (1 n)
  have digit: "(48 :: u8) + of_nat k \<noteq> 0" if "k < 10" for k
  proof -
    have "unat ((48 :: u8) + of_nat k) = 48 + k" using that by (simp add: unat_word_ariths unat_of_nat)
    then show ?thesis by auto
  qed
  show ?case
    using 1 digit by (subst (asm) (2) decimal_nat.simps) (auto split: if_splits)
qed

lemma cstr_snprintf_eth: "cstr (snprintf_eth name n) = eth_name n"
proof -
  have "\<forall>c \<in> set ([101, 116, 104] @ decimal n). c \<noteq> 0"
    by (auto simp: decimal_def dest: decimal_nat_nonzero split: if_splits)
  then have "\<forall>c \<in> set (eth_name n). c \<noteq> 0"
    unfolding eth_name_def by (blast dest: in_set_takeD)
  then show ?thesis by (simp add: cstr_def snprintf_eth_def takeWhile_append2 takeWhile_tail)
qed

text \<open>Changes of a device outside the list do not matter to the list.\<close>

lemma dev_upd_other [simp]: "d \<noteq> x \<Longrightarrow> devs (upd_dev d f s) x = devs s x"
  by (simp add: upd_dev_def)

lemma dev_upd_same [simp]: "devs (upd_dev d f s) d = f (devs s d)"
  by (simp add: upd_dev_def)

lemma dev_upd_fields [simp]:
  "dev_base (upd_dev d f s) = dev_base s" "dev_count (upd_dev d f s) = dev_count s"
  by (simp_all add: upd_dev_def)

lemma netdev_ok_cong:
  assumes "\<And>x. x \<in> set ds \<Longrightarrow> devs t x = devs s x" "dev_base t = dev_base s" "dev_count t = dev_count s"
  shows "netdev_ok t ds = netdev_ok s ds"
proof -
  have "lpath (\<lambda>x. nd_next (devs t x)) p as = lpath (\<lambda>x. nd_next (devs s x)) p as"
    if "set as \<subseteq> set ds" for p as
    using that assms(1) by (induction as arbitrary: p) auto
  moreover have "inj_on (dev_name t) (set ds) = inj_on (dev_name s) (set ds)"
    using assms(1) by (intro inj_on_cong) (simp add: dev_name_def)
  ultimately show ?thesis by (simp add: netdev_ok_def assms(2,3))
qed

lemma netdev_ok_log [simp]: "netdev_ok (s\<lparr>uninit_calls := x\<rparr>) ds = netdev_ok s ds"
  by (rule netdev_ok_cong) simp_all

lemma dev_name_log [simp]: "dev_name (s\<lparr>uninit_calls := x\<rparr>) d = dev_name s d"
  by (simp add: dev_name_def)

lemma netdev_ok_upd_other: "d \<notin> set ds \<Longrightarrow> netdev_ok (upd_dev d f s) ds = netdev_ok s ds"
  by (rule netdev_ok_cong) (auto simp: upd_dev_def)

lemma dev_search_names:
  assumes "netdev_ok s ds"
  shows "dev_search (devs s) name (dev_base s) =
    Some (first_hit (\<lambda>d. dev_name s d = cstr name) ds)"
  using devsearch.search_path [of "devs s" "dev_base s" ds name] assms
  by (simp add: netdev_ok_def streq_def dev_name_def)

text \<open>The name a registration uses.\<close>

definition register_name :: "ptr \<Rightarrow> net_state \<Rightarrow> u8 list" where
  "register_name dev s = (if nd_name (devs s dev) ! 0 = 0 then eth_name (dev_count s) else dev_name s dev)"

lemma netdev_ok_cons:
  assumes "netdev_ok s ds" "dev \<noteq> NULL" "dev \<notin> set ds" "dev_name s dev \<notin> dev_name s ` set ds"
  shows "netdev_ok ((upd_dev dev (\<lambda>d. d\<lparr>nd_next := dev_base s\<rparr>) s)\<lparr>dev_base := dev, dev_count := dev_count s + 1\<rparr>) (dev # ds)"
    (is "netdev_ok ?t _")
proof -
  have "netdev_ok (?t\<lparr>dev_base := dev_base s, dev_count := dev_count s\<rparr>) ds"
    using assms(1,3) by (subst netdev_ok_cong [where s = s]) (auto simp: upd_dev_def)
  moreover have "dev_name ?t x = dev_name s x" for x
    by (simp add: dev_name_def upd_dev_def)
  moreover have "nd_next (devs ?t dev) = dev_base s" by simp
  moreover have "inj_on (dev_name ?t) (set ds)" using assms(1) calculation(2) by (simp add: netdev_ok_def inj_on_def)
  ultimately show ?thesis
    using assms(2,4) by (simp add: netdev_ok_def) auto
qed

text \<open>Registration of a device outside the list, on every branch.\<close>

lemma register_netdev_cases:
  fixes drv :: driver_ops
  assumes "netdev_ok s ds" "dev \<noteq> NULL" "dev \<notin> set ds"
  defines "taken \<equiv> register_name dev s \<in> dev_name s ` set ds"
    and "failed \<equiv> nd_init (devs s dev) \<noteq> NULL \<and> run_init drv (nd_init (devs s dev)) dev \<noteq> 0"
  shows "\<exists>s'. register_netdev drv dev s = Some (if taken \<or> failed then -1 else 0, s')
    \<and> netdev_ok s' (if taken \<or> failed then ds else dev # ds)
    \<and> dev_name s' dev = register_name dev s \<and> (\<forall>d. d \<noteq> dev \<longrightarrow> devs s' d = devs s d)"
proof -
  let ?s = "if nd_name (devs s dev) ! 0 = 0
    then upd_dev dev (\<lambda>d. d\<lparr>nd_name := snprintf_eth (nd_name d) (dev_count s)\<rparr>) s else s"
  have ok: "netdev_ok ?s ds" using netdev_ok_upd_other [OF assms(3)] assms(1) by simp
  have name: "cstr (nd_name (devs ?s dev)) = register_name dev s"
    by (simp add: register_name_def upd_dev_def cstr_snprintf_eth dev_name_def)
  have names: "dev_name ?s ` set ds = dev_name s ` set ds"
    using assms(3) by (intro image_cong) (auto simp: dev_name_def upd_dev_def)
  have init: "nd_init (devs ?s dev) = nd_init (devs s dev)" by (simp add: upd_dev_def)
  have others: "\<forall>d. d \<noteq> dev \<longrightarrow> devs ?s d = devs s d" by (simp add: upd_dev_def)
  obtain d where d: "dev_search (devs ?s) (nd_name (devs ?s dev)) (dev_base ?s) = Some d"
    and hit: "d = first_hit (\<lambda>d. dev_name ?s d = register_name dev s) ds"
    using dev_search_names [OF ok] name by simp
  have "NULL \<notin> set ds" using ok by (auto simp: netdev_ok_def dest: lpath_NULL_notin)
  then have "(d = NULL) = (register_name dev s \<notin> dev_name ?s ` set ds)"
    unfolding hit by (rule first_hit_image)
  then have d_NULL: "(d = NULL) = (\<not> taken)" by (simp only: names taken_def)
  have eq: "register_netdev drv dev s = (if d \<noteq> NULL then Some (-1, ?s) else if failed then Some (-1, ?s)
      else Some (0, (upd_dev dev (\<lambda>d. d\<lparr>nd_next := dev_base ?s\<rparr>) ?s)\<lparr>dev_base := dev, dev_count := dev_count ?s + 1\<rparr>))"
    unfolding register_netdev_def failed_def Let_def using d init by (simp add: upd_dev_def)
  show ?thesis
  proof (cases "taken \<or> failed")
    case True
    then have "register_netdev drv dev s = Some (-1, ?s)" using eq d_NULL by auto
    then show ?thesis using True ok name others by (auto simp: dev_name_def)
  next
    case False
    let ?t = "(upd_dev dev (\<lambda>d. d\<lparr>nd_next := dev_base ?s\<rparr>) ?s)\<lparr>dev_base := dev, dev_count := dev_count ?s + 1\<rparr>"
    have "register_netdev drv dev s = Some (0, ?t)" using eq d_NULL False by auto
    moreover have "dev_name ?s dev \<notin> dev_name ?s ` set ds"
      using False name names by (simp add: taken_def dev_name_def)
    from netdev_ok_cons [OF ok assms(2,3) this] have "netdev_ok ?t (dev # ds)" .
    moreover have "dev_name ?t dev = register_name dev s" "\<forall>d. d \<noteq> dev \<longrightarrow> devs ?t d = devs s d"
      using name others by (simp_all add: dev_name_def upd_dev_def)
    ultimately show ?thesis using False by auto
  qed
qed

text \<open>What unlinking from a link \<open>p\<close> on does to the rest of the list.\<close>

definition same_devs :: "net_state \<Rightarrow> net_state \<Rightarrow> bool" where
  "same_devs s t \<longleftrightarrow> (\<forall>x. (devs t x)\<lparr>nd_next := 0\<rparr> = (devs s x)\<lparr>nd_next := 0\<rparr>)"

lemma same_devs_refl [simp]: "same_devs s s"
  by (simp add: same_devs_def)

lemma same_devs_field:
  assumes "same_devs s t"
  shows "nd_name (devs t x) = nd_name (devs s x)" "nd_uninit (devs t x) = nd_uninit (devs s x)"
proof -
  from assms have "(devs t x)\<lparr>nd_next := 0\<rparr> = (devs s x)\<lparr>nd_next := 0\<rparr>" by (simp add: same_devs_def)
  from arg_cong [OF this, of nd_name] arg_cong [OF this, of nd_uninit]
  show "nd_name (devs t x) = nd_name (devs s x)" "nd_uninit (devs t x) = nd_uninit (devs s x)" by simp_all
qed

definition unlinked :: "link \<Rightarrow> ptr \<Rightarrow> ptr list \<Rightarrow> net_state \<Rightarrow> net_state \<Rightarrow> bool" where
  "unlinked p dev as s s' \<longleftrightarrow> lpath (\<lambda>d. nd_next (devs s' d)) (rd_link p s') (remove1 dev as)
     \<and> (\<forall>x. x \<notin> set as \<and> p \<noteq> NextOf x \<longrightarrow> devs s' x = devs s x) \<and> (p \<noteq> Base \<longrightarrow> dev_base s' = dev_base s)
     \<and> dev_count s' = dev_count s - (if dev \<in> set as then 1 else 0) \<and> same_devs s s'"

lemma lpath_upd_dev: "d \<notin> set as \<Longrightarrow> lpath (\<lambda>x. nd_next (devs (upd_dev d f s) x)) p as = lpath (\<lambda>x. nd_next (devs s x)) p as"
  by (induction as arbitrary: p) (auto simp: upd_dev_def)

lemma unlinked_head:
  assumes "lpath (\<lambda>d. nd_next (devs s d)) (rd_link p s) (a # as)" "p \<noteq> NextOf a" "\<forall>q. p = NextOf q \<longrightarrow> q \<notin> set as"
  shows "unlinked p a (a # as) s ((wr_link p (nd_next (devs s a)) s)\<lparr>dev_count := dev_count s - 1\<rparr>)"
proof (cases p)
  case Base
  with assms show ?thesis by (simp add: unlinked_def same_devs_def)
next
  case (NextOf q)
  with assms lpath_upd_dev [of q as "\<lambda>x. x\<lparr>nd_next := nd_next (devs s a)\<rparr>" s] show ?thesis
    by (auto simp: unlinked_def same_devs_def upd_dev_def)
qed

lemma unlinked_step:
  assumes "unlinked (NextOf a) dev as s s'" "rd_link p s = a" "a \<noteq> NULL" "a \<noteq> dev" "a \<notin> set as"
    "\<forall>q. p = NextOf q \<longrightarrow> q \<notin> set (a # as)"
  shows "unlinked p dev (a # as) s s'"
proof -
  have "rd_link p s' = a"
    using assms(1,2,6) by (cases p) (auto simp: unlinked_def)
  with assms show ?thesis by (auto simp: unlinked_def)
qed

lemma unlink_dev_path:
  "lpath (\<lambda>d. nd_next (devs s d)) (rd_link p s) as \<Longrightarrow> distinct as \<Longrightarrow> (\<forall>q. p = NextOf q \<longrightarrow> q \<notin> set as) \<Longrightarrow>
     \<exists>s'. unlink_dev p dev s = Some s' \<and> unlinked p dev as s s'"
proof (induction as arbitrary: p)
  case Nil
  then show ?case by (subst unlink_dev.simps) (simp add: unlinked_def)
next
  case (Cons a as)
  then have a: "rd_link p s = a" "a \<noteq> NULL" "a \<notin> set as" by auto
  show ?case
  proof (cases "a = dev")
    case True
    then show ?thesis
      using a unlinked_head [OF Cons.prems(1)] Cons.prems(3) by (subst unlink_dev.simps) auto
  next
    case False
    from Cons.IH [of "NextOf a"] Cons.prems a obtain s' where
      "unlink_dev (NextOf a) dev s = Some s'" "unlinked (NextOf a) dev as s s'" by auto
    with a False Cons.prems(3) unlinked_step [OF this(2) a(1,2) False a(3) Cons.prems(3)] show ?thesis
      by (subst unlink_dev.simps) auto
  qed
qed

lemma unregister_netdev_ok:
  assumes "netdev_ok s ds"
  shows "\<exists>s'. unregister_netdev dev s = Some s' \<and> netdev_ok s' (remove1 dev ds)
    \<and> (\<forall>d. dev_name s' d = dev_name s d)"
proof -
  from assms have path: "lpath (\<lambda>d. nd_next (devs s d)) (rd_link Base s) ds"
    and count: "dev_count s = int (length ds)" and inj: "inj_on (dev_name s) (set ds)"
    by (simp_all add: netdev_ok_def)
  from unlink_dev_path [OF path lpath_distinct [OF path]] obtain t where
    t: "unlink_dev Base dev s = Some t" "unlinked Base dev ds s t" by auto
  have names: "dev_name t d = dev_name s d" for d
    using t(2) same_devs_field(1) [of s t d] by (simp add: unlinked_def dev_name_def)
  have len: "int (length (remove1 dev ds)) = int (length ds) - (if dev \<in> set ds then 1 else 0)"
  proof (cases "dev \<in> set ds")
    case True
    then have "1 \<le> length ds" using length_pos_if_in_set [of dev ds] by linarith
    with True show ?thesis by (simp add: length_remove1 of_nat_diff)
  qed (simp add: remove1_idem)
  have "inj_on (dev_name t) (set (remove1 dev ds))"
    using inj set_remove1_subset [of dev ds] by (auto simp: inj_on_def names)
  with t(2) count len have ok: "netdev_ok t (remove1 dev ds)"
    by (simp add: netdev_ok_def unlinked_def)
  show ?thesis
    using t(1) ok names by (auto simp: unregister_netdev_def)
qed

lemma dev_get_by_name_listed:
  assumes "netdev_ok s ds"
  shows "d \<in> set ds \<Longrightarrow> dev_get_by_name (nd_name (devs s d)) s = Some d"
    and "cstr name \<notin> dev_name s ` set ds \<Longrightarrow> dev_get_by_name name s = Some NULL"
proof -
  from assms have path: "lpath (\<lambda>d. nd_next (devs s d)) (dev_base s) ds" and inj: "inj_on (dev_name s) (set ds)"
    by (simp_all add: netdev_ok_def)
  show "dev_get_by_name (nd_name (devs s d)) s = Some d" if "d \<in> set ds"
    unfolding dev_get_by_name_def
    by (rule devsearch.search_unique [OF path that])
      (use inj that in \<open>auto simp: streq_def dev_name_def inj_on_def\<close>)
  show "dev_get_by_name name s = Some NULL" if "cstr name \<notin> dev_name s ` set ds"
    using that lpath_NULL_notin [OF path]
    by (simp add: dev_get_by_name_def dev_search_names [OF assms] first_hit_image)
qed

subsection \<open>Properties\<close>

text \<open>
  \<open>register_netdev\<close> on every branch. For a device outside a well-formed list it returns; it
  succeeds exactly when the name (given, or generated from the device count) is not taken and the
  driver's initialisation succeeds. On success the list has the device in front and is still well
  formed, and \<open>dev_get_by_name\<close> finds the device under its name; on failure the list is unchanged.
\<close>

theorem register_netdev_correct:
  assumes "netdev_ok s ds" and "dev \<noteq> NULL" and "dev \<notin> set ds"
  shows "\<exists>r s'. register_netdev drv dev s = Some (r, s')
    \<and> (r = 0 \<longleftrightarrow> register_name dev s \<notin> dev_name s ` set ds
         \<and> (nd_init (devs s dev) = NULL \<or> run_init drv (nd_init (devs s dev)) dev = 0))
    \<and> netdev_ok s' (if r = 0 then dev # ds else ds)
    \<and> (r = 0 \<longrightarrow> dev_get_by_name (nd_name (devs s' dev)) s' = Some dev \<and> dev_name s' dev = register_name dev s)"
proof -
  from register_netdev_cases [OF assms, of drv]
  obtain r s' where "register_netdev drv dev s = Some (r, s')"
    and "r = 0 \<longleftrightarrow> register_name dev s \<notin> dev_name s ` set ds
         \<and> (nd_init (devs s dev) = NULL \<or> run_init drv (nd_init (devs s dev)) dev = 0)"
    and ok: "netdev_ok s' (if r = 0 then dev # ds else ds)" and "dev_name s' dev = register_name dev s"
    by (fastforce split: if_splits)
  moreover have "dev_get_by_name (nd_name (devs s' dev)) s' = Some dev" if "r = 0"
    using ok that by (intro dev_get_by_name_listed(1) [of s' "dev # ds"]) auto
  ultimately show ?thesis by blast
qed

definition sample_dev :: "u8 list \<Rightarrow> net_device" where
  "sample_dev name = \<lparr>nd_name = name @ replicate (16 - length name) 0, nd_ifalias = NULL, nd_mem_end = 0,
     nd_mem_start = 0, nd_base_addr = 0, nd_irq = 0, nd_flags = IFF_UP OR IFF_RUNNING, nd_features = 0, nd_mtu = 1500,
     nd_type = 1, nd_hard_header_len = 14, nd_dev_addr = [2, 0, 0, 0, 0, 1], nd_broadcast = replicate 6 0xFF,
     nd_stats = \<lparr>rx_packets = 0, tx_packets = 0, rx_bytes = 0, tx_bytes = 0, rx_errors = 0, tx_errors = 0,
       rx_dropped = 0, tx_dropped = 0, multicast = 0, collisions = 0\<rparr>,
     nd_init = NULL, nd_uninit = NULL, nd_hard_start_xmit = 77, nd_next = NULL\<rparr>"

definition sample_net :: net_state where
  "sample_net = \<lparr>pkts = sample_skb_heap, devs = (\<lambda>_. sample_dev []), dev_base = NULL, dev_count = 0,
     uninit_calls = [], xmit_calls = [], arp_calls = []\<rparr>"

definition sample_drv :: driver_ops where
  "sample_drv = \<lparr>run_init = (\<lambda>f d. 0), run_xmit = (\<lambda>f p d. 0)\<rparr>"

theorem register_netdev_correct_witness:
  "\<exists>s'. register_netdev sample_drv 64 sample_net = Some (0, s') \<and> netdev_ok s' [64]
     \<and> dev_get_by_name (nd_name (devs s' 64)) s' = Some 64"
proof -
  have "netdev_ok sample_net []" by (simp add: netdev_ok_def sample_net_def)
  from register_netdev_correct [OF this, of 64 sample_drv] show ?thesis
    by (auto simp: sample_net_def sample_dev_def)
qed

text \<open>
  \<open>unregister_netdev\<close> always ends on a well-formed list. It removes the device, keeps the other
  devices in order and the device count right, and afterwards \<open>dev_get_by_name\<close> no longer finds the
  name of the removed device.
\<close>

theorem unregister_netdev_correct:
  assumes "netdev_ok s ds"
  shows "\<exists>s'. unregister_netdev dev s = Some s' \<and> netdev_ok s' (remove1 dev ds)
    \<and> (dev \<in> set ds \<longrightarrow> dev_get_by_name (nd_name (devs s dev)) s' = Some NULL)"
proof -
  from unregister_netdev_ok [OF assms] obtain s' where s': "unregister_netdev dev s = Some s'"
    "netdev_ok s' (remove1 dev ds)" "\<And>d. dev_name s' d = dev_name s d" by blast
  have "distinct ds" and inj: "inj_on (dev_name s) (set ds)"
    using assms by (auto simp: netdev_ok_def dest: lpath_distinct)
  then have "cstr (nd_name (devs s dev)) \<notin> dev_name s' ` set (remove1 dev ds)" if "dev \<in> set ds"
    using that by (auto simp: s'(3) dev_name_def [of s dev, symmetric] inj_on_def)
  with s' dev_get_by_name_listed(2) [OF s'(2)] show ?thesis by blast
qed

theorem unregister_netdev_correct_witness:
  "\<exists>s s'. netdev_ok s [64] \<and> unregister_netdev 64 s = Some s' \<and> netdev_ok s' []
     \<and> dev_get_by_name (nd_name (devs s 64)) s' = Some NULL"
proof -
  let ?s = "sample_net\<lparr>dev_base := 64, dev_count := 1\<rparr>"
  have ok: "netdev_ok ?s [64]" by (simp add: netdev_ok_def sample_net_def sample_dev_def)
  from unregister_netdev_correct [OF this, of 64] obtain s' where
    "unregister_netdev 64 ?s = Some s'" "netdev_ok s' []"
    "dev_get_by_name (nd_name (devs ?s 64)) s' = Some NULL" by auto
  with ok show ?thesis by blast
qed

end
