(* ===== verification/Checksum.thy ===== *)
theory Checksum
  imports Prelude
begin

text \<open>
  Byte access to packet memory and the two checksum routines of net/af_inet.c,
  \<open>ip_compute_csum\<close> and \<open>ip_fast_csum\<close>. Multi-byte loads are little-endian, as the x86 target
  executes them.
\<close>

definition rd16 :: "(ptr \<Rightarrow> u8) \<Rightarrow> ptr \<Rightarrow> u16" where
  "rd16 m p = ucast (m p) + 256 * ucast (m (p + 1))"

definition rd32 :: "(ptr \<Rightarrow> u8) \<Rightarrow> ptr \<Rightarrow> u32" where
  "rd32 m p = ucast (m p) + 256 * ucast (m (p + 1)) + 65536 * ucast (m (p + 2)) + 16777216 * ucast (m (p + 3))"

definition wr16 :: "ptr \<Rightarrow> u16 \<Rightarrow> (ptr \<Rightarrow> u8) \<Rightarrow> ptr \<Rightarrow> u8" where
  "wr16 p v m = m(p := ucast v, p + 1 := ucast (drop_bit 8 v))"

definition wr32 :: "ptr \<Rightarrow> u32 \<Rightarrow> (ptr \<Rightarrow> u8) \<Rightarrow> ptr \<Rightarrow> u8" where
  "wr32 p v m = m(p := ucast v, p + 1 := ucast (drop_bit 8 v),
     p + 2 := ucast (drop_bit 16 v), p + 3 := ucast (drop_bit 24 v))"

text \<open>\<open>htons\<close> and \<open>ntohs\<close>, both \<open>__builtin_bswap16\<close>.\<close>

definition bswap16 :: "u16 \<Rightarrow> u16" where
  "bswap16 v = push_bit 8 v OR drop_bit 8 v"

definition htons :: "u16 \<Rightarrow> u16" where "htons v = bswap16 v"
definition ntohs :: "u16 \<Rightarrow> u16" where "ntohs v = bswap16 v"

lemma ntohs_htons [simp]: "ntohs (htons v) = v"
  by (rule bit_word_eqI) (auto simp: ntohs_def htons_def bswap16_def bit_simps)

subsection \<open>Folding\<close>

lemma fold16_less:
  assumes "drop_bit 16 (s :: u32) \<noteq> 0"
  shows "unat ((s AND 0xFFFF) + drop_bit 16 s) < unat s"
    and "unat ((s AND 0xFFFF) + drop_bit 16 s) = unat s mod 65536 + unat s div 65536"
proof -
  have mask: "(0xFFFF :: u32) = mask 16" by (simp add: mask_eq_exp_minus_1)
  have low: "unat (s AND 0xFFFF) = unat s mod 65536"
    by (simp only: mask take_bit_eq_mask [symmetric]) (simp add: take_bit_eq_mod unat_mod)
  have high: "unat (drop_bit 16 s) = unat s div 65536"
    by (simp only: unat_drop_bit_eq) (simp add: drop_bit_eq_div)
  have pos: "0 < unat s div 65536" using assms high by (metis gr0I unat_eq_zero)
  have "unat s mod 65536 + unat s div 65536 < 4294967296"
    using u32_below_top [of s] by (simp add: mod_div_trivial)
  then show eq: "unat ((s AND 0xFFFF) + drop_bit 16 s) = unat s mod 65536 + unat s div 65536"
    using low high by (subst u32_add_unat) simp_all
  have "unat s = 65536 * (unat s div 65536) + unat s mod 65536" by simp
  then show "unat ((s AND 0xFFFF) + drop_bit 16 s) < unat s" using eq pos by linarith
qed

function csum_fold :: "u32 \<Rightarrow> u32" where
  "csum_fold s = (if drop_bit 16 s \<noteq> 0 then csum_fold ((s AND 0xFFFF) + drop_bit 16 s) else s)"
  by pat_completeness auto
termination
  by (relation "measure unat") (use fold16_less in auto)

declare csum_fold.simps [simp del]

subsection \<open>The two routines\<close>

function csum_loop :: "(ptr \<Rightarrow> u8) \<Rightarrow> ptr \<Rightarrow> int \<Rightarrow> u32 \<Rightarrow> u32" where
  "csum_loop m p len s =
     (if len > 1 then csum_loop m (p + 2) (len - 2) (s + ucast (rd16 m p))
      else if len = 1 then s + ucast (m p) else s)"
  by pat_completeness auto
termination
  by (relation "measure (\<lambda>(m, p, len, s). nat len)") auto

declare csum_loop.simps [simp del]

definition ip_compute_csum :: "(ptr \<Rightarrow> u8) \<Rightarrow> ptr \<Rightarrow> int \<Rightarrow> u16" where
  "ip_compute_csum m buff len = ucast (NOT (csum_fold (csum_loop m buff len 0)))"

definition ip_fast_csum :: "(ptr \<Rightarrow> u8) \<Rightarrow> ptr \<Rightarrow> u32 \<Rightarrow> u16" where
  "ip_fast_csum m iph ihl =
     ucast (NOT (csum_fold (for_upto (unat ihl) (\<lambda>i s. s + rd32 m (iph + 4 * of_nat i)) 0)))"

subsection \<open>Library\<close>

text \<open>The one's complement sum as a number: bytes at even offsets count once, at odd ones 256 times.\<close>

definition csum_val :: "(nat \<Rightarrow> u8) \<Rightarrow> nat \<Rightarrow> nat" where
  "csum_val f n = (\<Sum>i<n. unat (f i) * 256 ^ (i mod 2))"

abbreviation area :: "(ptr \<Rightarrow> u8) \<Rightarrow> ptr \<Rightarrow> nat \<Rightarrow> u8" where
  "area m p \<equiv> \<lambda>i. m (p + of_nat i)"

lemma csum_val_0 [simp]: "csum_val f 0 = 0" "csum_val f (Suc 0) = unat (f 0)"
  by (simp_all add: csum_val_def)

lemma csum_val_step: "csum_val f (Suc (Suc n)) = unat (f 0) + 256 * unat (f 1) + csum_val (\<lambda>i. f (i + 2)) n"
  by (simp add: csum_val_def sum.lessThan_Suc_shift del: sum.lessThan_Suc)

lemma u8_below_top: "unat (b :: u8) < 256"
  using unsigned_less [of b, where ?'a = nat] by simp

lemma csum_val_bound: "csum_val f n \<le> 32768 * n + 255"
proof (induction n arbitrary: f rule: nat_induct2)
  case 0
  then show ?case by simp
next
  case 1
  then show ?case using u8_below_top [of "f 0"] by simp
next
  case (step n)
  show ?case
    using step [of "\<lambda>i. f (i + 2)"] u8_below_top [of "f 0"] u8_below_top [of "f 1"]
    by (simp add: csum_val_step)
qed

lemma unat_rd16: "unat (ucast (rd16 m p) :: u32) = unat (m p) + 256 * unat (m (p + 1))"
proof -
  have "unat (rd16 m p) = unat (m p) + 256 * unat (m (p + 1))"
    using u8_below_top [of "m p"] u8_below_top [of "m (p + 1)"]
    by (simp add: rd16_def unat_word_ariths unsigned_ucast_eq take_bit_nat_eq_self)
  then show ?thesis
    using u8_below_top [of "m p"] u8_below_top [of "m (p + 1)"]
    by (simp add: unsigned_ucast_eq take_bit_nat_eq_self)
qed

lemma csum_loop_val:
  "unat s + csum_val (area m p) n < 4294967296 \<Longrightarrow>
     unat (csum_loop m p (int n) s) = unat s + csum_val (area m p) n"
proof (induction n arbitrary: p s rule: nat_induct2)
  case 0
  then show ?case by (simp add: csum_loop.simps)
next
  case 1
  have "unat (ucast (m p) :: u32) = unat (m p)"
    using u8_below_top [of "m p"] by (simp add: unsigned_ucast_eq take_bit_nat_eq_self)
  with 1 show ?case by (simp add: csum_loop.simps u32_add_unat)
next
  case (step n)
  have shift: "(\<lambda>i. area m p (i + 2)) = area m (p + 2)" by (simp add: ac_simps)
  have word: "unat (s + ucast (rd16 m p)) = unat s + (unat (m p) + 256 * unat (m (p + 1)))"
    using step.prems by (subst u32_add_unat) (simp_all add: unat_rd16 csum_val_step)
  have "csum_loop m p (int (n + 2)) s = csum_loop m (p + 2) (int n) (s + ucast (rd16 m p))"
    by (subst csum_loop.simps) simp
  moreover have "unat (s + ucast (rd16 m p)) + csum_val (area m (p + 2)) n = unat s + csum_val (area m p) (n + 2)"
    using word by (simp add: csum_val_step shift [symmetric] ac_simps)
  ultimately show ?case using step.IH [of "s + ucast (rd16 m p)" "p + 2"] step.prems by simp
qed

text \<open>The fold keeps the value modulo 65535, and is zero only for zero.\<close>

lemma csum_fold_spec:
  "unat (csum_fold s) < 65536 \<and> unat (csum_fold s) mod 65535 = unat s mod 65535
     \<and> unat (csum_fold s) \<le> unat s \<and> (csum_fold s = 0 \<longleftrightarrow> s = 0)"
proof (induction s rule: csum_fold.induct)
  case (1 s)
  have high: "unat (drop_bit 16 s) = unat s div 65536"
    by (simp only: unat_drop_bit_eq) (simp add: drop_bit_eq_div)
  show ?case
  proof (cases "drop_bit 16 s \<noteq> 0")
    case True
    let ?t = "(s AND 0xFFFF) + drop_bit 16 s"
    have eq: "csum_fold s = csum_fold ?t" using True by (subst csum_fold.simps) simp
    note t = fold16_less [OF True]
    have split: "unat s = 65535 * (unat s div 65536) + unat ?t" using t(2) by simp
    then have "unat ?t mod 65535 = unat s mod 65535" by (metis mod_mult_self4)
    moreover have "?t \<noteq> 0"
    proof
      assume "?t = 0"
      then have "unat s div 65536 = 0" using t(2) by simp
      with True high show False by (simp add: unat_eq_zero)
    qed
    moreover have "s \<noteq> 0" using True by auto
    ultimately show ?thesis using 1 [OF True] t(1) unfolding eq by auto
  next
    case False
    then have "unat s div 65536 = 0" using high by (simp add: unat_eq_zero)
    with False show ?thesis by (subst (1 2 3 4) csum_fold.simps) auto
  qed
qed

lemma csum_fold_unique:
  assumes "unat s mod 65535 = unat t mod 65535" "s = 0 \<longleftrightarrow> t = 0"
  shows "csum_fold s = csum_fold t"
proof -
  let ?a = "unat (csum_fold s)" and ?b = "unat (csum_fold t)"
  have "?a < 65536" "?b < 65536" "?a mod 65535 = ?b mod 65535" "?a = 0 \<longleftrightarrow> ?b = 0"
    using csum_fold_spec [of s] csum_fold_spec [of t] assms by (auto simp: unat_eq_zero)
  then have "?a = ?b" by (cases "?a = 65535"; cases "?b = 65535") auto
  then show ?thesis by (simp add: word_unat_eq_iff)
qed

lemma unat_not_ucast16: "unat (s :: u32) < 65536 \<Longrightarrow> unat (ucast (NOT s) :: u16) = 65535 - unat s"
proof -
  assume a: "unat s < 65536"
  have "NOT s = 0xFFFFFFFF - s" by (simp add: not_eq_complement)
  moreover have "unat s \<le> unat (0xFFFFFFFF :: u32)" using u32_below_top [of s] by simp
  ultimately have "unat (NOT s) = unat (0xFFFFFFFF :: u32) - unat s" by (simp only: unat_sub_if' if_True)
  then have "unat (ucast (NOT s) :: u16) = (4294967295 - unat s) mod 65536"
    by (simp add: unsigned_ucast_eq take_bit_eq_mod)
  also have "4294967295 - unat s = 65535 - unat s + 65535 * 65536" using a by simp
  also have "(65535 - unat s + 65535 * 65536) mod 65536 = 65535 - unat s"
    by (simp only: mod_mult_self1) simp
  finally show ?thesis .
qed

lemma ip_compute_csum_val:
  assumes "n \<le> 131000"
  shows "\<exists>s. ip_compute_csum m p (int n) = ucast (NOT (csum_fold s)) \<and> unat s = csum_val (area m p) n"
proof -
  have "csum_val (area m p) n < 4294967296" using csum_val_bound [of "area m p" n] assms by simp
  then have "unat (csum_loop m p (int n) 0) = csum_val (area m p) n" by (simp add: csum_loop_val)
  then show ?thesis unfolding ip_compute_csum_def by blast
qed

text \<open>The checksum as a number, and when it is zero.\<close>

lemma unat_csum: "unat (ucast (NOT (csum_fold s)) :: u16) = 65535 - unat (csum_fold s)"
  using csum_fold_spec [of s] by (intro unat_not_ucast16) simp

lemma csum_zero_iff:
  "(ucast (NOT (csum_fold s)) :: u16) = 0 \<longleftrightarrow> s \<noteq> 0 \<and> unat s mod 65535 = 0"
proof -
  have "(ucast (NOT (csum_fold s)) :: u16) = 0 \<longleftrightarrow> unat (csum_fold s) \<ge> 65535"
    using unat_csum [of s] by (simp add: word_unat_eq_iff)
  also have "\<dots> \<longleftrightarrow> s \<noteq> 0 \<and> unat s mod 65535 = 0"
  proof -
    let ?f = "unat (csum_fold s)"
    have f: "?f < 65536" "?f mod 65535 = unat s mod 65535" "?f = 0 \<longleftrightarrow> s = 0"
      using csum_fold_spec [of s] by (auto simp: unat_eq_zero)
    show ?thesis
    proof (cases "?f = 65535")
      case True
      then show ?thesis using f by auto
    next
      case False
      with f(1) have "?f < 65535" by simp
      then have "?f mod 65535 = ?f" by simp
      with f False show ?thesis by auto
    qed
  qed
  finally show ?thesis .
qed

lemma csum_val_update:
  assumes "even k" "k + 1 < n" "\<And>i. i \<noteq> k \<Longrightarrow> i \<noteq> k + 1 \<Longrightarrow> g i = f i"
  shows "csum_val g n + (unat (f k) + 256 * unat (f (k + 1))) = csum_val f n + (unat (g k) + 256 * unat (g (k + 1)))"
proof -
  have split: "csum_val h n = (\<Sum>i \<in> {..<n} - {k, k + 1}. unat (h i) * 256 ^ (i mod 2)) + (unat (h k) + 256 * unat (h (k + 1)))" for h
    unfolding csum_val_def using assms(1,2)
    by (subst sum.subset_diff [of "{k, k + 1}"]) (auto simp: even_iff_mod_2_eq_zero mod_Suc)
  have "(\<Sum>i \<in> {..<n} - {k, k + 1}. unat (g i) * 256 ^ (i mod 2)) = (\<Sum>i \<in> {..<n} - {k, k + 1}. unat (f i) * 256 ^ (i mod 2))"
    by (rule sum.cong) (auto simp: assms(3))
  then show ?thesis using split [of f] split [of g] by simp
qed

lemma of_nat_ptr_inj: "i < 18446744073709551616 \<Longrightarrow> j < 18446744073709551616 \<Longrightarrow> ((of_nat i :: ptr) = of_nat j) = (i = j)"
  by (simp add: word_of_nat_eq_iff take_bit_nat_eq_self)

lemma unat_wr16: "unat (ucast (v :: u16) :: u8) + 256 * unat (ucast (drop_bit 8 v) :: u8) = unat v"
proof -
  have "unat v < 65536" using unsigned_less [of v, where ?'a = nat] by simp
  moreover have "unat (drop_bit 8 v) = unat v div 256"
    by (simp only: unat_drop_bit_eq) (simp add: drop_bit_eq_div)
  ultimately show ?thesis
    by (simp add: unsigned_ucast_eq take_bit_eq_mod)
qed

lemma csum_val_store:
  assumes "even k" "k + 1 < n" "n \<le> 131000" "rd16 m (p + of_nat k) = 0"
  shows "csum_val (area (wr16 (p + of_nat k) v m) p) n = csum_val (area m p) n + unat v"
proof -
  let ?g = "\<lambda>i. if i = k then ucast v else if i = k + 1 then ucast (drop_bit 8 v) else area m p i"
  have inj: "((of_nat i :: ptr) = of_nat j) = (i = j)" if "i < n" "j < n" for i j
    using that assms(3) by (intro of_nat_ptr_inj) simp_all
  have "area (wr16 (p + of_nat k) v m) p i = ?g i" if "i < n" for i
  proof -
    have "(p + of_nat i = p + of_nat k + 1) = (i = k + 1)"
      using inj [OF that assms(2)] by (simp add: ac_simps)
    then show ?thesis
      using inj [OF that, of k] assms(2) by (auto simp: wr16_def)
  qed
  then have "csum_val (area (wr16 (p + of_nat k) v m) p) n = csum_val ?g n"
    unfolding csum_val_def by (intro sum.cong) auto
  moreover have "unat (m (p + of_nat k)) + 256 * unat (m (p + of_nat k + 1)) = 0"
    using unat_rd16 [of m "p + of_nat k"] assms(4) by simp
  then have "unat (area m p k) + 256 * unat (area m p (k + 1)) = 0" by (simp add: ac_simps)
  ultimately show ?thesis
    using csum_val_update [OF assms(1,2), of ?g "area m p"] unat_wr16 [of v] by simp
qed

lemma unat_rd32:
  "unat (rd32 m p) = unat (m p) + 256 * unat (m (p + 1)) + 65536 * unat (m (p + 2)) + 16777216 * unat (m (p + 3))"
  using u8_below_top [of "m p"] u8_below_top [of "m (p + 1)"] u8_below_top [of "m (p + 2)"] u8_below_top [of "m (p + 3)"]
  by (simp add: rd32_def unat_word_ariths unsigned_ucast_eq take_bit_nat_eq_self)

definition words_val :: "(ptr \<Rightarrow> u8) \<Rightarrow> ptr \<Rightarrow> nat \<Rightarrow> nat" where
  "words_val m p n = (\<Sum>i<n. unat (rd32 m (p + 4 * of_nat i)))"

lemma fast_sum_val:
  "words_val m p n < 4294967296 \<Longrightarrow>
     unat (for_upto n (\<lambda>i s. s + rd32 m (p + 4 * of_nat i)) 0) = words_val m p n"
proof (induction n)
  case 0
  then show ?case by (simp add: words_val_def)
next
  case (Suc n)
  then have "words_val m p n < 4294967296" by (simp add: words_val_def)
  with Suc show ?case by (simp add: u32_add_unat words_val_def)
qed

lemma csum_val_word:
  "csum_val (area m p) (4 * Suc n) = csum_val (area m p) (4 * n)
     + unat (m (p + 4 * of_nat n)) + 256 * unat (m (p + 4 * of_nat n + 1))
     + unat (m (p + 4 * of_nat n + 2)) + 256 * unat (m (p + 4 * of_nat n + 3))"
proof -
  have four: "4 * Suc n = Suc (Suc (Suc (Suc (4 * n))))" by simp
  have "4 * n mod 2 = 0" "Suc (4 * n) mod 2 = 1" "Suc (Suc (4 * n)) mod 2 = 0" "Suc (Suc (Suc (4 * n))) mod 2 = 1"
    by presburger+
  then show ?thesis unfolding csum_val_def four by (simp add: ac_simps)
qed

lemma words_val_Suc: "words_val m p (Suc n) = words_val m p n + unat (rd32 m (p + 4 * of_nat n))"
  by (simp add: words_val_def)

lemma words_val_csum: "\<exists>d. words_val m p n = csum_val (area m p) (4 * n) + 65535 * d"
proof (induction n)
  case 0
  then show ?case by (simp add: words_val_def)
next
  case (Suc n)
  then obtain d where d: "words_val m p n = csum_val (area m p) (4 * n) + 65535 * d" by blast
  let ?q = "p + 4 * of_nat n"
  have "words_val m p (Suc n) = csum_val (area m p) (4 * Suc n)
      + 65535 * (d + unat (m (?q + 2)) + 256 * unat (m (?q + 3)))"
    unfolding words_val_Suc csum_val_word d unat_rd32 by simp
  then show ?case by blast
qed

lemma words_val_zero: "csum_val (area m p) (4 * n) = 0 \<Longrightarrow> words_val m p n = 0"
proof (induction n)
  case 0
  then show ?case by (simp add: words_val_def)
next
  case (Suc n)
  then show ?case unfolding words_val_Suc csum_val_word unat_rd32 by simp
qed

lemma csum_store_verifies:
  assumes "even k" and "k + 1 < n" and "n \<le> 131000" and "rd16 m (p + of_nat k) = 0"
  shows "ip_compute_csum (wr16 (p + of_nat k) (ip_compute_csum m p (int n)) m) p (int n) = 0"
proof -
  let ?m = "wr16 (p + of_nat k) (ip_compute_csum m p (int n)) m"
  obtain s where s: "ip_compute_csum m p (int n) = ucast (NOT (csum_fold s))" "unat s = csum_val (area m p) n"
    using ip_compute_csum_val [OF assms(3)] by blast
  obtain t where t: "ip_compute_csum ?m p (int n) = ucast (NOT (csum_fold t))" "unat t = csum_val (area ?m p) n"
    using ip_compute_csum_val [OF assms(3)] by blast
  have f: "unat (csum_fold s) \<le> unat s" "unat (csum_fold s) < 65536" "unat (csum_fold s) mod 65535 = unat s mod 65535"
    using csum_fold_spec [of s] by auto
  have "unat t = unat s + (65535 - unat (csum_fold s))"
    using csum_val_store [OF assms] t(2) s by (simp add: unat_csum)
  then have "unat t = (unat s - unat (csum_fold s)) + 65535" using f by simp
  moreover have "65535 dvd unat s - unat (csum_fold s)"
    using f(1,3) by (metis mod_eq_dvd_iff_nat)
  ultimately have "t \<noteq> 0 \<and> unat t mod 65535 = 0" by auto
  with t(1) csum_zero_iff [of t] show ?thesis by simp
qed

lemma fast_csum_eq:
  assumes "unat ihl \<le> 15" and "words_val m p (unat ihl) < 2 ^ 32"
  shows "ip_fast_csum m p ihl = ip_compute_csum m p (4 * int (unat ihl))"
proof -
  let ?n = "unat ihl"
  obtain t where t: "ip_compute_csum m p (int (4 * ?n)) = ucast (NOT (csum_fold t))"
    "unat t = csum_val (area m p) (4 * ?n)"
    using ip_compute_csum_val [of "4 * ?n" m p] assms(1) by auto
  let ?s = "for_upto ?n (\<lambda>i s. s + rd32 m (p + 4 * of_nat i)) 0"
  have s: "unat ?s = words_val m p ?n" using fast_sum_val assms(2) by simp
  obtain d where d: "words_val m p ?n = unat t + 65535 * d" using words_val_csum [of m p ?n] t(2) by auto
  have "?s = 0 \<longleftrightarrow> t = 0"
    using s d t(2) words_val_zero [of m p ?n] by (auto simp: unat_eq_zero)
  moreover have "unat ?s mod 65535 = unat t mod 65535" using s d by simp
  ultimately have "csum_fold ?s = csum_fold t" by (intro csum_fold_unique)
  with t(1) show ?thesis by (simp add: ip_fast_csum_def)
qed

subsection \<open>Properties\<close>

text \<open>
  C37: The checksum of \<open>ip_compute_csum\<close> verifies. For an area of any length up to 131000 bytes with
  a zeroed 16-bit field at an even offset, storing the computed checksum into the field makes
  \<open>ip_compute_csum\<close> over the area return 0.
\<close>

theorem checksum_verifies:
  assumes "even k" and "k + 1 < n" and "n \<le> 131000" and "rd16 m (p + of_nat k) = 0"
  shows "ip_compute_csum (wr16 (p + of_nat k) (ip_compute_csum m p (int n)) m) p (int n) = 0"
  using csum_store_verifies [OF assms] .

theorem checksum_verifies_witness:
  "ip_compute_csum (wr16 (100 + of_nat 2) (ip_compute_csum ((\<lambda>a. ucast a)(102 := 0, 103 := 0)) 100 (int 7))
     ((\<lambda>a. ucast a)(102 := 0, 103 := 0))) 100 (int 7) = 0"
  by (rule checksum_verifies) (simp_all add: rd16_def)

text \<open>
  C38: \<open>ip_fast_csum\<close> agrees with \<open>ip_compute_csum\<close> on a header whenever the sum of its 32-bit
  words does not exceed 32 bits.
\<close>

theorem fast_csum_agrees:
  assumes "unat ihl \<le> 15" and "words_val m p (unat ihl) < 2 ^ 32"
  shows "ip_fast_csum m p ihl = ip_compute_csum m p (4 * int (unat ihl))"
  using fast_csum_eq [OF assms] .

text \<open>A memory that starts with the given bytes.\<close>

definition mem_of :: "u8 list \<Rightarrow> ptr \<Rightarrow> u8" where
  "mem_of bs a = (if unat a < length bs then bs ! unat a else 0)"

theorem fast_csum_agrees_witness:
  "words_val (mem_of [0x45, 0, 0, 84, 0, 0, 64, 0]) 0 (unat (2 :: u32)) < 2 ^ 32 \<and>
   ip_fast_csum (mem_of [0x45, 0, 0, 84, 0, 0, 64, 0]) 0 2 = ip_compute_csum (mem_of [0x45, 0, 0, 84, 0, 0, 64, 0]) 0 8"
proof -
  have two: "unat (2 :: u32) = Suc (Suc 0)" by simp
  have "words_val (mem_of [0x45, 0, 0, 84, 0, 0, 64, 0]) 0 (unat (2 :: u32)) < 2 ^ 32"
    unfolding two words_val_Suc by (simp add: words_val_def unat_rd32 mem_of_def)
  with fast_csum_agrees [OF _ this] show ?thesis by simp
qed

definition sample_header :: "u8 list" where
  "sample_header = [0x45, 0, 0, 84, 0, 0, 64, 0, 64, 17, 0, 0, 192, 168, 1, 200, 192, 168, 1, 254]"

text \<open>
  \<open>ip_fast_csum\<close> drops the carries out of 32 bits. For the 20-byte header of a UDP packet from
  192.168.1.200 to 192.168.1.254 the checksum it computes does not verify.
\<close>

theorem fast_csum_loses_carries:
  "ip_compute_csum (wr16 10 (ip_fast_csum (mem_of sample_header) 0 5) (mem_of sample_header)) 0 20 \<noteq> 0"
  by code_simp

end
