(* ===== verification/Inet.thy ===== *)
theory Inet
  imports Netdev Checksum
begin

text \<open>
  The IPv4 path: net/ip_output.c, net/ip_input.c, net/icmp.c, net/tcp.c, net/udp.c, and net/eth.c and
  \<open>netif_rx\<close> of net/dev.c above it. Headers are read and written in the byte memory of the buffers.
  The sockets an output routine reads are the argument \<open>socks\<close>. \<open>arp_rcv\<close> is not part of the
  sources; its calls are recorded.
\<close>

abbreviation IPPROTO_ICMP :: u8 where "IPPROTO_ICMP \<equiv> 1"
abbreviation IPPROTO_TCP :: u8 where "IPPROTO_TCP \<equiv> 6"
abbreviation IPPROTO_UDP :: u8 where "IPPROTO_UDP \<equiv> 17"
abbreviation IP_DF :: u16 where "IP_DF \<equiv> 0x4000"
abbreviation ICMP_ECHOREPLY :: u8 where "ICMP_ECHOREPLY \<equiv> 0"
abbreviation ICMP_ECHO :: u8 where "ICMP_ECHO \<equiv> 8"
abbreviation PACKET_HOST :: u8 where "PACKET_HOST \<equiv> 0"
abbreviation PACKET_BROADCAST :: u8 where "PACKET_BROADCAST \<equiv> 1"
abbreviation PACKET_OTHERHOST :: u8 where "PACKET_OTHERHOST \<equiv> 3"
abbreviation PACKET_OUTGOING :: u8 where "PACKET_OUTGOING \<equiv> 4"

record inet_sock =
  is_sk_socket :: ptr
  inet_saddr :: u32
  inet_rcv_saddr :: u32
  inet_sport :: u16
  inet_daddr :: u32
  inet_dport :: u16
  inet_num :: u16
  uc_ttl :: int
  cmsg_flags :: u16

type_synonym inet_socks = "ptr \<Rightarrow> inet_sock"

abbreviation mem :: "net_state \<Rightarrow> ptr \<Rightarrow> u8" where
  "mem s \<equiv> bytes (pkts s)"

definition upd_mem :: "((ptr \<Rightarrow> u8) \<Rightarrow> ptr \<Rightarrow> u8) \<Rightarrow> net_state \<Rightarrow> net_state" where
  "upd_mem f s = s\<lparr>pkts := (pkts s)\<lparr>bytes := f (mem s)\<rparr>\<rparr>"

abbreviation on_skb :: "ptr \<Rightarrow> (sk_buff \<Rightarrow> sk_buff) \<Rightarrow> net_state \<Rightarrow> net_state" where
  "on_skb p f s \<equiv> on_pkts (upd_skb p f) s"

text \<open>Fields of the IPv4 header at an address: the first byte holds the header length in its low
  and the version in its high half.\<close>

definition ip_ihl :: "(ptr \<Rightarrow> u8) \<Rightarrow> ptr \<Rightarrow> u8" where
  "ip_ihl m iph = m iph AND 0x0F"

definition ip_version :: "(ptr \<Rightarrow> u8) \<Rightarrow> ptr \<Rightarrow> u8" where
  "ip_version m iph = drop_bit 4 (m iph)"

definition set_ihl :: "ptr \<Rightarrow> u8 \<Rightarrow> (ptr \<Rightarrow> u8) \<Rightarrow> ptr \<Rightarrow> u8" where
  "set_ihl iph v m = m(iph := (m iph AND 0xF0) OR (v AND 0x0F))"

definition set_version :: "ptr \<Rightarrow> u8 \<Rightarrow> (ptr \<Rightarrow> u8) \<Rightarrow> ptr \<Rightarrow> u8" where
  "set_version iph v m = m(iph := (m iph AND 0x0F) OR push_bit 4 v)"

subsection \<open>Output\<close>

definition eth0_name :: "u8 list" where "eth0_name = [101, 116, 104, 48, 0]"

definition ip_output :: "driver_ops \<Rightarrow> ptr \<Rightarrow> net_state \<Rightarrow> (int \<times> net_state) option" where
  "ip_output drv p s = do {
     let iph = skb_network_header p (pkts s);
     dev \<leftarrow> dev_get_by_name eth0_name s;
     if dev = NULL then Some (-1, on_pkts (kfree_skb p) s)
     else do {
       let s = on_skb p (\<lambda>b. b\<lparr>sk_dev := dev\<rparr>) s;
       let s = upd_mem (\<lambda>m. m(iph + 8 := m (iph + 8) - 1)) s;
       if mem s (iph + 8) = 0 then Some (-1, on_pkts (kfree_skb p) s)
       else do {
         let s = upd_mem (wr16 (iph + 10) 0) s;
         let s = upd_mem (\<lambda>m. wr16 (iph + 10) (ip_fast_csum m iph (ucast (ip_ihl m iph))) m) s;
         let s = on_pkts (\<lambda>h. snd (skb_push p 14 h)) s;
         let s = on_skb p (\<lambda>b. b\<lparr>sk_protocol := htons 0x0800\<rparr>) s;
         Some (dev_queue_xmit drv p s)
       }
     }
   }"

definition ip_queue_xmit :: "driver_ops \<Rightarrow> ptr \<Rightarrow> net_state \<Rightarrow> (int \<times> net_state) option" where
  "ip_queue_xmit drv p s = ip_output drv p s"

text \<open>The header writes of \<open>ip_build_and_send_pkt\<close>, in order; then the packet goes to \<open>ip_output\<close>.\<close>

definition ip_header_fields :: "ptr \<Rightarrow> u32 \<Rightarrow> u8 \<Rightarrow> u32 \<Rightarrow> u32 \<Rightarrow> (ptr \<Rightarrow> u8) \<Rightarrow> ptr \<Rightarrow> u8" where
  "ip_header_fields iph len proto saddr daddr m =
     (let m = set_version iph 4 m;
          m = set_ihl iph 5 m;
          m = m(iph + 1 := 0);
          m = wr16 (iph + 2) (htons (ucast len)) m;
          m = wr16 (iph + 4) 0 m;
          m = wr16 (iph + 6) (htons IP_DF) m;
          m = m(iph + 8 := 64);
          m = m(iph + 9 := proto);
          m = wr16 (iph + 10) 0 m;
          m = wr32 (iph + 12) saddr m
      in wr32 (iph + 16) daddr m)"

definition ip_header_bytes :: "ptr \<Rightarrow> u32 \<Rightarrow> u8 \<Rightarrow> u32 \<Rightarrow> u32 \<Rightarrow> (ptr \<Rightarrow> u8) \<Rightarrow> ptr \<Rightarrow> u8" where
  "ip_header_bytes iph len proto saddr daddr m =
     (let m = ip_header_fields iph len proto saddr daddr m
      in wr16 (iph + 10) (ip_fast_csum m iph (ucast (ip_ihl m iph))) m)"

definition ip_build_and_send_pkt ::
  "inet_socks \<Rightarrow> driver_ops \<Rightarrow> ptr \<Rightarrow> u32 \<Rightarrow> u32 \<Rightarrow> net_state \<Rightarrow> (int \<times> net_state) option" where
  "ip_build_and_send_pkt socks drv p saddr daddr s =
     (let s = on_pkts (\<lambda>h. snd (skb_push p 20 h)) s;
          s = on_pkts (skb_reset_network_header p) s;
          b = skb (pkts s) p;
          proto = (if sk_sk b \<noteq> NULL then ucast (inet_num (socks (sk_sk b))) else 0);
          s = upd_mem (ip_header_bytes (sk_data b) (sk_len b) proto saddr daddr) s
      in ip_output drv p s)"

text \<open>A message is its first buffer: base address and length. The transport headers are 8 and 20
  bytes long; \<open>memset\<close> clears the TCP header before the fields are set.\<close>

definition udp_sendmsg ::
  "inet_socks \<Rightarrow> driver_ops \<Rightarrow> ptr \<Rightarrow> inet_sock \<Rightarrow> ptr \<Rightarrow> u64 \<Rightarrow> u64 \<Rightarrow> net_state \<Rightarrow> (int \<times> net_state) option" where
  "udp_sendmsg socks drv page inet iov_base iov_len size0 s =
     (let (p, h) = alloc_skb page (ucast (size0 + 128)) (pkts s); s = s\<lparr>pkts := h\<rparr>
      in if p = NULL then Some (-1, s)
         else let s = on_pkts (skb_reserve p 128) s;
                  (dst, h) = skb_put p (ucast iov_len) (pkts s);
                  s = s\<lparr>pkts := memcpy dst iov_base (unat iov_len) h\<rparr>;
                  s = on_pkts (\<lambda>h. snd (skb_push p 8 h)) s;
                  uh = sk_data (skb (pkts s) p);
                  s = upd_mem (wr16 uh (inet_sport inet)) s;
                  s = upd_mem (wr16 (uh + 2) (inet_dport inet)) s;
                  s = upd_mem (wr16 (uh + 4) (htons (ucast (sk_len (skb (pkts s) p))))) s;
                  s = upd_mem (wr16 (uh + 6) 0) s
              in ip_build_and_send_pkt socks drv p (inet_saddr inet) (inet_daddr inet) s)"

definition tcp_sendmsg ::
  "inet_socks \<Rightarrow> driver_ops \<Rightarrow> ptr \<Rightarrow> inet_sock \<Rightarrow> ptr \<Rightarrow> u64 \<Rightarrow> u64 \<Rightarrow> net_state \<Rightarrow> (int \<times> net_state) option" where
  "tcp_sendmsg socks drv page inet iov_base iov_len size0 s =
     (let (p, h) = alloc_skb page (ucast (size0 + 128)) (pkts s); s = s\<lparr>pkts := h\<rparr>
      in if p = NULL then Some (-1, s)
         else let s = on_pkts (skb_reserve p 128) s;
                  (dst, h) = skb_put p (ucast iov_len) (pkts s);
                  s = s\<lparr>pkts := memcpy dst iov_base (unat iov_len) h\<rparr>;
                  s = on_pkts (\<lambda>h. snd (skb_push p 20 h)) s;
                  s = on_pkts (skb_reset_transport_header p) s;
                  th = sk_data (skb (pkts s) p);
                  s = upd_mem (for_upto 20 (\<lambda>i m. m(th + of_nat i := 0))) s;
                  s = upd_mem (wr16 th (inet_sport inet)) s;
                  s = upd_mem (wr16 (th + 2) (inet_dport inet)) s;
                  s = upd_mem (wr32 (th + 4) 0) s;
                  s = upd_mem (wr32 (th + 8) 0) s;
                  s = upd_mem (\<lambda>m. m(th + 12 := (m (th + 12) AND 0x0F) OR push_bit 4 5)) s;
                  s = upd_mem (\<lambda>m. m(th + 13 := m (th + 13) OR 0x08)) s;
                  s = upd_mem (\<lambda>m. m(th + 13 := m (th + 13) OR 0x10)) s;
                  s = upd_mem (wr16 (th + 14) (htons 65535)) s;
                  s = upd_mem (wr16 (th + 16) 0) s
              in ip_build_and_send_pkt socks drv p (inet_saddr inet) (inet_daddr inet) s)"

definition tcp_recvmsg :: "inet_sock \<Rightarrow> int" where "tcp_recvmsg inet = 0"
definition udp_recvmsg :: "inet_sock \<Rightarrow> int" where "udp_recvmsg inet = 0"

subsection \<open>Input\<close>

definition tcp_rcv :: "ptr \<Rightarrow> net_state \<Rightarrow> int \<times> net_state" where
  "tcp_rcv p s =
     (let th = sk_data (skb (pkts s) p);
          thlen = 4 * ucast (drop_bit 4 (mem s (th + 12)));
          s = on_pkts (\<lambda>h. snd (skb_pull p thlen h)) s
      in (0, on_pkts (kfree_skb p) s))"

definition udp_rcv :: "ptr \<Rightarrow> net_state \<Rightarrow> int \<times> net_state" where
  "udp_rcv p s = (let s = on_pkts (\<lambda>h. snd (skb_pull p 8 h)) s in (0, on_pkts (kfree_skb p) s))"

definition icmp_rcv :: "driver_ops \<Rightarrow> ptr \<Rightarrow> net_state \<Rightarrow> (int \<times> net_state) option" where
  "icmp_rcv drv p s =
     (let b = skb (pkts s) p; icmph = sk_data b
      in if mem s icmph = ICMP_ECHO
         then let iph = sk_data b - 20 - ucast (ip_ihl (mem s) (sk_nh b)) * 4;
                  tmp = rd32 (mem s) (iph + 16);
                  s = upd_mem (\<lambda>m. wr32 (iph + 16) (rd32 m (iph + 12)) m) s;
                  s = upd_mem (wr32 (iph + 12) tmp) s;
                  s = upd_mem (\<lambda>m. m(icmph := ICMP_ECHOREPLY)) s;
                  s = upd_mem (wr16 (icmph + 2) 0) s;
                  s = upd_mem (\<lambda>m. wr16 (icmph + 2) (ip_compute_csum m icmph (sint (sk_len b))) m) s;
                  s = on_skb p (\<lambda>b. b\<lparr>sk_pkt_type := PACKET_OUTGOING\<rparr>) s
              in map_option (\<lambda>(r, s). (0, s)) (ip_output drv p s)
         else Some (0, on_pkts (kfree_skb p) s))"

text \<open>
  \<open>ip_local_deliver\<close> computes the header address from the header length of an uninitialised
  pointer variable. Its indeterminate value is the argument \<open>stale\<close>: \<open>None\<close> is what C says,
  undefined behaviour; \<open>Some q\<close> is the execution in which the variable's storage happened to
  hold the address \<open>q\<close>.
\<close>

definition ip_local_deliver :: "ptr option \<Rightarrow> driver_ops \<Rightarrow> ptr \<Rightarrow> net_state \<Rightarrow> (int \<times> net_state) option" where
  "ip_local_deliver stale drv p s = do {
     q \<leftarrow> stale;
     let iph = sk_data (skb (pkts s) p) - ucast (ip_ihl (mem s) q) * 4;
     if mem s (iph + 9) = IPPROTO_TCP then Some (tcp_rcv p s)
     else if mem s (iph + 9) = IPPROTO_UDP then Some (udp_rcv p s)
     else if mem s (iph + 9) = IPPROTO_ICMP then icmp_rcv drv p s
     else Some (-1, on_pkts (kfree_skb p) s)
   }"

definition ip_rcv :: "ptr option \<Rightarrow> driver_ops \<Rightarrow> ptr \<Rightarrow> net_state \<Rightarrow> (int \<times> net_state) option" where
  "ip_rcv stale drv p s =
     (if p = NULL then Some (-1, s)
      else let b = skb (pkts s) p; iph = sk_data b
           in if ip_version (mem s) iph \<noteq> 4 then Some (-1, on_pkts (kfree_skb p) s)
              else if ip_ihl (mem s) iph < 5 then Some (-1, on_pkts (kfree_skb p) s)
              else if sk_len b < ucast (ntohs (rd16 (mem s) (iph + 2))) then Some (-1, on_pkts (kfree_skb p) s)
              else let s = on_pkts (\<lambda>h. snd (skb_pull p (ucast (ip_ihl (mem s) iph) * 4) h)) s
                   in ip_local_deliver stale drv p s)"

subsection \<open>Ethernet\<close>

text \<open>\<open>daddr\<close> and \<open>saddr\<close> are null or the six address bytes.\<close>

definition write_bytes :: "ptr \<Rightarrow> u8 list \<Rightarrow> (ptr \<Rightarrow> u8) \<Rightarrow> ptr \<Rightarrow> u8" where
  "write_bytes p bs m = for_upto (length bs) (\<lambda>i m. m(p + of_nat i := bs ! i)) m"

definition eth_header ::
  "ptr \<Rightarrow> net_device \<Rightarrow> u16 \<Rightarrow> u8 list option \<Rightarrow> u8 list option \<Rightarrow> net_state \<Rightarrow> int \<times> net_state" where
  "eth_header p dev proto16 daddr saddr s =
     (let s = on_pkts (\<lambda>h. snd (skb_push p 14 h)) s;
          eth = sk_data (skb (pkts s) p);
          s = upd_mem (wr16 (eth + 12) (htons proto16)) s;
          s = upd_mem (write_bytes eth (case daddr of Some a \<Rightarrow> take 6 a | None \<Rightarrow> replicate 6 0xFF)) s;
          s = upd_mem (write_bytes (eth + 6) (case saddr of Some a \<Rightarrow> take 6 a | None \<Rightarrow> take 6 (nd_dev_addr dev))) s
      in (14, s))"

definition read_bytes :: "(ptr \<Rightarrow> u8) \<Rightarrow> ptr \<Rightarrow> nat \<Rightarrow> u8 list" where
  "read_bytes m p n = map (\<lambda>i. m (p + of_nat i)) [0..<n]"

definition eth_type_trans :: "ptr \<Rightarrow> ptr \<Rightarrow> net_state \<Rightarrow> u16 \<times> net_state" where
  "eth_type_trans p dev s =
     (let eth = sk_data (skb (pkts s) p);
          dest = read_bytes (mem s) eth 6;
          s = on_skb p (\<lambda>b. b\<lparr>sk_dev := dev, sk_protocol := rd16 (mem s) (eth + 12)\<rparr>) s;
          s = on_skb p (\<lambda>b. b\<lparr>sk_pkt_type := (if dest = take 6 (nd_dev_addr (devs s dev)) then PACKET_HOST
                 else if dest = replicate 6 0xFF then PACKET_BROADCAST else PACKET_OTHERHOST)\<rparr>) s;
          s = on_pkts (\<lambda>h. snd (skb_pull p 14 h)) s
      in (sk_protocol (skb (pkts s) p), s))"

definition eth_rcv :: "ptr option \<Rightarrow> driver_ops \<Rightarrow> ptr \<Rightarrow> net_state \<Rightarrow> net_state option" where
  "eth_rcv stale drv p s =
     (let (proto, s) = eth_type_trans p (sk_dev (skb (pkts s) p)) s
      in if ntohs proto = 0x0800 then map_option snd (ip_rcv stale drv p s)
         else if ntohs proto = 0x0806 then Some (on_pkts (kfree_skb p) s)
         else Some (on_pkts (kfree_skb p) s))"

definition netif_rx :: "ptr option \<Rightarrow> driver_ops \<Rightarrow> ptr \<Rightarrow> net_state \<Rightarrow> net_state option" where
  "netif_rx stale drv p s =
     (if sk_protocol (skb (pkts s) p) = htons 0x0800 then map_option snd (ip_rcv stale drv p s)
      else if sk_protocol (skb (pkts s) p) = htons 0x0806 then Some (s\<lparr>arp_calls := arp_calls s @ [p]\<rparr>)
      else Some (on_pkts (kfree_skb p) s))"

subsection \<open>Library\<close>

lemma mem_upd [simp]: "mem (upd_mem f s) = f (mem s)"
  by (simp add: upd_mem_def)

lemma upd_mem_fields [simp]:
  "skb (pkts (upd_mem f s)) = skb (pkts s)" "devs (upd_mem f s) = devs s" "dev_base (upd_mem f s) = dev_base s"
  "xmit_calls (upd_mem f s) = xmit_calls s"
  by (simp_all add: upd_mem_def)

lemma skb_upd [simp]: "skb (upd_skb p f h) p = f (skb h p)" "bytes (upd_skb p f h) = bytes h"
  by (simp_all add: upd_skb_def)

lemma skb_push_fields [simp]:
  "bytes (snd (skb_push p n h)) = bytes h" "sk_data (skb (snd (skb_push p n h)) p) = sk_data (skb h p) - ucast n"
  "sk_len (skb (snd (skb_push p n h)) p) = sk_len (skb h p) + n" "sk_sk (skb (snd (skb_push p n h)) p) = sk_sk (skb h p)"
  "sk_nh (skb (snd (skb_push p n h)) p) = sk_nh (skb h p)" "sk_dev (skb (snd (skb_push p n h)) p) = sk_dev (skb h p)"
  by (simp_all add: skb_push_def Let_def)

lemma skb_pull_fields [simp]:
  "bytes (snd (skb_pull p n h)) = bytes h" "sk_data (skb (snd (skb_pull p n h)) p) = sk_data (skb h p) + ucast n"
  "sk_len (skb (snd (skb_pull p n h)) p) = sk_len (skb h p) - n"
  "sk_protocol (skb (snd (skb_pull p n h)) p) = sk_protocol (skb h p)"
  "sk_pkt_type (skb (snd (skb_pull p n h)) p) = sk_pkt_type (skb h p)"
  by (simp_all add: skb_pull_def Let_def)

lemma rd16_wr16: "rd16 (wr16 p v m) p = v"
proof -
  have "unat (ucast (rd16 (wr16 p v m) p) :: u32) = unat v"
    using unat_wr16 [of v] by (simp add: unat_rd16 wr16_def)
  then have "unat (rd16 (wr16 p v m) p) = unat v"
    using unsigned_less [of "rd16 (wr16 p v m) p", where ?'a = nat]
    by (simp add: unsigned_ucast_eq take_bit_nat_eq_self)
  then show ?thesis by (simp add: word_unat_eq_iff)
qed

lemma dev_get_by_name_cong:
  "devs t = devs s \<Longrightarrow> dev_base t = dev_base s \<Longrightarrow> dev_get_by_name name t = dev_get_by_name name s"
  by (simp add: dev_get_by_name_def)

text \<open>The device a packet leaves by: \<open>eth0\<close>, running and with a transmit function.\<close>

definition can_send :: "net_state \<Rightarrow> ptr \<Rightarrow> bool" where
  "can_send s dev \<longleftrightarrow> dev_get_by_name eth0_name s = Some dev \<and> dev \<noteq> NULL
     \<and> netif_running (devs s dev) \<and> nd_hard_start_xmit (devs s dev) \<noteq> NULL"

lemma can_send_cong: "devs t = devs s \<Longrightarrow> dev_base t = dev_base s \<Longrightarrow> can_send t dev = can_send s dev"
  by (simp add: can_send_def dev_get_by_name_def)

lemma ip_output_sends:
  assumes "can_send s dev" "mem s (sk_nh (skb (pkts s) p) + 8) \<noteq> 1"
  shows "\<exists>r s'. ip_output drv p s = Some (r, s')
    \<and> xmit_calls s' = xmit_calls s @ [(nd_hard_start_xmit (devs s dev), p, dev)]
    \<and> (\<forall>a. a \<noteq> sk_nh (skb (pkts s) p) + 8 \<and> a \<noteq> sk_nh (skb (pkts s) p) + 10 \<and> a \<noteq> sk_nh (skb (pkts s) p) + 11
         \<longrightarrow> mem s' a = mem s a)
    \<and> mem s' (sk_nh (skb (pkts s) p) + 8) = mem s (sk_nh (skb (pkts s) p) + 8) - 1"
proof -
  let ?i = "sk_nh (skb (pkts s) p)"
  have ttl: "mem s (?i + 8) - 1 \<noteq> 0" using assms(2) by simp
  have sum: "?i + 10 + 1 = ?i + 11" by simp
  from assms(1) have dev: "dev_get_by_name eth0_name s = Some dev" "dev \<noteq> NULL"
    "netif_running (devs s dev)" "nd_hard_start_xmit (devs s dev) \<noteq> NULL" by (simp_all add: can_send_def)
  show ?thesis
    unfolding ip_output_def Let_def skb_network_header_def
    using ttl dev by (simp add: dev_queue_xmit_def wr16_def sum)
qed

lemma skb_reset_fields [simp]:
  "bytes (skb_reset_network_header p h) = bytes h"
  "sk_data (skb (skb_reset_network_header p h) p) = sk_data (skb h p)"
  "sk_nh (skb (skb_reset_network_header p h) p) = sk_data (skb h p)"
  "sk_sk (skb (skb_reset_network_header p h) p) = sk_sk (skb h p)"
  "sk_len (skb (skb_reset_network_header p h) p) = sk_len (skb h p)"
  by (simp_all add: skb_reset_network_header_def)

lemma ptr_offsets: "(p :: ptr) + 2 + 1 = p + 3" "p + 4 + 1 = p + 5" "p + 6 + 1 = p + 7" "p + 10 + 1 = p + 11"
  "p + 12 + 1 = p + 13" "p + 12 + 2 = p + 14" "p + 12 + 3 = p + 15"
  "p + 16 + 1 = p + 17" "p + 16 + 2 = p + 18" "p + 16 + 3 = p + 19"
  by simp_all

lemmas ip_header_unfold = ip_header_fields_def Let_def wr16_def wr32_def ptr_offsets

lemma ip_header_fields_at:
  "ip_header_fields iph len proto sa da m (iph + 9) = proto" "ip_header_fields iph len proto sa da m (iph + 8) = 64"
  "ip_header_fields iph len proto sa da m (iph + 10) = 0" "ip_header_fields iph len proto sa da m (iph + 11) = 0"
  "ip_header_fields iph len proto sa da m (iph + 2) = ucast (htons (ucast len))"
  "ip_header_fields iph len proto sa da m (iph + 3) = ucast (drop_bit 8 (htons (ucast len)))"
  "ip_header_fields iph len proto sa da m iph = (m iph AND 0x0F OR push_bit 4 4) AND 0xF0 OR (5 AND 0x0F)"
  unfolding ip_header_unfold by (simp_all add: set_version_def set_ihl_def)

lemma ip_header_bytes_other:
  "a \<noteq> iph + 10 \<Longrightarrow> a \<noteq> iph + 11 \<Longrightarrow>
     ip_header_bytes iph len proto sa da m a = ip_header_fields iph len proto sa da m a"
  unfolding ip_header_bytes_def Let_def wr16_def ptr_offsets by simp

lemma ip_header_bytes_at:
  "ip_header_bytes iph len proto sa da m (iph + 9) = proto"
  "ip_header_bytes iph len proto sa da m (iph + 8) = 64"
  by (simp_all add: ip_header_bytes_other ip_header_fields_at)

lemma ip_build_sends:
  assumes "can_send s dev" "sk_sk (skb (pkts s) p) = NULL"
  shows "\<exists>r s'. ip_build_and_send_pkt socks drv p saddr daddr s = Some (r, s')
    \<and> xmit_calls s' = xmit_calls s @ [(nd_hard_start_xmit (devs s dev), p, dev)]
    \<and> mem s' (sk_data (skb (pkts s) p) - 20 + 9) = 0 \<and> mem s' (sk_data (skb (pkts s) p) - 20 + 8) = 63"
proof -
  let ?iph = "sk_data (skb (pkts s) p) - 20"
  let ?s1 = "on_pkts (skb_reset_network_header p) (on_pkts (\<lambda>h. snd (skb_push p 20 h)) s)"
  let ?s2 = "upd_mem (ip_header_bytes ?iph (sk_len (skb (pkts ?s1) p)) 0 saddr daddr) ?s1"
  have eq: "ip_build_and_send_pkt socks drv p saddr daddr s = ip_output drv p ?s2"
    using assms(2) by (simp add: ip_build_and_send_pkt_def Let_def)
  have nh: "sk_nh (skb (pkts ?s2) p) = ?iph" by simp
  have bytes: "mem ?s2 (?iph + 9) = 0" "mem ?s2 (?iph + 8) = 64"
    by (simp_all only: mem_upd ip_header_bytes_at)
  have "can_send ?s2 dev" using assms(1) by (subst can_send_cong [where s = s]) simp_all
  from ip_output_sends [OF this, of p drv] bytes show ?thesis
    unfolding eq nh by auto
qed

lemma skb_reserve_put_fields [simp]:
  "sk_sk (skb (skb_reserve p n h) p) = sk_sk (skb h p)"
  "sk_data (skb (skb_reserve p n h) p) = sk_data (skb h p) + scast n"
  "sk_sk (skb (snd (skb_put p k h)) p) = sk_sk (skb h p)"
  "sk_data (skb (snd (skb_put p k h)) p) = sk_data (skb h p)"
  "sk_sk (skb (skb_reset_transport_header p h) p) = sk_sk (skb h p)"
  "sk_data (skb (skb_reset_transport_header p h) p) = sk_data (skb h p)"
  by (simp_all add: skb_reserve_def skb_put_def skb_reset_transport_header_def)

lemma alloc_skb_sk: "page \<noteq> NULL \<Longrightarrow> sk_sk (skb (snd (alloc_skb page n h)) page) = NULL"
  by (simp add: alloc_skb_def Let_def zero_skb_def)

lemma sendmsg_reaches_build:
  assumes "page \<noteq> NULL"
  shows "\<exists>s1. udp_sendmsg socks drv page inet base len sz s =
      ip_build_and_send_pkt socks drv page (inet_saddr inet) (inet_daddr inet) s1
    \<and> sk_sk (skb (pkts s1) page) = NULL \<and> sk_data (skb (pkts s1) page) = page + 312
    \<and> devs s1 = devs s \<and> dev_base s1 = dev_base s \<and> xmit_calls s1 = xmit_calls s"
    and "\<exists>s1. tcp_sendmsg socks drv page inet base len sz s =
      ip_build_and_send_pkt socks drv page (inet_saddr inet) (inet_daddr inet) s1
    \<and> sk_sk (skb (pkts s1) page) = NULL \<and> sk_data (skb (pkts s1) page) = page + 300
    \<and> devs s1 = devs s \<and> dev_base s1 = dev_base s \<and> xmit_calls s1 = xmit_calls s"
proof -
  have a: "fst (alloc_skb page n h) = page" "sk_sk (skb (snd (alloc_skb page n h)) page) = NULL"
    "sk_data (skb (snd (alloc_skb page n h)) page) = page + 192" for n h
    using assms by (simp_all add: alloc_skb_success alloc_skb_sk)
  show "\<exists>s1. udp_sendmsg socks drv page inet base len sz s =
      ip_build_and_send_pkt socks drv page (inet_saddr inet) (inet_daddr inet) s1
    \<and> sk_sk (skb (pkts s1) page) = NULL \<and> sk_data (skb (pkts s1) page) = page + 312
    \<and> devs s1 = devs s \<and> dev_base s1 = dev_base s \<and> xmit_calls s1 = xmit_calls s"
    using assms
    by (simp add: udp_sendmsg_def split_beta Let_def a) (rule exI, rule conjI [OF refl], simp add: a)
  show "\<exists>s1. tcp_sendmsg socks drv page inet base len sz s =
      ip_build_and_send_pkt socks drv page (inet_saddr inet) (inet_daddr inet) s1
    \<and> sk_sk (skb (pkts s1) page) = NULL \<and> sk_data (skb (pkts s1) page) = page + 300
    \<and> devs s1 = devs s \<and> dev_base s1 = dev_base s \<and> xmit_calls s1 = xmit_calls s"
    using assms
    by (simp add: tcp_sendmsg_def split_beta Let_def a) (rule exI, rule conjI [OF refl], simp add: a)
qed

lemma nibbles: "(((b :: u8) AND 0x0F OR push_bit 4 4) AND 0xF0 OR (5 AND 0x0F)) = 0x45"
proof (rule bit_word_eqI)
  fix n assume "n < LENGTH(8)"
  then have "n = 0 \<or> n = 1 \<or> n = 2 \<or> n = 3 \<or> n = 4 \<or> n = 5 \<or> n = 6 \<or> n = 7" by auto
  then show "bit ((b AND 0x0F OR push_bit 4 4) AND 0xF0 OR (5 AND 0x0F)) n = bit (0x45 :: u8) n"
    by (elim disjE) (simp_all add: bit_simps)
qed

lemma ip_header_first: "ip_header_fields iph len proto sa da m iph = 0x45"
  by (simp only: ip_header_fields_at nibbles)

lemma ip_header_length: "rd16 (ip_header_fields iph len proto sa da m) (iph + 2) = htons (ucast len)"
  using rd16_wr16 [of "iph + 2" "htons (ucast len)" m]
  by (simp add: rd16_def ptr_offsets ip_header_fields_at wr16_def)

lemma signed_header_verifies:
  assumes "words_val m iph 5 < 2 ^ 32" "rd16 m (iph + 10) = 0"
  shows "ip_compute_csum (wr16 (iph + 10) (ip_fast_csum m iph 5) m) iph 20 = 0"
proof -
  have "ip_fast_csum m iph 5 = ip_compute_csum m iph (int 20)"
    using fast_csum_eq [of 5 m iph] assms(1) by simp
  then show ?thesis using csum_store_verifies [of 10 20 m iph] assms(2) by simp
qed

text \<open>What \<open>ip_output\<close> leaves in memory: the header with one hop less and a new checksum.\<close>

definition one_hop_less :: "ptr \<Rightarrow> (ptr \<Rightarrow> u8) \<Rightarrow> ptr \<Rightarrow> u8" where
  "one_hop_less iph m = wr16 (iph + 10) 0 (m(iph + 8 := m (iph + 8) - 1))"

lemma ip_output_mem:
  assumes "can_send s dev" "mem s (sk_nh (skb (pkts s) p) + 8) \<noteq> 1" "ip_output drv p s = Some (r, s')"
  shows "mem s' = (let iph = sk_nh (skb (pkts s) p); m = one_hop_less iph (mem s)
    in wr16 (iph + 10) (ip_fast_csum m iph (ucast (ip_ihl m iph))) m)"
proof -
  let ?i = "sk_nh (skb (pkts s) p)"
  have ttl: "mem s (?i + 8) - 1 \<noteq> 0" using assms(2) by simp
  from assms(1) have dev: "dev_get_by_name eth0_name s = Some dev" "dev \<noteq> NULL"
    "netif_running (devs s dev)" "nd_hard_start_xmit (devs s dev) \<noteq> NULL" by (simp_all add: can_send_def)
  show ?thesis
    using assms(3) ttl dev unfolding ip_output_def Let_def skb_network_header_def one_hop_less_def
    by (auto simp: dev_queue_xmit_def) (simp add: fun_upd_def)
qed

lemma one_hop_less_other:
  "a \<notin> {iph + 8, iph + 10, iph + 11} \<Longrightarrow> one_hop_less iph m a = m a"
  "rd16 (one_hop_less iph m) (iph + 10) = 0" "wr16 (iph + 10) 0 (wr16 (iph + 10) v (one_hop_less iph m)) = one_hop_less iph m"
  by (auto simp: one_hop_less_def wr16_def rd16_def ptr_offsets)

text \<open>The packet that \<open>ip_build_and_send_pkt\<close> hands to the driver, field by field.\<close>

lemma sent_packet:
  fixes s s' :: net_state and p :: ptr
  assumes send: "can_send s dev"
  defines "b \<equiv> skb (pkts s) p"
  defines "iph \<equiv> sk_data b - 20"
  shows "\<exists>r s'. ip_build_and_send_pkt socks drv p saddr daddr s = Some (r, s')
    \<and> xmit_calls s' = xmit_calls s @ [(nd_hard_start_xmit (devs s dev), p, dev)]
    \<and> mem s' iph = 0x45 \<and> rd16 (mem s') (iph + 2) = htons (ucast (sk_len b + 20)) \<and> mem s' (iph + 8) = 63
    \<and> (words_val (wr16 (iph + 10) 0 (mem s')) iph 5 < 2 ^ 32 \<longrightarrow> ip_compute_csum (mem s') iph 20 = 0)"
proof -
  let ?s1 = "on_pkts (skb_reset_network_header p) (on_pkts (\<lambda>h. snd (skb_push p 20 h)) s)"
  define proto :: u8 where "proto = (if sk_sk b \<noteq> NULL then ucast (inet_num (socks (sk_sk b))) else 0)"
  define s2 where "s2 = upd_mem (ip_header_bytes iph (sk_len b + 20) proto saddr daddr) ?s1"
  have eq: "ip_build_and_send_pkt socks drv p saddr daddr s = ip_output drv p s2"
    by (simp add: ip_build_and_send_pkt_def Let_def s2_def proto_def b_def iph_def)
  have nh: "sk_nh (skb (pkts s2) p) = iph" by (simp add: s2_def iph_def b_def)
  have m2: "mem s2 = ip_header_bytes iph (sk_len b + 20) proto saddr daddr (mem s)" by (simp add: s2_def)
  have ttl: "mem s2 (iph + 8) = 64" unfolding m2 by (rule ip_header_bytes_at)
  have s2: "can_send s2 dev" unfolding s2_def using send by (subst can_send_cong [where s = s]) simp_all
  have calls: "xmit_calls s2 = xmit_calls s" "devs s2 = devs s" by (simp_all add: s2_def)
  obtain r s' where out: "ip_output drv p s2 = Some (r, s')"
    "xmit_calls s' = xmit_calls s @ [(nd_hard_start_xmit (devs s dev), p, dev)]" "mem s' (iph + 8) = 63"
    using ip_output_sends [OF s2, of p drv] unfolding nh calls ttl by auto
  let ?m = "one_hop_less iph (mem s2)"
  have at0: "?m iph = 0x45" unfolding m2 by (simp add: one_hop_less_other ip_header_bytes_other ip_header_first)
  then have mem: "mem s' = wr16 (iph + 10) (ip_fast_csum ?m iph 5) ?m"
    using ip_output_mem [OF s2 _ out(1)] unfolding nh ttl by (simp add: Let_def ip_ihl_def)
  have "mem s' iph = 0x45" "rd16 (mem s') (iph + 2) = rd16 ?m (iph + 2)"
    unfolding mem by (simp_all add: wr16_def rd16_def ptr_offsets at0)
  moreover have "rd16 ?m (iph + 2) = htons (ucast (sk_len b + 20))"
    unfolding m2 ip_header_length [of iph _ proto saddr daddr "mem s", symmetric]
    by (simp add: rd16_def one_hop_less_other ip_header_bytes_other ptr_offsets)
  moreover have "words_val (wr16 (iph + 10) 0 (mem s')) iph 5 < 2 ^ 32 \<longrightarrow> ip_compute_csum (mem s') iph 20 = 0"
    unfolding mem using signed_header_verifies [of ?m iph] by (simp add: one_hop_less_other)
  ultimately show ?thesis using out unfolding eq by auto
qed

lemma checks_passed:
  assumes "p \<noteq> NULL" "mem s (sk_data (skb (pkts s) p)) = 0x45"
    "rd16 (mem s) (sk_data (skb (pkts s) p) + 2) = htons (ucast (sk_len (skb (pkts s) p)))"
  shows "ip_rcv stale drv p s = ip_local_deliver stale drv p (on_pkts (\<lambda>h. snd (skb_pull p 20 h)) s)"
proof -
  have "(ucast (ucast (sk_len (skb (pkts s) p)) :: u16) :: u32) \<le> sk_len (skb (pkts s) p)"
    by (simp add: word_le_nat_alt unsigned_ucast_eq unsigned_take_bit_eq take_bit_nat_less_eq_self)
  then have "\<not> sk_len (skb (pkts s) p) < ucast (ucast (sk_len (skb (pkts s) p)) :: u16)" by (simp only: not_less)
  with assms show ?thesis by (simp add: ip_rcv_def Let_def ip_version_def ip_ihl_def drop_bit_eq_div)
qed

lemma read_bytes_nth: "read_bytes m p n = read_bytes m' p' n \<Longrightarrow> i < n \<Longrightarrow> m (p + of_nat i) = m' (p' + of_nat i)"
  by (simp add: read_bytes_def list_eq_iff_nth_eq)

subsection \<open>Properties\<close>

text \<open>
  C39: If a running \<open>eth0\<close> exists, \<open>ip_build_and_send_pkt\<close> hands the packet to its driver, and
  whoever receives the 20 header bytes that are then in memory (time to live 63, checksum computed
  anew by \<open>ip_output\<close>) in front of as many bytes of data gets past all the checks of \<open>ip_rcv\<close>, which
  goes on to \<open>ip_local_deliver\<close> with the header stripped. The checksum of the sent header verifies
  whenever its five 32-bit words, the checksum field taken as zero, add up to less than \<open>2 ^ 32\<close>;
  \<open>ip_rcv\<close> itself rejects no packet for its checksum.
\<close>

theorem sent_packet_accepted:
  assumes "can_send s dev"
  shows "\<exists>r s'. ip_build_and_send_pkt socks drv p saddr daddr s = Some (r, s')
    \<and> xmit_calls s' = xmit_calls s @ [(nd_hard_start_xmit (devs s dev), p, dev)]
    \<and> mem s' (sk_data (skb (pkts s) p) - 20 + 8) = 63
    \<and> (\<forall>q t. q \<noteq> NULL \<and> sk_len (skb (pkts t) q) = sk_len (skb (pkts s) p) + 20
        \<and> read_bytes (mem t) (sk_data (skb (pkts t) q)) 20 = read_bytes (mem s') (sk_data (skb (pkts s) p) - 20) 20 \<longrightarrow>
        ip_rcv stale drv q t = ip_local_deliver stale drv q (on_pkts (\<lambda>h. snd (skb_pull q 20 h)) t))
    \<and> (words_val (wr16 (sk_data (skb (pkts s) p) - 20 + 10) 0 (mem s')) (sk_data (skb (pkts s) p) - 20) 5 < 2 ^ 32 \<longrightarrow>
        ip_compute_csum (mem s') (sk_data (skb (pkts s) p) - 20) 20 = 0)"
proof -
  let ?i = "sk_data (skb (pkts s) p) - 20"
  obtain r s' where sent: "ip_build_and_send_pkt socks drv p saddr daddr s = Some (r, s')"
    "xmit_calls s' = xmit_calls s @ [(nd_hard_start_xmit (devs s dev), p, dev)]" "mem s' ?i = 0x45"
    "rd16 (mem s') (?i + 2) = htons (ucast (sk_len (skb (pkts s) p) + 20))" "mem s' (?i + 8) = 63"
    "words_val (wr16 (?i + 10) 0 (mem s')) ?i 5 < 2 ^ 32 \<longrightarrow> ip_compute_csum (mem s') ?i 20 = 0"
    using sent_packet [OF assms, of socks drv p saddr daddr] by blast
  have "ip_rcv stale drv q t = ip_local_deliver stale drv q (on_pkts (\<lambda>h. snd (skb_pull q 20 h)) t)"
    if q: "q \<noteq> NULL" "sk_len (skb (pkts t) q) = sk_len (skb (pkts s) p) + 20"
      and same: "read_bytes (mem t) (sk_data (skb (pkts t) q)) 20 = read_bytes (mem s') ?i 20" for q t
  proof (rule checks_passed [OF q(1)])
    let ?d = "sk_data (skb (pkts t) q)"
    note nth = read_bytes_nth [OF same]
    show "mem t ?d = 0x45" using nth [of 0] sent(3) by simp
    have "mem t (?d + 2) = mem s' (?i + 2)" "mem t (?d + 3) = mem s' (?i + 3)" using nth [of 2] nth [of 3] by simp_all
    then have "rd16 (mem t) (?d + 2) = rd16 (mem s') (?i + 2)" by (simp only: rd16_def ptr_offsets)
    with sent(4) show "rd16 (mem t) (?d + 2) = htons (ucast (sk_len (skb (pkts t) q)))" by (simp add: q(2))
  qed
  with sent show ?thesis by blast
qed

definition sample_online :: net_state where
  "sample_online = sample_net\<lparr>devs := (\<lambda>_. sample_dev [101, 116, 104, 48]), dev_base := 64, dev_count := 1\<rparr>"

lemma sample_online_sends: "can_send sample_online 64"
proof -
  have "netdev_ok sample_online [64]" by (simp add: netdev_ok_def sample_online_def sample_net_def sample_dev_def)
  from dev_search_names [OF this, of eth0_name]
  have "dev_get_by_name eth0_name sample_online = Some 64"
    by (simp add: dev_get_by_name_def dev_name_def sample_online_def sample_dev_def cstr_def eth0_name_def)
  then show ?thesis
    by (simp add: can_send_def sample_online_def sample_dev_def netif_running_def)
qed

theorem sent_packet_accepted_witness:
  "can_send sample_online 64 \<and>
   (\<exists>r s'. ip_build_and_send_pkt (\<lambda>_. undefined) sample_drv 4096 0x0100000A 0x0200000A sample_online = Some (r, s')
     \<and> ip_rcv None sample_drv 4096 (on_skb 4096 (\<lambda>b. b\<lparr>sk_data := sk_data (skb (pkts sample_online) 4096) - 20,
          sk_len := sk_len (skb (pkts sample_online) 4096) + 20\<rparr>) s') = None)"
proof -
  let ?b = "skb (pkts sample_online) 4096"
  let ?t = "on_skb 4096 (\<lambda>b. b\<lparr>sk_data := sk_data ?b - 20, sk_len := sk_len ?b + 20\<rparr>)"
  obtain r s' where sent: "ip_build_and_send_pkt (\<lambda>_. undefined) sample_drv 4096 0x0100000A 0x0200000A sample_online = Some (r, s')"
    and rcv: "\<forall>q t. q \<noteq> NULL \<and> sk_len (skb (pkts t) q) = sk_len ?b + 20
        \<and> read_bytes (mem t) (sk_data (skb (pkts t) q)) 20 = read_bytes (mem s') (sk_data ?b - 20) 20 \<longrightarrow>
        ip_rcv None sample_drv q t = ip_local_deliver None sample_drv q (on_pkts (\<lambda>h. snd (skb_pull q 20 h)) t)"
    using sent_packet_accepted [OF sample_online_sends, of "\<lambda>_. undefined" sample_drv 4096 "0x0100000A" "0x0200000A" None] by blast
  have "ip_rcv None sample_drv 4096 (?t s') = ip_local_deliver None sample_drv 4096 (on_pkts (\<lambda>h. snd (skb_pull 4096 20 h)) (?t s'))"
    by (rule rcv [rule_format]) simp
  with sent sample_online_sends show ?thesis by (auto simp: ip_local_deliver_def)
qed

text \<open>
  The transport protocol of an outgoing packet is lost. Whatever UDP or TCP socket sends, if a
  running \<open>eth0\<close> exists, the packet handed to the driver has protocol number 0 in its IP header (and
  a time to live of 63), because no code ever sets the socket of a buffer; a receiver that runs
  \<open>ip_local_deliver\<close> drops such a packet.
\<close>

theorem transport_protocol_lost:
  assumes "can_send s dev" and "page \<noteq> NULL"
  shows "(\<exists>r s'. udp_sendmsg socks drv page inet base len sz s = Some (r, s')
      \<and> xmit_calls s' = xmit_calls s @ [(nd_hard_start_xmit (devs s dev), page, dev)]
      \<and> mem s' (page + 292 + 9) = 0 \<and> mem s' (page + 292 + 8) = 63)
    \<and> (\<exists>r s'. tcp_sendmsg socks drv page inet base len sz s = Some (r, s')
      \<and> xmit_calls s' = xmit_calls s @ [(nd_hard_start_xmit (devs s dev), page, dev)]
      \<and> mem s' (page + 280 + 9) = 0 \<and> mem s' (page + 280 + 8) = 63)"
proof -
  have offset: "page + 312 - 20 = page + 292" "page + 300 - 20 = page + 280" by simp_all
  obtain u where u: "udp_sendmsg socks drv page inet base len sz s =
      ip_build_and_send_pkt socks drv page (inet_saddr inet) (inet_daddr inet) u"
    "sk_sk (skb (pkts u) page) = NULL" "sk_data (skb (pkts u) page) = page + 312"
    "devs u = devs s" "dev_base u = dev_base s" "xmit_calls u = xmit_calls s"
    using sendmsg_reaches_build(1) [OF assms(2)] by blast
  obtain t where t: "tcp_sendmsg socks drv page inet base len sz s =
      ip_build_and_send_pkt socks drv page (inet_saddr inet) (inet_daddr inet) t"
    "sk_sk (skb (pkts t) page) = NULL" "sk_data (skb (pkts t) page) = page + 300"
    "devs t = devs s" "dev_base t = dev_base s" "xmit_calls t = xmit_calls s"
    using sendmsg_reaches_build(2) [OF assms(2)] by blast
  have "can_send u dev" "can_send t dev" using assms(1) u t can_send_cong by blast+
  from ip_build_sends [OF this(1) u(2)] ip_build_sends [OF this(2) t(2)] show ?thesis
    unfolding u t offset by blast
qed

theorem transport_protocol_lost_witness:
  "\<exists>r s'. udp_sendmsg (\<lambda>_. undefined) sample_drv 4096 undefined 0 0 0 sample_online = Some (r, s')
     \<and> mem s' 4397 = 0"
  using transport_protocol_lost [OF sample_online_sends, of 4096] by simp blast

text \<open>
  No packet is ever delivered by a defined execution of \<open>ip_rcv\<close>. A packet whose header fails a
  check is released and answered with -1; a packet that passes all checks runs into the uninitialised
  pointer of \<open>ip_local_deliver\<close>.
\<close>

theorem ip_rcv_delivers_nothing:
  "ip_rcv None drv p s =
     (if p = NULL then Some (-1, s)
      else if ip_version (mem s) (sk_data (skb (pkts s) p)) = 4 \<and> 5 \<le> ip_ihl (mem s) (sk_data (skb (pkts s) p))
           \<and> ucast (ntohs (rd16 (mem s) (sk_data (skb (pkts s) p) + 2))) \<le> sk_len (skb (pkts s) p)
      then None else Some (-1, on_pkts (kfree_skb p) s))"
  by (auto simp: ip_rcv_def ip_local_deliver_def Let_def)

lemma write_bytes6:
  "write_bytes q [a, b, c, d, e, f] m =
     m(q := a, q + 1 := b, q + 2 := c, q + 3 := d, q + 4 := e, q + 5 := f)"
  by (simp add: write_bytes_def)

lemma read_bytes6: "read_bytes m q 6 = [m q, m (q + 1), m (q + 2), m (q + 3), m (q + 4), m (q + 5)]"
  by (simp add: read_bytes_def upt_rec)

lemma list6: "length xs = 6 \<Longrightarrow> \<exists>a b c d e f. xs = [a, b, c, d, e, f]"
  by (auto simp: length_Suc_conv numeral_eq_Suc)

lemma eth_frame:
  assumes "length dst = 6" "length src = 6"
  shows "read_bytes (write_bytes (q + 6) src (write_bytes q dst (wr16 (q + 12) v m))) q 6 = dst"
    and "rd16 (write_bytes (q + 6) src (write_bytes q dst (wr16 (q + 12) v m))) (q + 12) = v"
proof -
  obtain a b c d e f where dst: "dst = [a, b, c, d, e, f]" using list6 [OF assms(1)] by blast
  obtain a' b' c' d' e' f' where src: "src = [a', b', c', d', e', f']" using list6 [OF assms(2)] by blast
  show "read_bytes (write_bytes (q + 6) src (write_bytes q dst (wr16 (q + 12) v m))) q 6 = dst"
    by (simp add: dst src write_bytes6 read_bytes6 wr16_def add.assoc)
  show "rd16 (write_bytes (q + 6) src (write_bytes q dst (wr16 (q + 12) v m))) (q + 12) = v"
    using rd16_wr16 [of "q + 12" v m] by (simp add: dst src write_bytes6 rd16_def wr16_def add.assoc)
qed

lemma eth_header_parsed:
  fixes p dev :: ptr and proto16 :: u16 and s :: net_state
  assumes "length dst = 6" and "length src = 6" and "length (nd_dev_addr (devs s dev)) = 6"
  defines "s1 \<equiv> snd (eth_header p (devs s dev) proto16 (Some dst) (Some src) s)"
  defines "s2 \<equiv> snd (eth_type_trans p dev s1)"
  shows "ntohs (fst (eth_type_trans p dev s1)) = proto16
    \<and> sk_data (skb (pkts s2) p) = sk_data (skb (pkts s) p) \<and> sk_len (skb (pkts s2) p) = sk_len (skb (pkts s) p)
    \<and> sk_pkt_type (skb (pkts s2) p) = (if dst = nd_dev_addr (devs s dev) then PACKET_HOST
        else if dst = replicate 6 0xFF then PACKET_BROADCAST else PACKET_OTHERHOST)"
proof -
  let ?q = "sk_data (skb (pkts s) p) - 14"
  have s1: "sk_data (skb (pkts s1) p) = ?q" "sk_len (skb (pkts s1) p) = sk_len (skb (pkts s) p) + 14"
    "devs s1 = devs s"
    "mem s1 = write_bytes (?q + 6) src (write_bytes ?q dst (wr16 (?q + 12) (htons proto16) (mem s)))"
    using assms(1,2) by (simp_all add: s1_def eth_header_def Let_def)
  note frame = eth_frame [OF assms(1,2), of ?q "htons proto16" "mem s"]
  have read: "read_bytes (mem s1) ?q 6 = dst" "rd16 (mem s1) (?q + 12) = htons proto16"
    unfolding s1(4) using frame by simp_all
  have proto: "fst (eth_type_trans p dev s1) = htons proto16"
    unfolding eth_type_trans_def Let_def s1(1) read by simp
  moreover have "sk_data (skb (pkts s2) p) = sk_data (skb (pkts s) p)" "sk_len (skb (pkts s2) p) = sk_len (skb (pkts s) p)"
    unfolding s2_def eth_type_trans_def Let_def by (simp_all add: s1)
  moreover have "sk_pkt_type (skb (pkts s2) p) = (if dst = nd_dev_addr (devs s dev) then PACKET_HOST
        else if dst = replicate 6 0xFF then PACKET_BROADCAST else PACKET_OTHERHOST)"
    unfolding s2_def eth_type_trans_def Let_def s1(1) read using assms(3) by (simp add: s1(3))
  ultimately show ?thesis by simp
qed

text \<open>
  \<open>eth_header\<close> and \<open>eth_type_trans\<close> are inverse. A frame built for a destination and a protocol
  number is parsed back to that number, classified as for this host, broadcast or for another host by
  its destination, and stripped to the data pointer and length the buffer had before.
\<close>

theorem eth_header_roundtrip:
  assumes "length dst = 6" and "length src = 6" and "length (nd_dev_addr (devs s dev)) = 6"
  shows "(let (n, s1) = eth_header p (devs s dev) proto16 (Some dst) (Some src) s;
              (proto, s2) = eth_type_trans p dev s1
          in ntohs proto = proto16 \<and> sk_data (skb (pkts s2) p) = sk_data (skb (pkts s) p)
            \<and> sk_len (skb (pkts s2) p) = sk_len (skb (pkts s) p)
            \<and> sk_pkt_type (skb (pkts s2) p) = (if dst = nd_dev_addr (devs s dev) then PACKET_HOST
                else if dst = replicate 6 0xFF then PACKET_BROADCAST else PACKET_OTHERHOST))"
  using eth_header_parsed [OF assms, of p proto16] by (simp add: Let_def split_beta)

theorem eth_header_roundtrip_witness:
  "ntohs (fst (eth_type_trans 4096 64 (snd (eth_header 4096 (devs sample_online 64) 0x0800
      (Some [2, 0, 0, 0, 0, 1]) (Some [2, 0, 0, 0, 0, 2]) sample_online)))) = 0x0800"
  using eth_header_roundtrip [of "[2, 0, 0, 0, 0, 1]" "[2, 0, 0, 0, 0, 2]" sample_online 64 4096 "0x0800"]
  by (simp add: sample_online_def sample_dev_def Let_def split_beta)

end
