(* ===== verification/Socket.thy ===== *)
theory Socket
  imports Inet
begin

text \<open>
  net/socket.c (the declarations), net/socket_core.c, the socket operations of net/af_inet.c and
  net/af_netlink.c. The answers of \<open>kmalloc_page\<close>, which is not part of the sources, are the list
  \<open>page_supply\<close> (a null or missing answer is a failed allocation); allocated and freed pages are
  recorded. A fresh page has arbitrary contents: \<open>sock_alloc\<close> leaves the fields it does not set.
\<close>

abbreviation AF_INET :: int where "AF_INET \<equiv> 2"
abbreviation AF_NETLINK :: int where "AF_NETLINK \<equiv> 16"
abbreviation AF_MAX :: int where "AF_MAX \<equiv> 32"
abbreviation SOCK_STREAM :: u16 where "SOCK_STREAM \<equiv> 1"
abbreviation SOCK_DGRAM :: u16 where "SOCK_DGRAM \<equiv> 2"
abbreviation SS_FREE :: int where "SS_FREE \<equiv> 0"
abbreviation SS_UNCONNECTED :: int where "SS_UNCONNECTED \<equiv> 1"
abbreviation SS_CONNECTING :: int where "SS_CONNECTING \<equiv> 2"
abbreviation SS_CONNECTED :: int where "SS_CONNECTED \<equiv> 3"
abbreviation SS_DISCONNECTING :: int where "SS_DISCONNECTING \<equiv> 4"

text \<open>The three operation tables, and which of their entries are not null.\<close>

datatype proto_ops = inet_stream_ops | inet_dgram_ops | netlink_ops

fun has_bind :: "proto_ops \<Rightarrow> bool" where
  "has_bind inet_stream_ops = True" | "has_bind inet_dgram_ops = True" | "has_bind netlink_ops = False"

fun has_listen :: "proto_ops \<Rightarrow> bool" where
  "has_listen inet_stream_ops = True" | "has_listen inet_dgram_ops = False" | "has_listen netlink_ops = False"

fun has_accept :: "proto_ops \<Rightarrow> bool" where
  "has_accept inet_stream_ops = True" | "has_accept inet_dgram_ops = False" | "has_accept netlink_ops = False"

fun has_connect :: "proto_ops \<Rightarrow> bool" where
  "has_connect inet_stream_ops = True" | "has_connect inet_dgram_ops = True" | "has_connect netlink_ops = False"

definition has_shutdown :: "proto_ops \<Rightarrow> bool" where
  "has_shutdown ops = False"

definition has_sendmsg :: "proto_ops \<Rightarrow> bool" where
  "has_sendmsg ops = True"

definition has_recvmsg :: "proto_ops \<Rightarrow> bool" where
  "has_recvmsg ops = True"

record socket =
  so_state :: int
  so_type :: u16
  so_family :: u16
  so_refcnt :: atomic_t
  so_sk :: ptr
  so_ops :: "proto_ops option"

record netlink_sock =
  nl_sk_socket :: ptr
  nl_portid :: u32
  nl_dst_portid :: u32
  nl_dst_group :: u32
  nl_groups :: u32
  nl_protocol :: u32

record sockaddr_in =
  sin_family :: u16
  sin_port :: u16
  sin_addr :: u32

record sock_state =
  net :: net_state
  socks :: "ptr \<Rightarrow> socket"
  isocks :: inet_socks
  nlsocks :: "ptr \<Rightarrow> netlink_sock"
  page_supply :: "ptr list"
  allocated :: "ptr list"
  released :: "ptr list"

definition kmalloc_page :: "sock_state \<Rightarrow> ptr \<times> sock_state" where
  "kmalloc_page s = (case page_supply s of
       [] \<Rightarrow> (NULL, s)
     | p # ps \<Rightarrow> (p, s\<lparr>page_supply := ps, allocated := (if p = NULL then [] else [p]) @ allocated s\<rparr>))"

definition kfree_page :: "ptr \<Rightarrow> sock_state \<Rightarrow> sock_state" where
  "kfree_page p s = s\<lparr>released := p # released s\<rparr>"

definition upd_sock :: "ptr \<Rightarrow> (socket \<Rightarrow> socket) \<Rightarrow> sock_state \<Rightarrow> sock_state" where
  "upd_sock p f s = s\<lparr>socks := (socks s)(p := f (socks s p))\<rparr>"

subsection \<open>IPv4 sockets\<close>

definition zero_inet :: inet_sock where
  "zero_inet = \<lparr>is_sk_socket = NULL, inet_saddr = 0, inet_rcv_saddr = 0, inet_sport = 0, inet_daddr = 0,
     inet_dport = 0, inet_num = 0, uc_ttl = 0, cmsg_flags = 0\<rparr>"

definition inet_create :: "ptr \<Rightarrow> int \<Rightarrow> sock_state \<Rightarrow> int \<times> sock_state" where
  "inet_create sock protocol s =
     (let (inet, s) = kmalloc_page s
      in if inet = NULL then (-1, s)
         else let s = s\<lparr>isocks := (isocks s)(inet := zero_inet)\<rparr>;
                  finish = (\<lambda>s. let s = s\<lparr>isocks := (isocks s)(inet := (isocks s inet)\<lparr>uc_ttl := 64, is_sk_socket := sock\<rparr>)\<rparr>
                                in (0, upd_sock sock (\<lambda>x. x\<lparr>so_sk := inet\<rparr>) s))
              in if so_type (socks s sock) = SOCK_STREAM
                 then (if protocol \<noteq> 0 \<and> protocol \<noteq> 6 then (-1, s)
                       else finish (upd_sock sock (\<lambda>x. x\<lparr>so_ops := Some inet_stream_ops\<rparr>) s))
                 else if so_type (socks s sock) = SOCK_DGRAM
                 then (if protocol \<noteq> 0 \<and> protocol \<noteq> 17 then (-1, s)
                       else finish (upd_sock sock (\<lambda>x. x\<lparr>so_ops := Some inet_dgram_ops\<rparr>) s))
                 else (-1, s))"

text \<open>The length check compares an int with a \<open>size_t\<close>: the int is converted to 64 bits unsigned.\<close>

definition inet_bind :: "ptr \<Rightarrow> sockaddr_in \<Rightarrow> int \<Rightarrow> sock_state \<Rightarrow> int \<times> sock_state" where
  "inet_bind sock addr addr_len s =
     (if (word_of_int addr_len :: u64) < 16 then (-1, s)
      else if sin_family addr \<noteq> 2 then (-1, s)
      else let inet = so_sk (socks s sock)
           in (0, s\<lparr>isocks := (isocks s)(inet := (isocks s inet)\<lparr>inet_rcv_saddr := sin_addr addr,
                 inet_saddr := sin_addr addr, inet_sport := sin_port addr\<rparr>)\<rparr>))"

definition inet_listen :: "ptr \<Rightarrow> int \<Rightarrow> sock_state \<Rightarrow> int \<times> sock_state" where
  "inet_listen sock backlog s = (0, upd_sock sock (\<lambda>x. x\<lparr>so_state := SS_CONNECTING\<rparr>) s)"

definition inet_accept :: "ptr \<Rightarrow> ptr \<Rightarrow> sock_state \<Rightarrow> int \<times> sock_state" where
  "inet_accept sock newsock s = (0, s)"

definition inet_connect :: "ptr \<Rightarrow> sockaddr_in \<Rightarrow> int \<Rightarrow> sock_state \<Rightarrow> int \<times> sock_state" where
  "inet_connect sock addr addr_len s =
     (let inet = so_sk (socks s sock);
          s = s\<lparr>isocks := (isocks s)(inet := (isocks s inet)\<lparr>inet_daddr := sin_addr addr, inet_dport := sin_port addr\<rparr>)\<rparr>
      in (0, upd_sock sock (\<lambda>x. x\<lparr>so_state := SS_CONNECTED\<rparr>) s))"

definition inet_sendmsg :: "driver_ops \<Rightarrow> ptr \<Rightarrow> ptr \<Rightarrow> u64 \<Rightarrow> u64 \<Rightarrow> sock_state \<Rightarrow> (int \<times> sock_state) option" where
  "inet_sendmsg drv sock iov_base iov_len sz s =
     (let inet = isocks s (so_sk (socks s sock))
      in if so_type (socks s sock) = SOCK_DGRAM
         then (let (page, s) = kmalloc_page s
               in map_option (\<lambda>(r, n). (r, s\<lparr>net := n\<rparr>)) (udp_sendmsg (isocks s) drv page inet iov_base iov_len sz (net s)))
         else if so_type (socks s sock) = SOCK_STREAM
         then (let (page, s) = kmalloc_page s
               in map_option (\<lambda>(r, n). (r, s\<lparr>net := n\<rparr>)) (tcp_sendmsg (isocks s) drv page inet iov_base iov_len sz (net s)))
         else Some (-1, s))"

definition inet_recvmsg :: "ptr \<Rightarrow> sock_state \<Rightarrow> int" where
  "inet_recvmsg sock s =
     (if so_type (socks s sock) = SOCK_DGRAM then udp_recvmsg (isocks s (so_sk (socks s sock)))
      else if so_type (socks s sock) = SOCK_STREAM then tcp_recvmsg (isocks s (so_sk (socks s sock)))
      else -1)"

subsection \<open>Netlink sockets\<close>

definition zero_nlk :: netlink_sock where
  "zero_nlk = \<lparr>nl_sk_socket = NULL, nl_portid = 0, nl_dst_portid = 0, nl_dst_group = 0, nl_groups = 0, nl_protocol = 0\<rparr>"

definition netlink_create :: "ptr \<Rightarrow> int \<Rightarrow> sock_state \<Rightarrow> int \<times> sock_state" where
  "netlink_create sock protocol s =
     (let (nlk, s) = kmalloc_page s
      in if nlk = NULL then (-1, s)
         else let s = s\<lparr>nlsocks := (nlsocks s)(nlk := zero_nlk\<lparr>nl_protocol := word_of_int protocol, nl_portid := 0\<rparr>)\<rparr>
              in (0, upd_sock sock (\<lambda>x. x\<lparr>so_ops := Some netlink_ops, so_sk := nlk\<rparr>) s))"

text \<open>The length is returned as an int.\<close>

definition netlink_sendmsg :: "u64 \<Rightarrow> int" where
  "netlink_sendmsg len = sint (ucast len :: u32)"

definition netlink_recvmsg :: int where
  "netlink_recvmsg = 0"

subsection \<open>The socket layer\<close>

definition sock_alloc :: "sock_state \<Rightarrow> ptr \<times> sock_state" where
  "sock_alloc s =
     (let (sock, s) = kmalloc_page s
      in if sock = NULL then (NULL, s)
         else (sock, upd_sock sock (\<lambda>x. x\<lparr>so_state := SS_FREE, so_refcnt := atomic_set (so_refcnt x) 1, so_sk := NULL\<rparr>) s))"

definition sock_free :: "ptr \<Rightarrow> sock_state \<Rightarrow> sock_state" where
  "sock_free sock s = kfree_page sock s"

text \<open>The socket that is stored through \<open>res\<close> is returned on success.\<close>

definition sock_create :: "int \<Rightarrow> int \<Rightarrow> int \<Rightarrow> sock_state \<Rightarrow> int \<times> ptr option \<times> sock_state" where
  "sock_create family type0 protocol s =
     (if family < 0 \<or> family \<ge> AF_MAX then (-1, None, s)
      else let (sock, s) = sock_alloc s
           in if sock = NULL then (-1, None, s)
              else let s = upd_sock sock (\<lambda>x. x\<lparr>so_family := word_of_int family, so_type := word_of_int type0\<rparr>) s;
                       (err, s) = (if family = AF_INET then inet_create sock protocol s
                                   else if family = AF_NETLINK then netlink_create sock protocol s
                                   else (-1, s))
                   in if err < 0 then (err, None, sock_free sock s)
                      else (0, Some sock, upd_sock sock (\<lambda>x. x\<lparr>so_state := SS_UNCONNECTED\<rparr>) s))"

text \<open>No operation table has a shutdown entry, so \<open>sock_release\<close> never calls one.\<close>

definition sock_release :: "ptr \<Rightarrow> sock_state \<Rightarrow> int \<times> sock_state" where
  "sock_release sock s =
     (if sock = NULL then (0, s)
      else let s = upd_sock sock (\<lambda>x. x\<lparr>so_state := SS_DISCONNECTING\<rparr>) s;
               (last, cnt) = atomic_dec_and_test (so_refcnt (socks s sock));
               s = upd_sock sock (\<lambda>x. x\<lparr>so_refcnt := cnt\<rparr>) s
           in (0, if last then sock_free sock s else s))"

definition sock_sendmsg :: "driver_ops \<Rightarrow> ptr \<Rightarrow> ptr \<Rightarrow> u64 \<Rightarrow> u64 \<Rightarrow> sock_state \<Rightarrow> (int \<times> sock_state) option" where
  "sock_sendmsg drv sock iov_base iov_len len s =
     (case so_ops (socks s sock) of
        None \<Rightarrow> Some (-1, s)
      | Some ops \<Rightarrow> (if \<not> has_sendmsg ops then Some (-1, s)
                    else if ops = netlink_ops then Some (netlink_sendmsg len, s)
                    else inet_sendmsg drv sock iov_base iov_len len s))"

definition sock_recvmsg :: "ptr \<Rightarrow> sock_state \<Rightarrow> int" where
  "sock_recvmsg sock s =
     (case so_ops (socks s sock) of
        None \<Rightarrow> -1
      | Some ops \<Rightarrow> (if \<not> has_recvmsg ops then -1
                    else if ops = netlink_ops then netlink_recvmsg else inet_recvmsg sock s))"

definition sys_socket :: "int \<Rightarrow> int \<Rightarrow> int \<Rightarrow> sock_state \<Rightarrow> int \<times> sock_state" where
  "sys_socket family type0 protocol s =
     (let (err, sock, s) = sock_create family type0 protocol s in if err < 0 then (err, s) else (0, s))"

text \<open>The descriptor calls look up no socket: the pointer is null and each returns -1 at once.\<close>

definition fd_socket :: "int \<Rightarrow> ptr" where "fd_socket fd = NULL"

text \<open>\<open>!sock || !sock->ops || !sock->ops->op\<close>\<close>

definition lacks_op :: "(proto_ops \<Rightarrow> bool) \<Rightarrow> ptr \<Rightarrow> sock_state \<Rightarrow> bool" where
  "lacks_op has sock s \<longleftrightarrow> sock = NULL \<or> (case so_ops (socks s sock) of None \<Rightarrow> True | Some ops \<Rightarrow> \<not> has ops)"

definition sys_bind :: "int \<Rightarrow> sockaddr_in \<Rightarrow> int \<Rightarrow> sock_state \<Rightarrow> int \<times> sock_state" where
  "sys_bind fd addr addrlen s =
     (if lacks_op has_bind (fd_socket fd) s then (-1, s) else inet_bind (fd_socket fd) addr addrlen s)"

definition sys_listen :: "int \<Rightarrow> int \<Rightarrow> sock_state \<Rightarrow> int \<times> sock_state" where
  "sys_listen fd backlog s =
     (if lacks_op has_listen (fd_socket fd) s then (-1, s) else inet_listen (fd_socket fd) backlog s)"

definition sys_accept :: "int \<Rightarrow> sock_state \<Rightarrow> int \<times> sock_state" where
  "sys_accept fd s =
     (let sock = fd_socket fd
      in if lacks_op has_accept sock s then (-1, s)
         else let (err, newsock, s) = sock_create (uint (so_family (socks s sock))) (uint (so_type (socks s sock))) 0 s
              in (case newsock of
                    None \<Rightarrow> (err, s)
                  | Some new \<Rightarrow> (let (err, s) = inet_accept sock new s
                                in if err \<noteq> 0 then (err, snd (sock_release new s)) else (0, s))))"

definition sys_connect :: "int \<Rightarrow> sockaddr_in \<Rightarrow> int \<Rightarrow> sock_state \<Rightarrow> int \<times> sock_state" where
  "sys_connect fd addr addrlen s =
     (if lacks_op has_connect (fd_socket fd) s then (-1, s) else inet_connect (fd_socket fd) addr addrlen s)"

definition sys_sendto :: "driver_ops \<Rightarrow> int \<Rightarrow> ptr \<Rightarrow> u64 \<Rightarrow> sock_state \<Rightarrow> (int \<times> sock_state) option" where
  "sys_sendto drv fd buf len s =
     (if fd_socket fd = NULL then Some (-1, s) else sock_sendmsg drv (fd_socket fd) buf len len s)"

definition sys_recvfrom :: "int \<Rightarrow> sock_state \<Rightarrow> int" where
  "sys_recvfrom fd s = (if fd_socket fd = NULL then -1 else sock_recvmsg (fd_socket fd) s)"

subsection \<open>Library\<close>

text \<open>The combinations \<open>sock_create\<close> supports; the type counts modulo \<open>2 ^ 16\<close>.\<close>

definition supported :: "int \<Rightarrow> int \<Rightarrow> int \<Rightarrow> bool" where
  "supported family type0 protocol \<longleftrightarrow>
     family = AF_NETLINK
     \<or> family = AF_INET \<and> (word_of_int type0 = SOCK_STREAM \<and> protocol \<in> {0, 6}
                          \<or> word_of_int type0 = SOCK_DGRAM \<and> protocol \<in> {0, 17})"

definition ops_of :: "int \<Rightarrow> int \<Rightarrow> proto_ops" where
  "ops_of family type0 = (if family = AF_NETLINK then netlink_ops
     else if word_of_int type0 = SOCK_STREAM then inet_stream_ops else inet_dgram_ops)"

lemma kmalloc_page_Cons:
  "page_supply s = p # ps \<Longrightarrow> p \<noteq> NULL \<Longrightarrow>
     kmalloc_page s = (p, s\<lparr>page_supply := ps, allocated := p # allocated s\<rparr>)"
  by (simp add: kmalloc_page_def)

lemma sock_alloc_Cons:
  "page_supply s = p # ps \<Longrightarrow> p \<noteq> NULL \<Longrightarrow> sock_alloc s = (p,
     upd_sock p (\<lambda>x. x\<lparr>so_state := SS_FREE, so_refcnt := atomic_set (so_refcnt x) 1, so_sk := NULL\<rparr>)
       (s\<lparr>page_supply := ps, allocated := p # allocated s\<rparr>))"
  by (simp add: sock_alloc_def kmalloc_page_Cons)

subsection \<open>Properties\<close>

text \<open>
  \<open>sock_create\<close> on every family, type and protocol, with two pages available: it succeeds exactly
  for the supported combinations, and then the socket has one reference, is unconnected, has the
  operations of its family and type and points to its protocol data. It fails with -1 in all other
  cases.
\<close>

theorem sock_create_correct:
  assumes "page_supply s = p # q # ps" and "p \<noteq> NULL" and "q \<noteq> NULL"
  shows "(case sock_create family type0 protocol s of (r, res, s') \<Rightarrow>
     if supported family type0 protocol
     then r = 0 \<and> res = Some p \<and> counter (so_refcnt (socks s' p)) = 1 \<and> so_state (socks s' p) = SS_UNCONNECTED
       \<and> so_ops (socks s' p) = Some (ops_of family type0) \<and> so_sk (socks s' p) = q
       \<and> allocated s' = q # p # allocated s \<and> released s' = released s
     else r = -1 \<and> res = None)"
proof (cases "family = AF_INET \<or> family = AF_NETLINK")
  case True
  then show ?thesis
    using assms
    by (auto simp: sock_create_def sock_alloc_Cons inet_create_def netlink_create_def kmalloc_page_Cons upd_sock_def
        supported_def ops_of_def atomic_set_def Let_def sock_free_def kfree_page_def)
next
  case False
  then show ?thesis
    using assms by (auto simp: sock_create_def sock_alloc_Cons supported_def Let_def)
qed

definition sample_sockets :: "ptr list \<Rightarrow> sock_state" where
  "sample_sockets pages = \<lparr>net = sample_net,
     socks = (\<lambda>_. \<lparr>so_state = 0, so_type = 0, so_family = 0, so_refcnt = \<lparr>counter = 0\<rparr>, so_sk = NULL, so_ops = None\<rparr>),
     isocks = (\<lambda>_. zero_inet), nlsocks = (\<lambda>_. zero_nlk), page_supply = pages, allocated = [], released = []\<rparr>"

theorem sock_create_correct_witness:
  "supported 2 1 6 \<and> (case sock_create 2 1 6 (sample_sockets [4096, 8192]) of (r, res, s') \<Rightarrow>
     r = 0 \<and> res = Some 4096 \<and> so_ops (socks s' 4096) = Some inet_stream_ops)"
proof -
  have ok: "supported 2 1 6" by (simp add: supported_def)
  have "page_supply (sample_sockets [4096, 8192]) = 4096 # 8192 # []" by (simp add: sample_sockets_def)
  from sock_create_correct [OF this, of 2 1 6] ok show ?thesis
    by (simp add: ops_of_def split: prod.splits)
qed

text \<open>
  A refused socket leaks a page: each call \<open>sys_socket(AF_INET, SOCK_RAW, 0)\<close> takes two pages and
  gives back one, so that \<open>n\<close> calls leave \<open>n\<close> pages allocated that no structure refers to.
\<close>

theorem refused_socket_leaks:
  assumes "length (page_supply s) = 2 * n" and "NULL \<notin> set (page_supply s)"
  shows "length (allocated (((\<lambda>s. snd (sys_socket 2 3 0 s)) ^^ n) s)) = length (allocated s) + 2 * n
    \<and> length (released (((\<lambda>s. snd (sys_socket 2 3 0 s)) ^^ n) s)) = length (released s) + n"
  using assms
proof (induction n arbitrary: s)
  case 0
  then show ?case by simp
next
  case (Suc n)
  then obtain p q ps where ps: "page_supply s = p # q # ps" "length ps = 2 * n" "p \<noteq> NULL" "q \<noteq> NULL" "NULL \<notin> set ps"
    by (auto simp: length_Suc_conv)
  let ?t = "snd (sys_socket 2 3 0 s)"
  have "page_supply ?t = ps" "allocated ?t = q # p # allocated s" "released ?t = p # released s"
    using ps by (simp_all add: sys_socket_def sock_create_def sock_alloc_Cons inet_create_def kmalloc_page_Cons
        upd_sock_def Let_def sock_free_def kfree_page_def)
  with Suc.IH [of ?t] ps show ?case by (simp add: funpow_Suc_right del: funpow.simps)
qed

theorem refused_socket_leaks_witness:
  "length (allocated (((\<lambda>s. snd (sys_socket 2 3 0 s)) ^^ 2) (sample_sockets [1, 2, 3, 4]))) = 4
   \<and> length (released (((\<lambda>s. snd (sys_socket 2 3 0 s)) ^^ 2) (sample_sockets [1, 2, 3, 4]))) = 2"
  using refused_socket_leaks [of "sample_sockets [1, 2, 3, 4]" 2] by (simp add: sample_sockets_def)

end
