(* ===== verification/Types_Lib.thy ===== *)
theory Types_Lib
  imports Prelude "HOL-Library.Monad_Syntax"
begin

text \<open>
  rust/types.c: 64-bit division by shift and subtract, string and number conversion, size printing and
  the hex dump. A C string is the list of its characters without the terminator; reading at its end
  gives 0. Signed overflow and division by zero are undefined behaviour (\<open>None\<close>).
\<close>

subsection \<open>Division\<close>

text \<open>\<open>(int64_t)b > 0\<close> holds for a positive b below \<open>2 ^ 63\<close>.\<close>

lemma double_smaller:
  assumes "0 < unat b" "unat b < 9223372036854775808" "(b :: u64) < rem"
  shows "unat (b + b) = 2 * unat b" "unat rem - unat (b + b) < unat rem - unat b"
proof -
  show eq: "unat (b + b) = 2 * unat b" using assms(2) by (simp add: unat_word_ariths)
  show "unat rem - unat (b + b) < unat rem - unat b"
    unfolding eq using assms by (simp add: word_less_nat_alt)
qed

function div_scale :: "u64 \<Rightarrow> u64 \<Rightarrow> u64 \<Rightarrow> u64 \<times> u64" where
  "div_scale rem b d =
     (if 0 < unat b \<and> unat b < 9223372036854775808 \<and> b < rem then div_scale rem (b + b) (d + d) else (b, d))"
  by pat_completeness auto
termination
  by (relation "measure (\<lambda>(rem, b, d). unat rem - unat b)") (use double_smaller in auto)

declare div_scale.simps [simp del]

lemma halve_smaller: "drop_bit 1 (d :: u64) \<noteq> 0 \<Longrightarrow> unat (drop_bit 1 d) < unat d"
  by (metis drop_bit_eq_div unat_drop_bit_eq power_one_right div_less_dividend drop_bit_0 drop_bit_of_0
      one_less_numeral_iff semiring_norm(76) unat_gt_0)

function div_subtract :: "u64 \<Rightarrow> u64 \<Rightarrow> u64 \<Rightarrow> u64 \<Rightarrow> u64 \<times> u64" where
  "div_subtract rem b d res =
     (let (rem, res) = (if rem \<ge> b then (rem - b, res + d) else (rem, res));
          b = drop_bit 1 b; d = drop_bit 1 d
      in if d \<noteq> 0 then div_subtract rem b d res else (res, rem))"
  by pat_completeness auto
termination
  by (relation "measure (\<lambda>(rem, b, d, res). unat d)") (use halve_smaller in auto)

declare div_subtract.simps [simp del]

text \<open>The quotient, stored back through the pointer, and the remainder.\<close>

definition div64_32 :: "u64 \<Rightarrow> u32 \<Rightarrow> (u64 \<times> u32) defined" where
  "div64_32 n base =
     (let rem = n; b = ucast base; d = 1; high = ucast (drop_bit 32 rem) :: u32
      in if high \<ge> base \<and> base = 0 then None
         else let (res, rem) = (if high \<ge> base
                 then let high = high div base
                      in (push_bit 32 (ucast high), rem - push_bit 32 (ucast (high * base)))
                 else (0, rem));
                  (b, d) = div_scale rem b d;
                  (res, rem) = div_subtract rem b d res
              in Some (res, ucast rem))"

definition div64_s64 :: "64 word \<Rightarrow> 64 word \<Rightarrow> int defined" where
  "div64_s64 dividend divisor =
     (if divisor = 0 then Some 0
      else let q = (if (sint dividend < 0) = (sint divisor < 0) then \<bar>sint dividend\<bar> div \<bar>sint divisor\<bar>
                    else - (\<bar>sint dividend\<bar> div \<bar>sint divisor\<bar>))
           in if q < 9223372036854775808 then Some q else None)"

definition div64_u64 :: "u64 \<Rightarrow> u64 \<Rightarrow> u64" where
  "div64_u64 dividend divisor = (if divisor = 0 then 0 else dividend div divisor)"

subsection \<open>Strings to numbers\<close>

definition hd0 :: "u8 list \<Rightarrow> u8" where
  "hd0 s = (case s of [] \<Rightarrow> 0 | c # cs \<Rightarrow> c)"

fun skip_blanks :: "u8 list \<Rightarrow> u8 list" where
  "skip_blanks [] = []"
| "skip_blanks (c # cs) = (if c = 32 \<or> c = 9 then skip_blanks cs else c # cs)"

text \<open>The digit loop of \<open>atoi\<close>, \<open>atol\<close> and \<open>atoll\<close>, whose accumulator has the largest value \<open>M\<close>.\<close>

fun parse_digits :: "int \<Rightarrow> u8 list \<Rightarrow> int \<Rightarrow> int defined" where
  "parse_digits M [] res = Some res"
| "parse_digits M (c # cs) res =
     (if 48 \<le> c \<and> c \<le> 57
      then let res = res * 10 + (uint c - 48) in if res > M then None else parse_digits M cs res
      else Some res)"

definition parse_signed :: "int \<Rightarrow> u8 list \<Rightarrow> int defined" where
  "parse_signed M s =
     (let s = skip_blanks s;
          (sign, s) = (if hd0 s = 45 then (-1, tl s) else if hd0 s = 43 then (1, tl s) else (1, s))
      in map_option (\<lambda>res. res * sign) (parse_digits M s 0))"

definition atoi :: "u8 list \<Rightarrow> int defined" where "atoi s = parse_signed 2147483647 s"
definition atol :: "u8 list \<Rightarrow> int defined" where "atol s = parse_signed 9223372036854775807 s"
definition atoll :: "u8 list \<Rightarrow> int defined" where "atoll s = parse_signed 9223372036854775807 s"

definition digit_value :: "u8 \<Rightarrow> int option" where
  "digit_value c =
     (if 48 \<le> c \<and> c \<le> 57 then Some (uint c - 48)
      else if 97 \<le> c \<and> c \<le> 122 then Some (uint c - 97 + 10)
      else if 65 \<le> c \<and> c \<le> 90 then Some (uint c - 65 + 10) else None)"

text \<open>The result and the rest of the string, which is what \<open>endptr\<close> receives; the result wraps.\<close>

fun strtoul_loop :: "int \<Rightarrow> u8 list \<Rightarrow> u64 \<Rightarrow> u64 \<times> u8 list" where
  "strtoul_loop base [] res = (res, [])"
| "strtoul_loop base (c # cs) res =
     (case digit_value c of
        None \<Rightarrow> (res, c # cs)
      | Some digit \<Rightarrow> (if digit \<ge> base then (res, c # cs)
                      else strtoul_loop base cs (res * word_of_int base + word_of_int digit)))"

definition strtoul :: "u8 list \<Rightarrow> int \<Rightarrow> u64 \<times> u8 list" where
  "strtoul s base =
     (let (base, s) = (if base = 0
          then if hd0 s = 48 \<and> (hd0 (tl s) = 120 \<or> hd0 (tl s) = 88) then (16, tl (tl s))
               else if hd0 s = 48 then (8, tl s) else (10, s)
          else (base, s))
      in strtoul_loop base s 0)"

definition strtoull :: "u8 list \<Rightarrow> int \<Rightarrow> u64 \<times> u8 list" where
  "strtoull s base = strtoul s base"

subsection \<open>Numbers to strings\<close>

text \<open>The digit loop writes the lowest digit first; the unsigned value is given as a number.\<close>

definition digit_char :: "nat \<Rightarrow> u8" where
  "digit_char r = (if r < 10 then 48 + of_nat r else 97 + of_nat r - 10)"

function emit_digits :: "nat \<Rightarrow> nat \<Rightarrow> u8 list" where
  "emit_digits base uv =
     (if base < 2 then []
      else digit_char (uv mod base) # (if uv div base > 0 then emit_digits base (uv div base) else []))"
  by pat_completeness auto
termination
  by (relation "measure snd") (auto simp: div_less_dividend dest: gr_implies_not0 intro!: div_less_dividend gr0I)

declare emit_digits.simps [simp del]

text \<open>The reversal in place, with the two pointers as indices.\<close>

function swap_loop :: "nat \<Rightarrow> nat \<Rightarrow> u8 list \<Rightarrow> u8 list" where
  "swap_loop i j xs = (if i < j then swap_loop (i + 1) (j - 1) (xs[i := xs ! j, j := xs ! i]) else xs)"
  by pat_completeness auto
termination
  by (relation "measure (\<lambda>(i, j, xs). j - i)") auto

declare swap_loop.simps [simp del]

definition utoa :: "u32 \<Rightarrow> int \<Rightarrow> u8 list" where
  "utoa val base =
     (if base < 2 \<or> base > 16 then []
      else let p = emit_digits (nat base) (unat val) in swap_loop 0 (length p - 1) p)"

text \<open>Negating the smallest int is undefined.\<close>

definition itoa :: "u32 \<Rightarrow> int \<Rightarrow> u8 list defined" where
  "itoa val base =
     (if base < 2 \<or> base > 16 then Some []
      else if sint val < 0 \<and> base = 10 \<and> val = 0x80000000 then None
      else let (sign, uv) = (if sint val < 0 \<and> base = 10 then (True, unat (- val)) else (False, unat val));
               p = emit_digits (nat base) uv;
               p = (if sign then p @ [45] else p)
           in Some (swap_loop 0 (length p - 1) p))"

definition ltoa :: "u64 \<Rightarrow> int \<Rightarrow> u8 list defined" where
  "ltoa val base =
     (if base < 2 \<or> base > 16 then Some []
      else if sint val < 0 \<and> base = 10 \<and> val = 0x8000000000000000 then None
      else let (sign, uv) = (if sint val < 0 \<and> base = 10 then (True, unat (- val)) else (False, unat val));
               p = emit_digits (nat base) uv;
               p = (if sign then p @ [45] else p)
           in Some (swap_loop 0 (length p - 1) p))"

definition lltoa :: "u64 \<Rightarrow> int \<Rightarrow> u8 list defined" where
  "lltoa val base = ltoa val base"

subsection \<open>Printing\<close>

text \<open>What \<open>print_size\<close> prints: the number, the fraction if one is printed, and the unit.\<close>

fun size_loop :: "nat \<Rightarrow> u64 \<Rightarrow> u64 \<Rightarrow> nat \<Rightarrow> u64 \<times> u64 \<times> nat" where
  "size_loop 0 sz rem i = (sz, rem, i)"
| "size_loop (Suc n) sz rem i =
     (if sz \<ge> 1024 then size_loop n (sz div 1024) (sz mod 1024) (i + 1) else (sz, rem, i))"

definition print_size :: "u64 \<Rightarrow> u64 \<times> u64 option \<times> nat" where
  "print_size sz =
     (let (sz, rem, i) = size_loop 5 sz 0 0
      in if i = 0 \<or> rem = 0 then (sz, None, i) else (sz, Some (rem * 100 div 1024), i))"

definition hex_char :: "u8 \<Rightarrow> u8" where
  "hex_char n = [48, 49, 50, 51, 52, 53, 54, 55, 56, 57, 65, 66, 67, 68, 69, 70] ! unat n"

definition hex_dump :: "u8 list \<Rightarrow> u8 list" where
  "hex_dump data =
     for_upto (length data) (\<lambda>i out.
       out @ (if i > 0 \<and> i mod 16 = 0 then [10] else if i > 0 \<and> i mod 8 = 0 then [32] else [])
           @ [hex_char (drop_bit 4 (data ! i)), hex_char (data ! i AND 0xF), 32]) [] @ [10]"

subsection \<open>Correctness of the division\<close>

lemma div_scale_correct:
  assumes "unat b = base * unat d" "unat d = 2 ^ k" "0 < base"
  shows "\<exists>b' d' k'. div_scale rem b d = (b', d') \<and> unat b' = base * unat d' \<and> unat d' = 2 ^ k'
    \<and> unat rem < 2 * unat b'"
  using assms
proof (induction rem b d arbitrary: k rule: div_scale.induct)
  case (1 rem b d)
  have pos: "0 < unat b" using "1.prems" by simp
  show ?case
  proof (cases "0 < unat b \<and> unat b < 9223372036854775808 \<and> b < rem")
    case True
    then have b: "unat (b + b) = 2 * unat b" using double_smaller by blast
    have "unat d \<le> unat b" using "1.prems" by simp
    with True have d: "unat (d + d) = 2 * unat d" by (simp add: unat_word_ariths)
    have "unat (b + b) = base * unat (d + d)" "unat (d + d) = 2 ^ Suc k"
      unfolding b d using "1.prems" by simp_all
    from "1.IH" [OF True this "1.prems"(3)] show ?thesis
      using True by (subst div_scale.simps) simp
  next
    case False
    then have "unat rem < 2 * unat b"
      using pos ptr_below_top [of rem] by (auto simp: word_less_nat_alt)
    with False show ?thesis using "1.prems" by (subst div_scale.simps) auto
  qed
qed

lemma unat_half: "unat (drop_bit 1 (w :: u64)) = unat w div 2"
  by (simp only: unat_drop_bit_eq) (simp add: drop_bit_eq_div)

lemma div_subtract_correct:
  assumes "unat b = base * 2 ^ k" "unat d = 2 ^ k" "unat rem < 2 * unat b" "0 < base"
    and "unat res * base + unat rem = N" "N < 18446744073709551616"
  shows "\<exists>res' rem'. div_subtract rem b d res = (res', rem') \<and> unat res' * base + unat rem' = N \<and> unat rem' < base"
  using assms
proof (induction k arbitrary: rem b d res)
  case (0 rem b d res)
  then have d1: "d = 1" by (simp add: word_unat_eq_iff)
  then have d: "d = 1" "drop_bit 1 d = 0" by simp_all
  show ?case
  proof (cases "b \<le> rem")
    case True
    then have r: "unat (rem - b) = unat rem - unat b" by (simp add: unat_sub_if' word_le_nat_alt)
    have le: "base \<le> unat rem" using True 0 by (simp add: word_le_nat_alt)
    have "unat res + 1 \<le> unat res * base + base" using 0 by (cases base) auto
    then have "unat res + 1 < 18446744073709551616" using 0 le by linarith
    then have s: "unat (res + d) = unat res + 1" by (simp add: d unat_word_ariths)
    have "div_subtract rem b d res = (res + d, rem - b)" using True d by (subst div_subtract.simps) simp
    moreover have "unat (res + d) * base + unat (rem - b) = N" unfolding r s using 0 le by (simp add: algebra_simps)
    moreover have "unat (rem - b) < base" unfolding r using 0 le by simp
    ultimately show ?thesis by blast
  next
    case False
    with 0 d show ?thesis by (subst div_subtract.simps) (simp add: word_le_nat_alt)
  qed
next
  case (Suc k rem b d res)
  have half: "unat (drop_bit 1 b) = base * 2 ^ k" "unat (drop_bit 1 d) = 2 ^ k"
    unfolding unat_half using Suc.prems by simp_all
  then have nz: "drop_bit 1 d \<noteq> 0" by (auto simp: word_unat_eq_iff)
  show ?case
  proof (cases "b \<le> rem")
    case True
    have r: "unat (rem - b) = unat rem - unat b" using True by (simp add: unat_sub_if' word_le_nat_alt)
    have le: "unat b \<le> unat rem" using True by (simp add: word_le_nat_alt)
    have "unat res + unat d \<le> unat res * base + unat b" using Suc.prems by (cases base) auto
    then have "unat res + unat d < 18446744073709551616" using Suc.prems le by linarith
    then have s: "unat (res + d) = unat res + unat d" by (simp add: unat_word_ariths)
    have "unat (rem - b) < 2 * unat (drop_bit 1 b)" using r Suc.prems half by simp
    moreover have "unat (res + d) * base + unat (rem - b) = N"
      using r s le Suc.prems by (simp add: algebra_simps)
    ultimately have "\<exists>res' rem'. div_subtract (rem - b) (drop_bit 1 b) (drop_bit 1 d) (res + d) = (res', rem')
        \<and> unat res' * base + unat rem' = N \<and> unat rem' < base"
      using Suc.IH [OF half] Suc.prems by blast
    with True nz show ?thesis by (subst div_subtract.simps) simp
  next
    case False
    then have "unat rem < 2 * unat (drop_bit 1 b)" using half Suc.prems by (simp add: word_le_nat_alt)
    then have "\<exists>res' rem'. div_subtract rem (drop_bit 1 b) (drop_bit 1 d) res = (res', rem')
        \<and> unat res' * base + unat rem' = N \<and> unat rem' < base"
      using Suc.IH [OF half] Suc.prems by blast
    with False nz show ?thesis by (subst div_subtract.simps) simp
  qed
qed

lemma unat_high: "unat (ucast (drop_bit 32 (n :: u64)) :: u32) = unat n div 4294967296"
proof -
  have "unat (drop_bit 32 n) = unat n div 4294967296"
    by (simp only: unat_drop_bit_eq) (simp add: drop_bit_eq_div)
  moreover have "unat n div 4294967296 < 4294967296" using ptr_below_top [of n] by (simp add: div_less_iff_less_mult)
  ultimately show ?thesis by (simp add: unsigned_ucast_eq take_bit_nat_eq_self)
qed

lemma unat_shift32: "unat (push_bit 32 (ucast (w :: u32) :: u64)) = 4294967296 * unat w"
proof -
  have "unat w * 4294967296 < 18446744073709551616" using u32_below_top [of w] by linarith
  then show ?thesis by (simp add: push_bit_eq_mult unat_word_ariths mult.commute)
qed

text \<open>The first step takes the multiple of \<open>2 ^ 32\<close> out of the quotient.\<close>

lemma div_reduce:
  assumes "base \<noteq> 0" "(base :: u32) \<le> ucast (drop_bit 32 (n :: u64))"
  defines "h \<equiv> ucast (drop_bit 32 n) div base"
  shows "unat (push_bit 32 (ucast h) :: u64) * unat base + unat (n - push_bit 32 (ucast (h * base))) = unat n"
proof -
  let ?H = "unat n div 4294967296"
  have h: "unat h = ?H div unat base" by (simp add: h_def unat_div unat_high)
  have le: "unat h * unat base \<le> ?H" by (simp add: h)
  moreover have "?H < 4294967296" using ptr_below_top [of n] by (simp add: div_less_iff_less_mult)
  ultimately have hb: "unat (h * base) = unat h * unat base" by (simp add: unat_word_ariths)
  have "4294967296 * (unat h * unat base) \<le> 4294967296 * ?H" using le by simp
  also have "\<dots> \<le> unat n" by simp
  finally have sub: "4294967296 * (unat h * unat base) \<le> unat n" .
  then have "unat (n - push_bit 32 (ucast (h * base))) = unat n - 4294967296 * (unat h * unat base)"
    by (simp add: unat_sub_if' unat_shift32 hb)
  with sub show ?thesis by (simp add: unat_shift32)
qed

lemma div64_32_correct:
  assumes "base \<noteq> 0"
  shows "\<exists>q r. div64_32 n base = Some (q, r) \<and> unat q = unat n div unat base \<and> unat r = unat n mod unat base"
proof -
  let ?high = "ucast (drop_bit 32 n) :: u32" and ?B = "unat base"
  have B: "0 < ?B" using assms by (simp add: unat_gt_0)
  obtain res rem :: u64 where step: "(if base \<le> ?high
      then (push_bit 32 (ucast (?high div base)), n - push_bit 32 (ucast (?high div base * base))) else (0, n)) = (res, rem)"
    and inv: "unat res * ?B + unat rem = unat n"
    using div_reduce [OF assms, of n] by (cases "base \<le> ?high") auto
  obtain b d k where scale: "div_scale rem (ucast base) 1 = (b, d)" "unat b = ?B * 2 ^ k" "unat d = 2 ^ k" "unat rem < 2 * unat b"
    using div_scale_correct [of "ucast base" ?B 1 0 rem] B by auto
  obtain q r where sub: "div_subtract rem b d res = (q, r)" "unat q * ?B + unat r = unat n" "unat r < ?B"
    using div_subtract_correct [OF scale(2-4) B inv ptr_below_top] by blast
  have "div64_32 n base = Some (q, ucast r)"
    using assms step scale(1) sub(1) by (cases "base \<le> ?high") (auto simp: div64_32_def Let_def)
  moreover have "unat q = unat n div ?B" "unat r = unat n mod ?B"
    using sub(2,3) by (metis div_mult_self3 B div_less add.right_neutral add.commute less_not_refl, metis mod_mult_self3 mod_less add.commute)
  moreover have "unat (ucast r :: u32) = unat r"
    using sub(3) u32_below_top [of base] by (simp add: unsigned_ucast_eq take_bit_nat_eq_self)
  ultimately show ?thesis by auto
qed

subsection \<open>Correctness of the conversions\<close>

lemma swap_loop_nth:
  "j < length xs \<Longrightarrow> length (swap_loop i j xs) = length xs
     \<and> (\<forall>k < length xs. swap_loop i j xs ! k = (if i \<le> k \<and> k \<le> j then xs ! (i + j - k) else xs ! k))"
proof (induction i j xs rule: swap_loop.induct)
  case (1 i j xs)
  show ?case
  proof (cases "i < j")
    case False
    then show ?thesis by (subst (1 2) swap_loop.simps) (auto intro: arg_cong [of _ _ "\<lambda>m. xs ! m"])
  next
    case True
    let ?ys = "xs[i := xs ! j, j := xs ! i]"
    have eq: "swap_loop i j xs = swap_loop (i + 1) (j - 1) ?ys" using True by (subst swap_loop.simps) simp
    have ih: "length (swap_loop (i + 1) (j - 1) ?ys) = length xs"
      "\<And>k. k < length xs \<Longrightarrow> swap_loop (i + 1) (j - 1) ?ys ! k =
        (if i + 1 \<le> k \<and> k \<le> j - 1 then ?ys ! (i + 1 + (j - 1) - k) else ?ys ! k)"
      using "1.IH" [OF True] "1.prems" by auto
    have "swap_loop i j xs ! k = (if i \<le> k \<and> k \<le> j then xs ! (i + j - k) else xs ! k)" if "k < length xs" for k
      unfolding eq ih(2) [OF that] using True "1.prems" that by (auto simp: nth_list_update)
    then show ?thesis using ih(1) eq by simp
  qed
qed

lemma swap_loop_rev: "swap_loop 0 (length xs - 1) xs = rev xs"
proof (cases xs)
  case Nil
  then show ?thesis by (subst swap_loop.simps) simp
next
  case (Cons y ys)
  then have j: "length xs - 1 < length xs" by simp
  show ?thesis
    using swap_loop_nth [OF j, of 0] by (intro nth_equalityI) (auto simp: rev_nth)
qed

lemmas swap_loop_rev_Suc = swap_loop_rev [unfolded One_nat_def]

lemma emit_digits_step:
  "2 \<le> b \<Longrightarrow> emit_digits b n = digit_char (n mod b) # (if n div b > 0 then emit_digits b (n div b) else [])"
  by (subst emit_digits.simps) simp

lemma unat_digit_char: "r < 16 \<Longrightarrow> unat (digit_char r) = (if r < 10 then 48 + r else 87 + r)"
  by (auto simp: digit_char_def unat_word_ariths unat_of_nat unat_sub_if' word_le_nat_alt)

lemma uint_digit_char: "r < 16 \<Longrightarrow> uint (digit_char r) = (if r < 10 then 48 + int r else 87 + int r)"
proof -
  assume "r < 16"
  then have "int (unat (digit_char r)) = (if r < 10 then 48 + int r else 87 + int r)" by (simp add: unat_digit_char)
  then show ?thesis by simp
qed

lemma digit_char_decimal: "r < 10 \<Longrightarrow> 48 \<le> digit_char r \<and> digit_char r \<le> 57 \<and> uint (digit_char r) - 48 = int r"
  using unat_digit_char [of r] uint_digit_char [of r] by (simp add: word_le_nat_alt)

lemma digit_value_char: "r < 16 \<Longrightarrow> digit_value (digit_char r) = Some (int r)"
  using unat_digit_char [of r] uint_digit_char [of r] by (auto simp: digit_value_def word_le_nat_alt)

lemma strtoul_loop_digits:
  assumes "2 \<le> b" "b \<le> 16"
  shows "strtoul_loop (int b) (rev (emit_digits b n) @ s) 0 = strtoul_loop (int b) s (of_nat n)"
proof (induction n arbitrary: s rule: less_induct)
  case (less n)
  have mod: "n mod b < b" "n mod b < 16" using assms by (auto intro: less_le_trans [of _ b])
  have last: "strtoul_loop (int b) (digit_char (n mod b) # s) (of_nat (n div b)) = strtoul_loop (int b) s (of_nat n)"
  proof -
    have "of_nat (n div b) * of_nat b + of_nat (n mod b) = (of_nat n :: u64)"
      by (metis div_mult_mod_eq of_nat_add of_nat_mult)
    then show ?thesis using mod by (simp add: digit_value_char)
  qed
  show ?case
  proof (cases "n div b > 0")
    case True
    then have "n div b < n" using assms by (cases n) auto
    with less.IH [OF this, of "digit_char (n mod b) # s"] last True show ?thesis
      by (subst emit_digits_step [OF assms(1)]) simp
  next
    case False
    then have zero: "n div b = 0" by simp
    from last [unfolded zero] zero show ?thesis
      by (subst emit_digits_step [OF assms(1)]) (simp del: strtoul_loop.simps)
  qed
qed

lemma parse_digits_decimal:
  "int n \<le> M \<Longrightarrow> parse_digits M (rev (emit_digits 10 n) @ s) 0 = parse_digits M s (int n)"
proof (induction n arbitrary: s rule: less_induct)
  case (less n)
  have "n mod 10 < 10" by simp
  from digit_char_decimal [OF this]
  have last: "parse_digits M (digit_char (n mod 10) # s) (int (n div 10)) = parse_digits M s (int n)"
    using less.prems by (simp add: zdiv_int zmod_int)
  show ?case
  proof (cases "n div 10 > 0")
    case True
    then have lt: "n div 10 < n" by simp
    moreover have "int (n div 10) \<le> M" using less.prems lt by linarith
    ultimately show ?thesis
      using less.IH [of "n div 10" "digit_char (n mod 10) # s"] last True by (subst emit_digits_step) simp_all
  next
    case False
    with last show ?thesis by (subst emit_digits_step) simp_all
  qed
qed

lemma emit_digits_decimal: "emit_digits 10 n \<noteq> [] \<and> (\<forall>c \<in> set (emit_digits 10 n). 48 \<le> c \<and> c \<le> 57)"
proof (induction n rule: less_induct)
  case (less n)
  have "48 \<le> digit_char (n mod 10) \<and> digit_char (n mod 10) \<le> 57" using digit_char_decimal [of "n mod 10"] by simp
  moreover have "n div 10 < n" if "n div 10 > 0" using that by simp
  ultimately show ?case using less [of "n div 10"] by (subst (1 2) emit_digits_step) auto
qed

lemma parse_signed_decimal:
  assumes "int n \<le> M"
  shows "parse_signed M (rev (emit_digits 10 n)) = Some (int n)"
    and "parse_signed M (45 # rev (emit_digits 10 n)) = Some (- int n)"
proof -
  have parsed: "parse_digits M (rev (emit_digits 10 n)) 0 = Some (int n)"
    using parse_digits_decimal [OF assms, of "[]"] by simp
  then show "parse_signed M (45 # rev (emit_digits 10 n)) = Some (- int n)"
    by (simp add: parse_signed_def hd0_def)
  obtain c cs where c: "rev (emit_digits 10 n) = c # cs" "48 \<le> c" "c \<le> 57"
    using emit_digits_decimal [of n] by (metis list.exhaust list.set_intros(1) rev_is_Nil_conv set_rev)
  then have "c \<noteq> 32" "c \<noteq> 9" "c \<noteq> 45" "c \<noteq> 43" by (auto simp: word_le_nat_alt)
  with parsed c show "parse_signed M (rev (emit_digits 10 n)) = Some (int n)"
    by (simp add: parse_signed_def hd0_def)
qed

lemma unat_neg_sint:
  assumes "sint (v :: u32) < 0"
  shows "int (unat (- v)) = - sint v"
proof -
  have big: "2147483648 \<le> unat v" using assms sint_small [of v] by (cases "unat v < 2147483648") auto
  have "- v = 0 - v" by simp
  also have "unat (0 - v) = 4294967296 - unat v" using big by (simp only: unat_sub_if') simp
  finally have "unat (- v) = 4294967296 - unat v" .
  then show ?thesis using sint_large [OF big] u32_below_top [of v] by simp
qed

subsection \<open>Properties\<close>

text \<open>
  C40: \<open>__div64_32\<close>, which scales the divisor up and subtracts it bit by bit, computes the quotient
  and the remainder of every 64-bit number by every nonzero 32-bit number; a zero divisor is a
  division by zero.
\<close>

theorem div64_32_divides:
  "div64_32 n base = (if base = 0 then None else Some (n div ucast base, ucast (n mod ucast base)))"
proof (cases "base = 0")
  case True
  then show ?thesis by (simp add: div64_32_def Let_def)
next
  case False
  from div64_32_correct [OF this, of n] obtain q r where qr: "div64_32 n base = Some (q, r)"
    "unat q = unat n div unat base" "unat r = unat n mod unat base" by blast
  have "unat (n mod ucast base) = unat n mod unat base" by (simp add: unat_mod)
  moreover have "unat n mod unat base < 4294967296"
    using False u32_below_top [of base] by (meson less_trans mod_less_divisor unat_gt_0)
  ultimately have "unat (ucast (n mod ucast base) :: u32) = unat n mod unat base"
    by (simp add: unsigned_ucast_eq take_bit_nat_eq_self)
  with qr(3) have "r = ucast (n mod ucast base)" by (simp add: word_unat_eq_iff)
  moreover have "q = n div ucast base" using qr(2) by (simp add: word_unat_eq_iff unat_div)
  ultimately show ?thesis using qr(1) False by simp
qed

text \<open>
  Printing an int in decimal with \<open>itoa\<close> and reading it back with \<open>atoi\<close> gives the int, for
  every int but the smallest, whose negation in \<open>itoa\<close> overflows.
\<close>

theorem itoa_atoi_roundtrip:
  "Option.bind (itoa v 10) atoi = (if v = 0x80000000 then None else Some (sint v))"
proof (cases "sint v < 0")
  case True
  show ?thesis
  proof (cases "v = 0x80000000")
    case False
    let ?n = "unat (- v)"
    have n: "int ?n = - sint v" using unat_neg_sint [OF True] .
    have "sint v \<noteq> - 2147483648"
    proof
      assume "sint v = - 2147483648"
      moreover have "2147483648 \<le> unat v" using True sint_small [of v] by (cases "unat v < 2147483648") auto
      ultimately have "int (unat v) = 2147483648" using sint_large [of v] by linarith
      then have "unat v = 2147483648" by linarith
      with False show False by (simp add: word_unat_eq_iff)
    qed
    moreover have "- 2147483648 \<le> sint v" using sint_greater_eq [of v] by simp
    ultimately have "int ?n \<le> 2147483647" using n by simp
    moreover have "itoa v 10 = Some (45 # rev (emit_digits 10 ?n))"
      using True False by (simp add: itoa_def swap_loop_rev swap_loop_rev_Suc Let_def)
    ultimately show ?thesis
      using False n parse_signed_decimal(2) [of ?n 2147483647] by (simp add: atoi_def)
  qed (simp add: itoa_def)
next
  case False
  have small: "unat v < 2147483648" using False sint_large_neg [of v] by (cases "unat v < 2147483648") auto
  then have "int (unat v) \<le> 2147483647" by linarith
  moreover have "itoa v 10 = Some (rev (emit_digits 10 (unat v)))"
    using False by (simp add: itoa_def swap_loop_rev swap_loop_rev_Suc Let_def)
  moreover have "v \<noteq> 0x80000000" using False by auto
  ultimately show ?thesis
    using sint_small [OF small] parse_signed_decimal(1) [of "unat v" 2147483647] by (simp add: atoi_def)
qed

text \<open>
  In every base from 2 to 16, \<open>strtoul\<close> reads back what \<open>utoa\<close> printed, up to the end of the
  string.
\<close>

theorem utoa_strtoul_roundtrip:
  assumes "2 \<le> base" and "base \<le> 16"
  shows "strtoul (utoa v base) base = (ucast v, [])"
proof -
  have b: "2 \<le> nat base" "nat base \<le> 16" "int (nat base) = base" using assms by auto
  have "utoa v base = rev (emit_digits (nat base) (unat v))"
    using assms by (simp add: utoa_def swap_loop_rev swap_loop_rev_Suc Let_def)
  then show ?thesis
    using strtoul_loop_digits [OF b(1,2), of "unat v" "[]"] assms b(3) by (simp add: strtoul_def)
qed

theorem utoa_strtoul_roundtrip_witness: "strtoul (utoa 0xBEEF 16) 16 = (0xBEEF, [])"
  using utoa_strtoul_roundtrip [of 16 "0xBEEF"] by simp

end
