(* ===== verification/Cursor.thy ===== *)
theory Cursor
  imports Prelude "HOL-Library.Monad_Syntax"
begin

text \<open>
  kernel/cursor.c: the VGA text console. The state is the cursor position, the colour, the cells of
  the frame buffer (the screen is the first 2000 of them), the values written to the video ports and
  the static variables of the blinking routine. Loop variables are 8 bits wide as in the source; a
  loop whose end value is 255 never ends (\<open>None\<close>).
\<close>

record cursor_state =
  cursor_x :: u8
  cursor_y :: u8
  color :: u8
  vga_buffer :: "nat \<Rightarrow> u16"
  ports :: "(u16 \<times> u8) list"
  blink_visible :: bool
  blink_orig_start :: u8

text \<open>The initial values of the statics.\<close>

definition cursor_boot :: "(nat \<Rightarrow> u16) \<Rightarrow> cursor_state" where
  "cursor_boot mem = \<lparr>cursor_x = 0, cursor_y = 0, color = 0x0F, vga_buffer = mem, ports = [],
     blink_visible = True, blink_orig_start = 0\<rparr>"

abbreviation VGA_CRTC_INDEX :: u16 where "VGA_CRTC_INDEX \<equiv> 0x3D4"
abbreviation VGA_CRTC_DATA :: u16 where "VGA_CRTC_DATA \<equiv> 0x3D5"
abbreviation CURSOR_START :: u8 where "CURSOR_START \<equiv> 0x0A"
abbreviation CURSOR_END :: u8 where "CURSOR_END \<equiv> 0x0B"
abbreviation CURSOR_LOC_HIGH :: u8 where "CURSOR_LOC_HIGH \<equiv> 0x0E"
abbreviation CURSOR_LOC_LOW :: u8 where "CURSOR_LOC_LOW \<equiv> 0x0F"

definition outb :: "u16 \<Rightarrow> u8 \<Rightarrow> cursor_state \<Rightarrow> cursor_state" where
  "outb port val s = s\<lparr>ports := ports s @ [(port, val)]\<rparr>"

definition cell :: "u8 \<Rightarrow> u8 \<Rightarrow> u16" where
  "cell col ch = push_bit 8 (ucast col) OR ucast ch"

definition at :: "u8 \<Rightarrow> u8 \<Rightarrow> nat" where
  "at x y = unat y * 80 + unat x"

definition put_cell :: "nat \<Rightarrow> u16 \<Rightarrow> cursor_state \<Rightarrow> cursor_state" where
  "put_cell i v s = s\<lparr>vga_buffer := (vga_buffer s)(i := v)\<rparr>"

definition cursor_update_hw :: "cursor_state \<Rightarrow> cursor_state" where
  "cursor_update_hw s =
     (let pos = of_nat (at (cursor_x s) (cursor_y s)) :: u16;
          s = outb VGA_CRTC_INDEX CURSOR_LOC_LOW s;
          s = outb VGA_CRTC_DATA (ucast (pos AND 0xFF)) s;
          s = outb VGA_CRTC_INDEX CURSOR_LOC_HIGH s
      in outb VGA_CRTC_DATA (ucast (drop_bit 8 pos AND 0xFF)) s)"

definition cursor_set_shape :: "u8 \<Rightarrow> u8 \<Rightarrow> cursor_state \<Rightarrow> cursor_state" where
  "cursor_set_shape start end0 s =
     outb VGA_CRTC_DATA end0 (outb VGA_CRTC_INDEX CURSOR_END
       (outb VGA_CRTC_DATA start (outb VGA_CRTC_INDEX CURSOR_START s)))"

definition cursor_init :: "cursor_state \<Rightarrow> cursor_state" where
  "cursor_init s = (cursor_update_hw (cursor_set_shape 0 15 s))\<lparr>cursor_x := 0, cursor_y := 0\<rparr>"

definition cursor_set_pos :: "u8 \<Rightarrow> u8 \<Rightarrow> cursor_state \<Rightarrow> cursor_state" where
  "cursor_set_pos x y s =
     (let x = (if x \<ge> 80 then 79 else x); y = (if y \<ge> 25 then 24 else y)
      in cursor_update_hw (s\<lparr>cursor_x := x, cursor_y := y\<rparr>))"

definition cursor_get_pos :: "cursor_state \<Rightarrow> u8 \<times> u8" where
  "cursor_get_pos s = (cursor_x s, cursor_y s)"

text \<open>The sums of \<open>cursor_move\<close> are 16 bits wide and cannot overflow.\<close>

definition cursor_move :: "8 word \<Rightarrow> 8 word \<Rightarrow> cursor_state \<Rightarrow> cursor_state" where
  "cursor_move dx dy s =
     (let new_x = uint (cursor_x s) + sint dx; new_y = uint (cursor_y s) + sint dy;
          new_x = (if new_x < 0 then 0 else new_x); new_x = (if new_x \<ge> 80 then 79 else new_x);
          new_y = (if new_y < 0 then 0 else new_y); new_y = (if new_y \<ge> 25 then 24 else new_y)
      in cursor_update_hw (s\<lparr>cursor_x := word_of_int new_x, cursor_y := word_of_int new_y\<rparr>))"

definition cursor_hide :: "cursor_state \<Rightarrow> cursor_state" where
  "cursor_hide s = outb VGA_CRTC_DATA 0x20 (outb VGA_CRTC_INDEX CURSOR_START s)"

definition cursor_show :: "cursor_state \<Rightarrow> cursor_state" where
  "cursor_show s = cursor_set_shape 0 15 s"

definition cursor_set_color :: "u8 \<Rightarrow> u8 \<Rightarrow> cursor_state \<Rightarrow> cursor_state" where
  "cursor_set_color fg bg s = s\<lparr>color := push_bit 4 bg OR (fg AND 0x0F)\<rparr>"

definition cursor_clear_screen :: "cursor_state \<Rightarrow> cursor_state" where
  "cursor_clear_screen s =
     (let s = for_upto (80 * 25) (\<lambda>i s. put_cell i (cell (color s) 32) s) s
      in cursor_update_hw (s\<lparr>cursor_x := 0, cursor_y := 0\<rparr>))"

subsection \<open>Characters\<close>

definition scroll_up :: "cursor_state \<Rightarrow> cursor_state" where
  "scroll_up s =
     (let s = for_upto (80 * 24) (\<lambda>i s. put_cell i (vga_buffer s (i + 80)) s) s;
          s = for_upto 80 (\<lambda>i s. put_cell (80 * 24 + i) (cell (color s) 32) s) s
      in s\<lparr>cursor_y := 24\<rparr>)"

definition cursor_putchar :: "u8 \<Rightarrow> cursor_state \<Rightarrow> cursor_state" where
  "cursor_putchar c s =
     (let s = (if c = 10 then s\<lparr>cursor_x := 0, cursor_y := cursor_y s + 1\<rparr>
               else if c = 13 then s\<lparr>cursor_x := 0\<rparr>
               else if c = 8 then
                 (if cursor_x s > 0
                  then let s = s\<lparr>cursor_x := cursor_x s - 1\<rparr>
                       in put_cell (at (cursor_x s) (cursor_y s)) (cell (color s) 32) s
                  else s)
               else if c = 9 then s\<lparr>cursor_x := (cursor_x s + 8) AND NOT 7\<rparr>
               else (put_cell (at (cursor_x s) (cursor_y s)) (cell (color s) c) s)\<lparr>cursor_x := cursor_x s + 1\<rparr>);
          s = (if cursor_x s \<ge> 80 then s\<lparr>cursor_x := 0, cursor_y := cursor_y s + 1\<rparr> else s);
          s = (if cursor_y s \<ge> 25 then scroll_up s else s)
      in cursor_update_hw s)"

fun cursor_print :: "u8 list \<Rightarrow> cursor_state \<Rightarrow> cursor_state" where
  "cursor_print [] s = s"
| "cursor_print (c # cs) s = (if c = 0 then s else cursor_print cs (cursor_putchar c s))"

definition cursor_print_colored :: "u8 list \<Rightarrow> u8 \<Rightarrow> u8 \<Rightarrow> cursor_state \<Rightarrow> cursor_state" where
  "cursor_print_colored str fg bg s =
     (let old_color = color s in (cursor_print str (cursor_set_color fg bg s))\<lparr>color := old_color\<rparr>)"

subsection \<open>Regions\<close>

lemma u8_next: "(x :: u8) < hi \<Longrightarrow> unat hi - unat (x + 1) < unat hi - unat x"
proof -
  assume lt: "x < hi"
  have "unat hi < 256" using unsigned_less [of hi, where ?'a = nat] by simp
  with lt have "unat (x + 1) = unat x + 1" by (simp add: word_less_nat_alt unat_word_ariths)
  with lt show ?thesis by (simp add: word_less_nat_alt)
qed

text \<open>\<open>for (uint8_t i = lo; i < hi; i++)\<close>, and the same with \<open>i <= hi\<close>, which never ends for
  \<open>hi\<close> = 255.\<close>

function u8_lt_loop :: "u8 \<Rightarrow> u8 \<Rightarrow> (u8 \<Rightarrow> cursor_state \<Rightarrow> cursor_state) \<Rightarrow> cursor_state \<Rightarrow> cursor_state" where
  "u8_lt_loop i hi body s = (if i < hi then u8_lt_loop (i + 1) hi body (body i s) else s)"
  by pat_completeness auto
termination
  by (relation "measure (\<lambda>(i, hi, body, s). unat hi - unat i)") (use u8_next in auto)

declare u8_lt_loop.simps [simp del]

partial_function (option) u8_le_loop ::
  "u8 \<Rightarrow> u8 \<Rightarrow> (u8 \<Rightarrow> cursor_state \<Rightarrow> cursor_state option) \<Rightarrow> cursor_state \<Rightarrow> cursor_state option" where
  "u8_le_loop i hi body s =
     (if i \<le> hi then do { s \<leftarrow> body i s; u8_le_loop (i + 1) hi body s } else Some s)"

definition cursor_draw_box :: "u8 \<Rightarrow> u8 \<Rightarrow> u8 \<Rightarrow> u8 \<Rightarrow> cursor_state \<Rightarrow> cursor_state" where
  "cursor_draw_box x1 y1 x2 y2 s =
     (let s = put_cell (at x1 y1) (cell (color s) 43) s;
          s = put_cell (at x2 y1) (cell (color s) 43) s;
          s = put_cell (at x1 y2) (cell (color s) 43) s;
          s = put_cell (at x2 y2) (cell (color s) 43) s;
          s = u8_lt_loop (x1 + 1) x2 (\<lambda>x s. put_cell (at x y2) (cell (color s) 45)
                (put_cell (at x y1) (cell (color s) 45) s)) s;
          s = u8_lt_loop (y1 + 1) y2 (\<lambda>y s. put_cell (at x2 y) (cell (color s) 124)
                (put_cell (at x1 y) (cell (color s) 124) s)) s
      in cursor_update_hw s)"

definition cursor_fill_region ::
  "u8 \<Rightarrow> u8 \<Rightarrow> u8 \<Rightarrow> u8 \<Rightarrow> u8 \<Rightarrow> u8 \<Rightarrow> cursor_state \<Rightarrow> cursor_state option" where
  "cursor_fill_region x1 y1 x2 y2 fg bg s = do {
     let old_color = color s;
     let s = cursor_set_color fg bg s;
     s \<leftarrow> u8_le_loop y1 y2 (\<lambda>y s. u8_le_loop x1 x2 (\<lambda>x s. Some (put_cell (at x y) (cell (color s) 32) s)) s) s;
     Some (cursor_update_hw (s\<lparr>color := old_color\<rparr>))
   }"

text \<open>The value the port read returns is the argument \<open>inb_start\<close>.\<close>

definition cursor_blink :: "u8 \<Rightarrow> cursor_state \<Rightarrow> cursor_state" where
  "cursor_blink inb_start s =
     (let s = (if blink_visible s
               then let s = outb VGA_CRTC_INDEX CURSOR_START s; s = s\<lparr>blink_orig_start := inb_start\<rparr>
                    in outb VGA_CRTC_DATA (blink_orig_start s OR 0x20) s
               else let s = outb VGA_CRTC_INDEX CURSOR_START s
                    in outb VGA_CRTC_DATA (blink_orig_start s AND NOT 0x20) s)
      in s\<lparr>blink_visible := \<not> blink_visible s\<rparr>)"

definition cursor_save_state :: "cursor_state \<Rightarrow> u8 \<times> u8 \<times> u8" where
  "cursor_save_state s = (cursor_x s, cursor_y s, color s)"

definition cursor_restore_state :: "u8 \<Rightarrow> u8 \<Rightarrow> u8 \<Rightarrow> cursor_state \<Rightarrow> cursor_state" where
  "cursor_restore_state x y c s = cursor_update_hw (s\<lparr>cursor_x := x, cursor_y := y, color := c\<rparr>)"

definition cursor_get_char :: "u8 \<Rightarrow> u8 \<Rightarrow> cursor_state \<Rightarrow> u8" where
  "cursor_get_char x y s = ucast (vga_buffer s (at x y) AND 0xFF)"

definition cursor_set_char :: "u8 \<Rightarrow> u8 \<Rightarrow> u8 \<Rightarrow> cursor_state \<Rightarrow> cursor_state" where
  "cursor_set_char x y c s = put_cell (at x y) (cell (color s) c) s"

text \<open>Offsets are computed in int: the row \<open>y + lines\<close> is not reduced to 8 bits.\<close>

definition cursor_scroll_region :: "u8 \<Rightarrow> u8 \<Rightarrow> 8 word \<Rightarrow> cursor_state \<Rightarrow> cursor_state option" where
  "cursor_scroll_region top0 bottom lines0 s = do {
     s \<leftarrow> (if sint lines0 > 0 then do {
            let s = u8_lt_loop top0 bottom (\<lambda>y s. u8_lt_loop 0 80
                (\<lambda>x s. put_cell (at x y) (vga_buffer s ((unat y + unat lines0) * 80 + unat x)) s) s) s;
            u8_le_loop (bottom - lines0 + 1) bottom (\<lambda>y s. Some (u8_lt_loop 0 80
                (\<lambda>x s. put_cell (at x y) (cell (color s) 32) s) s)) s
          } else Some s);
     Some (cursor_update_hw s)
   }"

lemma u8_prev: "(lo :: u8) < i \<Longrightarrow> unat (i - 1) < unat i"
  by (simp add: word_less_nat_alt unat_sub_if')

text \<open>\<open>for (uint8_t i = hi; i > lo; i--)\<close>\<close>

function u8_down_loop :: "u8 \<Rightarrow> u8 \<Rightarrow> (u8 \<Rightarrow> cursor_state \<Rightarrow> cursor_state) \<Rightarrow> cursor_state \<Rightarrow> cursor_state" where
  "u8_down_loop i lo body s = (if i > lo then u8_down_loop (i - 1) lo body (body i s) else s)"
  by pat_completeness auto
termination
  by (relation "measure (\<lambda>(i, lo, body, s). unat i)") (use u8_prev in auto)

declare u8_down_loop.simps [simp del]

definition cursor_insert_line :: "cursor_state \<Rightarrow> cursor_state" where
  "cursor_insert_line s =
     (let s = u8_down_loop 24 (cursor_y s) (\<lambda>y s. u8_lt_loop 0 80
            (\<lambda>x s. put_cell (at x y) (vga_buffer s (at x (y - 1))) s) s) s;
          s = u8_lt_loop 0 80 (\<lambda>x s. put_cell (at x (cursor_y s)) (cell (color s) 32) s) s
      in cursor_update_hw s)"

definition cursor_delete_line :: "cursor_state \<Rightarrow> cursor_state" where
  "cursor_delete_line s =
     (let s = u8_lt_loop (cursor_y s) 24 (\<lambda>y s. u8_lt_loop 0 80
            (\<lambda>x s. put_cell (at x y) (vga_buffer s (at x (y + 1))) s) s) s;
          s = u8_lt_loop 0 80 (\<lambda>x s. put_cell (at x 24) (cell (color s) 32) s) s
      in cursor_update_hw s)"

definition cursor_insert_char :: "u8 \<Rightarrow> cursor_state \<Rightarrow> cursor_state" where
  "cursor_insert_char c s =
     (let s = u8_down_loop 79 (cursor_x s)
            (\<lambda>x s. put_cell (at x (cursor_y s)) (vga_buffer s (at (x - 1) (cursor_y s))) s) s;
          s = put_cell (at (cursor_x s) (cursor_y s)) (cell (color s) c) s
      in cursor_update_hw (s\<lparr>cursor_x := cursor_x s + 1\<rparr>))"

definition cursor_delete_char :: "cursor_state \<Rightarrow> cursor_state" where
  "cursor_delete_char s =
     (if cursor_x s \<ge> 80 then s
      else let s = u8_lt_loop (cursor_x s) 79
             (\<lambda>x s. put_cell (at x (cursor_y s)) (vga_buffer s (at (x + 1) (cursor_y s))) s) s;
               s = put_cell (at 79 (cursor_y s)) (cell (color s) 32) s
           in cursor_update_hw s)"

definition cursor_reverse_video :: "u8 \<Rightarrow> u8 \<Rightarrow> cursor_state \<Rightarrow> cursor_state" where
  "cursor_reverse_video x y s =
     (let pos = at x y; c = vga_buffer s pos;
          old_fg = ucast (drop_bit 8 c AND 0x0F) :: u8;
          old_bg = ucast (drop_bit 12 c AND 0x0F) :: u8;
          new_color = push_bit 4 old_fg OR old_bg
      in put_cell pos (push_bit 8 (ucast new_color) OR (c AND 0xFF)) s)"

subsection \<open>Loops as folds\<close>

lemma unat_u8_lt: "unat (x :: u8) < 256"
  using unsigned_less [of x, where ?'a = nat] by simp

lemma unat_u8_Suc: "(x :: u8) < hi \<Longrightarrow> unat (x + 1) = Suc (unat x)"
  using unat_u8_lt [of hi] by (simp add: word_less_nat_alt unat_word_ariths)

lemma unat_u8_of_nat: "i < 256 \<Longrightarrow> unat (of_nat i :: u8) = i"
  by (simp add: unsigned_of_nat take_bit_eq_mod)

lemma u8_lt_loop_fold:
  "u8_lt_loop i hi body s = fold (\<lambda>k. body (of_nat k)) [unat i..<unat hi] s"
proof (induction i hi body s rule: u8_lt_loop.induct)
  case (1 i hi body s)
  show ?case
  proof (cases "i < hi")
    case True
    then have "[unat i..<unat hi] = unat i # [Suc (unat i)..<unat hi]"
      by (simp add: word_less_nat_alt upt_conv_Cons)
    with True 1 show ?thesis by (subst u8_lt_loop.simps) (simp add: unat_u8_Suc)
  next
    case False
    then show ?thesis by (subst u8_lt_loop.simps) (simp add: word_less_nat_alt)
  qed
qed

lemma u8_down_loop_fold:
  "u8_down_loop i lo body s = fold (\<lambda>k. body (of_nat k)) (rev [Suc (unat lo)..<Suc (unat i)]) s"
proof (induction i lo body s rule: u8_down_loop.induct)
  case (1 i lo body s)
  show ?case
  proof (cases "i > lo")
    case True
    then have "unat i = Suc (unat (i - 1))"
      by (simp add: word_less_nat_alt unat_sub_if')
    moreover from this True have "rev [Suc (unat lo)..<Suc (unat i)] = unat i # rev [Suc (unat lo)..<Suc (unat (i - 1))]"
      by (simp add: word_less_nat_alt)
    ultimately show ?thesis using True 1 by (subst u8_down_loop.simps) simp
  next
    case False
    then show ?thesis by (subst u8_down_loop.simps) (simp add: word_less_nat_alt)
  qed
qed

text \<open>With a last index below 255 the inclusive loop ends; with 255 and a body that returns it does not.\<close>

lemma u8_le_loop_fold:
  assumes "hi < 255" and "\<And>i t. body i t = Some (g i t)"
  shows "u8_le_loop i hi body s = Some (fold (\<lambda>k. g (of_nat k)) [unat i..<Suc (unat hi)] s)"
proof (induction "Suc (unat hi) - unat i" arbitrary: i s)
  case 0
  then show ?case by (subst u8_le_loop.simps) (simp add: word_le_nat_alt)
next
  case (Suc n)
  have le: "i \<le> hi" using Suc.hyps(2) by (simp add: word_le_nat_alt)
  with assms(1) have "i < 255" by simp
  then have nx: "unat (i + 1) = Suc (unat i)" by (rule unat_u8_Suc)
  have "[unat i..<Suc (unat hi)] = unat i # [Suc (unat i)..<Suc (unat hi)]"
    using le by (simp add: word_le_nat_alt upt_conv_Cons del: upt_Suc)
  with Suc.hyps(1) [of "i + 1"] Suc.hyps(2) nx le show ?case
    by (subst u8_le_loop.simps) (simp add: assms(2) del: upt_Suc)
qed

lemma u8_le_loop_255: "u8_le_loop i 255 body s = None"
proof -
  have "False" if "u8_le_loop i 255 body s = Some r" for r
  proof -
    have "\<And>i hi body s r. u8_le_loop i hi body s = Some r \<Longrightarrow> hi = 255 \<longrightarrow> False"
    proof (erule u8_le_loop.raw_induct [rotated])
      fix loop :: "u8 \<Rightarrow> u8 \<Rightarrow> (u8 \<Rightarrow> cursor_state \<Rightarrow> cursor_state option) \<Rightarrow> cursor_state \<Rightarrow> cursor_state option"
      fix i hi :: u8 and body s r
      assume IH: "\<And>i hi body s r. loop i hi body s = Some r \<Longrightarrow> hi = 255 \<longrightarrow> False"
        and eq: "(if i \<le> hi then body i s \<bind> loop (i + 1) hi body else Some s) = Some r"
      show "hi = 255 \<longrightarrow> False"
      proof
        assume "hi = 255"
        moreover have "i \<le> 255" using unat_u8_lt [of i] by (simp add: word_le_nat_alt)
        ultimately show False using eq by (auto simp: bind_eq_Some_conv dest!: IH)
      qed
    qed
    with that show False by blast
  qed
  then show ?thesis by (cases "u8_le_loop i 255 body s") auto
qed

subsection \<open>Rows\<close>

lemma outb_simps [simp]:
  "cursor_x (outb p v s) = cursor_x s" "cursor_y (outb p v s) = cursor_y s"
  "color (outb p v s) = color s" "vga_buffer (outb p v s) = vga_buffer s"
  "ports (outb p v s) = ports s @ [(p, v)]"
  by (simp_all add: outb_def)

lemma update_hw_simps [simp]:
  "cursor_x (cursor_update_hw s) = cursor_x s" "cursor_y (cursor_update_hw s) = cursor_y s"
  "color (cursor_update_hw s) = color s" "vga_buffer (cursor_update_hw s) = vga_buffer s"
  by (simp_all add: cursor_update_hw_def Let_def)

lemma put_cell_simps [simp]:
  "cursor_x (put_cell i v s) = cursor_x s" "cursor_y (put_cell i v s) = cursor_y s"
  "color (put_cell i v s) = color s" "vga_buffer (put_cell i v s) = (vga_buffer s)(i := v)"
  by (simp_all add: put_cell_def)

definition row_set :: "nat \<Rightarrow> (nat \<Rightarrow> u16) \<Rightarrow> cursor_state \<Rightarrow> cursor_state" where
  "row_set y f s = s\<lparr>vga_buffer := \<lambda>j. if j div 80 = y then f (j mod 80) else vga_buffer s j\<rparr>"

lemma row_set_simps [simp]:
  "cursor_x (row_set y f s) = cursor_x s" "cursor_y (row_set y f s) = cursor_y s"
  "color (row_set y f s) = color s"
  "vga_buffer (row_set y f s) = (\<lambda>j. if j div 80 = y then f (j mod 80) else vga_buffer s j)"
  by (simp_all add: row_set_def)

lemma row_eq: "(y * 80 \<le> j \<and> j < y * 80 + 80) = (j div 80 = (y :: nat))"
  by (auto simp: div_nat_eqI mult.commute dest: dividend_less_div_times)

lemma vga_eqI: "(\<And>j. f j = g j) \<Longrightarrow> s\<lparr>vga_buffer := f\<rparr> = s\<lparr>vga_buffer := g\<rparr>"
  by (metis ext)

lemma fold_put_row:
  assumes "n \<le> 80" and "\<And>t i. i < n \<Longrightarrow> (\<forall>j. j div 80 \<noteq> y \<longrightarrow> vga_buffer t j = vga_buffer s j) \<Longrightarrow>
      color t = color s \<Longrightarrow> cursor_y t = cursor_y s \<Longrightarrow> val i t = f i"
  shows "fold (\<lambda>i t. put_cell (y * 80 + i) (val i t) t) [0..<n] s =
    s\<lparr>vga_buffer := \<lambda>j. if y * 80 \<le> j \<and> j < y * 80 + n then f (j - y * 80) else vga_buffer s j\<rparr>"
  using assms
proof (induction n)
  case 0
  have same: "(\<lambda>j. if y * 80 \<le> j \<and> j < y * 80 + 0 then f (j - y * 80) else vga_buffer s j) = vga_buffer s"
    by (rule ext) auto
  show ?case unfolding same by simp
next
  case (Suc n)
  let ?t = "s\<lparr>vga_buffer := \<lambda>j. if y * 80 \<le> j \<and> j < y * 80 + n then f (j - y * 80) else vga_buffer s j\<rparr>"
  have frame: "\<forall>j. j div 80 \<noteq> y \<longrightarrow> vga_buffer ?t j = vga_buffer s j"
  proof (intro allI impI)
    fix j
    assume "j div 80 \<noteq> y"
    then have "\<not> (y * 80 \<le> j \<and> j < y * 80 + n)" using row_eq [of y j] Suc.prems(1) by linarith
    then show "vga_buffer ?t j = vga_buffer s j" by auto
  qed
  have "val n ?t = f n" by (rule Suc.prems(2) [OF lessI frame]) simp_all
  moreover have "fold (\<lambda>i t. put_cell (y * 80 + i) (val i t) t) [0..<n] s = ?t"
    by (rule Suc.IH) (use Suc.prems in simp_all)
  ultimately have "fold (\<lambda>i t. put_cell (y * 80 + i) (val i t) t) [0..<Suc n] s = put_cell (y * 80 + n) (f n) ?t"
    by simp
  also have "\<dots> = s\<lparr>vga_buffer := \<lambda>j. if y * 80 \<le> j \<and> j < y * 80 + Suc n then f (j - y * 80) else vga_buffer s j\<rparr>"
    by (simp add: put_cell_def) (rule vga_eqI, auto)
  finally show ?case .
qed

lemma row_loop:
  assumes "\<And>t i. i < 80 \<Longrightarrow> (\<forall>j. j div 80 \<noteq> unat y \<longrightarrow> vga_buffer t j = vga_buffer s j) \<Longrightarrow>
      color t = color s \<Longrightarrow> cursor_y t = cursor_y s \<Longrightarrow> val (of_nat i) t = f i"
  shows "u8_lt_loop 0 80 (\<lambda>x t. put_cell (at x y) (val x t) t) s = row_set (unat y) f s"
proof -
  have "u8_lt_loop 0 80 (\<lambda>x t. put_cell (at x y) (val x t) t) s =
      fold (\<lambda>i t. put_cell (unat y * 80 + i) (val (of_nat i) t) t) [0..<80] s"
    by (auto simp: u8_lt_loop_fold at_def unat_u8_of_nat intro!: fold_cong)
  also have "\<dots> = s\<lparr>vga_buffer := \<lambda>j. if unat y * 80 \<le> j \<and> j < unat y * 80 + 80 then f (j - unat y * 80) else vga_buffer s j\<rparr>"
    by (rule fold_put_row) (use assms in auto)
  also have "\<dots> = row_set (unat y) f s"
    unfolding row_set_def row_eq by (rule vga_eqI) (simp flip: minus_div_mult_eq_mod)
  finally show ?thesis .
qed

lemma clear_row: "u8_lt_loop 0 80 (\<lambda>x t. put_cell (at x y) (cell (color t) 32) t) s =
    row_set (unat y) (\<lambda>_. cell (color s) 32) s"
  by (rule row_loop) simp

lemma copy_row:
  assumes "unat r \<noteq> unat y"
  shows "u8_lt_loop 0 80 (\<lambda>x t. put_cell (at x y) (vga_buffer t (at x r)) t) s =
    row_set (unat y) (\<lambda>x. vga_buffer s (unat r * 80 + x)) s"
  by (rule row_loop) (use assms in \<open>simp add: at_def unat_u8_of_nat\<close>)

text \<open>Shifting the rows below \<open>c\<close> down by one, and up by one.\<close>

lemma shift_down:
  assumes "c \<le> n"
  shows "vga_buffer (fold (\<lambda>y t. row_set y (\<lambda>x. vga_buffer t ((y - 1) * 80 + x)) t) (rev [Suc c..<Suc n]) s) =
    (\<lambda>j. if c < j div 80 \<and> j div 80 \<le> n then vga_buffer s (j - 80) else vga_buffer s j)"
  using assms
proof (induction n arbitrary: s)
  case 0
  then show ?case by (auto simp: fun_eq_iff)
next
  case (Suc n)
  show ?case
  proof (cases "c = Suc n")
    case True
    then show ?thesis by (auto simp: fun_eq_iff)
  next
    case False
    with Suc.prems have le: "c \<le> n" by simp
    let ?t = "row_set (Suc n) (\<lambda>x. vga_buffer s (n * 80 + x)) s"
    have fst_row: "j - 80 = n * 80 + j mod 80" if "j div 80 = Suc n" for j
      using that div_mult_mod_eq [of j 80] by simp
    have other: "(j - 80) div 80 \<noteq> Suc n" if "j div 80 \<le> n" for j
      using that div_le_mono [of "j - 80" j 80] by simp
    have step: "rev [Suc c..<Suc (Suc n)] = Suc n # rev [Suc c..<Suc n]" using le by simp
    show ?thesis using Suc.IH [OF le, of ?t] le
      by (auto simp: step fun_eq_iff fst_row other simp del: upt_Suc)
  qed
qed

lemma shift_up:
  assumes "c \<le> n"
  shows "vga_buffer (fold (\<lambda>y t. row_set y (\<lambda>x. vga_buffer t ((y + 1) * 80 + x)) t) [c..<n] s) =
    (\<lambda>j. if c \<le> j div 80 \<and> j div 80 < n then vga_buffer s (j + 80) else vga_buffer s j)"
  using assms
proof (induction n)
  case 0
  then show ?case by (auto simp: fun_eq_iff)
next
  case (Suc n)
  show ?case
  proof (cases "c = Suc n")
    case True
    then show ?thesis by (auto simp: fun_eq_iff)
  next
    case False
    with Suc.prems have le: "c \<le> n" by simp
    have nx: "80 + (n * 80 + j mod 80) = j + 80" if "j div 80 = n" for j
      using that div_mult_mod_eq [of j 80] by simp
    show ?thesis using Suc.IH [OF le] le
      by (auto simp: fun_eq_iff nx less_Suc_eq)
  qed
qed

subsection \<open>The terminal the console implements\<close>

text \<open>
  A terminal is 25 rows of 80 cells, a position and an attribute. Scrolling drops the first row and
  appends a blank one; a tab goes to the next multiple of 8.
\<close>

record terminal =
  t_rows :: "u16 list list"
  t_col :: nat
  t_row :: nat
  t_attr :: u8

definition term_write :: "u8 \<Rightarrow> terminal \<Rightarrow> terminal" where
  "term_write c t = t\<lparr>t_rows := (t_rows t)[t_row t := (t_rows t ! t_row t)[t_col t := cell (t_attr t) c]]\<rparr>"

definition term_settle :: "terminal \<Rightarrow> terminal" where
  "term_settle t =
     (let t = (if t_col t < 80 then t else t\<lparr>t_col := 0, t_row := Suc (t_row t)\<rparr>)
      in if t_row t < 25 then t
         else t\<lparr>t_rows := tl (t_rows t) @ [replicate 80 (cell (t_attr t) 32)], t_row := 24\<rparr>)"

definition term_move :: "u8 \<Rightarrow> terminal \<Rightarrow> terminal" where
  "term_move c t =
     (if c = 10 then t\<lparr>t_col := 0, t_row := Suc (t_row t)\<rparr>
      else if c = 13 then t\<lparr>t_col := 0\<rparr>
      else if c = 8 then (if t_col t = 0 then t else term_write 32 (t\<lparr>t_col := t_col t - 1\<rparr>))
      else if c = 9 then t\<lparr>t_col := (t_col t div 8 + 1) * 8\<rparr>
      else (term_write c t)\<lparr>t_col := Suc (t_col t)\<rparr>)"

definition term_putchar :: "u8 \<Rightarrow> terminal \<Rightarrow> terminal" where
  "term_putchar c t = term_settle (term_move c t)"

definition screen :: "cursor_state \<Rightarrow> u16 list list" where
  "screen s = map (\<lambda>r. map (\<lambda>c. vga_buffer s (r * 80 + c)) [0..<80]) [0..<25]"

definition abs_term :: "cursor_state \<Rightarrow> terminal" where
  "abs_term s = \<lparr>t_rows = screen s, t_col = unat (cursor_x s), t_row = unat (cursor_y s), t_attr = color s\<rparr>"

definition on_screen :: "cursor_state \<Rightarrow> bool" where
  "on_screen s = (cursor_x s < 80 \<and> cursor_y s < 25)"

text \<open>The two states agree on every cell after the last row.\<close>

definition same_beyond :: "cursor_state \<Rightarrow> cursor_state \<Rightarrow> bool" where
  "same_beyond s s' = (\<forall>i. 2000 \<le> i \<longrightarrow> vga_buffer s' i = vga_buffer s i)"

lemma screen_cong: "vga_buffer s = vga_buffer t \<Longrightarrow> screen s = screen t"
  by (simp add: screen_def)

lemma cell_index: "c < 80 \<Longrightarrow> c' < 80 \<Longrightarrow> (r' * 80 + c' = r * 80 + c) = (r' = r \<and> c' = (c :: nat))"
proof
  assume *: "c < 80" "c' < 80" "r' * 80 + c' = r * 80 + c"
  then have "(r' * 80 + c') div 80 = r'" "(r * 80 + c) div 80 = r" by simp_all
  with *(3) have "r' = r" by metis
  with *(3) show "r' = r \<and> c' = c" by simp
qed simp

lemma screen_nth: "r < 25 \<Longrightarrow> c < 80 \<Longrightarrow> screen s ! r ! c = vga_buffer s (r * 80 + c)"
  by (simp add: screen_def)

lemma screen_length [simp]: "length (screen s) = 25"
  by (simp add: screen_def)

lemma screen_row_length: "r < 25 \<Longrightarrow> length (screen s ! r) = 80"
  by (simp add: screen_def)

lemma screen_eqI:
  assumes "length rows = 25" and "\<And>r. r < 25 \<Longrightarrow> length (rows ! r) = 80"
    and "\<And>r c. r < 25 \<Longrightarrow> c < 80 \<Longrightarrow> vga_buffer s (r * 80 + c) = rows ! r ! c"
  shows "screen s = rows"
proof (rule nth_equalityI)
  show "length (screen s) = length rows" using assms(1) by simp
  fix r
  assume "r < length (screen s)"
  then have r: "r < 25" by simp
  show "screen s ! r = rows ! r"
    by (rule nth_equalityI) (use r assms in \<open>simp_all add: screen_row_length screen_nth\<close>)
qed

lemma screen_put:
  assumes "r < 25" "c < 80"
  shows "screen (put_cell (r * 80 + c) v s) = (screen s)[r := (screen s ! r)[c := v]]"
  by (rule screen_eqI)
    (use assms in \<open>simp_all add: nth_list_update screen_row_length screen_nth cell_index\<close>)

lemma shift_loop:
  "for_upto n (\<lambda>i s. put_cell i (vga_buffer s (i + 80)) s) s =
     s\<lparr>vga_buffer := \<lambda>j. if j < n then vga_buffer s (j + 80) else vga_buffer s j\<rparr>"
proof (induction n)
  case (Suc n)
  then show ?case by (simp add: put_cell_def) (rule vga_eqI, simp add: less_Suc_eq)
qed simp

lemma blank_loop:
  "for_upto n (\<lambda>i s. put_cell (k + i) (cell (color s) v) s) s =
     s\<lparr>vga_buffer := \<lambda>j. if k \<le> j \<and> j < k + n then cell (color s) v else vga_buffer s j\<rparr>"
proof (induction n)
  case 0
  have same: "(\<lambda>j. if k \<le> j \<and> j < k + 0 then cell (color s) v else vga_buffer s j) = vga_buffer s"
    by (rule ext) auto
  show ?case unfolding same by simp
next
  case (Suc n)
  then show ?case by (simp add: put_cell_def) (rule vga_eqI, auto)
qed

lemma scroll_up_eq:
  "scroll_up s = s\<lparr>vga_buffer := \<lambda>j. if 1920 \<le> j \<and> j < 2000 then cell (color s) 32
     else if j < 1920 then vga_buffer s (j + 80) else vga_buffer s j, cursor_y := 24\<rparr>"
  by (simp add: scroll_up_def Let_def shift_loop blank_loop cong: if_cong)

lemma screen_scroll_up: "screen (scroll_up s) = tl (screen s) @ [replicate 80 (cell (color s) 32)]"
  by (rule screen_eqI)
    (auto simp: scroll_up_eq nth_append nth_tl screen_row_length screen_nth ac_simps less_Suc_eq)

lemma abs_write:
  assumes "on_screen s"
  shows "abs_term (put_cell (at (cursor_x s) (cursor_y s)) (cell (color s) c) s) = term_write c (abs_term s)"
  using assms
  by (simp add: abs_term_def term_write_def at_def on_screen_def screen_put word_less_nat_alt)

lemma abs_update_hw [simp]: "abs_term (cursor_update_hw s) = abs_term s"
  by (simp add: abs_term_def screen_def)

text \<open>The tail of \<open>cursor_putchar\<close>, shared by its branches.\<close>

definition settle :: "cursor_state \<Rightarrow> cursor_state" where
  "settle s = (let s = (if cursor_x s \<ge> 80 then s\<lparr>cursor_x := 0, cursor_y := cursor_y s + 1\<rparr> else s)
     in if cursor_y s \<ge> 25 then scroll_up s else s)"

lemma settle_refines:
  assumes "cursor_x s \<le> 80" "cursor_y s \<le> 25" "cursor_x s < 80 \<or> cursor_y s < 25"
  shows "abs_term (settle s) = term_settle (abs_term s) \<and> on_screen (settle s) \<and> same_beyond s (settle s)"
proof -
  have y: "unat (cursor_y s + 1) = Suc (unat (cursor_y s))" using assms(2)
    by (intro unat_u8_Suc [of _ 255]) (simp add: word_le_nat_alt word_less_nat_alt)
  have scr: "screen (s\<lparr>cursor_x := a, cursor_y := b\<rparr>) = screen s" for a b by (simp add: screen_def)
  show ?thesis using assms y
    by (auto simp: settle_def term_settle_def abs_term_def on_screen_def same_beyond_def Let_def
        screen_scroll_up scr scroll_up_eq [THEN arg_cong [where f = cursor_x]]
        scroll_up_eq [THEN arg_cong [where f = cursor_y]] scroll_up_eq [THEN arg_cong [where f = color]]
        scroll_up_eq [THEN arg_cong [where f = vga_buffer]] word_le_nat_alt word_less_nat_alt)
qed

lemma tab_stop:
  assumes "x < 80"
  shows "unat ((x + 8) AND NOT 7 :: u8) = (unat x div 8 + 1) * 8"
proof -
  have all: "list_all (\<lambda>i. unat ((of_nat i + 8) AND NOT 7 :: u8) = (i div 8 + 1) * 8) [0..<80]"
    by code_simp
  have "unat x < 80" using assms by (simp add: word_less_nat_alt)
  with all have "unat ((of_nat (unat x) + 8) AND NOT 7 :: u8) = (unat x div 8 + 1) * 8"
    unfolding list_all_iff by (metis atLeastLessThan_iff atLeast_upt le0 lessThan_iff)
  then show ?thesis by simp
qed

definition putchar_move :: "u8 \<Rightarrow> cursor_state \<Rightarrow> cursor_state" where
  "putchar_move c s =
     (if c = 10 then s\<lparr>cursor_x := 0, cursor_y := cursor_y s + 1\<rparr>
      else if c = 13 then s\<lparr>cursor_x := 0\<rparr>
      else if c = 8 then
        (if cursor_x s > 0
         then let s = s\<lparr>cursor_x := cursor_x s - 1\<rparr>
              in put_cell (at (cursor_x s) (cursor_y s)) (cell (color s) 32) s
         else s)
      else if c = 9 then s\<lparr>cursor_x := (cursor_x s + 8) AND NOT 7\<rparr>
      else (put_cell (at (cursor_x s) (cursor_y s)) (cell (color s) c) s)\<lparr>cursor_x := cursor_x s + 1\<rparr>)"

lemma putchar_settles: "cursor_putchar c s = cursor_update_hw (settle (putchar_move c s))"
  by (simp only: cursor_putchar_def settle_def putchar_move_def Let_def)

lemma abs_set_x: "abs_term (s\<lparr>cursor_x := x\<rparr>) = (abs_term s)\<lparr>t_col := unat x\<rparr>"
  by (simp add: abs_term_def screen_def)

lemma abs_set_xy: "abs_term (s\<lparr>cursor_x := x, cursor_y := y\<rparr>) = (abs_term s)\<lparr>t_col := unat x, t_row := unat y\<rparr>"
  by (simp add: abs_term_def screen_def)

lemma at_lt_2000: "on_screen s \<Longrightarrow> at (cursor_x s) (cursor_y s) < 2000"
  by (auto simp: on_screen_def at_def word_less_nat_alt)

lemma putchar_move_bounds:
  fixes c s
  assumes "on_screen s"
  defines "s' \<equiv> putchar_move c s"
  shows "cursor_x s' \<le> 80 \<and> cursor_y s' \<le> 25 \<and> (cursor_x s' < 80 \<or> cursor_y s' < 25) \<and> same_beyond s s'"
proof -
  from assms(1) have x: "unat (cursor_x s) < 80" and y: "unat (cursor_y s) < 25"
    by (simp_all add: on_screen_def word_less_nat_alt)
  have nx: "unat (cursor_x s + 1) = Suc (unat (cursor_x s))"
    using x by (intro unat_u8_Suc [of _ 255]) (simp add: word_less_nat_alt)
  have ny: "unat (cursor_y s + 1) = Suc (unat (cursor_y s))"
    using y by (intro unat_u8_Suc [of _ 255]) (simp add: word_less_nat_alt)
  have px: "unat (cursor_x s - 1) = unat (cursor_x s) - 1" if "cursor_x s > 0"
    using that by (simp add: word_less_nat_alt unat_sub_if')
  have tab: "unat ((cursor_x s + 8) AND NOT 7) = (unat (cursor_x s) div 8 + 1) * 8"
    using assms(1) by (intro tab_stop) (simp add: on_screen_def)
  have tb: "(unat (cursor_x s) div 8 + 1) * 8 \<le> 80"
    using x less_mult_imp_div_less [of "unat (cursor_x s)" 10 8] by simp
  show ?thesis using x y nx ny px tab tb at_lt_2000 [OF assms(1)]
    unfolding s'_def putchar_move_def
    by (auto simp: same_beyond_def Let_def at_def word_le_nat_alt word_less_nat_alt)
qed

lemma putchar_move_refines:
  assumes "on_screen s"
  shows "abs_term (putchar_move c s) = term_move c (abs_term s)"
proof -
  from assms have x: "cursor_x s < 80" and y: "cursor_y s < 25" by (simp_all add: on_screen_def)
  have nx: "unat (cursor_x s + 1) = Suc (unat (cursor_x s))"
    using x by (intro unat_u8_Suc [of _ 255]) (simp add: word_less_nat_alt)
  have ny: "unat (cursor_y s + 1) = Suc (unat (cursor_y s))"
    using y by (intro unat_u8_Suc [of _ 255]) (simp add: word_less_nat_alt)
  have bsp: "abs_term (put_cell (at (cursor_x s - 1) (cursor_y s)) (cell (color s) 32) (s\<lparr>cursor_x := cursor_x s - 1\<rparr>)) =
      term_write 32 ((abs_term s)\<lparr>t_col := t_col (abs_term s) - 1\<rparr>)" if "cursor_x s > 0"
  proof -
    have px: "unat (cursor_x s - 1) = unat (cursor_x s) - 1"
      using that by (simp add: word_less_nat_alt unat_sub_if')
    have "on_screen (s\<lparr>cursor_x := cursor_x s - 1\<rparr>)" using x y px by (simp add: on_screen_def word_less_nat_alt)
    from abs_write [OF this, of 32] px show ?thesis by (simp add: abs_set_x) (simp add: abs_term_def)
  qed
  show ?thesis using nx ny bsp tab_stop [OF x] abs_write [OF assms, of c]
    by (auto simp: putchar_move_def term_move_def abs_set_x abs_set_xy Let_def word_less_nat_alt)
      (auto simp: abs_term_def)
qed

lemma putchar_refines:
  assumes "on_screen s"
  shows "abs_term (cursor_putchar c s) = term_putchar c (abs_term s) \<and> on_screen (cursor_putchar c s) \<and>
    same_beyond s (cursor_putchar c s)"
proof -
  have b: "cursor_x (putchar_move c s) \<le> 80" "cursor_y (putchar_move c s) \<le> 25"
    "cursor_x (putchar_move c s) < 80 \<or> cursor_y (putchar_move c s) < 25" "same_beyond s (putchar_move c s)"
    using putchar_move_bounds [OF assms, of c] by blast+
  from settle_refines [OF b(1-3)] b(4) show ?thesis
    by (simp add: putchar_settles term_putchar_def putchar_move_refines [OF assms] on_screen_def same_beyond_def)
qed

lemma same_beyond_refl [simp]: "same_beyond s s"
  by (simp add: same_beyond_def)

lemma same_beyond_trans: "same_beyond s t \<Longrightarrow> same_beyond t u \<Longrightarrow> same_beyond s u"
  by (simp add: same_beyond_def)

lemma print_refines:
  "on_screen s \<Longrightarrow> abs_term (cursor_print str s) = fold term_putchar (takeWhile (\<lambda>c. c \<noteq> 0) str) (abs_term s) \<and>
     on_screen (cursor_print str s) \<and> same_beyond s (cursor_print str s)"
proof (induction str arbitrary: s)
  case (Cons c str)
  note r = putchar_refines [OF Cons.prems, of c]
  with Cons.IH [of "cursor_putchar c s"] show ?case
    by (auto intro: same_beyond_trans Cons.prems)
qed simp

subsection \<open>Lines\<close>

text \<open>Loops that only write cells keep the cursor and the colour.\<close>

definition same_regs :: "cursor_state \<Rightarrow> cursor_state \<Rightarrow> bool" where
  "same_regs s t = (cursor_x t = cursor_x s \<and> cursor_y t = cursor_y s \<and> color t = color s)"

lemma same_regs_put [simp]: "same_regs s (put_cell i v s)"
  by (simp add: same_regs_def)

lemma same_regs_fold: "(\<And>k t. same_regs t (f k t)) \<Longrightarrow> same_regs s (fold f ks s)"
  by (induction ks arbitrary: s) (auto simp: same_regs_def)

lemma same_regs_loops [simp]:
  "(\<And>i t. same_regs t (body i t)) \<Longrightarrow> same_regs s (u8_lt_loop i hi body s)"
  "(\<And>i t. same_regs t (body i t)) \<Longrightarrow> same_regs s (u8_down_loop i hi body s)"
  by (simp_all add: u8_lt_loop_fold u8_down_loop_fold same_regs_fold)

lemma same_regs_trans: "same_regs s t \<Longrightarrow> same_regs t u \<Longrightarrow> same_regs s u"
  by (simp add: same_regs_def)

lemma same_regs_hw [simp]: "same_regs s (cursor_update_hw t) = same_regs s t"
  by (simp add: same_regs_def)

lemma line_ops_regs: "same_regs s (cursor_insert_line s)" "same_regs s (cursor_delete_line s)"
  unfolding cursor_insert_line_def cursor_delete_line_def Let_def
  by (auto intro!: same_regs_trans [OF same_regs_loops(1) same_regs_loops(1)]
      same_regs_trans [OF same_regs_loops(2) same_regs_loops(1)])

lemma fold_put_cursor_row:
  "cursor_y s = y \<Longrightarrow> fold (\<lambda>k t. put_cell (at (of_nat k) (cursor_y t)) (g k t) t) ks s =
     fold (\<lambda>k t. put_cell (at (of_nat k) y) (g k t) t) ks s"
  by (induction ks arbitrary: s) auto

lemma clear_cursor_row: "u8_lt_loop 0 80 (\<lambda>x t. put_cell (at x (cursor_y t)) (cell (color t) 32) t) s =
    row_set (unat (cursor_y s)) (\<lambda>_. cell (color s) 32) s"
  using clear_row [of "cursor_y s" s] by (simp add: u8_lt_loop_fold fold_put_cursor_row)

lemma cursor_insert_line_vga:
  assumes "on_screen s"
  shows "vga_buffer (cursor_insert_line s) = (\<lambda>j. if j div 80 = unat (cursor_y s) then cell (color s) 32
     else if unat (cursor_y s) < j div 80 \<and> j div 80 \<le> 24 then vga_buffer s (j - 80) else vga_buffer s j)"
proof -
  let ?row = "\<lambda>y t. row_set y (\<lambda>x. vga_buffer t ((y - 1) * 80 + x)) t"
  let ?t = "fold ?row (rev [Suc (unat (cursor_y s))..<Suc 24]) s"
  have c: "unat (cursor_y s) \<le> 24" using assms by (simp add: on_screen_def word_less_nat_alt)
  have copy: "u8_lt_loop 0 80 (\<lambda>x t. put_cell (at x (of_nat y)) (vga_buffer t (at x (of_nat y - 1))) t) t = ?row y t"
    if "0 < y" "y \<le> 24" for y t
  proof -
    have y: "unat (of_nat y :: u8) = y" using that by (simp add: unat_u8_of_nat)
    then have "unat (of_nat y - 1 :: u8) = y - 1" using that by (simp add: unat_sub_if')
    with copy_row [of "of_nat y - 1" "of_nat y" t] y that show ?thesis by simp
  qed
  have "u8_down_loop 24 (cursor_y s) (\<lambda>y t. u8_lt_loop 0 80
      (\<lambda>x t. put_cell (at x y) (vga_buffer t (at x (y - 1))) t) t) s = ?t"
    unfolding u8_down_loop_fold by (rule fold_cong) (use copy in auto)
  moreover have "cursor_y (fold ?row ys u) = cursor_y u \<and> color (fold ?row ys u) = color u" for ys u
    by (induction ys arbitrary: u) auto
  ultimately show ?thesis
    using shift_down [OF c, of s] by (simp add: cursor_insert_line_def Let_def clear_cursor_row cong: if_cong)
qed

lemma cursor_delete_line_vga:
  assumes "on_screen s"
  shows "vga_buffer (cursor_delete_line s) = (\<lambda>j. if j div 80 = 24 then cell (color s) 32
     else if unat (cursor_y s) \<le> j div 80 \<and> j div 80 < 24 then vga_buffer s (j + 80) else vga_buffer s j)"
proof -
  let ?row = "\<lambda>y t. row_set y (\<lambda>x. vga_buffer t ((y + 1) * 80 + x)) t"
  have c: "unat (cursor_y s) \<le> 24" using assms by (simp add: on_screen_def word_less_nat_alt)
  have copy: "u8_lt_loop 0 80 (\<lambda>x t. put_cell (at x (of_nat y)) (vga_buffer t (at x (of_nat y + 1))) t) t = ?row y t"
    if "y < 24" for y t
  proof -
    have y: "unat (of_nat y :: u8) = y" using that by (simp add: unat_u8_of_nat)
    then have "unat (of_nat y + 1 :: u8) = y + 1" using that by (simp add: unat_word_ariths)
    with copy_row [of "of_nat y + 1" "of_nat y" t] y that show ?thesis by simp
  qed
  have loop: "u8_lt_loop (cursor_y s) 24 (\<lambda>y t. u8_lt_loop 0 80
      (\<lambda>x t. put_cell (at x y) (vga_buffer t (at x (y + 1))) t) t) s = fold ?row [unat (cursor_y s)..<24] s"
    unfolding u8_lt_loop_fold [of "cursor_y s"] by (rule fold_cong) (use copy in auto)
  have "color (fold ?row ys u) = color u" for ys u
    by (induction ys arbitrary: u) auto
  with loop shift_up [OF c, of s] show ?thesis
    by (simp add: cursor_delete_line_def Let_def clear_row cong: if_cong)
qed

text \<open>Inserting a line and deleting it again restores every row but the last, which is lost.\<close>

lemma insert_delete_line:
  assumes "on_screen s"
  shows "vga_buffer (cursor_delete_line (cursor_insert_line s)) =
    (\<lambda>j. if j div 80 = 24 then cell (color s) 32 else vga_buffer s j)"
proof -
  let ?s = "cursor_insert_line s"
  have regs: "cursor_x ?s = cursor_x s" "cursor_y ?s = cursor_y s" "color ?s = color s"
    using line_ops_regs(1) [of s] by (simp_all add: same_regs_def)
  with assms have "on_screen ?s" by (simp add: on_screen_def)
  moreover have "unat (cursor_y s) < 25" using assms by (simp add: on_screen_def word_less_nat_alt)
  ultimately show ?thesis
    by (auto simp: cursor_delete_line_vga cursor_insert_line_vga [OF assms] regs fun_eq_iff)
qed

subsection \<open>Regions and single characters\<close>

lemma fold_blank_cells:
  "fold (\<lambda>k t. put_cell (g k) (cell (color t) v) t) ks s =
     s\<lparr>vga_buffer := \<lambda>j. if j \<in> g ` set ks then cell (color s) v else vga_buffer s j\<rparr>"
proof (induction ks arbitrary: s)
  case (Cons k ks)
  show ?case unfolding fold_simps Cons by (simp add: put_cell_def) (rule vga_eqI, auto)
qed simp

definition fill_row :: "u8 \<Rightarrow> u8 \<Rightarrow> u8 \<Rightarrow> cursor_state \<Rightarrow> cursor_state" where
  "fill_row x1 x2 y s = s\<lparr>vga_buffer := \<lambda>j.
     if \<exists>x\<in>{unat x1..unat x2}. j = unat y * 80 + x then cell (color s) 32 else vga_buffer s j\<rparr>"

lemma fill_row_loop:
  assumes "x2 < 255"
  shows "u8_le_loop x1 x2 (\<lambda>x s. Some (put_cell (at x y) (cell (color s) 32) s)) s = Some (fill_row x1 x2 y s)"
proof -
  have "u8_le_loop x1 x2 (\<lambda>x s. Some (put_cell (at x y) (cell (color s) 32) s)) s =
      Some (fold (\<lambda>k t. put_cell (at (of_nat k) y) (cell (color t) 32) t) [unat x1..<Suc (unat x2)] s)"
    by (rule u8_le_loop_fold) (use assms in simp_all)
  also have "fold (\<lambda>k t. put_cell (at (of_nat k) y) (cell (color t) 32) t) [unat x1..<Suc (unat x2)] s =
      fold (\<lambda>k t. put_cell (unat y * 80 + k) (cell (color t) 32) t) [unat x1..<Suc (unat x2)] s"
    using unat_u8_lt [of x2] by (intro fold_cong) (auto simp: at_def unat_u8_of_nat)
  also have "\<dots> = fill_row x1 x2 y s"
    by (simp only: fold_blank_cells fill_row_def image_iff set_upt atLeastLessThanSuc_atLeastAtMost)
  finally show ?thesis .
qed

lemma fill_rows:
  "(\<And>y. y \<in> set ys \<Longrightarrow> y < 256) \<Longrightarrow>
   fold (\<lambda>k. fill_row x1 x2 (of_nat k)) ys s = s\<lparr>vga_buffer := \<lambda>j.
     if \<exists>y\<in>set ys. \<exists>x\<in>{unat x1..unat x2}. j = y * 80 + x then cell (color s) 32 else vga_buffer s j\<rparr>"
proof (induction ys arbitrary: s)
  case (Cons y ys)
  let ?t = "fill_row x1 x2 (of_nat y) s"
  have y: "unat (of_nat y :: u8) = y" using Cons.prems by (simp add: unat_u8_of_nat)
  have t: "color ?t = color s" "vga_buffer ?t = (\<lambda>j. if \<exists>x\<in>{unat x1..unat x2}. j = y * 80 + x
      then cell (color s) 32 else vga_buffer s j)" "?t\<lparr>vga_buffer := f\<rparr> = s\<lparr>vga_buffer := f\<rparr>" for f
    unfolding fill_row_def y by simp_all
  have "fold (\<lambda>k. fill_row x1 x2 (of_nat k)) (y # ys) s = ?t\<lparr>vga_buffer := \<lambda>j.
      if \<exists>y\<in>set ys. \<exists>x\<in>{unat x1..unat x2}. j = y * 80 + x then cell (color ?t) 32 else vga_buffer ?t j\<rparr>"
    unfolding fold_simps by (rule Cons.IH) (use Cons.prems in simp)
  also have "\<dots> = s\<lparr>vga_buffer := \<lambda>j. if \<exists>y\<in>set (y # ys). \<exists>x\<in>{unat x1..unat x2}. j = y * 80 + x
      then cell (color s) 32 else vga_buffer s j\<rparr>"
    unfolding t by (rule vga_eqI) auto
  finally show ?case .
qed simp

lemma fill_region_eq:
  assumes "x2 < 255" "y2 < 255"
  shows "cursor_fill_region x1 y1 x2 y2 fg bg s = Some (cursor_update_hw (s\<lparr>vga_buffer := \<lambda>j.
     if \<exists>y\<in>{unat y1..unat y2}. \<exists>x\<in>{unat x1..unat x2}. j = y * 80 + x
     then cell (color (cursor_set_color fg bg s)) 32 else vga_buffer s j\<rparr>))"
proof -
  have "u8_le_loop y1 y2 (\<lambda>y s. u8_le_loop x1 x2 (\<lambda>x s. Some (put_cell (at x y) (cell (color s) 32) s)) s)
      (cursor_set_color fg bg s) = Some (fold (\<lambda>k. fill_row x1 x2 (of_nat k)) [unat y1..<Suc (unat y2)] (cursor_set_color fg bg s))"
    by (rule u8_le_loop_fold) (simp_all add: assms fill_row_loop)
  moreover have "fold (\<lambda>k. fill_row x1 x2 (of_nat k)) [unat y1..<Suc (unat y2)] (cursor_set_color fg bg s) =
      (cursor_set_color fg bg s)\<lparr>vga_buffer := \<lambda>j. if \<exists>y\<in>{unat y1..unat y2}. \<exists>x\<in>{unat x1..unat x2}. j = y * 80 + x
         then cell (color (cursor_set_color fg bg s)) 32 else vga_buffer (cursor_set_color fg bg s) j\<rparr>"
    by (subst fill_rows) (use unat_u8_lt [of y2] in \<open>auto simp only: set_upt atLeastLessThanSuc_atLeastAtMost atLeastAtMost_iff\<close>)
  ultimately show ?thesis
    by (simp add: cursor_fill_region_def Let_def cursor_set_color_def del: upt_Suc cong: if_cong)
qed

lemma fill_region_never_ends:
  assumes "y2 = 255 \<or> x2 = 255 \<and> y1 \<le> y2"
  shows "cursor_fill_region x1 y1 x2 y2 fg bg s = None"
proof (cases "y2 = 255")
  case True
  then show ?thesis by (simp add: cursor_fill_region_def Let_def u8_le_loop_255)
next
  case False
  with assms have "x2 = 255" "y1 \<le> y2" by auto
  then show ?thesis
    by (simp add: cursor_fill_region_def Let_def u8_le_loop.simps [of y1] u8_le_loop_255)
qed

lemma low_bits: "w AND 15 = take_bit 4 w" "w AND 255 = take_bit 8 w" for w :: "'a::len word"
  by (simp_all add: take_bit_eq_mask mask_eq_exp_minus_1)

lemma reverse_cell_bit:
  "bit (vga_buffer (cursor_reverse_video x y s) (at x y)) n =
     (if n < 8 then bit (vga_buffer s (at x y)) n
      else if n < 12 then bit (vga_buffer s (at x y)) (n + 4)
      else n < 16 \<and> bit (vga_buffer s (at x y)) (n - 4))"
  unfolding cursor_reverse_video_def Let_def low_bits
  by (auto simp: bit_simps not_less ac_simps dest: bit_imp_le_length)

lemma reverse_video_twice:
  "vga_buffer (cursor_reverse_video x y (cursor_reverse_video x y s)) = vga_buffer s"
proof (rule ext)
  fix j
  show "vga_buffer (cursor_reverse_video x y (cursor_reverse_video x y s)) j = vga_buffer s j"
  proof (cases "j = at x y")
    case True
    show ?thesis unfolding True
      by (rule bit_word_eqI) (auto simp: reverse_cell_bit)
  next
    case False
    then show ?thesis by (simp add: cursor_reverse_video_def Let_def)
  qed
qed

subsection \<open>Sequences of console calls\<close>

datatype console_op = OpInit | OpShape u8 u8 | OpSetPos u8 u8 | OpMove u8 u8 | OpHide | OpShow
  | OpColor u8 u8 | OpClear | OpPutchar u8 | OpPrint "u8 list" | OpPrintColored "u8 list" u8 u8
  | OpBlink u8 | OpInsertLine | OpDeleteLine | OpDeleteChar

fun console_step :: "console_op \<Rightarrow> cursor_state \<Rightarrow> cursor_state" where
  "console_step OpInit s = cursor_init s"
| "console_step (OpShape a b) s = cursor_set_shape a b s"
| "console_step (OpSetPos x y) s = cursor_set_pos x y s"
| "console_step (OpMove dx dy) s = cursor_move dx dy s"
| "console_step OpHide s = cursor_hide s"
| "console_step OpShow s = cursor_show s"
| "console_step (OpColor fg bg) s = cursor_set_color fg bg s"
| "console_step OpClear s = cursor_clear_screen s"
| "console_step (OpPutchar c) s = cursor_putchar c s"
| "console_step (OpPrint str) s = cursor_print str s"
| "console_step (OpPrintColored str fg bg) s = cursor_print_colored str fg bg s"
| "console_step (OpBlink v) s = cursor_blink v s"
| "console_step OpInsertLine s = cursor_insert_line s"
| "console_step OpDeleteLine s = cursor_delete_line s"
| "console_step OpDeleteChar s = cursor_delete_char s"

definition confined :: "cursor_state \<Rightarrow> cursor_state \<Rightarrow> bool" where
  "confined s t = (on_screen t \<and> same_beyond s t)"

lemma confined_same_cells:
  "vga_buffer t = vga_buffer s \<Longrightarrow> on_screen t \<Longrightarrow> confined s t"
  by (simp add: confined_def same_beyond_def)

lemma clamped:
  assumes "0 \<le> m" "m < n" "n \<le> 256"
  shows "uint (word_of_int (if (if v < 0 then 0 else v) \<ge> n then m else if v < 0 then 0 else v) :: u8) < n"
    (is "uint (word_of_int ?c :: u8) < n")
proof -
  have "0 \<le> ?c" "?c < n" using assms by auto
  then have "?c mod 256 < n" using zmod_le_nonneg_dividend [of ?c 256] by linarith
  then show ?thesis by (simp only: uint_word_of_int) simp
qed

lemma confined_move: "confined s (cursor_move dx dy s)"
proof -
  have sel: "cursor_x (s\<lparr>cursor_x := a, cursor_y := b\<rparr>) = a" "cursor_y (s\<lparr>cursor_x := a, cursor_y := b\<rparr>) = b" for a b
    by simp_all
  have "uint (cursor_x (cursor_move dx dy s)) < 80" "uint (cursor_y (cursor_move dx dy s)) < 25"
    unfolding cursor_move_def Let_def update_hw_simps sel by (rule clamped; simp)+
  then show ?thesis
    by (auto intro!: confined_same_cells simp: on_screen_def word_less_def) (simp add: cursor_move_def Let_def)
qed

lemma confined_lines:
  assumes "on_screen s"
  shows "confined s (cursor_insert_line s)" "confined s (cursor_delete_line s)"
proof -
  have row: "2000 \<le> j \<Longrightarrow> 25 \<le> j div 80" for j :: nat using div_le_mono [of 2000 j 80] by simp
  have y: "unat (cursor_y s) < 25" using assms by (simp add: on_screen_def word_less_nat_alt)
  show "confined s (cursor_insert_line s)" "confined s (cursor_delete_line s)"
    using line_ops_regs [of s] assms y row
    by (fastforce simp: confined_def same_beyond_def on_screen_def same_regs_def cursor_insert_line_vga cursor_delete_line_vga)+
qed

lemma fold_cells_below:
  assumes "\<And>k t. k \<in> set ks \<Longrightarrow> cursor_y t = cursor_y s \<Longrightarrow> g k t < 2000"
  shows "same_beyond s (fold (\<lambda>k t. put_cell (g k t) (v k t) t) ks s)"
  using assms
proof (induction ks arbitrary: s)
  case (Cons k ks)
  have "same_beyond s (put_cell (g k s) (v k s) s)" using Cons.prems [of k s] by (simp add: same_beyond_def)
  with Cons.IH [of "put_cell (g k s) (v k s) s"] Cons.prems show ?case
    by (auto intro: same_beyond_trans)
qed simp

lemma confined_delete_char:
  assumes "on_screen s"
  shows "confined s (cursor_delete_char s)"
proof -
  let ?t = "u8_lt_loop (cursor_x s) 79
      (\<lambda>x s. put_cell (at x (cursor_y s)) (vga_buffer s (at (x + 1) (cursor_y s))) s) s"
  have y: "unat (cursor_y s) < 25" using assms by (simp add: on_screen_def word_less_nat_alt)
  have regs: "same_regs s ?t" by simp
  have "same_beyond s ?t" unfolding u8_lt_loop_fold
    by (rule fold_cells_below) (use y in \<open>auto simp: at_def unat_u8_of_nat\<close>)
  with regs y assms show ?thesis
    by (auto simp: cursor_delete_char_def Let_def confined_def on_screen_def same_beyond_def same_regs_def at_def)
qed

lemma confined_clear: "confined s (cursor_clear_screen s)"
  using blank_loop [of 2000 0 32 s]
  by (simp add: cursor_clear_screen_def Let_def confined_def on_screen_def same_beyond_def)

lemma confined_print_colored:
  assumes "on_screen s"
  shows "confined s (cursor_print_colored str fg bg s)"
proof -
  let ?s = "cursor_set_color fg bg s"
  have "on_screen ?s" "vga_buffer ?s = vga_buffer s" using assms by (simp_all add: cursor_set_color_def on_screen_def)
  with print_refines [of ?s str] show ?thesis
    by (simp add: cursor_print_colored_def Let_def confined_def on_screen_def same_beyond_def)
qed

lemma console_step_confined: "on_screen s \<Longrightarrow> confined s (console_step opn s)"
  by (cases opn)
    (use putchar_refines [of s] print_refines [of s] in
      \<open>auto simp: confined_move confined_lines confined_delete_char confined_clear confined_print_colored,
       auto simp: confined_def same_beyond_def on_screen_def cursor_init_def cursor_set_shape_def cursor_set_pos_def
         cursor_hide_def cursor_show_def cursor_set_color_def cursor_blink_def Let_def outb_def word_less_nat_alt
         word_le_nat_alt not_le\<close>)

subsection \<open>Properties\<close>

text \<open>
  C28: Printing a string from a cursor on the screen does to the frame buffer what the terminal does
  to its rows, character by character up to the terminating zero: line feeds, carriage returns,
  backspaces, tabs, wrapping at column 80 and scrolling at row 25.
\<close>

theorem console_refines_terminal:
  assumes "on_screen s"
  shows "abs_term (cursor_print str s) = fold term_putchar (takeWhile (\<lambda>c. c \<noteq> 0) str) (abs_term s)"
  using print_refines [OF assms] by blast

definition sample_console :: cursor_state where
  "sample_console = (cursor_boot (\<lambda>_. 0))\<lparr>cursor_x := 79, cursor_y := 24\<rparr>"

theorem console_refines_terminal_witness:
  "on_screen sample_console \<and> abs_term (cursor_print [65, 10, 66, 0, 67] sample_console) =
     fold term_putchar [65, 10, 66] (abs_term sample_console)"
proof -
  have ok: "on_screen sample_console" by (simp add: on_screen_def sample_console_def cursor_boot_def)
  show ?thesis using ok console_refines_terminal [OF ok, of "[65, 10, 66, 0, 67]"] by simp
qed

text \<open>
  \<open>cursor_insert_char\<close> does not wrap: from the last column of the last row the second
  inserted character is written to the cell after the screen, and the cursor ends in column 81.
\<close>

theorem insert_char_leaves_screen:
  assumes "cursor_x s = 79" "cursor_y s = 24"
  shows "vga_buffer (cursor_insert_char c (cursor_insert_char d s)) 2000 = cell (color s) c \<and>
    cursor_x (cursor_insert_char c (cursor_insert_char d s)) = 81"
  using assms by (simp add: cursor_insert_char_def Let_def u8_down_loop.simps at_def)

text \<open>
  C29: Every sequence of the console calls of \<open>console_op\<close>, from a cursor on the screen, ends with
  the cursor on the screen and has written no cell outside the 80 by 25 screen. Left out are the
  calls that address cells of the caller's choice, \<open>cursor_restore_state\<close>, and
  \<open>cursor_insert_char\<close>, which is the one call on the cursor's own cell that leaves the
  screen: wherever such a sequence ends in the last column of the last row, inserting two characters
  writes the second one to the cell after the screen and puts the cursor in column 81.
\<close>

theorem console_confined:
  assumes "on_screen s"
  shows "on_screen (fold console_step ops s) \<and> (\<forall>i. 2000 \<le> i \<longrightarrow> vga_buffer (fold console_step ops s) i = vga_buffer s i) \<and>
    (cursor_get_pos (fold console_step ops s) = (79, 24) \<longrightarrow>
      (let t = cursor_insert_char c (cursor_insert_char d (fold console_step ops s))
       in vga_buffer t 2000 = cell (color (fold console_step ops s)) c \<and> cursor_x t = 81))"
proof -
  have "on_screen (fold console_step ops s) \<and> same_beyond s (fold console_step ops s)"
    using assms
  proof (induction ops arbitrary: s)
    case (Cons opn ops)
    from console_step_confined [OF Cons.prems, of opn] Cons.IH [of "console_step opn s"] show ?case
      by (auto simp: confined_def intro: same_beyond_trans)
  qed simp
  then show ?thesis
    using insert_char_leaves_screen [of "fold console_step ops s" c d] by (simp add: same_beyond_def cursor_get_pos_def Let_def)
qed

theorem console_confined_witness:
  "on_screen sample_console \<and>
   on_screen (fold console_step [OpPutchar 10, OpInsertLine, OpMove 200 3, OpDeleteChar] sample_console) \<and>
   cursor_get_pos (fold console_step [OpBlink 1] sample_console) = (79, 24) \<and>
   cursor_x (cursor_insert_char 66 (cursor_insert_char 65 (fold console_step [OpBlink 1] sample_console))) = 81"
proof -
  have ok: "on_screen sample_console" by (simp add: on_screen_def sample_console_def cursor_boot_def)
  have pos: "cursor_get_pos (fold console_step [OpBlink 1] sample_console) = (79, 24)"
    by (simp add: cursor_get_pos_def cursor_blink_def sample_console_def cursor_boot_def outb_def Let_def)
  show ?thesis using ok pos console_confined [OF ok, of "[OpPutchar 10, OpInsertLine, OpMove 200 3, OpDeleteChar]"]
      console_confined [OF ok, of "[OpBlink 1]" 66 65] by (simp only: Let_def)
qed

theorem insert_char_leaves_screen_witness:
  "cursor_x sample_console = 79 \<and> cursor_y sample_console = 24 \<and>
   vga_buffer (cursor_insert_char 66 (cursor_insert_char 65 sample_console)) 2000 = cell 15 66"
proof -
  have at: "cursor_x sample_console = 79" "cursor_y sample_console = 24" "color sample_console = 15"
    by (simp_all add: sample_console_def cursor_boot_def)
  show ?thesis using at insert_char_leaves_screen [OF at(1,2), of 66 65] by simp
qed

text \<open>
  \<open>cursor_fill_region\<close> with corners on the screen returns, colours exactly the cells of
  the rectangle and keeps cursor and colour; with last row 255, or last column 255 and some row to
  fill, its 8-bit loop counter wraps and it never returns.
\<close>

theorem fill_region_exact_or_endless:
  assumes "x2 < 80" "y2 < 25" "r < 25" "k < 80"
  shows "(\<exists>t. cursor_fill_region x1 y1 x2 y2 fg bg s = Some t \<and> cursor_get_pos t = cursor_get_pos s \<and> color t = color s \<and>
      vga_buffer t (r * 80 + k) = (if unat y1 \<le> r \<and> r \<le> unat y2 \<and> unat x1 \<le> k \<and> k \<le> unat x2
        then cell (push_bit 4 bg OR (fg AND 15)) 32 else vga_buffer s (r * 80 + k))) \<and>
    cursor_fill_region x1 y1 x2 255 fg bg s = None \<and>
    (y1 \<le> y2 \<longrightarrow> cursor_fill_region x1 y1 255 y2 fg bg s = None)"
proof -
  have lt: "x2 < 255" "y2 < 255" using assms by (simp_all add: word_less_nat_alt)
  have x2: "unat x2 < 80" using assms(1) by (simp add: word_less_nat_alt)
  have inj: "(r * 80 + k = y * 80 + x) = (r = y \<and> k = x)" if "x \<in> {unat x1..unat x2}" for x y
    using that x2 assms(4) by (intro cell_index) auto
  have region: "(\<exists>y\<in>{unat y1..unat y2}. \<exists>x\<in>{unat x1..unat x2}. r * 80 + k = y * 80 + x) =
      (unat y1 \<le> r \<and> r \<le> unat y2 \<and> unat x1 \<le> k \<and> k \<le> unat x2)"
    using inj by auto
  show ?thesis
    using region by (auto simp: fill_region_eq [OF lt] fill_region_never_ends cursor_get_pos_def cursor_set_color_def)
qed

theorem fill_region_exact_or_endless_witness:
  "(3 :: u8) < 80 \<and> (4 :: u8) < 25 \<and> cursor_fill_region 1 2 255 4 15 0 sample_console = None \<and>
   (\<exists>t. cursor_fill_region 1 2 3 4 15 0 sample_console = Some t \<and> vga_buffer t (2 * 80 + 3) = cell 15 32)"
  using fill_region_exact_or_endless [of 3 4 2 3 1 2 15 0 sample_console] by auto

end
