(* ===== verification/Printk.thy ===== *)
theory Printk
  imports Prelude "HOL-Library.Monad_Syntax"
begin

text \<open>
  kernel/printk.c: the message formatter, the log buffer and the console hook. A C string is the list
  of its bytes; a zero in it, or its end, is the terminator, and reading past the terminator is
  undefined (\<open>None\<close>), as is a write past the 1024 bytes of \<open>buf\<close> and a \<open>va_arg\<close> of the wrong
  type. The registered console function is outside this file: its calls are recorded.
\<close>

datatype va = VaInt int | VaStr "u8 list" | VaUint u32 | VaPtr ptr

record printk_state =
  log_buf :: "nat \<Rightarrow> u8"
  log_start :: u32
  con_start :: u32
  log_end :: u32
  logged_chars :: u32
  console_loglevel :: int
  default_message_loglevel :: int
  console_write_fn :: bool
  console_out :: "u8 list list"

definition printk_boot :: printk_state where
  "printk_boot = \<lparr>log_buf = (\<lambda>_. 0), log_start = 0, con_start = 0, log_end = 0, logged_chars = 0,
     console_loglevel = 7, default_message_loglevel = 4, console_write_fn = False, console_out = []\<rparr>"

abbreviation LOG_BUF_SIZE :: nat where "LOG_BUF_SIZE \<equiv> 131072"

definition register_console :: "printk_state \<Rightarrow> printk_state" where
  "register_console s = s\<lparr>console_write_fn := True\<rparr>"

definition str_at :: "u8 list \<Rightarrow> nat \<Rightarrow> u8 defined" where
  "str_at str i = (if i < length str then Some (str ! i) else if i = length str then Some 0 else None)"

definition parse_loglevel :: "u8 list \<Rightarrow> int defined" where
  "parse_loglevel buf = do {
     a \<leftarrow> str_at buf 0;
     if a \<noteq> 60 then Some (- 1) else do {
       b \<leftarrow> str_at buf 2;
       if b \<noteq> 62 then Some (- 1) else do {
         l \<leftarrow> str_at buf 1;
         Some (if 48 \<le> l \<and> l \<le> 55 then uint l - 48 else - 1)
       }
     }
   }"

definition buf_put :: "u8 \<Rightarrow> u8 list \<Rightarrow> u8 list defined" where
  "buf_put c buf = (if length buf < 1024 then Some (buf @ [c]) else None)"

text \<open>\<open>val % 10\<close> of C, whose sign is that of \<open>val\<close>.\<close>

abbreviation rem10 :: "int \<Rightarrow> int" where
  "rem10 v \<equiv> (if v < 0 then - ((- v) mod 10) else v mod 10)"

fun put_string :: "u8 list \<Rightarrow> u8 list \<Rightarrow> u8 list defined" where
  "put_string [] buf = Some buf"
| "put_string (c # str) buf = (if c = 0 then Some buf else if length buf < 1023
     then buf_put c buf \<bind> put_string str else Some buf)"

definition put_0x0 :: "u8 list \<Rightarrow> u8 list defined" where
  "put_0x0 buf = buf_put 48 buf \<bind> buf_put 120 \<bind> buf_put 48"

text \<open>The loop over the format; the remaining string and the remaining arguments are its arguments.\<close>

fun format_loop :: "u8 list \<Rightarrow> va list \<Rightarrow> u8 list \<Rightarrow> u8 list defined" where
  "format_loop [] args buf = Some buf"
| "format_loop (c # p) args buf =
     (if c = 0 \<or> \<not> length buf < 1023 then Some buf
      else if c = 37 then
        (case p of
           [] \<Rightarrow> None
         | d # p \<Rightarrow>
             if d = 0 then None
             else if d = 100 then (case args of
                 VaInt v # args \<Rightarrow> buf_put (word_of_int (48 + rem10 v)) buf \<bind> format_loop p args
               | _ \<Rightarrow> None)
             else if d = 115 then (case args of
                 VaStr str # args \<Rightarrow> put_string str buf \<bind> format_loop p args
               | _ \<Rightarrow> None)
             else if d = 120 then (case args of
                 VaUint v # args \<Rightarrow> put_0x0 buf \<bind> format_loop p args
               | _ \<Rightarrow> None)
             else if d = 112 then (case args of
                 VaPtr v # args \<Rightarrow> put_0x0 buf \<bind> format_loop p args
               | _ \<Rightarrow> None)
             else buf_put d buf \<bind> format_loop p args)
      else buf_put c buf \<bind> format_loop p args)"

text \<open>The copy into the log, which stops for good once the log is full.\<close>

fun log_loop :: "u8 list \<Rightarrow> printk_state \<Rightarrow> printk_state" where
  "log_loop [] s = s"
| "log_loop (c # cs) s = (if unat (log_end s) < LOG_BUF_SIZE
     then log_loop cs (s\<lparr>log_buf := (log_buf s)(unat (log_end s) := c), log_end := log_end s + 1,
            logged_chars := logged_chars s + 1\<rparr>)
     else s)"

definition console_call :: "u8 list \<Rightarrow> printk_state \<Rightarrow> printk_state" where
  "console_call str s = s\<lparr>console_out := console_out s @ [str]\<rparr>"

definition printk :: "u8 list \<Rightarrow> va list \<Rightarrow> printk_state \<Rightarrow> (int \<times> printk_state) defined" where
  "printk fmt args s = do {
     a \<leftarrow> str_at fmt 0;
     prefixed \<leftarrow> (if a = 60 then do { b \<leftarrow> str_at fmt 2; Some (b = 62) } else Some False);
     parsed \<leftarrow> (if prefixed then parse_loglevel fmt else Some (- 1));
     let (level, fmt) = (if parsed \<ge> 0 then (parsed, drop 3 fmt) else (default_message_loglevel s, fmt));
     buf \<leftarrow> format_loop fmt args [];
     _ \<leftarrow> buf_put 0 buf;
     let s = log_loop buf s;
     let s = (if level \<le> console_loglevel s \<and> console_write_fn s then console_call buf s else s);
     Some (int (length buf), s)
   }"

definition console_print :: "u8 list \<Rightarrow> printk_state \<Rightarrow> printk_state" where
  "console_print str s = (if console_write_fn s then console_call (takeWhile (\<lambda>c. c \<noteq> 0) str) s else s)"

text \<open>\<open>vprintk\<close> passes only the format on: its argument list is dropped.\<close>

definition vprintk :: "u8 list \<Rightarrow> va list \<Rightarrow> printk_state \<Rightarrow> (int \<times> printk_state) defined" where
  "vprintk fmt args s = printk fmt [] s"

definition vprintk_emit :: "u8 list \<Rightarrow> va list \<Rightarrow> printk_state \<Rightarrow> (int \<times> printk_state) defined" where
  "vprintk_emit fmt args s = vprintk fmt args s"

definition vprintk_default :: "u8 list \<Rightarrow> va list \<Rightarrow> printk_state \<Rightarrow> (int \<times> printk_state) defined" where
  "vprintk_default fmt args s = vprintk_emit fmt args s"

definition vprintk_continue :: "u8 list \<Rightarrow> va list \<Rightarrow> printk_state \<Rightarrow> (int \<times> printk_state) defined" where
  "vprintk_continue fmt args s = vprintk_emit fmt args s"

definition printk_deferred :: "u8 list \<Rightarrow> va list \<Rightarrow> printk_state \<Rightarrow> (int \<times> printk_state) defined" where
  "printk_deferred fmt args s = vprintk fmt args s"

definition printk_init :: "printk_state \<Rightarrow> printk_state" where
  "printk_init s = s\<lparr>log_start := 0, con_start := 0, log_end := 0, logged_chars := 0\<rparr>"

subsection \<open>The log\<close>

definition log_text :: "printk_state \<Rightarrow> u8 list" where
  "log_text s = map (log_buf s) [0..<unat (log_end s)]"

lemma log_loop_text:
  "unat (log_end s) \<le> LOG_BUF_SIZE \<Longrightarrow> log_text (log_loop cs s) = take LOG_BUF_SIZE (log_text s @ cs) \<and>
     unat (log_end (log_loop cs s)) \<le> LOG_BUF_SIZE"
proof (induction cs arbitrary: s)
  case Nil
  then show ?case by (simp add: log_text_def)
next
  case (Cons c cs)
  show ?case
  proof (cases "unat (log_end s) < LOG_BUF_SIZE")
    case True
    let ?s = "s\<lparr>log_buf := (log_buf s)(unat (log_end s) := c), log_end := log_end s + 1, logged_chars := logged_chars s + 1\<rparr>"
    have n: "unat (log_end s + 1) = Suc (unat (log_end s))"
      using True by (simp add: unat_word_ariths)
    then have "log_text ?s = log_text s @ [c]" by (simp add: log_text_def)
    with Cons.IH [of ?s] True n show ?thesis by simp
  next
    case False
    with Cons.prems have "unat (log_end s) = LOG_BUF_SIZE" by simp
    then show ?thesis by (simp add: log_text_def)
  qed
qed

lemma log_loop_frame [simp]:
  "console_loglevel (log_loop cs s) = console_loglevel s"
  "console_write_fn (log_loop cs s) = console_write_fn s"
  "console_out (log_loop cs s) = console_out s"
  by (induction cs arbitrary: s) auto

subsection \<open>Formats as sequences of directives\<close>

text \<open>
  The directives whose expansion the loop guards byte by byte: a plain byte, \<open>%d\<close>, \<open>%s\<close> and
  \<open>%\<close> before a byte that is no directive letter. \<open>fmt_of\<close> and \<open>args_of\<close> build the format and
  the matching arguments, \<open>render\<close> the text they stand for.
\<close>

datatype directive = Lit u8 | DecD int | StrS "u8 list" | Esc u8

fun directive_ok :: "directive \<Rightarrow> bool" where
  "directive_ok (Lit c) = (c \<noteq> 0 \<and> c \<noteq> 37)"
| "directive_ok (Esc c) = (c \<notin> {0, 100, 115, 120, 112})"
| "directive_ok _ = True"

fun fmt_of :: "directive list \<Rightarrow> u8 list" where
  "fmt_of [] = []"
| "fmt_of (Lit c # ds) = c # fmt_of ds"
| "fmt_of (DecD v # ds) = 37 # 100 # fmt_of ds"
| "fmt_of (StrS str # ds) = 37 # 115 # fmt_of ds"
| "fmt_of (Esc c # ds) = 37 # c # fmt_of ds"

fun args_of :: "directive list \<Rightarrow> va list" where
  "args_of [] = []"
| "args_of (DecD v # ds) = VaInt v # args_of ds"
| "args_of (StrS str # ds) = VaStr str # args_of ds"
| "args_of (_ # ds) = args_of ds"

fun render :: "directive \<Rightarrow> u8 list" where
  "render (Lit c) = [c]"
| "render (DecD v) = [word_of_int (48 + rem10 v)]"
| "render (StrS str) = takeWhile (\<lambda>c. c \<noteq> 0) str"
| "render (Esc c) = [c]"

lemma take_room: "n < 1023 \<Longrightarrow> take (1023 - n) (x # xs) = x # take (1022 - n) xs"
  by (simp add: take_Cons')

lemma put_string_eq:
  "length buf \<le> 1023 \<Longrightarrow> put_string str buf = Some (take 1023 (buf @ takeWhile (\<lambda>c. c \<noteq> 0) str))"
  by (induction str arbitrary: buf) (auto simp: buf_put_def take_room)

lemma format_loop_eq:
  "list_all directive_ok ds \<Longrightarrow> length buf \<le> 1023 \<Longrightarrow>
     format_loop (fmt_of ds) (args_of ds) buf = Some (take 1023 (buf @ concat (map render ds)))"
proof (induction ds arbitrary: buf)
  case (Cons d ds)
  show ?case
  proof (cases "length buf < 1023")
    case True
    with Cons show ?thesis
      by (cases d) (auto simp: buf_put_def put_string_eq take_room, auto simp: take_append min_def)
  next
    case False
    with Cons.prems show ?thesis by (cases d) auto
  qed
qed simp

lemma format_loop_append:
  "list_all directive_ok ds \<Longrightarrow> length buf + length (concat (map render ds)) < 1023 \<Longrightarrow>
     format_loop (fmt_of ds @ p) (args_of ds @ args) buf = format_loop p args (buf @ concat (map render ds))"
proof (induction ds arbitrary: buf)
  case (Cons d ds)
  then show ?case
    by (cases d) (auto simp: buf_put_def put_string_eq)
qed simp

lemma parse_level:
  assumes "l \<le> 7"
  shows "parse_loglevel (60 # (48 + l) # 62 # fmt) = Some (uint l)"
proof -
  have "unat l \<le> 7" using assms by (simp add: word_le_nat_alt)
  then have u: "unat (48 + l) = 48 + unat l" by (simp add: unat_word_ariths)
  have "uint (48 + l) = int (unat (48 + l))" "uint l = int (unat l)" by simp_all
  with u have "uint (48 + l) - 48 = uint l" by linarith
  moreover have "48 \<le> 48 + l" "48 + l \<le> 55" using u \<open>unat l \<le> 7\<close> by (simp_all only: word_le_nat_alt) simp_all
  ultimately show ?thesis by (simp add: parse_loglevel_def str_at_def)
qed

text \<open>
  What \<open>printf\<close> prints for a directive, with a number written out in decimal. The formatter of
  \<open>printk\<close> prints only the last digit of the argument of \<open>%d\<close>, so that the two agree on the
  numbers from 0 to 9 and on no other.
\<close>

fun decimal_digits :: "nat \<Rightarrow> u8 list" where
  "decimal_digits n = (if n < 10 then [of_nat (48 + n)] else decimal_digits (n div 10) @ [of_nat (48 + n mod 10)])"

declare decimal_digits.simps [simp del]

fun printf_text :: "directive \<Rightarrow> u8 list" where
  "printf_text (Lit c) = [c]"
| "printf_text (DecD v) = (if v < 0 then 45 # decimal_digits (nat (- v)) else decimal_digits (nat v))"
| "printf_text (StrS str) = takeWhile (\<lambda>c. c \<noteq> 0) str"
| "printf_text (Esc c) = [c]"

fun one_digit :: "directive \<Rightarrow> bool" where
  "one_digit (DecD v) = (0 \<le> v \<and> v \<le> 9)"
| "one_digit _ = True"

lemma decimal_digits_length: "1 \<le> length (decimal_digits n)" "10 \<le> n \<Longrightarrow> 2 \<le> length (decimal_digits n)"
  by (induction n rule: decimal_digits.induct) (subst decimal_digits.simps; auto simp: Suc_le_eq)+

lemma render_printf: "(render d = printf_text d) = one_digit d"
proof (cases d)
  case (DecD v)
  consider "v < 0" | "0 \<le> v" "v \<le> 9" | "10 \<le> v" by linarith
  then show ?thesis
  proof cases
    case 1
    then have "length (printf_text d) \<noteq> length (render d)"
      using decimal_digits_length(1) [of "nat (- v)"] DecD by auto
    then have "render d \<noteq> printf_text d" by metis
    with 1 DecD show ?thesis by simp
  next
    case 2
    then have "nat v < 10" "rem10 v = v" by auto
    with 2 DecD show ?thesis by (simp add: decimal_digits.simps)
  next
    case 3
    then have "length (printf_text d) \<noteq> length (render d)"
      using decimal_digits_length(2) [of "nat v"] 3 DecD by (simp add: nat_le_iff le_nat_iff)
    then have "render d \<noteq> printf_text d" by metis
    with 3 DecD show ?thesis by simp
  qed
qed simp_all

subsection \<open>Properties\<close>


definition sample_log :: printk_state where
  "sample_log = register_console printk_boot"


text \<open>
  The three bytes of \<open>%x\<close> are not guarded: after 1021 or 1022 bytes of expanded text the
  directive, or the terminator after it, is written past the 1024-byte buffer.
\<close>

theorem printk_hex_overflow:
  assumes "list_all directive_ok ds" "length (concat (map render ds)) \<in> {1021, 1022}" "l \<le> 7"
  shows "printk (60 # (48 + l) # 62 # fmt_of ds @ [37, 120]) (args_of ds @ [VaUint v]) s = None"
proof -
  let ?m = "concat (map render ds)"
  have "format_loop (fmt_of ds @ [37, 120]) (args_of ds @ [VaUint v]) [] = put_0x0 ?m \<bind> format_loop [] []"
    using format_loop_append [OF assms(1), of "[]" "[37, 120]" "[VaUint v]"] assms(2) by auto
  then have "format_loop (fmt_of ds @ [37, 120]) (args_of ds @ [VaUint v]) [] =
      (if length ?m = 1021 then Some (?m @ [48, 120, 48]) else None)"
    using assms(2) by (auto simp: put_0x0_def buf_put_def)
  moreover note parse_level [OF assms(3), of "fmt_of ds @ [37, 120]"]
  ultimately show ?thesis
    using assms(2) by (auto simp: printk_def str_at_def buf_put_def Let_def)
qed

theorem printk_hex_overflow_witness:
  "list_all directive_ok [StrS (replicate 1022 65)] \<and>
   printk [60, 52, 62, 37, 115, 37, 120] [VaStr (replicate 1022 65), VaUint 255] sample_log = None"
proof -
  have len: "length (concat (map render [StrS (replicate 1022 65)])) \<in> {1021, 1022}"
    by (simp add: takeWhile_eq_all_conv [THEN iffD2])
  show ?thesis using printk_hex_overflow [OF _ len, of 4 255 sample_log] by simp
qed

end
