(* ===== verification/Hardening.thy ===== *)
theory Hardening
  imports Bitset_Spec "HOL-Library.Monad_Syntax"
begin

text \<open>
  Two run-time defences of the kernel: the stack canary (rust/Stackprotectot.c) and forward-edge
  control-flow integrity (rust/cfi.c, rust/cfi.h), a bitmap with one bit for every address of
  the code region. A compiler-inserted check either returns to its caller or stops the machine
  in an endless loop of \<open>hlt\<close>; the two outcomes are the values of \<open>verdict\<close>.
  Messages printed on the way are left out.
\<close>

datatype verdict = Passes | Halts

section \<open>The stack canary\<close>

text \<open>\<open>__stack_chk_guard\<close> is the only state; the instruction \<open>rdtsc\<close> delivers the two
  halves of the time-stamp counter, an input of the early initialisation.\<close>

definition stack_protector_init :: "u64 \<Rightarrow> u64" where
  "stack_protector_init canary =
     (let canary = canary AND NOT 0xFF;
          canary = canary OR 0x01
      in canary)"

definition stack_protector_init_early :: "u32 \<Rightarrow> u32 \<Rightarrow> u64" where
  "stack_protector_init_early lo hi =
     (let canary = push_bit 32 (ucast hi) OR ucast lo
      in stack_protector_init canary)"

text \<open>Byte \<open>i\<close> of a canary, as it lies in little-endian memory.\<close>

definition canary_byte :: "u64 \<Rightarrow> nat \<Rightarrow> u8" where
  "canary_byte c i = ucast (drop_bit (8 * i) c)"

section \<open>Control-flow integrity\<close>

abbreviation CFI_BITMAP_BITS :: u64 where "CFI_BITMAP_BITS \<equiv> 268435456"
abbreviation CFI_BITMAP_SIZE :: nat where "CFI_BITMAP_SIZE \<equiv> 33554432"

text \<open>The bitmap is the array behind the pointer \<open>cfi_bitmap\<close>; \<open>None\<close> is the null pointer.\<close>

record cfi_state =
  cfi_bitmap :: "(u64 \<Rightarrow> u8) option"
  cfi_enabled :: bool
  cfi_code_base :: u64

text \<open>The static initialisers of the three variables.\<close>

definition cfi_boot :: cfi_state where
  "cfi_boot = \<lparr>cfi_bitmap = None, cfi_enabled = False, cfi_code_base = 0\<rparr>"

definition cfi_init :: "ptr \<Rightarrow> u64 \<Rightarrow> cfi_state \<Rightarrow> cfi_state" where
  "cfi_init code_start code_size s =
     (let s = s\<lparr>cfi_code_base := code_start\<rparr> in
      case cfi_bitmap s of
        None \<Rightarrow> s
      | Some bm \<Rightarrow>
          s\<lparr>cfi_bitmap := Some (for_upto CFI_BITMAP_SIZE (\<lambda>i bm. bm(of_nat i := 0)) bm),
            cfi_enabled := True\<rparr>)"

definition cfi_register_function :: "cfi_state \<Rightarrow> ptr \<Rightarrow> cfi_state defined" where
  "cfi_register_function s fn =
     (if \<not> cfi_enabled s \<or> fn = NULL then Some s
      else if fn < cfi_code_base s then Some s
      else let offset = fn - cfi_code_base s in
        if offset \<ge> CFI_BITMAP_BITS then Some s
        else let byte_idx = offset div 8; bit_idx = unat (offset mod 8) in do {
          bm \<leftarrow> cfi_bitmap s;
          Some (s\<lparr>cfi_bitmap := Some (bm(byte_idx := bm byte_idx OR push_bit bit_idx 1))\<rparr>)
        })"

definition cfi_unregister_function :: "cfi_state \<Rightarrow> ptr \<Rightarrow> cfi_state defined" where
  "cfi_unregister_function s fn =
     (if \<not> cfi_enabled s \<or> fn = NULL then Some s
      else if fn < cfi_code_base s then Some s
      else let offset = fn - cfi_code_base s in
        if offset \<ge> CFI_BITMAP_BITS then Some s
        else let byte_idx = offset div 8; bit_idx = unat (offset mod 8) in do {
          bm \<leftarrow> cfi_bitmap s;
          Some (s\<lparr>cfi_bitmap := Some (bm(byte_idx := bm byte_idx AND NOT (push_bit bit_idx 1)))\<rparr>)
        })"

definition cfi_validate_call :: "cfi_state \<Rightarrow> ptr \<Rightarrow> bool defined" where
  "cfi_validate_call s target =
     (if \<not> cfi_enabled s then Some True
      else if target = NULL then Some False
      else if target < cfi_code_base s then Some False
      else let offset = target - cfi_code_base s in
        if offset \<ge> CFI_BITMAP_BITS then Some False
        else let byte_idx = offset div 8; bit_idx = unat (offset mod 8) in do {
          bm \<leftarrow> cfi_bitmap s;
          Some (bm byte_idx AND push_bit bit_idx 1 \<noteq> 0)
        })"

definition cfi_check :: "cfi_state \<Rightarrow> ptr \<Rightarrow> verdict defined" where
  "cfi_check s target = do {
     ok \<leftarrow> cfi_validate_call s target;
     Some (if ok then Passes else Halts)
   }"

text \<open>A sequence of registrations (\<open>Add\<close>) and withdrawals (\<open>Del\<close>).\<close>

fun cfi_run :: "cfi_state \<Rightarrow> ptr setop list \<Rightarrow> cfi_state defined" where
  "cfi_run s [] = Some s"
| "cfi_run s (Add fn # xs) = do { s \<leftarrow> cfi_register_function s fn; cfi_run s xs }"
| "cfi_run s (Del fn # xs) = do { s \<leftarrow> cfi_unregister_function s fn; cfi_run s xs }"

text \<open>The specification: the region a bitmap with base \<open>b\<close> covers, and the set of functions that
  a sequence of updates leaves registered.\<close>

definition cfi_covers :: "u64 \<Rightarrow> ptr \<Rightarrow> bool" where
  "cfi_covers b fn \<longleftrightarrow> fn \<noteq> NULL \<and> unat b \<le> unat fn \<and> unat fn < unat b + 268435456"

fun cfi_registered :: "u64 \<Rightarrow> ptr set \<Rightarrow> ptr setop list \<Rightarrow> ptr set" where
  "cfi_registered b A [] = A"
| "cfi_registered b A (Add fn # xs) = cfi_registered b (if cfi_covers b fn then insert fn A else A) xs"
| "cfi_registered b A (Del fn # xs) = cfi_registered b (A - {fn}) xs"

definition cfi_ready :: "u64 \<Rightarrow> cfi_state \<Rightarrow> bool" where
  "cfi_ready b s \<longleftrightarrow> cfi_enabled s \<and> cfi_code_base s = b \<and> cfi_bitmap s \<noteq> None"

text \<open>The byte and the bit of the bitmap that an address owns.\<close>

definition cfi_slot :: "u64 \<Rightarrow> ptr \<Rightarrow> u64 \<times> nat" where
  "cfi_slot b fn = ((fn - b) div 8, unat ((fn - b) mod 8))"

section \<open>What the canary contains\<close>

lemma canary_bit:
  "bit (stack_protector_init c) n = (n < 64 \<and> (n = 0 \<or> 8 \<le> n \<and> bit c n))"
proof -
  have "bit (0xFF :: u64) n = (n < 8)"
    using bit_mask_iff [of 8 n, where 'a = "64 word"] by (auto simp: mask_eq_exp_minus_1)
  moreover have "bit (1 :: u64) n = (n = 0)" by (simp add: bit_1_iff)
  ultimately show ?thesis
    by (auto simp: stack_protector_init_def bit_simps dest: bit_imp_le_length)
qed

text \<open>
  The canary that is installed: its lowest byte is 1 and the seven others are the bytes of the
  entropy. So it contains a zero byte, which would stop a string copy from writing past it,
  exactly when the entropy happens to have one.
\<close>

theorem canary_null_byte:
  "(\<exists>i<8. canary_byte (stack_protector_init c) i = 0) \<longleftrightarrow> (\<exists>i\<in>{1..<8}. canary_byte c i = 0)"
proof -
  have low: "canary_byte (stack_protector_init c) 0 \<noteq> 0"
  proof
    assume "canary_byte (stack_protector_init c) 0 = 0"
    then have "\<not> bit (canary_byte (stack_protector_init c) 0) 0" by simp
    then show False by (simp add: canary_byte_def bit_simps canary_bit)
  qed
  have high: "canary_byte (stack_protector_init c) i = canary_byte c i" if "1 \<le> i" "i < 8" for i
    using that by (intro bit_word_eqI) (auto simp: canary_byte_def bit_simps canary_bit)
  show ?thesis
  proof
    assume "\<exists>i<8. canary_byte (stack_protector_init c) i = 0"
    then obtain i where i: "i < 8" "canary_byte (stack_protector_init c) i = 0" by blast
    with low have "1 \<le> i" by (cases i) auto
    with i high show "\<exists>i\<in>{1..<8}. canary_byte c i = 0" by force
  next
    assume "\<exists>i\<in>{1..<8}. canary_byte c i = 0"
    with high show "\<exists>i<8. canary_byte (stack_protector_init c) i = 0" by force
  qed
qed

theorem canary_null_byte_witness:
  "\<not> (\<exists>i<8. canary_byte (stack_protector_init 0x1111111111111111) i = 0)"
proof -
  have "{1..<8 :: nat} = {1, 2, 3, 4, 5, 6, 7}" by auto
  moreover have "\<forall>i\<in>{1, 2, 3, 4, 5, 6, 7 :: nat}. canary_byte 0x1111111111111111 i \<noteq> 0" by code_simp
  ultimately show ?thesis using canary_null_byte [of "0x1111111111111111"] by auto
qed

section \<open>The bitmap is the set of registered functions\<close>

lemma covers_offset:
  "cfi_covers b fn \<longleftrightarrow> fn \<noteq> NULL \<and> \<not> fn < b \<and> \<not> fn - b \<ge> CFI_BITMAP_BITS"
proof (cases "unat b \<le> unat fn")
  case True
  then have "unat (fn - b) = unat fn - unat b" by (simp add: unat_sub word_le_nat_alt)
  with True show ?thesis
    by (auto simp: cfi_covers_def word_less_nat_alt word_le_nat_alt)
next
  case False
  then show ?thesis by (simp add: cfi_covers_def word_less_nat_alt)
qed

lemma slot_inj: "cfi_slot b j = cfi_slot b k \<longleftrightarrow> j = k"
proof
  assume "cfi_slot b j = cfi_slot b k"
  then have "unat ((j - b) div 8) = unat ((k - b) div 8)" "unat ((j - b) mod 8) = unat ((k - b) mod 8)"
    by (simp_all add: cfi_slot_def)
  then have "unat (j - b) div 8 = unat (k - b) div 8" "unat (j - b) mod 8 = unat (k - b) mod 8"
    by (simp_all add: unat_div unat_mod)
  then have "unat (j - b) = unat (k - b)" by (metis div_mod_inj)
  then have "j - b = k - b" by (simp only: word_unat_eq_iff)
  then show "j = k" by simp
qed simp

lemma slot_bit: "snd (cfi_slot b k) < 8"
  by (simp add: cfi_slot_def unat_mod)

lemma validate_bit:
  "cfi_ready b s \<Longrightarrow> cfi_validate_call s k =
     Some (cfi_covers b k \<and> bit (the (cfi_bitmap s) (fst (cfi_slot b k))) (snd (cfi_slot b k)))"
  by (auto simp: cfi_validate_call_def cfi_ready_def covers_offset Let_def cfi_slot_def bitset_simps)

lemma register_bit:
  "cfi_ready b s \<Longrightarrow> cfi_covers b k \<Longrightarrow> cfi_register_function s k =
     Some (s\<lparr>cfi_bitmap := Some ((the (cfi_bitmap s))(fst (cfi_slot b k) :=
       the (cfi_bitmap s) (fst (cfi_slot b k)) OR 2 ^ snd (cfi_slot b k)))\<rparr>)"
  by (auto simp: cfi_register_function_def cfi_ready_def covers_offset Let_def cfi_slot_def)

lemma unregister_bit:
  "cfi_ready b s \<Longrightarrow> cfi_covers b k \<Longrightarrow> cfi_unregister_function s k =
     Some (s\<lparr>cfi_bitmap := Some ((the (cfi_bitmap s))(fst (cfi_slot b k) :=
       the (cfi_bitmap s) (fst (cfi_slot b k)) AND NOT (2 ^ snd (cfi_slot b k))))\<rparr>)"
  by (auto simp: cfi_unregister_function_def cfi_ready_def covers_offset Let_def cfi_slot_def)

lemma update_outside:
  assumes "cfi_ready b s" "\<not> cfi_covers b k"
  shows "cfi_register_function s k = Some s" "cfi_unregister_function s k = Some s"
  using assms
  by (auto simp: cfi_register_function_def cfi_unregister_function_def cfi_ready_def covers_offset Let_def)

lemma update_ready:
  assumes "cfi_ready b s"
  shows "\<exists>t. cfi_register_function s k = Some t \<and> cfi_ready b t"
    and "\<exists>t. cfi_unregister_function s k = Some t \<and> cfi_ready b t"
  using assms register_bit [OF assms, of k] unregister_bit [OF assms, of k]
    update_outside [OF assms, of k]
  by (cases "cfi_covers b k"; auto simp: cfi_ready_def)+

lemma ready_upd [simp]: "cfi_ready b (s\<lparr>cfi_bitmap := Some bm\<rparr>) \<longleftrightarrow> cfi_enabled s \<and> cfi_code_base s = b"
  by (simp add: cfi_ready_def)

lemma slot_same_byte:
  "fst (cfi_slot b j) = fst (cfi_slot b k) \<Longrightarrow> snd (cfi_slot b j) = snd (cfi_slot b k) \<longleftrightarrow> j = k"
  using slot_inj [of b j k] by (simp add: prod_eq_iff)

interpretation cfibits: bitset "\<lambda>s k. cfi_validate_call s k = Some True"
  "\<lambda>s k. the (cfi_register_function s k)" "\<lambda>s k. the (cfi_unregister_function s k)"
  "cfi_covers b" "cfi_ready b" for b :: u64
proof unfold_locales
  fix s :: cfi_state and j k :: ptr
  assume s: "cfi_ready b s"
  then have en: "cfi_enabled s" "cfi_code_base s = b" by (simp_all add: cfi_ready_def)
  show "cfi_validate_call s k = Some True \<Longrightarrow> cfi_covers b k"
    using s by (simp add: validate_bit)
  show "\<not> cfi_covers b k \<Longrightarrow> the (cfi_register_function s k) = s"
    "\<not> cfi_covers b k \<Longrightarrow> the (cfi_unregister_function s k) = s"
    using s by (simp_all add: update_outside)
  show "cfi_ready b (the (cfi_register_function s k))" "cfi_ready b (the (cfi_unregister_function s k))"
    using update_ready [OF s, of k] by auto
  assume k: "cfi_covers b k"
  show "(cfi_validate_call (the (cfi_register_function s k)) j = Some True) =
      (j = k \<or> cfi_validate_call s j = Some True)"
    using k slot_bit [of b k] slot_same_byte [of b j k]
    by (auto simp: register_bit [OF s k] validate_bit [OF s] validate_bit [of b] en bit_or_exp)
  show "(cfi_validate_call (the (cfi_unregister_function s k)) j = Some True) =
      (j \<noteq> k \<and> cfi_validate_call s j = Some True)"
    using k slot_same_byte [of b j k]
    by (auto simp: unregister_bit [OF s k] validate_bit [OF s] validate_bit [of b] en bit_and_not_exp)
qed

lemma run_foldl:
  "cfi_ready b s \<Longrightarrow> cfi_run s xs = Some (foldl cfibits.apply_op s xs)"
proof (induction xs arbitrary: s)
  case Nil
  then show ?case by simp
next
  case (Cons x xs)
  from Cons.prems have "cfi_ready b (cfibits.apply_op s x)" by (rule cfibits.invar_apply)
  from Cons.IH [OF this] have rest: "cfi_run (cfibits.apply_op s x) xs = Some (foldl cfibits.apply_op s (x # xs))"
    by simp
  show ?case
  proof (cases x)
    case (Add k)
    with rest update_ready(1) [OF Cons.prems, of k] show ?thesis by (elim exE conjE) simp
  next
    case (Del k)
    with rest update_ready(2) [OF Cons.prems, of k] show ?thesis by (elim exE conjE) simp
  qed
qed

lemma registered_abs: "cfi_registered b A xs = foldl (cfibits.abs_op b) A xs"
proof (induction xs arbitrary: A)
  case Nil
  then show ?case by simp
next
  case (Cons x xs)
  have "(if cfi_covers b k then insert k A else A) = A \<union> {j. j = k \<and> cfi_covers b j}" for k by auto
  with Cons show ?case by (cases x) simp_all
qed

lemma zero_fill: "for_upto n (\<lambda>i bm. bm(of_nat i := 0)) bm i = (if \<exists>k<n. i = of_nat k then 0 else bm i)"
  by (induction n) (auto simp: less_Suc_eq)

lemma cfi_init_ready:
  assumes "cfi_bitmap s \<noteq> None"
  shows "cfi_ready b (cfi_init b n s)"
    and "cfi_validate_call (cfi_init b n s) k = Some False"
proof -
  from assms obtain bm where bm: "cfi_bitmap s = Some bm" by blast
  let ?z = "for_upto CFI_BITMAP_SIZE (\<lambda>i bm. bm(of_nat i := 0)) bm"
  have init: "cfi_init b n s = s\<lparr>cfi_code_base := b, cfi_bitmap := Some ?z, cfi_enabled := True\<rparr>"
    by (simp add: cfi_init_def bm)
  then show ready: "cfi_ready b (cfi_init b n s)" by (simp add: cfi_ready_def)
  have "?z (fst (cfi_slot b k)) = 0" if "cfi_covers b k"
  proof -
    from that have "\<not> k - b \<ge> CFI_BITMAP_BITS" by (simp add: covers_offset)
    then have "unat (k - b) < 268435456" by (simp add: word_le_nat_alt not_le)
    then have "unat (fst (cfi_slot b k)) < CFI_BITMAP_SIZE"
      by (simp add: cfi_slot_def unat_div)
    then show ?thesis by (subst zero_fill) (auto intro: exI [of _ "unat (fst (cfi_slot b k))"])
  qed
  with validate_bit [OF ready, of k] show "cfi_validate_call (cfi_init b n s) k = Some False"
    by (auto simp: init)
qed

text \<open>
  C25: Once the bitmap exists and the region at \<open>base\<close> is initialised, every sequence of
  registrations and withdrawals runs, and afterwards an indirect call is allowed exactly to the
  functions that the sequence leaves registered; any other target stops the machine.
\<close>

theorem cfi_allows_registered:
  assumes "cfi_bitmap s \<noteq> None"
  shows "\<exists>t. cfi_run (cfi_init base n s) xs = Some t \<and>
    (\<forall>fn. cfi_check t fn = Some (if fn \<in> cfi_registered base {} xs then Passes else Halts))"
proof -
  let ?s = "cfi_init base n s" and ?t = "foldl cfibits.apply_op (cfi_init base n s) xs"
  note ready = cfi_init_ready(1) [OF assms, of base n]
  have "cfibits.elems ?s = {}"
    using cfi_init_ready(2) [OF assms, of base n] by (auto simp: cfibits.elems_def)
  with cfibits.run_refines [OF ready, of xs]
  have t: "cfi_ready base ?t" "cfibits.elems ?t = cfi_registered base {} xs"
    by (simp_all add: registered_abs)
  have "cfi_check ?t fn = Some (if fn \<in> cfi_registered base {} xs then Passes else Halts)" for fn
    using validate_bit [OF t(1), of fn] by (auto simp: cfi_check_def simp flip: t(2))
  with run_foldl [OF ready, of xs] show ?thesis by blast
qed

theorem cfi_allows_registered_witness:
  "\<exists>t. cfi_run (cfi_init 0x100000 4096 (cfi_boot\<lparr>cfi_bitmap := Some (\<lambda>_. 0xFF)\<rparr>))
      [Add 0x100010, Add 0x100011, Del 0x100010, Add 0x10] = Some t \<and>
    cfi_check t 0x100011 = Some Passes \<and> cfi_check t 0x100010 = Some Halts \<and> cfi_check t 0x10 = Some Halts"
proof -
  let ?xs = "[Add 0x100010, Add 0x100011, Del 0x100010, Add 0x10] :: ptr setop list"
  have "cfi_registered 0x100000 {} ?xs = {0x100011}"
    by (auto simp: cfi_covers_def)
  with cfi_allows_registered [of "cfi_boot\<lparr>cfi_bitmap := Some (\<lambda>_. 0xFF)\<rparr>" "0x100000" 4096 ?xs]
  show ?thesis by auto
qed

text \<open>
  With the static initialisers of the source the bitmap is the null pointer, and nothing in
  the sources allocates it: whatever region is initialised and whatever is registered, checking
  stays off and every indirect call is allowed.
\<close>

theorem cfi_never_enabled:
  "\<exists>t. cfi_run (cfi_init base n cfi_boot) xs = Some t \<and> (\<forall>fn. cfi_check t fn = Some Passes)"
proof -
  have "cfi_run s xs = Some s" if "\<not> cfi_enabled s" for s
    using that
    by (induction s xs rule: cfi_run.induct)
      (auto simp: cfi_register_function_def cfi_unregister_function_def)
  moreover have "\<not> cfi_enabled (cfi_init base n cfi_boot)"
    by (simp add: cfi_init_def cfi_boot_def)
  moreover from this have "cfi_check (cfi_init base n cfi_boot) fn = Some Passes" for fn
    by (simp add: cfi_check_def cfi_validate_call_def)
  ultimately show ?thesis by blast
qed

end
