(* ===== verification/Kasan.thy ===== *)
theory Kasan
  imports Hardening
begin

text \<open>
  The address sanitizer (rust/kasan.c, rust/kasan.h): one shadow byte for every granule of eight
  bytes. Allocator hooks poison and unpoison ranges, and checks inserted by the compiler read the
  shadow of an access. The shadow is reached through a raw pointer, so it is kept as a byte
  memory over all addresses; addition on pointers wraps at 64 bits. \<open>kasan_report\<close> prints and
  halts, the outcome \<open>Halts\<close>.
\<close>

abbreviation KASAN_SLAB_FREE :: u8 where "KASAN_SLAB_FREE \<equiv> 0xFC"
abbreviation KASAN_STACK_LEFT :: u8 where "KASAN_STACK_LEFT \<equiv> 0xF1"
abbreviation KASAN_STACK_RIGHT :: u8 where "KASAN_STACK_RIGHT \<equiv> 0xF3"
abbreviation KASAN_KMALLOC_REDZONE :: u8 where "KASAN_KMALLOC_REDZONE \<equiv> 0xF6"

record kasan_state =
  kasan_shadow_base :: ptr
  kasan_enabled :: bool
  kasan_mem :: "ptr \<Rightarrow> u8"

definition kasan_mem_to_shadow :: "kasan_state \<Rightarrow> ptr \<Rightarrow> ptr" where
  "kasan_mem_to_shadow s addr = kasan_shadow_base s + drop_bit 3 addr"

text \<open>A store \<open>*p = v\<close>, and the loop \<open>for (i = 0; i < n; i++) p[i] = v\<close>.\<close>

definition kasan_store :: "ptr \<Rightarrow> u8 \<Rightarrow> kasan_state \<Rightarrow> kasan_state" where
  "kasan_store p v s = s\<lparr>kasan_mem := (kasan_mem s)(p := v)\<rparr>"

definition kasan_fill :: "ptr \<Rightarrow> nat \<Rightarrow> u8 \<Rightarrow> kasan_state \<Rightarrow> kasan_state" where
  "kasan_fill p n v = for_upto n (\<lambda>i. kasan_store (p + of_nat i) v)"

definition kasan_init :: "ptr \<Rightarrow> u64 \<Rightarrow> kasan_state \<Rightarrow> kasan_state" where
  "kasan_init shadow_base shadow_size s =
     (let s = s\<lparr>kasan_shadow_base := shadow_base\<rparr>;
          s = kasan_fill shadow_base (unat shadow_size) 0 s
      in s\<lparr>kasan_enabled := True\<rparr>)"

definition kasan_poison_shadow :: "ptr \<Rightarrow> u64 \<Rightarrow> u8 \<Rightarrow> kasan_state \<Rightarrow> kasan_state" where
  "kasan_poison_shadow addr size' value' s =
     (if \<not> kasan_enabled s \<or> addr = NULL then s
      else let
        shadow = kasan_mem_to_shadow s addr;
        aligned = addr AND 7;
        whole = (\<lambda>shadow size' s. let
          s = kasan_fill shadow (unat (drop_bit 3 size')) value' s
          in if size' AND 7 \<noteq> 0 then kasan_store (shadow + drop_bit 3 size') value' s else s)
      in if aligned \<noteq> 0 then let
           s = kasan_store shadow value' s;
           shadow = shadow + 1
         in if size' < 8 - aligned then s
            else whole shadow (size' - (8 - aligned)) s
         else whole shadow size' s)"

definition kasan_unpoison_shadow :: "ptr \<Rightarrow> u64 \<Rightarrow> kasan_state \<Rightarrow> kasan_state" where
  "kasan_unpoison_shadow addr size' s =
     (if \<not> kasan_enabled s \<or> addr = NULL then s
      else let
        shadow = kasan_mem_to_shadow s addr;
        aligned = addr AND 7;
        whole = (\<lambda>shadow size' s. let
          s = kasan_fill shadow (unat (drop_bit 3 size')) 0 s
          in if size' AND 7 \<noteq> 0 then kasan_store (shadow + drop_bit 3 size') 0 s else s)
      in if aligned \<noteq> 0 then let
           s = kasan_store shadow 0 s;
           shadow = shadow + 1
         in if size' < 8 - aligned then s
            else whole shadow (size' - (8 - aligned)) s
         else whole shadow size' s)"

definition kasan_kmalloc :: "ptr \<Rightarrow> u64 \<Rightarrow> u64 \<Rightarrow> kasan_state \<Rightarrow> kasan_state" where
  "kasan_kmalloc addr size' alloc_size s =
     (if \<not> kasan_enabled s then s
      else let s = kasan_unpoison_shadow addr size' s
        in kasan_poison_shadow (addr + size') (alloc_size - size') KASAN_KMALLOC_REDZONE s)"

definition kasan_kfree :: "ptr \<Rightarrow> u64 \<Rightarrow> kasan_state \<Rightarrow> kasan_state" where
  "kasan_kfree addr size' s =
     (if \<not> kasan_enabled s then s else kasan_poison_shadow addr size' KASAN_SLAB_FREE s)"

definition kasan_alloca :: "ptr \<Rightarrow> u64 \<Rightarrow> kasan_state \<Rightarrow> kasan_state" where
  "kasan_alloca addr size' s =
     (if \<not> kasan_enabled s then s
      else let s = kasan_unpoison_shadow addr size' s;
               s = kasan_poison_shadow (addr - 8) 8 KASAN_STACK_LEFT s
        in kasan_poison_shadow (addr + size') 8 KASAN_STACK_RIGHT s)"

text \<open>The entry points \<open>__asan_load\<close> and \<open>__asan_store\<close> of every width are this check at their size.\<close>

definition kasan_check :: "kasan_state \<Rightarrow> ptr \<Rightarrow> u64 \<Rightarrow> verdict" where
  "kasan_check s addr size' =
     (if \<not> kasan_enabled s then Passes
      else if addr = NULL then Passes
      else let shadow_val = kasan_mem s (kasan_mem_to_shadow s addr) in
        if shadow_val = 0 then Passes
        else let last_byte = (addr + size' - 1) AND 7 in
          if last_byte \<ge> ucast shadow_val then Halts else Passes)"

text \<open>A call of the sanitizer: a hook of the allocators, or a direct poisoning with a value of
  the header, all of which are at least 0xF1.\<close>

datatype kasan_call =
    Kmalloc ptr u64 u64
  | Kfree ptr u64
  | Alloca ptr u64
  | Poison ptr u64 u8
  | Unpoison ptr u64

fun kasan_do :: "kasan_state \<Rightarrow> kasan_call \<Rightarrow> kasan_state" where
  "kasan_do s (Kmalloc a n m) = kasan_kmalloc a n m s"
| "kasan_do s (Kfree a n) = kasan_kfree a n s"
| "kasan_do s (Alloca a n) = kasan_alloca a n s"
| "kasan_do s (Poison a n v) = (if 0xF1 \<le> v then kasan_poison_shadow a n v s else s)"
| "kasan_do s (Unpoison a n) = kasan_unpoison_shadow a n s"

text \<open>The shadow byte of granule \<open>g\<close>.\<close>

definition shadow_of :: "kasan_state \<Rightarrow> nat \<Rightarrow> u8" where
  "shadow_of s g = kasan_mem s (kasan_shadow_base s + of_nat g)"

text \<open>The number of granules that \<open>n\<close> bytes from a granule boundary touch.\<close>

definition granules :: "nat \<Rightarrow> nat" where
  "granules n = (n + 7) div 8"

section \<open>Poisoning a range\<close>

lemma kasan_store_fields [simp]:
  "kasan_enabled (kasan_store p v s) = kasan_enabled s"
  "kasan_shadow_base (kasan_store p v s) = kasan_shadow_base s"
  "kasan_mem (kasan_store p v s) = (kasan_mem s)(p := v)"
  by (simp_all add: kasan_store_def)

lemma kasan_fill_fields [simp]:
  "kasan_enabled (kasan_fill p n v s) = kasan_enabled s"
  "kasan_shadow_base (kasan_fill p n v s) = kasan_shadow_base s"
  by (induction n) (simp_all add: kasan_fill_def)

lemma kasan_fill_mem:
  "kasan_mem (kasan_fill p n v s) q = (if \<exists>i<n. q = p + of_nat i then v else kasan_mem s q)"
  by (induction n) (auto simp: kasan_fill_def less_Suc_eq)

text \<open>Unpoisoning is poisoning with the value 0.\<close>

lemma unpoison_is_poison: "kasan_unpoison_shadow a n s = kasan_poison_shadow a n 0 s"
  by (simp add: kasan_unpoison_shadow_def kasan_poison_shadow_def)

lemma kasan_poison_fields [simp]:
  "kasan_enabled (kasan_poison_shadow a n v s) = kasan_enabled s"
  "kasan_shadow_base (kasan_poison_shadow a n v s) = kasan_shadow_base s"
  by (simp_all add: kasan_poison_shadow_def Let_def)

lemma unat_drop3: "unat (drop_bit 3 (w :: u64)) = unat w div 8"
  by (simp add: drop_bit_eq_div unat_div)

lemma unat_and7: "unat ((w :: u64) AND 7) = unat w mod 8"
proof -
  have "w AND 7 = take_bit 3 w" by (simp add: take_bit_eq_mask mask_eq_exp_minus_1)
  then show ?thesis by (simp add: take_bit_eq_mod unat_mod)
qed

lemma granules_split: "granules (a + n) = a div 8 + granules (a mod 8 + n)"
proof -
  have "a + n + 7 = 8 * (a div 8) + (a mod 8 + n + 7)" by simp
  then have "granules (a + n) = (8 * (a div 8) + (a mod 8 + n + 7)) div 8" unfolding granules_def by simp
  also have "\<dots> = a div 8 + granules (a mod 8 + n)" unfolding granules_def by (subst div_mult_self4) simp_all
  finally show ?thesis .
qed

lemma granules_small: "r \<le> 8 \<Longrightarrow> granules r = of_bool (r \<noteq> 0)"
proof (cases "r = 0")
  case False
  moreover assume "r \<le> 8"
  ultimately have "(r + 7) div 8 = 1" by (intro div_nat_eqI) simp_all
  with False show ?thesis by (simp add: granules_def)
qed (simp add: granules_def)

lemma granules_div: "granules n = n div 8 + of_bool (n mod 8 \<noteq> 0)"
  using granules_split [of n 0] granules_small [of "n mod 8"] by simp

lemma granules_add8: "granules (8 + n) = Suc (granules n)"
  by (simp add: granules_def)

lemma whole_mem:
  "kasan_mem (if n AND 7 \<noteq> 0 then kasan_store (p + drop_bit 3 n) v (kasan_fill p (unat (drop_bit 3 n)) v s)
      else kasan_fill p (unat (drop_bit 3 n)) v s) q =
    (if \<exists>i<granules (unat (n :: u64)). q = p + of_nat i then v else kasan_mem s q)"
proof (cases "n AND 7 = 0")
  case True
  then have "unat n mod 8 = 0" by (metis unat_and7 unat_0)
  then have "granules (unat n) = unat (drop_bit 3 n)"
    by (simp add: granules_div unat_drop3)
  with True show ?thesis by (simp add: kasan_fill_mem)
next
  case False
  then have "unat n mod 8 \<noteq> 0" by (metis unat_and7 unat_eq_zero)
  then have "granules (unat n) = Suc (unat (drop_bit 3 n))"
    by (simp add: granules_div unat_drop3)
  with False show ?thesis
    by (auto simp: kasan_fill_mem less_Suc_eq simp del: unat_drop_bit_eq)
qed

lemma poison_mem:
  assumes "kasan_enabled s" "a \<noteq> NULL"
  shows "kasan_mem (kasan_poison_shadow a n v s) q =
    (if \<exists>i<granules (unat a mod 8 + unat n). q = kasan_mem_to_shadow s a + of_nat i
     then v else kasan_mem s q)"
proof (cases "a AND 7 = 0")
  case True
  then have "unat a mod 8 = 0" by (metis unat_and7 unat_0)
  moreover have "kasan_poison_shadow a n v s =
      (if n AND 7 \<noteq> 0 then kasan_store (kasan_mem_to_shadow s a + drop_bit 3 n) v
          (kasan_fill (kasan_mem_to_shadow s a) (unat (drop_bit 3 n)) v s)
       else kasan_fill (kasan_mem_to_shadow s a) (unat (drop_bit 3 n)) v s)"
    using True assms by (simp add: kasan_poison_shadow_def Let_def)
  ultimately show ?thesis by (simp only: whole_mem add_0)
next
  case False
  define k where "k = unat a mod 8"
  have "unat (a AND 7) \<noteq> 0" using False by (metis unat_eq_zero)
  then have k: "0 < k" "k < 8" by (simp_all add: k_def unat_and7)
  have "a AND 7 \<le> 8" using k by (simp add: word_le_nat_alt unat_and7 k_def)
  then have left: "unat (8 - (a AND 7)) = 8 - k"
    by (simp add: unat_sub unat_and7 k_def)
  let ?q = "kasan_mem_to_shadow s a"
  show ?thesis
  proof (cases "n < 8 - (a AND 7)")
    case True
    then have "unat n < 8 - k" by (simp add: word_less_nat_alt left)
    with k have "granules (k + unat n) = 1" by (subst granules_small) simp_all
    with assms False True show ?thesis
      by (simp add: kasan_poison_shadow_def Let_def k_def [symmetric])
  next
    case small: False
    then have le: "8 - (a AND 7) \<le> n" by simp
    then have "unat (n - (8 - (a AND 7))) = unat n - (8 - k)" "8 - k \<le> unat n"
      by (simp_all only: unat_sub left word_le_nat_alt)
    then have "k + unat n = 8 + unat (n - (8 - (a AND 7)))" using k by linarith
    then have count: "granules (k + unat n) = Suc (granules (unat (n - (8 - (a AND 7)))))"
      by (simp only: granules_add8)
    define r where "r = n - (8 - (a AND 7))"
    have "kasan_poison_shadow a n v s =
        (if r AND 7 \<noteq> 0 then kasan_store (?q + 1 + drop_bit 3 r) v
            (kasan_fill (?q + 1) (unat (drop_bit 3 r)) v (kasan_store ?q v s))
         else kasan_fill (?q + 1) (unat (drop_bit 3 r)) v (kasan_store ?q v s))"
      unfolding r_def using False small assms by (simp only: kasan_poison_shadow_def Let_def) simp
    then have "kasan_mem (kasan_poison_shadow a n v s) q =
      (if \<exists>i<granules (unat r). q = ?q + 1 + of_nat i then v else ((kasan_mem s)(?q := v)) q)"
      by (simp only: whole_mem kasan_store_fields)
    also have "\<dots> = (if \<exists>i<granules (k + unat n). q = ?q + of_nat i then v else kasan_mem s q)"
      by (simp only: count r_def Ex_less_Suc2) (auto simp: add.assoc)
    finally show ?thesis by (simp add: k_def)
  qed
qed

lemma of_nat_u64_inj: "i < 2 ^ 64 \<Longrightarrow> j < 2 ^ 64 \<Longrightarrow> (of_nat i :: u64) = of_nat j \<longleftrightarrow> i = j"
  by (simp add: word_of_nat_eq_iff take_bit_nat_eq_self)

lemma poison_shadow:
  assumes "kasan_enabled s" and "addr \<noteq> NULL"
    and "unat addr + unat n \<le> 2 ^ 64" and "g < 2 ^ 61"
  shows "shadow_of (kasan_poison_shadow addr n v s) g =
    (if unat addr div 8 \<le> g \<and> g < granules (unat addr + unat n) then v else shadow_of s g)"
proof -
  define m where "m = granules (unat addr mod 8 + unat n)"
  define a where "a = unat addr div 8"
  have end_of: "granules (unat addr + unat n) = a + m"
    unfolding a_def m_def by (rule granules_split)
  have small: "a + m \<le> 2 ^ 61"
    using assms(3) unfolding end_of [symmetric] granules_def by simp
  have "drop_bit 3 addr = of_nat a"
    unfolding a_def unat_drop3 [symmetric] by simp
  then have "(\<exists>i<m. kasan_shadow_base s + of_nat g = kasan_mem_to_shadow s addr + of_nat i)
      \<longleftrightarrow> (\<exists>i<m. (of_nat g :: u64) = of_nat (a + i))"
    by (simp add: kasan_mem_to_shadow_def add.assoc)
  also have "\<dots> \<longleftrightarrow> (\<exists>i<m. g = a + i)"
    using small assms(4) by (intro ex_cong1 conj_cong refl) (rule of_nat_u64_inj, simp_all)
  also have "\<dots> \<longleftrightarrow> a \<le> g \<and> g < a + m" by (auto intro: exI [of _ "g - a"])
  finally show ?thesis
    using poison_mem [OF assms(1,2), of n v] by (simp add: shadow_of_def m_def end_of a_def)
qed

text \<open>
  C26: Poisoning and unpoisoning write the shadow of exactly the granules that the range touches: after
  \<open>kasan_poison_shadow(addr, size, value)\<close> a granule has the shadow \<open>value\<close> if it lies between
  the first and the last byte of the range, rounded outwards to granules, and every other granule
  keeps its shadow. The range may start and end anywhere, as long as it does not wrap around.
\<close>

theorem kasan_poison_exact:
  assumes "kasan_enabled s" and "addr \<noteq> NULL"
    and "unat addr + unat n \<le> 2 ^ 64" and "g < 2 ^ 61"
  shows "shadow_of (kasan_poison_shadow addr n v s) g =
      (if unat addr div 8 \<le> g \<and> g < granules (unat addr + unat n) then v else shadow_of s g) \<and>
    shadow_of (kasan_unpoison_shadow addr n s) g =
      (if unat addr div 8 \<le> g \<and> g < granules (unat addr + unat n) then 0 else shadow_of s g)"
  by (simp add: unpoison_is_poison poison_shadow [OF assms])

definition example_kasan :: kasan_state where
  "example_kasan = \<lparr>kasan_shadow_base = 0x40000000, kasan_enabled = True, kasan_mem = (\<lambda>_. 0)\<rparr>"

theorem kasan_poison_exact_witness:
  "shadow_of (kasan_poison_shadow 0x1003 0x12 0xFC example_kasan) 0x202 = 0xFC \<and>
   shadow_of (kasan_poison_shadow 0x1003 0x12 0xFC example_kasan) 0x203 = 0"
  using kasan_poison_exact [of example_kasan "0x1003" "0x12" "0x202" "0xFC"]
    kasan_poison_exact [of example_kasan "0x1003" "0x12" "0x203" "0xFC"]
  by (simp add: example_kasan_def granules_def shadow_of_def)

section \<open>What the checks report\<close>

text \<open>Shadow bytes of the initialised region that no check can report.\<close>

definition kasan_quiet :: "ptr \<Rightarrow> nat \<Rightarrow> kasan_state \<Rightarrow> bool" where
  "kasan_quiet b n s \<longleftrightarrow> kasan_shadow_base s = b \<and>
     (\<forall>i<n. let v = kasan_mem s (b + of_nat i) in v = 0 \<or> 7 < v)"

lemma poison_quiet:
  assumes "kasan_quiet b n s" and "v = 0 \<or> 7 < v"
  shows "kasan_quiet b n (kasan_poison_shadow a m v s)"
proof (cases "kasan_enabled s \<and> a \<noteq> NULL")
  case True
  with assms show ?thesis by (simp add: kasan_quiet_def poison_mem Let_def)
next
  case False
  with assms show ?thesis by (auto simp: kasan_poison_shadow_def)
qed

lemma unpoison_quiet: "kasan_quiet b n s \<Longrightarrow> kasan_quiet b n (kasan_unpoison_shadow a m s)"
  by (simp add: unpoison_is_poison poison_quiet)

lemma kasan_do_quiet:
  assumes "kasan_quiet b n s"
  shows "kasan_quiet b n (kasan_do s c)"
proof (cases c)
  case (Poison a m v)
  have "7 < v" if "0xF1 \<le> v"
    by (rule less_le_trans [OF _ that]) simp
  with Poison assms show ?thesis by (simp add: poison_quiet)
qed (use assms in \<open>simp_all add: kasan_kmalloc_def kasan_kfree_def kasan_alloca_def Let_def
  poison_quiet unpoison_quiet\<close>)

lemma kasan_run_quiet: "kasan_quiet b n s \<Longrightarrow> kasan_quiet b n (foldl kasan_do s cs)"
  by (induction cs arbitrary: s) (simp_all add: kasan_do_quiet)

lemma kasan_init_quiet: "kasan_quiet b (unat n) (kasan_init b n s)"
  by (auto simp: kasan_quiet_def kasan_init_def Let_def kasan_fill_mem)

lemma quiet_check:
  assumes "kasan_quiet b n s" and "unat (drop_bit 3 addr) < n"
  shows "kasan_check s addr m = Passes"
proof -
  define v where "v = kasan_mem s (kasan_mem_to_shadow s addr)"
  have "kasan_mem_to_shadow s addr = b + of_nat (unat (drop_bit 3 addr))"
    using assms(1) by (simp add: kasan_quiet_def kasan_mem_to_shadow_def)
  with assms have "v = 0 \<or> 7 < v"
    unfolding v_def kasan_quiet_def Let_def by presburger
  moreover have "(addr + m - 1) AND 7 < ucast v" if "7 < v"
  proof -
    have "unat ((addr + m - 1) AND 7) < 8" by (simp add: unat_and7)
    also have "8 \<le> unat v" using that by (simp add: word_less_nat_alt)
    also have "unat v = unat (ucast v :: u64)" by (simp add: unsigned_ucast_eq take_bit_nat_eq_self less_le_trans [OF unsigned_less])
    finally show ?thesis by (simp add: word_less_nat_alt)
  qed
  ultimately show ?thesis by (auto simp: kasan_check_def Let_def v_def [symmetric])
qed

text \<open>
  C27: No access is ever reported. Whatever sequence of allocator hooks runs after the sanitizer is
  initialised, and whatever is poisoned with the values of the header, the check of an access
  whose granule has its shadow in the initialised region passes: the poison values are all above
  7, and the check compares them, unsigned, with the position of the last byte in its granule.
\<close>

theorem kasan_never_reports:
  assumes "unat (drop_bit 3 addr) < unat shadow_size"
  shows "kasan_check (foldl kasan_do (kasan_init base shadow_size s) calls) addr n = Passes"
  by (rule quiet_check [OF kasan_run_quiet [OF kasan_init_quiet] assms])

theorem kasan_never_reports_witness:
  "kasan_check (foldl kasan_do (kasan_init 0x40000000 0x100000 example_kasan)
      [Kmalloc 0x1000 60 64, Kfree 0x1000 64]) 0x1000 8 = Passes"
  by (rule kasan_never_reports) (simp add: unat_drop3)

text \<open>
  An allocation poisons its own tail: when the size is not a multiple of eight, the granule with
  the last bytes of the object, which has just been made accessible, is marked as redzone, even
  if the allocation has no redzone at all.
\<close>

theorem kmalloc_poisons_own_tail:
  assumes "kasan_enabled s" and "addr \<noteq> NULL" and "unat addr mod 8 = 0" and "unat n mod 8 \<noteq> 0"
    and "n \<le> m" and "unat addr + unat m < 2 ^ 64"
  shows "shadow_of (kasan_kmalloc addr n m s) ((unat addr + unat n - 1) div 8) = KASAN_KMALLOC_REDZONE"
proof -
  have nm: "unat n \<le> unat m" using assms(5) by (simp add: word_le_nat_alt)
  then have e: "unat (addr + n) = unat addr + unat n" "unat (m - n) = unat m - unat n"
    using assms(5,6) by (simp_all add: unat_plus_simple [THEN iffD1] word_le_nat_alt unat_word_ariths unat_sub)
  obtain A where A: "unat addr = 8 * A" using assms(3) by (metis mod_0_imp_dvd dvdE)
  define q r where "q = unat n div 8" and "r = unat n mod 8"
  have n: "unat n = 8 * q + r" "0 < r" "r < 8" using assms(4) by (simp_all add: q_def r_def)
  have g: "(unat addr + unat n - 1) div 8 = A + q" "(unat addr + unat n) div 8 = A + q"
    unfolding A n(1) using n(2,3) by (intro div_nat_eqI; simp)+
  have "8 * Suc (A + q) \<le> unat addr + unat m + 7" using nm n A by simp
  then have "A + q < granules (unat addr + unat m)"
    unfolding granules_def by (simp add: less_eq_div_iff_mult_less_eq Suc_le_eq [symmetric])
  moreover have "A + q < 2 ^ 61" using assms(6) nm unfolding A n(1) by simp
  moreover have "addr + n \<noteq> NULL" using e(1) n by (metis add_is_0 less_irrefl unat_0)
  ultimately have "shadow_of (kasan_kmalloc addr n m s) (A + q) = KASAN_KMALLOC_REDZONE"
    using assms(1,6) nm e g(2) poison_shadow [of "kasan_unpoison_shadow addr n s" "addr + n" "m - n" "A + q"]
    by (simp add: kasan_kmalloc_def unpoison_is_poison Let_def)
  then show ?thesis by (simp only: g(1))
qed

theorem kmalloc_poisons_own_tail_witness:
  "shadow_of (kasan_kmalloc 0x1000 60 64 example_kasan) 0x207 = KASAN_KMALLOC_REDZONE"
  using kmalloc_poisons_own_tail [of example_kasan "0x1000" 60 64]
  by (simp add: example_kasan_def)

end
