(* ===== verification/Math64.thy ===== *)
theory Math64
  imports Prelude "HOL-Library.Signed_Division"
begin

text \<open>
  The integer arithmetic headers io_uring/math64.h and io_uring/math.h: 64 by 64 bit products
  shifted down, scaled divisions, and the rounding macros. The products exist twice in the
  source, once with a 128-bit type and once with 32-bit limbs for machines without one; both
  are modelled and compared. Macros are modelled at the type \<open>u64\<close>. Signed values are
  integers, and a signed result outside its type is undefined behaviour, as is a division by
  zero or a shift by the width or more. \<open>do_div\<close> belongs to the architecture and is a parameter.
\<close>

text \<open>The two halves of the union \<open>{ u64 ll; struct { u32 low, high; } l; }\<close>.\<close>

definition lo32 :: "u64 \<Rightarrow> u32" where
  "lo32 w = ucast w"

definition hi32 :: "u64 \<Rightarrow> u32" where
  "hi32 w = ucast (drop_bit 32 w)"

definition join32 :: "u32 \<Rightarrow> u32 \<Rightarrow> u64" where
  "join32 high low = push_bit 32 (ucast high) OR ucast low"

section \<open>Products and quotients\<close>

definition mul_u32_u32 :: "u32 \<Rightarrow> u32 \<Rightarrow> u64" where
  "mul_u32_u32 a b = ucast a * ucast b"

text \<open>The versions for compilers with a 128-bit type.\<close>

definition mul_u64_u32_shr_int128 :: "u64 \<Rightarrow> u32 \<Rightarrow> u32 \<Rightarrow> u64 defined" where
  "mul_u64_u32_shr_int128 a mul shift =
     (if shift \<ge> 128 then None
      else Some (ucast (drop_bit (unat shift) (ucast a * ucast mul :: 128 word))))"

definition mul_u64_u64_shr_int128 :: "u64 \<Rightarrow> u64 \<Rightarrow> u32 \<Rightarrow> u64 defined" where
  "mul_u64_u64_shr_int128 a mul shift =
     (if shift \<ge> 128 then None
      else Some (ucast (drop_bit (unat shift) (ucast a * ucast mul :: 128 word))))"

text \<open>The versions without one. \<open>32 - shift\<close> is computed in \<open>unsigned int\<close>.\<close>

definition mul_u64_u32_shr :: "u64 \<Rightarrow> u32 \<Rightarrow> u32 \<Rightarrow> u64 defined" where
  "mul_u64_u32_shr a mul shift =
     (let ah = hi32 a; al = lo32 a in
      if shift \<ge> 64 then None
      else let ret = drop_bit (unat shift) (mul_u32_u32 al mul) in
        if ah \<noteq> 0
        then if 32 - shift \<ge> 64 then None
          else Some (ret + push_bit (unat (32 - shift)) (mul_u32_u32 ah mul))
        else Some ret)"

definition mul_u64_u64_shr :: "u64 \<Rightarrow> u64 \<Rightarrow> u32 \<Rightarrow> u64" where
  "mul_u64_u64_shr a b shift =
     (let rl = mul_u32_u32 (lo32 a) (lo32 b);
          rm = mul_u32_u32 (lo32 a) (hi32 b);
          rn = mul_u32_u32 (hi32 a) (lo32 b);
          rh = mul_u32_u32 (hi32 a) (hi32 b);
          c = ucast (hi32 rl) + ucast (lo32 rm) + ucast (lo32 rn) :: u64;
          rl = join32 (ucast c) (lo32 rl);
          c = drop_bit 32 c + ucast (hi32 rm) + ucast (hi32 rn) + ucast (lo32 rh);
          rh = join32 (hi32 rh) (ucast c);
          rh = join32 (ucast (drop_bit 32 c + ucast (hi32 rh))) (lo32 rh)
      in if shift = 0 then rl
         else if shift < 64 then drop_bit (unat shift) rl OR push_bit (unat (64 - shift)) rh
         else drop_bit (unat (shift AND 63)) rh)"

text \<open>Ranges of the signed types.\<close>

definition in_s32 :: "int \<Rightarrow> bool" where
  "in_s32 x \<longleftrightarrow> - (2 ^ 31) \<le> x \<and> x < 2 ^ 31"

definition in_s64 :: "int \<Rightarrow> bool" where
  "in_s64 x \<longleftrightarrow> - (2 ^ 63) \<le> x \<and> x < 2 ^ 63"

definition mul_s64_u64_shr :: "int \<Rightarrow> u64 \<Rightarrow> u32 \<Rightarrow> u64 defined" where
  "mul_s64_u64_shr a b shift =
     (if \<not> in_s64 (- a) then None
      else let ret = mul_u64_u64_shr (of_int (if a < 0 then - a else a)) b shift in
        if a < 0 then if \<not> in_s64 (- sint ret) then None else Some (of_int (- sint ret))
        else Some ret)"

text \<open>\<open>do_div n base\<close> gives the new value of its first argument and the value it returns.\<close>

definition mul_u64_u32_div :: "(u64 \<Rightarrow> u32 \<Rightarrow> u64 \<times> u32) \<Rightarrow> u64 \<Rightarrow> u32 \<Rightarrow> u32 \<Rightarrow> u64" where
  "mul_u64_u32_div do_div a mul divisor =
     (let rl = mul_u32_u32 (lo32 a) mul;
          rh = mul_u32_u32 (hi32 a) mul + ucast (hi32 rl);
          (rh, rem) = do_div rh divisor;
          rl = join32 rem (lo32 rl);
          (rl, _) = do_div rl divisor
      in join32 (lo32 rh) (lo32 rl))"

section \<open>Division and rounding\<close>

definition div_u64 :: "u64 \<Rightarrow> u32 \<Rightarrow> u64 defined" where
  "div_u64 dividend divisor = (if divisor = 0 then None else Some (dividend div ucast divisor))"

abbreviation DIV_U64_ROUND_UP :: "u64 \<Rightarrow> u32 \<Rightarrow> u64 defined" where
  "DIV_U64_ROUND_UP ll d \<equiv> div_u64 (ll + ucast d - 1) d"

definition roundup_u64 :: "u64 \<Rightarrow> u32 \<Rightarrow> u64 defined" where
  "roundup_u64 x y = map_option (\<lambda>q. q * ucast y) (DIV_U64_ROUND_UP x y)"

definition div_s64 :: "int \<Rightarrow> int \<Rightarrow> int defined" where
  "div_s64 dividend divisor =
     (if divisor = 0 \<or> \<not> in_s64 (dividend sdiv divisor) then None
      else Some (dividend sdiv divisor))"

definition DIV_S64_ROUND_CLOSEST :: "int \<Rightarrow> int \<Rightarrow> int defined" where
  "DIV_S64_ROUND_CLOSEST x d =
     (let y = (if (x > 0) = (d > 0) then x + d sdiv 2 else x - d sdiv 2)
      in if in_s64 y then div_s64 y d else None)"

definition round_up :: "u64 \<Rightarrow> u64 \<Rightarrow> u64" where
  "round_up x y = ((x - 1) OR (y - 1)) + 1"

definition round_down :: "u64 \<Rightarrow> u64 \<Rightarrow> u64" where
  "round_down x y = x AND NOT (y - 1)"

definition DIV_ROUND_UP_POW2 :: "u64 \<Rightarrow> u64 \<Rightarrow> u64 defined" where
  "DIV_ROUND_UP_POW2 n d =
     (if d = 0 then None else Some (n div d + (if n AND (d - 1) \<noteq> 0 then 1 else 0)))"

definition mult_frac :: "u64 \<Rightarrow> u64 \<Rightarrow> u64 \<Rightarrow> u64 defined" where
  "mult_frac x n d =
     (if d = 0 then None
      else let q = x div d; r = x mod d in Some (q * n + r * n div d))"

definition reciprocal_scale :: "u32 \<Rightarrow> u32 \<Rightarrow> u32" where
  "reciprocal_scale val ep_ro = ucast (drop_bit 32 (ucast val * ucast ep_ro :: u64))"

text \<open>The 128-bit product of the limb version, its first part.\<close>

definition prod_limbs :: "u64 \<Rightarrow> u64 \<Rightarrow> u64 \<times> u64" where
  "prod_limbs a b =
     (let rl = mul_u32_u32 (lo32 a) (lo32 b);
          rm = mul_u32_u32 (lo32 a) (hi32 b);
          rn = mul_u32_u32 (hi32 a) (lo32 b);
          rh = mul_u32_u32 (hi32 a) (hi32 b);
          c = ucast (hi32 rl) + ucast (lo32 rm) + ucast (lo32 rn) :: u64;
          d = drop_bit 32 c + ucast (hi32 rm) + ucast (hi32 rn) + ucast (lo32 rh)
      in (join32 (ucast (drop_bit 32 d + ucast (hi32 rh))) (ucast d), join32 (ucast c) (lo32 rl)))"

section \<open>The halves of a word\<close>

lemma unat_lo32: "unat (lo32 w) = unat w mod 4294967296"
  by (simp add: lo32_def unsigned_ucast_eq take_bit_eq_mod)

lemma unat_drop: "unat (drop_bit n (w :: 'a::len word)) = unat w div 2 ^ n"
  by (simp only: unat_drop_bit_eq) (simp only: drop_bit_eq_div)

lemma unat_hi32: "unat (hi32 w) = unat w div 4294967296"
proof -
  have "unat w div 4294967296 < 4294967296"
    using unsigned_less [of w, where 'a = nat] by (simp add: div_less_iff_less_mult)
  then show ?thesis
    by (simp add: hi32_def unsigned_ucast_eq take_bit_eq_mod unat_drop)
qed

lemma halves: "unat w = unat (hi32 w) * 4294967296 + unat (lo32 w)"
  by (simp add: unat_hi32 unat_lo32)

lemma word_add_disjoint:
  "(\<And>n. \<not> (bit a n \<and> bit b n)) \<Longrightarrow> a OR b = a + (b :: 'a::len word)"
  by (rule disjunctive_add [symmetric]) blast

lemma unat_join32: "unat (join32 h l) = unat h * 4294967296 + unat l"
proof -
  have "join32 h l = push_bit 32 (ucast h) + ucast l"
    unfolding join32_def by (rule word_add_disjoint) (auto simp: bit_simps dest: bit_imp_le_length)
  also have "\<dots> = of_nat (unat h * 4294967296 + unat l)"
    by (simp add: push_bit_eq_mult)
  finally have "unat (join32 h l) = (unat h * 4294967296 + unat l) mod 2 ^ 64"
    by (simp only: unat_of_nat) simp
  also have "\<dots> = unat h * 4294967296 + unat l"
    using unsigned_less [of h, where 'a = nat] unsigned_less [of l, where 'a = nat] by simp
  finally show ?thesis .
qed

lemma unat_mul32: "unat (mul_u32_u32 a b) = unat a * unat b"
proof -
  have "unat a * unat b < 2 ^ 32 * 2 ^ 32"
    by (rule mult_strict_mono) (use unsigned_less [of a, where 'a = nat] unsigned_less [of b, where 'a = nat] in simp_all)
  then show ?thesis by (simp add: mul_u32_u32_def unat_word_ariths)
qed

text \<open>The product of two words is the nat product, and the carries of the limb version add up.\<close>

lemma unat_int128:
  "unat (ucast (drop_bit s (ucast (a :: u64) * ucast (b :: u64) :: 128 word)) :: u64) =
    unat a * unat b div 2 ^ s mod 2 ^ 64"
proof -
  have "unat a * unat b < 2 ^ 64 * 2 ^ 64"
    by (rule mult_strict_mono) (use ptr_below_top [of a] ptr_below_top [of b] in simp_all)
  moreover have "unat (ucast w :: 128 word) = unat w" for w :: u64
    using ptr_below_top [of w] by (simp add: unsigned_ucast_eq take_bit_nat_eq_self)
  ultimately have "unat (ucast a * ucast b :: 128 word) = unat a * unat b"
    by (simp add: unat_word_ariths)
  then show ?thesis
    by (simp add: unsigned_ucast_eq take_bit_eq_mod unat_drop)
qed

lemma ucast_down_unat: "unat (ucast (w :: u64) :: u32) = unat w mod 4294967296"
  by (simp add: unsigned_ucast_eq take_bit_eq_mod)

text \<open>Schoolbook multiplication: the four products of the limbs, split at \<open>B\<close>, with the carries
  \<open>c\<close> and \<open>d\<close> of the two middle columns.\<close>

lemma limbs_sum:
  fixes B :: nat
  assumes "p = p1 * B + p0" "q = q1 * B + q0" "r = r1 * B + r0" "s = s1 * B + s0"
    and c: "p1 + q0 + r0 = c1 * B + c0" and d: "c1 + q1 + r1 + s0 = d1 * B + d0"
  shows "s * B\<^sup>2 + (q + r) * B + p = ((d1 + s1) * B + d0) * B\<^sup>2 + (c0 * B + p0)"
proof -
  have "s * B\<^sup>2 + (q + r) * B + p = (s1 * B + (s0 + q1 + r1)) * B\<^sup>2 + (p1 + q0 + r0) * B + p0"
    by (simp add: assms(1-4) algebra_simps power2_eq_square)
  also have "\<dots> = (s1 * B + (c1 + q1 + r1 + s0)) * B\<^sup>2 + (c0 * B + p0)"
    by (simp only: c) (simp add: algebra_simps power2_eq_square)
  also have "\<dots> = ((d1 + s1) * B + d0) * B\<^sup>2 + (c0 * B + p0)"
    by (simp only: d) (simp add: algebra_simps)
  finally show ?thesis .
qed

lemma lo_join [simp]: "lo32 (join32 h l) = l"
  and hi_join [simp]: "hi32 (join32 h l) = h"
  by (simp_all add: word_unat_eq_iff unat_lo32 unat_hi32 unat_join32 u32_below_top)

lemma shr_prod_limbs:
  "mul_u64_u64_shr a b shift = (let (rh, rl) = prod_limbs a b in
     if shift = 0 then rl
     else if shift < 64 then drop_bit (unat shift) rl OR push_bit (unat (64 - shift)) rh
     else drop_bit (unat (shift AND 63)) rh)"
  by (simp add: mul_u64_u64_shr_def prod_limbs_def Let_def)

lemma add4_unat:
  assumes "unat (w :: u64) \<le> 4294967296"
  shows "unat (w + ucast (x :: u32) + ucast (y :: u32) + ucast (z :: u32)) = unat w + unat x + unat y + unat z"
  using assms u32_below_top [of x] u32_below_top [of y] u32_below_top [of z]
  by (simp add: unat_word_ariths)

lemma add3_unat: "unat (ucast (x :: u32) + ucast (y :: u32) + ucast (z :: u32) :: u64) = unat x + unat y + unat z"
  using add4_unat [of 0 x y z] by simp

lemma prod_limbs_correct:
  assumes "prod_limbs a b = (rh, rl)"
  shows "unat a * unat b = unat rh * 2 ^ 64 + unat rl"
proof -
  let ?B = "4294967296 :: nat"
  define p q r s where "p = mul_u32_u32 (lo32 a) (lo32 b)" and "q = mul_u32_u32 (lo32 a) (hi32 b)"
    and "r = mul_u32_u32 (hi32 a) (lo32 b)" and "s = mul_u32_u32 (hi32 a) (hi32 b)"
  define c where "c = (ucast (hi32 p) + ucast (lo32 q) + ucast (lo32 r) :: u64)"
  define d where "d = (drop_bit 32 c + ucast (hi32 q) + ucast (hi32 r) + ucast (lo32 s) :: u64)"
  have c: "unat (hi32 p) + unat (lo32 q) + unat (lo32 r) = unat c" by (simp add: c_def add3_unat)
  have "unat (drop_bit 32 c) \<le> 4294967296"
    using u32_below_top [of "hi32 c"] by (simp only: unat_drop) (simp add: unat_hi32)
  then have d: "unat (hi32 c) + unat (hi32 q) + unat (hi32 r) + unat (lo32 s) = unat d"
    unfolding d_def by (simp add: add4_unat unat_hi32 unat_drop)
  have sum: "unat a * unat b = ((unat (hi32 d) + unat (hi32 s)) * ?B + unat (lo32 d)) * ?B\<^sup>2
      + (unat (lo32 c) * ?B + unat (lo32 p))"
  proof -
    have "unat a * unat b = unat s * ?B\<^sup>2 + (unat q + unat r) * ?B + unat p"
      by (subst halves [of a], subst halves [of b])
        (simp add: p_def q_def r_def s_def unat_mul32 algebra_simps power2_eq_square)
    then show ?thesis
      using limbs_sum [OF halves [of p] halves [of q] halves [of r] halves [of s]
        c [THEN trans, OF halves [of c]] d [THEN trans, OF halves [of d]]] by simp
  qed
  have "unat a * unat b < ?B\<^sup>2 * ?B\<^sup>2"
    by (rule mult_strict_mono) (use ptr_below_top [of a] ptr_below_top [of b] in simp_all)
  with sum have top: "unat (hi32 d) + unat (hi32 s) < ?B" by simp
  have "rh = join32 (ucast (drop_bit 32 d + ucast (hi32 s))) (lo32 d)" "rl = join32 (lo32 c) (lo32 p)"
    using assms by (simp_all add: prod_limbs_def Let_def p_def q_def r_def s_def c_def d_def lo32_def)
  moreover have "unat (ucast (drop_bit 32 d + ucast (hi32 s)) :: u32) = unat (hi32 d) + unat (hi32 s)"
  proof -
    have "unat (drop_bit 32 d) = unat (hi32 d)" by (simp add: unat_hi32 unat_drop)
    then have "unat (drop_bit 32 d + ucast (hi32 s)) = unat (hi32 d) + unat (hi32 s)"
      using top by (subst ptr_add_unat) simp_all
    with top show ?thesis by (simp add: ucast_down_unat)
  qed
  ultimately show ?thesis by (simp add: sum unat_join32)
qed

section \<open>Shifted products\<close>

lemma shift_split:
  fixes h l :: nat
  assumes "s \<le> n"
  shows "(h * 2 ^ n + l) div 2 ^ s = h * 2 ^ (n - s) + l div 2 ^ s"
proof -
  have "2 ^ n = (2 ^ s * 2 ^ (n - s) :: nat)" using assms by (simp flip: power_add)
  then have "h * 2 ^ n + l = l + 2 ^ s * (h * 2 ^ (n - s))" by (simp add: algebra_simps)
  then show ?thesis by (simp only: div_mult_self2) simp
qed

lemma unat_push: "unat (push_bit n (w :: u64)) = unat w * 2 ^ n mod 2 ^ 64"
  by (simp only: unsigned_push_bit_eq) (simp add: take_bit_eq_mod push_bit_eq_mult)

lemma unat_funnel:
  assumes "s \<le> 64"
  shows "unat (drop_bit s (l :: u64) OR push_bit (64 - s) h) = (unat h * 2 ^ 64 + unat l) div 2 ^ s mod 2 ^ 64"
proof -
  have "drop_bit s l OR push_bit (64 - s) h = drop_bit s l + push_bit (64 - s) h"
    by (rule word_add_disjoint) (auto simp: bit_simps dest: bit_imp_le_length)
  then have "unat (drop_bit s l OR push_bit (64 - s) h) = (unat l div 2 ^ s + unat h * 2 ^ (64 - s) mod 2 ^ 64) mod 2 ^ 64"
    by (simp only: unat_word_ariths unat_drop unat_push) simp
  also have "\<dots> = (unat h * 2 ^ (64 - s) + unat l div 2 ^ s) mod 2 ^ 64"
    by (simp add: mod_simps add.commute)
  finally show ?thesis by (simp only: shift_split [OF assms])
qed

lemma mul_u64_u64_shr_unat:
  assumes "shift < 128"
  shows "unat (mul_u64_u64_shr a b shift) = unat a * unat b div 2 ^ unat shift mod 2 ^ 64"
proof -
  obtain rh rl where p: "prod_limbs a b = (rh, rl)" by fastforce
  note prod = prod_limbs_correct [OF p]
  have s: "unat shift < 128" using assms by (simp add: word_less_nat_alt)
  consider "shift = 0" | "shift \<noteq> 0" "shift < 64" | "64 \<le> shift" by fastforce
  then show ?thesis
  proof cases
    case 1
    then show ?thesis using ptr_below_top [of rl] by (simp add: shr_prod_limbs p prod)
  next
    case 2
    then have "unat (64 - shift) = 64 - unat shift" "unat shift \<le> 64"
      by (simp_all add: unat_sub_if' word_less_nat_alt)
    with 2 show ?thesis
      by (simp only: shr_prod_limbs p prod Let_def prod.case if_False if_True unat_funnel)
  next
    case 3
    then have ge: "64 \<le> unat shift" by (simp add: word_le_nat_alt)
    have "shift AND 63 = take_bit 6 shift" by (simp add: take_bit_eq_mask mask_eq_exp_minus_1)
    then have "unat (shift AND 63) = unat shift mod 64" by (simp add: take_bit_eq_mod unat_mod)
    with s ge have low: "unat (shift AND 63) = unat shift - 64" by (simp add: le_mod_geq)
    have "unat a * unat b div 2 ^ unat shift = unat a * unat b div 2 ^ 64 div 2 ^ (unat shift - 64)"
      using ge by (simp only: div_mult2_eq [symmetric] power_add [symmetric] le_add_diff_inverse)
    also have "unat a * unat b div 2 ^ 64 = unat rh" using ptr_below_top [of rl] by (simp add: prod)
    finally have "unat a * unat b div 2 ^ unat shift = unat (drop_bit (unat (shift AND 63)) rh)"
      by (simp only: unat_drop low)
    moreover have "\<not> shift < 64" "shift \<noteq> 0" using 3 by auto
    ultimately show ?thesis
      using ptr_below_top [of "drop_bit (unat (shift AND 63)) rh"]
      by (simp only: shr_prod_limbs p Let_def prod.case if_False) simp
  qed
qed

text \<open>
  C23: The product of two 64-bit numbers shifted down, computed with 32-bit limbs, equals the version
  that computes with a 128-bit type, for every shift that version accepts: both return bits
  \<open>shift\<close> to \<open>shift + 63\<close> of the exact product.
\<close>

theorem mul_u64_u64_shr_correct:
  assumes "shift < 128"
  shows "mul_u64_u64_shr_int128 a b shift = Some (mul_u64_u64_shr a b shift) \<and>
    unat (mul_u64_u64_shr a b shift) = unat a * unat b div 2 ^ unat shift mod 2 ^ 64"
  using assms mul_u64_u64_shr_unat [OF assms, of a b]
  by (simp add: mul_u64_u64_shr_int128_def word_unat_eq_iff unat_int128 flip: not_less)

theorem mul_u64_u64_shr_correct_witness:
  "mul_u64_u64_shr 0xFFFFFFFFFFFFFFFF 0xFFFFFFFFFFFFFFFF 64 = 0xFFFFFFFFFFFFFFFE"
  using mul_u64_u64_shr_correct [of 64 "0xFFFFFFFFFFFFFFFF" "0xFFFFFFFFFFFFFFFF"]
  by (simp add: word_unat_eq_iff)

lemma int128_u32_unat:
  "mul_u64_u32_shr_int128 a mul shift = Some r \<Longrightarrow>
    unat r = unat a * unat mul div 2 ^ unat shift mod 2 ^ 64"
proof -
  have "(ucast (ucast mul :: u64) :: 128 word) = ucast mul"
    by (rule bit_word_eqI) (auto simp: bit_simps dest: bit_imp_le_length)
  moreover assume "mul_u64_u32_shr_int128 a mul shift = Some r"
  ultimately have "r = ucast (drop_bit (unat shift) (ucast a * ucast (ucast mul :: u64) :: 128 word))"
    by (simp add: mul_u64_u32_shr_int128_def split: if_splits)
  then show "unat r = unat a * unat mul div 2 ^ unat shift mod 2 ^ 64"
    by (simp only: unat_int128 unat_ucast64)
qed

lemma mul_u64_u32_shr_unat:
  assumes "shift \<le> 32"
  shows "\<exists>r. mul_u64_u32_shr a mul shift = Some r \<and> unat r = unat a * unat mul div 2 ^ unat shift mod 2 ^ 64"
proof -
  have s: "unat shift \<le> 32" "unat (32 - shift) = 32 - unat shift" "shift < 64" "\<not> 32 - shift \<ge> 64"
    using assms by (simp_all add: word_le_nat_alt word_less_nat_alt unat_sub_if')
  let ?l = "unat (lo32 a) * unat mul" and ?h = "unat (hi32 a) * unat mul"
  have "unat a * unat mul = ?h * 2 ^ 32 + ?l"
    by (subst halves [of a]) (simp add: algebra_simps)
  then have shifted: "unat a * unat mul div 2 ^ unat shift = ?h * 2 ^ (32 - unat shift) + ?l div 2 ^ unat shift"
    by (simp only: shift_split [OF s(1)])
  show ?thesis
  proof (cases "hi32 a = 0")
    case True
    have "?l div 2 ^ unat shift < 2 ^ 64"
      using ptr_below_top [of "drop_bit (unat shift) (mul_u32_u32 (lo32 a) mul)"]
      by (simp only: unat_drop unat_mul32) simp
    then have "unat a * unat mul div 2 ^ unat shift mod 2 ^ 64 = ?l div 2 ^ unat shift"
      using True by (simp only: shifted) simp
    with True s show ?thesis
      by (simp only: mul_u64_u32_shr_def Let_def) (simp add: unat_mul32 unat_drop del: drop_bit_eq_div)
  next
    case False
    let ?r = "drop_bit (unat shift) (mul_u32_u32 (lo32 a) mul) + push_bit (unat (32 - shift)) (mul_u32_u32 (hi32 a) mul)"
    have "unat ?r = (?l div 2 ^ unat shift + ?h * 2 ^ (32 - unat shift) mod 2 ^ 64) mod 2 ^ 64"
      by (simp only: unat_word_ariths unat_drop unat_push unat_mul32 s(2)) simp
    also have "\<dots> = unat a * unat mul div 2 ^ unat shift mod 2 ^ 64"
      by (simp only: shifted) (simp add: mod_simps add.commute)
    finally show ?thesis using False s by (simp only: mul_u64_u32_shr_def Let_def) simp
  qed
qed

text \<open>
  With a 32-bit factor and a shift of at most 32 the two versions agree too. For a larger shift
  the limb version is undefined as soon as the first factor needs more than 32 bits, because it
  shifts by \<open>32 - shift\<close>, while the 128-bit version still returns the exact result.
\<close>

theorem mul_u64_u32_shr_correct:
  "(if shift \<le> 32 then mul_u64_u32_shr a mul shift = mul_u64_u32_shr_int128 a mul shift
    else hi32 a \<noteq> 0 \<longrightarrow> mul_u64_u32_shr a mul shift = None) \<and>
   (\<forall>r. mul_u64_u32_shr_int128 a mul shift = Some r \<longrightarrow>
     unat r = unat a * unat mul div 2 ^ unat shift mod 2 ^ 64)"
proof (intro conjI allI impI)
  show "mul_u64_u32_shr_int128 a mul shift = Some r \<Longrightarrow>
    unat r = unat a * unat mul div 2 ^ unat shift mod 2 ^ 64" for r
    by (rule int128_u32_unat)
next
  show "if shift \<le> 32 then mul_u64_u32_shr a mul shift = mul_u64_u32_shr_int128 a mul shift
    else hi32 a \<noteq> 0 \<longrightarrow> mul_u64_u32_shr a mul shift = None"
  proof (cases "shift \<le> 32")
    case True
    then have "shift < 128" by (simp add: word_le_nat_alt word_less_nat_alt)
    then obtain w where w: "mul_u64_u32_shr_int128 a mul shift = Some w"
      by (simp add: mul_u64_u32_shr_int128_def flip: not_less)
    with True mul_u64_u32_shr_unat [OF True, of a mul] int128_u32_unat [OF w] show ?thesis
      by (auto simp: word_unat_eq_iff)
  next
    case False
    then have "32 < unat shift" by (simp add: word_le_nat_alt)
    then have "64 \<le> 32 - shift" if "\<not> 64 \<le> shift"
      using that by (simp add: word_le_nat_alt unat_sub_if')
    with False show ?thesis by (simp add: mul_u64_u32_shr_def Let_def)
  qed
qed

theorem mul_u64_u32_shr_correct_witness:
  "mul_u64_u32_shr 0x100000000 3 33 = None \<and>
   (\<exists>r. mul_u64_u32_shr 0x100000003 3 1 = Some r \<and> unat r = 6442450948)"
proof -
  have "hi32 0x100000000 \<noteq> 0" by code_simp
  moreover have "mul_u64_u32_shr_int128 0x100000003 3 1 \<noteq> None"
    by (simp add: mul_u64_u32_shr_int128_def word_le_nat_alt)
  ultimately show ?thesis
    using mul_u64_u32_shr_correct [of 33 "0x100000000" 3] mul_u64_u32_shr_correct [of 1 "0x100000003" 3]
    by auto
qed

text \<open>
  The signed variant: as long as the magnitude of the result fits, the product of a signed and an
  unsigned 64-bit number, shifted down, is the exact quotient rounded towards zero, with the sign
  of the first factor.
\<close>

theorem mul_s64_u64_shr_correct:
  assumes "in_s64 a" and "shift < 128" and "\<bar>a\<bar> * int (unat b) div 2 ^ unat shift < 2 ^ 63" and "a \<noteq> - (2 ^ 63)"
  shows "\<exists>r. mul_s64_u64_shr a b shift = Some r \<and>
    sint r = sgn a * (\<bar>a\<bar> * int (unat b) div 2 ^ unat shift)"
proof -
  define r where "r = mul_u64_u64_shr (of_int \<bar>a\<bar>) b shift"
  have r: "mul_u64_u64_shr (of_int (if a < 0 then - a else a)) b shift = r" by (simp only: r_def abs_if)
  have fits: "in_s64 (- a)" "\<bar>a\<bar> < 2 ^ 63" using assms(1,4) by (auto simp: in_s64_def)
  have "uint (of_int \<bar>a\<bar> :: u64) = \<bar>a\<bar>"
    using fits(2) by (simp add: uint_word_of_int)
  then have "int (unat (of_int \<bar>a\<bar> :: u64)) = \<bar>a\<bar>" by simp
  then have "int (unat r) = \<bar>a\<bar> * int (unat b) div 2 ^ unat shift mod 2 ^ 64"
    unfolding r_def mul_u64_u64_shr_unat [OF assms(2)] by (simp add: zdiv_int zmod_int)
  also have "\<dots> = \<bar>a\<bar> * int (unat b) div 2 ^ unat shift"
    using assms(3) by (simp add: pos_imp_zdiv_nonneg_iff)
  finally have val: "int (unat r) = \<bar>a\<bar> * int (unat b) div 2 ^ unat shift" .
  with assms(3) have small: "uint r < 2 ^ 63" by simp
  have self: "signed_take_bit 63 k = k" if "- (2 ^ 63) \<le> k" "k < 2 ^ 63" for k :: int
    using that by (rule signed_take_bit_int_eq_self)
  have "0 \<le> uint r" by simp
  with small have "- (2 ^ 63) \<le> uint r" "- (2 ^ 63) \<le> - uint r" "- uint r < 2 ^ 63" by linarith+
  with small have sint: "sint r = uint r" and neg: "sint (of_int (- uint r) :: u64) = - uint r"
    using sint_sbintrunc' [of "- uint r", where 'a = 64] by (simp_all add: sint_uint self)
  have result: "in_s64 (- sint r)"
    using \<open>- (2 ^ 63) \<le> - uint r\<close> \<open>- uint r < 2 ^ 63\<close> by (simp add: in_s64_def sint)
  show ?thesis
  proof (cases "a < 0")
    case True
    then have "mul_s64_u64_shr a b shift = Some (of_int (- sint r))"
      unfolding mul_s64_u64_shr_def r Let_def using fits result by simp
    moreover have "sint (of_int (- sint r) :: u64) = - int (unat r)" by (simp only: sint neg) simp
    ultimately show ?thesis unfolding val [symmetric] using True by simp
  next
    case False
    then have "mul_s64_u64_shr a b shift = Some r"
      unfolding mul_s64_u64_shr_def r Let_def using fits by simp
    with sint val False show ?thesis by (cases "a = 0") simp_all
  qed
qed

theorem mul_s64_u64_shr_correct_witness:
  "\<exists>r. mul_s64_u64_shr (- 7) 3 1 = Some r \<and> sint r = - 10"
  using mul_s64_u64_shr_correct [of "- 7" 1 3] by (simp add: in_s64_def)

section \<open>Scaled division\<close>

text \<open>Long division by one limb: dividing the high part first and carrying the remainder down.\<close>

lemma long_division:
  fixes B d h l :: nat
  assumes "0 < d" "l < B"
  shows "(h * B + l) div d = h div d * B + (h mod d * B + l) div d" and "(h mod d * B + l) div d < B"
proof -
  have "h * B + l = (h mod d * B + l) + d * (h div d * B)"
  proof -
    have "h * B = (d * (h div d) + h mod d) * B" by simp
    then show ?thesis by (simp only: distrib_right)
  qed
  then show "(h * B + l) div d = h div d * B + (h mod d * B + l) div d"
    using assms(1) by (simp only: div_mult_self2)
  have "h mod d * B + l < Suc (h mod d) * B" using assms(2) by simp
  also have "\<dots> \<le> d * B" using assms(1) by (intro mult_right_mono) (simp_all add: Suc_leI)
  finally show "(h mod d * B + l) div d < B" by (simp add: div_less_iff_less_mult assms(1) mult.commute)
qed

lemma mod_two_limbs: "l < (B :: nat) \<Longrightarrow> (h * B + l) mod (B * B) = h mod B * B + l"
  by (simp add: mod_mult2_eq)

text \<open>
  C24: \<open>mul_u64_u32_div\<close> computes the 96-bit product exactly and divides it in two steps: the result is
  the low 64 bits of the quotient rounded down. It relies on \<open>do_div\<close> replacing its argument by
  the quotient and returning the remainder.
\<close>

theorem mul_u64_u32_div_correct:
  assumes do_div: "\<And>n b. b \<noteq> 0 \<Longrightarrow> do_div n b = (n div ucast b, ucast (n mod ucast b))"
    and "divisor \<noteq> 0"
  shows "unat (mul_u64_u32_div do_div a mul divisor) = unat a * unat mul div unat divisor mod 2 ^ 64"
proof -
  let ?B = "4294967296 :: nat"
  define rl rh where "rl = mul_u32_u32 (lo32 a) mul" and "rh = mul_u32_u32 (hi32 a) mul + ucast (hi32 rl)"
  define d where "d = unat divisor"
  have d: "0 < d" "d < ?B" using assms(2) u32_below_top [of divisor] by (simp_all add: d_def unat_gt_0)
  have "unat (hi32 a) * unat mul \<le> 4294967295 * 4294967295"
    using u32_below_top [of "hi32 a"] u32_below_top [of mul] by (intro mult_mono) simp_all
  then have rh: "unat rh = unat (hi32 a) * unat mul + unat (hi32 rl)"
    using u32_below_top [of "hi32 rl"] unfolding rh_def by (subst ptr_add_unat) (simp_all add: unat_mul32)
  have "unat a * unat mul = unat (hi32 a) * unat mul * ?B + unat rl"
    by (subst halves [of a]) (simp add: rl_def unat_mul32 algebra_simps)
  then have prod: "unat a * unat mul = unat rh * ?B + unat (lo32 rl)"
    by (simp add: rh halves [of rl] algebra_simps)
  define r where "r = join32 (ucast (rh mod ucast divisor)) (lo32 rl)"
  have "unat rh mod d < ?B" using d by (meson mod_less_divisor order_less_trans)
  then have "unat r = unat rh mod d * ?B + unat (lo32 rl)"
    by (simp add: r_def unat_join32 ucast_down_unat unat_mod d_def)
  with long_division [OF d(1) u32_below_top [of "lo32 rl"], of "unat rh"]
  have q: "unat a * unat mul div d = unat rh div d * ?B + unat r div d" "unat r div d < ?B"
    by (simp_all add: prod)
  have "mul_u64_u32_div do_div a mul divisor = join32 (lo32 (rh div ucast divisor)) (lo32 (r div ucast divisor))"
    by (simp add: mul_u64_u32_div_def Let_def do_div [OF assms(2)] rl_def rh_def r_def)
  then have "unat (mul_u64_u32_div do_div a mul divisor) = unat rh div d mod ?B * ?B + unat r div d"
    using q(2) by (simp add: unat_join32 unat_lo32 unat_div d_def)
  also have "\<dots> = unat a * unat mul div d mod (?B * ?B)"
    by (simp only: q(1) mod_two_limbs [OF q(2)])
  finally show ?thesis by (simp add: d_def)
qed

theorem mul_u64_u32_div_correct_witness:
  "unat (mul_u64_u32_div (\<lambda>n b. (n div ucast b, ucast (n mod ucast b))) 0xFFFFFFFFFFFFFFFF 1000 1000) =
    0xFFFFFFFFFFFFFFFF"
  using mul_u64_u32_div_correct [of "\<lambda>n b. (n div ucast b, ucast (n mod ucast b))" 1000 "0xFFFFFFFFFFFFFFFF" 1000]
  by simp

section \<open>Rounding\<close>

text \<open>
  \<open>roundup_u64\<close> returns the least multiple of its second argument that is not below the first,
  as long as the intermediate sum fits into 64 bits.
\<close>

theorem roundup_u64_correct:
  assumes "y \<noteq> 0" and "unat x + unat y \<le> 2 ^ 64"
  shows "\<exists>r. roundup_u64 x y = Some r \<and> unat y dvd unat r \<and> unat x \<le> unat r \<and> unat r < unat x + unat y"
proof -
  define d where "d = unat y"
  have d: "0 < d" using assms(1) by (simp add: d_def unat_gt_0)
  have le: "(1 :: u64) \<le> ucast y" using d by (simp add: word_le_nat_alt d_def)
  have less: "unat (ucast y - 1 :: u64) = d - 1" using le by (simp add: unat_sub d_def)
  have "unat (x + (ucast y - 1)) = (unat x + (d - 1)) mod 2 ^ 64"
    by (simp only: unat_word_ariths less) simp
  then have sum: "unat (x + ucast y - 1) = unat x + d - 1"
    using assms(2) d by (simp add: d_def add_diff_eq)
  define q where "q = (unat x + d - 1) div d"
  have q: "q * d \<le> unat x + d - 1" "unat x + d - 1 < q * d + d"
    using d dividend_less_div_times [of d "unat x + d - 1"] by (simp_all add: q_def div_times_less_eq_dividend)
  define r where "r = (x + ucast y - 1) div ucast y * ucast y"
  have "unat r = q * d mod 2 ^ 64"
    by (simp add: r_def unat_word_ariths unat_div sum q_def d_def mod_simps)
  also have "\<dots> = q * d" using q(1) assms(2) d by (simp add: d_def)
  finally have "unat r = q * d" .
  moreover have "roundup_u64 x y = Some r"
    using assms(1) by (simp add: roundup_u64_def div_u64_def r_def)
  moreover have "unat x \<le> q * d" "q * d < unat x + d" using q d by linarith+
  ultimately show ?thesis by (simp add: d_def)
qed

theorem roundup_u64_correct_witness:
  "\<exists>r. roundup_u64 1001 10 = Some r \<and> 10 dvd unat r \<and> 1001 \<le> unat r \<and> unat r < 1011"
  using roundup_u64_correct [of 10 1001] by simp

lemma nearest:
  fixes x d :: int
  assumes "0 \<le> x" "0 < d"
  shows "2 * \<bar>d * ((x + d div 2) div d) - x\<bar> \<le> d"
proof -
  define m where "m = (x + d div 2) mod d"
  have "d * ((x + d div 2) div d) = x + d div 2 - m"
    unfolding m_def by (simp add: minus_mod_eq_mult_div)
  then have dist: "d * ((x + d div 2) div d) - x = d div 2 - m" by simp
  have "0 \<le> m" "m < d" using assms(2) by (simp_all add: m_def)
  moreover have "2 * (d div 2) \<le> d" "d \<le> 2 * (d div 2) + 1" by simp_all
  ultimately show ?thesis unfolding dist by arith
qed

lemma sdiv_signed:
  fixes s y d :: int
  assumes "\<bar>s\<bar> = 1" "0 \<le> y"
  shows "(s * y) sdiv d = s * sgn d * (y div \<bar>d\<bar>)"
proof (cases "y = 0")
  case False
  with assms(2) have "0 < y" by simp
  moreover from assms(1) have "sgn s = s" by (auto simp: abs_if sgn_if split: if_splits)
  ultimately show ?thesis using assms(1) by (simp add: signed_divide_int_def sgn_mult abs_mult)
qed (simp add: signed_divide_int_def)

text \<open>
  \<open>DIV_S64_ROUND_CLOSEST\<close> rounds to a nearest integer for all four combinations of signs: twice
  the distance between the dividend and the divisor times the result is at most the magnitude of
  the divisor.
\<close>

theorem DIV_S64_ROUND_CLOSEST_correct:
  assumes "in_s32 d" and "d \<noteq> 0" and "\<bar>x\<bar> + \<bar>d\<bar> < 2 ^ 63"
  shows "\<exists>r. DIV_S64_ROUND_CLOSEST x d = Some r \<and> 2 * \<bar>d * r - x\<bar> \<le> \<bar>d\<bar>"
proof -
  define y where "y = (if (x > 0) = (d > 0) then x + d sdiv 2 else x - d sdiv 2)"
  define q where "q = (\<bar>x\<bar> + \<bar>d\<bar> div 2) div \<bar>d\<bar>"
  have half: "d sdiv 2 = sgn d * (\<bar>d\<bar> div 2)" by (simp add: signed_divide_int_def)
  have y: "y = (if x > 0 then 1 else - 1) * (\<bar>x\<bar> + \<bar>d\<bar> div 2)"
    using assms(2) by (auto simp: y_def half sgn_if abs_if)
  have h: "0 \<le> \<bar>d\<bar> div 2" "\<bar>d\<bar> div 2 \<le> \<bar>d\<bar>" by simp_all
  then have "\<bar>y\<bar> = \<bar>x\<bar> + \<bar>d\<bar> div 2" by (simp add: y abs_mult)
  with assms(3) h have range: "in_s64 y" by (auto simp: in_s64_def)
  have quot: "y sdiv d = (if x > 0 then 1 else - 1) * sgn d * q"
    unfolding y q_def by (rule sdiv_signed) (use h in simp_all)
  have "0 \<le> q" "q \<le> \<bar>x\<bar> + \<bar>d\<bar> div 2"
    using zdiv_mono2 [of "\<bar>x\<bar> + \<bar>d\<bar> div 2" 1 "\<bar>d\<bar>"] assms(2) h
    by (simp_all add: q_def pos_imp_zdiv_nonneg_iff)
  then have "in_s64 (y sdiv d)"
    using assms(3) h by (auto simp: quot in_s64_def sgn_if)
  then have ret: "DIV_S64_ROUND_CLOSEST x d = Some (y sdiv d)"
    using range assms(2) by (simp add: DIV_S64_ROUND_CLOSEST_def div_s64_def y_def [symmetric] Let_def)
  have "\<bar>d * (y sdiv d) - x\<bar> = \<bar>\<bar>d\<bar> * q - \<bar>x\<bar>\<bar>"
  proof -
    have "d * (y sdiv d) - x = (if x > 0 then 1 else - 1) * (\<bar>d\<bar> * q - \<bar>x\<bar>)"
      unfolding quot abs_sgn [of d] by (cases "x > 0") (simp_all add: algebra_simps)
    then show ?thesis by (simp only: abs_mult) simp
  qed
  moreover have "2 * \<bar>\<bar>d\<bar> * q - \<bar>x\<bar>\<bar> \<le> \<bar>d\<bar>"
    unfolding q_def by (rule nearest) (use assms(2) in simp_all)
  ultimately have "2 * \<bar>d * (y sdiv d) - x\<bar> \<le> \<bar>d\<bar>" by (simp only:)
  with ret show ?thesis by blast
qed

theorem DIV_S64_ROUND_CLOSEST_correct_witness:
  "\<exists>r. DIV_S64_ROUND_CLOSEST (- 17) 5 = Some r \<and> 2 * \<bar>5 * r + 17\<bar> \<le> 5"
  using DIV_S64_ROUND_CLOSEST_correct [of 5 "- 17"] by (simp add: in_s32_def)

text \<open>The mask \<open>2 ^ k - 1\<close> splits a word into its quotient and its remainder.\<close>

lemma mask_word: "(2 ^ k - 1 :: u64) = mask k"
  by (simp add: mask_eq_exp_minus_1)

lemma unat_clear_mask: "unat (w AND NOT (mask k) :: u64) = unat w div 2 ^ k * 2 ^ k"
proof -
  have "w AND NOT (mask k) = push_bit k (drop_bit k w)"
    by (rule bit_word_eqI) (auto simp: bit_simps dest: bit_imp_le_length)
  then have "unat (w AND NOT (mask k)) = unat w div 2 ^ k * 2 ^ k mod 2 ^ 64"
    by (simp only: unat_push unat_drop)
  also have "\<dots> = unat w div 2 ^ k * 2 ^ k"
    using le_less_trans [OF div_times_less_eq_dividend ptr_below_top, of w "2 ^ k"] by simp
  finally show ?thesis .
qed

lemma unat_and_mask: "unat (w AND mask k :: u64) = unat w mod 2 ^ k"
  by (simp flip: take_bit_eq_mask take_bit_eq_mod add: unsigned_take_bit_eq)

lemma unat_exp:
  assumes "k < 64"
  shows "unat (2 ^ k :: u64) = 2 ^ k"
proof -
  have "(2 :: nat) ^ k < 2 ^ 64" using assms by (rule power_strict_increasing) simp
  then have "unat (of_nat (2 ^ k) :: u64) = 2 ^ k" by (simp only: unat_of_nat) simp
  then show ?thesis by simp
qed

lemma unat_or_mask:
  assumes "k < 64"
  shows "unat (w OR mask k :: u64) = unat w div 2 ^ k * 2 ^ k + (2 ^ k - 1)"
proof -
  have "w OR mask k = (w AND NOT (mask k)) OR mask k"
    by (rule bit_word_eqI) (auto simp: bit_simps)
  also have "\<dots> = (w AND NOT (mask k)) + mask k"
    by (rule word_add_disjoint) (auto simp: bit_simps)
  finally have "unat (w OR mask k) = (unat w div 2 ^ k * 2 ^ k + unat (mask k :: u64)) mod 2 ^ 64"
    by (simp only: unat_word_ariths unat_clear_mask) simp
  moreover have "unat (mask k :: u64) = 2 ^ k - 1"
    using unat_exp [OF assms] by (simp flip: mask_word add: unat_sub word_le_nat_alt)
  moreover have "unat w div 2 ^ k * 2 ^ k + (2 ^ k - 1) < 2 ^ 64"
  proof -
    have whole: "2 ^ (64 - k) * 2 ^ k = (2 ^ 64 :: nat)" using assms by (simp flip: power_add)
    with ptr_below_top [of w] have "unat w div 2 ^ k < 2 ^ (64 - k)"
      by (simp add: div_less_iff_less_mult)
    then have "Suc (unat w div 2 ^ k) * 2 ^ k \<le> 2 ^ (64 - k) * 2 ^ k" by (intro mult_right_mono) simp_all
    then show ?thesis unfolding whole by simp
  qed
  ultimately show ?thesis by simp
qed

lemma ceil_div:
  fixes d n :: nat
  assumes "0 < d"
  shows "(n + (d - 1)) div d = n div d + (if n mod d = 0 then 0 else 1)" and "(n + (d - 1)) div d \<le> n"
proof -
  have "n + (d - 1) = (n mod d + (d - 1)) + d * (n div d)" by simp
  then have "(n + (d - 1)) div d = (n mod d + (d - 1)) div d + n div d"
    using assms by (metis div_mult_self2 add.commute less_not_refl)
  moreover have "(n mod d + (d - 1)) div d = 1" if "n mod d \<noteq> 0"
    using that assms mod_less_divisor [OF assms, of n] by (intro div_nat_eqI) simp_all
  ultimately show "(n + (d - 1)) div d = n div d + (if n mod d = 0 then 0 else 1)" using assms by simp
  have "n * 1 \<le> n * d" using assms by (intro mult_left_mono) simp_all
  then have "n + (d - 1) < n * d + d" using assms by linarith
  then have "n + (d - 1) < Suc n * d" by simp
  then have "(n + (d - 1)) div d < Suc n" by (simp only: div_less_iff_less_mult [OF assms])
  then show "(n + (d - 1)) div d \<le> n" by simp
qed

lemma div_pow2_up:
  assumes "k < 64"
  shows "\<exists>r. DIV_ROUND_UP_POW2 x (2 ^ k) = Some r \<and> unat r = (unat x + (2 ^ k - 1)) div 2 ^ k"
proof -
  let ?r = "x div 2 ^ k + (if x AND mask k \<noteq> 0 then 1 else 0)"
  have "0 < (2 ^ k :: nat)" by simp
  note ceil = ceil_div [OF this, of "unat x"]
  have test: "x AND mask k \<noteq> 0 \<longleftrightarrow> unat x mod 2 ^ k \<noteq> 0"
    by (metis unat_and_mask unat_0 unat_eq_zero)
  have "unat ?r = (unat x div 2 ^ k + (if unat x mod 2 ^ k = 0 then 0 else 1)) mod 2 ^ 64"
    by (simp add: unat_word_ariths unat_div unat_exp [OF assms] test mod_simps)
  also have "\<dots> = (unat x + (2 ^ k - 1)) div 2 ^ k"
    using le_less_trans [OF ceil(2) ptr_below_top] by (simp only: ceil(1) [symmetric]) simp
  finally have "unat ?r = (unat x + (2 ^ k - 1)) div 2 ^ k" .
  moreover have "(2 ^ k :: u64) \<noteq> 0" using assms by simp
  then have "DIV_ROUND_UP_POW2 x (2 ^ k) = Some ?r" by (simp only: DIV_ROUND_UP_POW2_def mask_word if_False)
  ultimately show ?thesis by blast
qed

lemma round_up_pow2:
  assumes "k < 64"
  shows "unat (round_up x (2 ^ k)) = (unat x + (2 ^ k - 1)) div 2 ^ k * 2 ^ k mod 2 ^ 64"
proof (cases "x = 0")
  case True
  have "(- 1 OR mask k :: u64) = - 1" by simp
  then have "round_up x (2 ^ k) = 0" using True by (simp only: round_up_def mask_word) simp
  with True show ?thesis by simp
next
  case False
  then have "unat x \<noteq> 0" by (metis unat_eq_zero)
  then have x: "unat (x - 1) = unat x - 1" "0 < unat x"
    by (simp_all add: unat_sub word_le_nat_alt)
  have "unat (round_up x (2 ^ k)) = ((unat x - 1) div 2 ^ k * 2 ^ k + (2 ^ k - 1) + 1) mod 2 ^ 64"
    by (simp only: round_up_def mask_word unat_word_ariths unat_or_mask [OF assms] x(1)) simp
  also have "(unat x - 1) div 2 ^ k * 2 ^ k + (2 ^ k - 1) + 1 = ((unat x - 1) div 2 ^ k + 1) * 2 ^ k"
    by simp
  also have "(unat x - 1) div 2 ^ k + 1 = (unat x - 1 + 2 ^ k) div 2 ^ k"
    by (rule div_add_self2 [symmetric]) simp
  also have "unat x - 1 + 2 ^ k = unat x + (2 ^ k - 1)"
    using x(2) by (simp add: Suc_le_eq)
  finally show ?thesis .
qed

text \<open>
  Rounding to a power of two: \<open>round_down\<close> returns the largest multiple that is not above its
  argument, \<open>round_up\<close> the smallest that is not below it, 0 when that multiple is the first one past
  the type, and \<open>DIV_ROUND_UP_POW2\<close> the quotient rounded up, for every dividend and without the
  overflow of the usual form.
\<close>

theorem round_pow2_correct:
  assumes "k < 64"
  shows "unat (round_down x (2 ^ k)) = unat x div 2 ^ k * 2 ^ k \<and>
    unat (round_up x (2 ^ k)) = (unat x + (2 ^ k - 1)) div 2 ^ k * 2 ^ k mod 2 ^ 64 \<and>
    (\<exists>r. DIV_ROUND_UP_POW2 x (2 ^ k) = Some r \<and> unat r = (unat x + (2 ^ k - 1)) div 2 ^ k)"
proof (intro conjI)
  show "unat (round_down x (2 ^ k)) = unat x div 2 ^ k * 2 ^ k"
    by (simp only: round_down_def mask_word unat_clear_mask)
qed (rule round_up_pow2 [OF assms] div_pow2_up [OF assms])+

theorem round_pow2_correct_witness:
  "unat (round_down 4100 4096) = 4096 \<and> unat (round_up 4100 4096) = 8192 \<and>
   unat (round_up 0xFFFFFFFFFFFFFFFF 4096) = 0 \<and> (\<exists>r. DIV_ROUND_UP_POW2 4100 4096 = Some r \<and> unat r = 2)"
  using round_pow2_correct [of 12 4100] round_pow2_correct [of 12 "0xFFFFFFFFFFFFFFFF"] by simp

text \<open>
  \<open>mult_frac\<close> computes \<open>x * n / d\<close> rounded down whenever the result and the product of the
  remainder with \<open>n\<close> fit, even if \<open>x * n\<close> itself does not.
\<close>

theorem mult_frac_correct:
  assumes "d \<noteq> 0" and "unat x * unat n div unat d < 2 ^ 64" and "unat x mod unat d * unat n < 2 ^ 64"
  shows "\<exists>r. mult_frac x n d = Some r \<and> unat r = unat x * unat n div unat d"
proof -
  define e where "e = unat d"
  have e: "0 < e" using assms(1) by (metis e_def unat_eq_zero neq0_conv)
  let ?q = "unat x div e" and ?m = "unat x mod e"
  have "unat x * unat n = ?m * unat n + e * (?q * unat n)"
    by (metis (no_types) add.commute distrib_right mult.assoc mult_div_mod_eq)
  then have exact: "unat x * unat n div e = ?q * unat n + ?m * unat n div e"
    using e by (metis add.commute div_mult_self2 less_not_refl)
  have "unat ((x mod d) * n) = ?m * unat n"
    using assms(3) by (simp add: unat_word_ariths unat_mod e_def mod_simps)
  then have "unat ((x div d) * n + (x mod d) * n div d) = (?q * unat n mod 2 ^ 64 + ?m * unat n div e) mod 2 ^ 64"
    by (simp add: unat_word_ariths unat_div e_def mod_simps)
  also have "\<dots> = unat x * unat n div e"
    using assms(2) by (simp only: exact [symmetric] mod_add_left_eq e_def [symmetric]) simp
  finally show ?thesis using assms(1) by (simp add: mult_frac_def Let_def e_def)
qed

theorem mult_frac_correct_witness:
  "\<exists>r. mult_frac 0xFFFFFFFFFFFFFFFF 3 5 = Some r \<and> unat r = 11068046444225730969"
  using mult_frac_correct [of 5 "0xFFFFFFFFFFFFFFFF" 3] by simp

lemma reciprocal_scale_unat: "unat (reciprocal_scale v e) = unat v * unat e div 4294967296"
  using unat_hi32 [of "mul_u32_u32 v e"]
  by (simp add: reciprocal_scale_def hi32_def mul_u32_u32_def [symmetric] unat_mul32)

text \<open>
  \<open>reciprocal_scale\<close> maps the 32-bit values onto the interval below \<open>ep_ro\<close>: the result is always
  inside, larger values never give smaller results, and every position of the interval is hit.
\<close>

theorem reciprocal_scale_onto:
  assumes "e \<noteq> 0"
  shows "reciprocal_scale v e < e \<and> (v \<le> w \<longrightarrow> reciprocal_scale v e \<le> reciprocal_scale w e) \<and>
    (i < e \<longrightarrow> (\<exists>u. reciprocal_scale u e = i))"
proof (intro conjI impI)
  have "0 < unat e" using assms by (metis unat_eq_zero neq0_conv)
  then have "unat v * unat e < 4294967296 * unat e" using u32_below_top [of v] by simp
  then show "reciprocal_scale v e < e"
    by (simp add: word_less_nat_alt reciprocal_scale_unat div_less_iff_less_mult mult.commute)
  show "reciprocal_scale v e \<le> reciprocal_scale w e" if "v \<le> w"
    using that by (simp add: word_le_nat_alt reciprocal_scale_unat div_le_mono)
  assume i: "i < e"
  let ?B = "4294967296 :: nat"
  define u where "u = (unat i * ?B + (unat e - 1)) div unat e"
  have ie: "unat i + 1 \<le> unat e" "0 < unat e" using i by (simp_all add: word_less_nat_alt)
  then have "(unat i + 1) * ?B \<le> unat e * ?B" by (intro mult_right_mono) simp_all
  then have "unat i * ?B + (unat e - 1) < ?B * unat e" using u32_below_top [of e] by simp
  then have "u < ?B" by (simp only: u_def div_less_iff_less_mult [OF ie(2)])
  then have u: "unat (of_nat u :: u32) = u" by (simp add: unat_of_nat)
  have "u * unat e \<le> unat i * ?B + (unat e - 1)" unfolding u_def by (rule div_times_less_eq_dividend)
  moreover have "unat i * ?B + (unat e - 1) < u * unat e + unat e"
    unfolding u_def add.commute [of _ "unat e"] by (rule dividend_less_div_times [OF ie(2)])
  ultimately have "u * unat e div ?B = unat i"
    using u32_below_top [of e] ie(2) by (intro div_nat_eqI) simp_all
  then have "reciprocal_scale (of_nat u) e = i" by (simp add: word_unat_eq_iff reciprocal_scale_unat u)
  then show "\<exists>u. reciprocal_scale u e = i" by blast
qed

theorem reciprocal_scale_onto_witness:
  "reciprocal_scale 0x80000000 10 < 10 \<and> reciprocal_scale 3 10 \<le> reciprocal_scale 0x80000000 10 \<and>
   (\<exists>u. reciprocal_scale u 10 = 9)"
  using reciprocal_scale_onto [of 10 "0x80000000" "0x80000000" 9] reciprocal_scale_onto [of 10 3 "0x80000000" 9]
  by (simp add: word_le_nat_alt word_less_nat_alt)

end
