(* ===== verification/Net_Base.thy ===== *)
theory Net_Base
  imports Prelude
begin

text \<open>
  What the drivers of servers/ share: the error numbers of servers/errno.h that they return, and the
  link-layer addresses, lists of six bytes.
\<close>

abbreviation ENOMEM :: int where "ENOMEM \<equiv> 12"

abbreviation EFAULT :: int where "EFAULT \<equiv> 14"

abbreviation EINVAL :: int where "EINVAL \<equiv> 22"

abbreviation EMSGSIZE :: int where "EMSGSIZE \<equiv> 90"

abbreviation EOPNOTSUPP :: int where "EOPNOTSUPP \<equiv> 95"

abbreviation EADDRNOTAVAIL :: int where "EADDRNOTAVAIL \<equiv> 99"

type_synonym mac_addr = "u8 list"

definition is_zero_ether_addr :: "mac_addr \<Rightarrow> bool" where
  "is_zero_ether_addr m = list_all (\<lambda>b. b = 0) m"

end
