(* ===== verification/Lacp_Base.thy ===== *)
theory Lacp_Base
  imports Checksum Net_Base "HOL-Library.Monad_Syntax"
begin

text \<open>
  servers/bond_3ad.c (IEEE 802.3ad link aggregation): the data of the protocol and the helper
  functions of its first part. The structures and enumerations are declared in net/bonding.h and
  net/bond_3ad.h, which are not part of the sources: the records below have the fields that
  bond_3ad.c uses, a flag word whose bits those headers number is the set of its flags, and an
  enumeration is a datatype with the names that bond_3ad.c uses. What the headers decide otherwise
  (the tick length, the value that 0 denotes in the state enumerations, the inline functions on a
  slave's flags) is a field of \<open>ad_env\<close>, an argument of the functions that rely on it.

  A slave owns one port and one aggregator, so the addresses of all three are the slave's number;
  \<open>None\<close> is the null pointer.
\<close>

datatype lacp_flag = LACP_ACTIVITY | LACP_TIMEOUT | AGGREGATION | SYNCHRONIZATION | COLLECTING
  | DISTRIBUTING | DEFAULTED | EXPIRED

datatype rx_states_t = AD_RX_DUMMY | AD_RX_INITIALIZE | AD_RX_PORT_DISABLED | AD_RX_LACP_DISABLED
  | AD_RX_EXPIRED | AD_RX_DEFAULTED | AD_RX_CURRENT

datatype periodic_states_t = AD_PERIODIC_DUMMY | AD_NO_PERIODIC | AD_FAST_PERIODIC | AD_SLOW_PERIODIC
  | AD_PERIODIC_TX

datatype mux_states_t = AD_MUX_DUMMY | AD_MUX_DETACHED | AD_MUX_WAITING | AD_MUX_ATTACHED
  | AD_MUX_COLLECTING | AD_MUX_DISTRIBUTING | AD_MUX_COLLECTING_DISTRIBUTING

datatype churn_state_t = AD_CHURN_MONITOR | AD_CHURN | AD_NO_CHURN

datatype ad_timer = AD_CURRENT_WHILE_TIMER | AD_ACTOR_CHURN_TIMER | AD_PERIODIC_TIMER
  | AD_PARTNER_CHURN_TIMER | AD_WAIT_WHILE_TIMER

datatype ad_select_t = BOND_AD_STABLE | BOND_AD_BANDWIDTH | BOND_AD_COUNT | BOND_AD_PRIO | BOND_AD_OTHER

datatype ethtool_speed = SPEED_10 | SPEED_100 | SPEED_1000 | SPEED_2500 | SPEED_5000 | SPEED_10000
  | SPEED_14000 | SPEED_20000 | SPEED_25000 | SPEED_40000 | SPEED_50000 | SPEED_56000 | SPEED_80000
  | SPEED_100000 | SPEED_200000 | SPEED_400000 | SPEED_800000 | SPEED_1600000 | SPEED_OTHER

abbreviation AD_SHORT_TIMEOUT :: u16 where "AD_SHORT_TIMEOUT \<equiv> 1"
abbreviation AD_MAX_TX_IN_SECOND :: u16 where "AD_MAX_TX_IN_SECOND \<equiv> 3"
abbreviation AD_FAST_PERIODIC_TIME :: u16 where "AD_FAST_PERIODIC_TIME \<equiv> 1"
abbreviation AD_SLOW_PERIODIC_TIME :: u16 where "AD_SLOW_PERIODIC_TIME \<equiv> 30"
abbreviation AD_SHORT_TIMEOUT_TIME :: u16 where "AD_SHORT_TIMEOUT_TIME \<equiv> 3 * AD_FAST_PERIODIC_TIME"
abbreviation AD_LONG_TIMEOUT_TIME :: u16 where "AD_LONG_TIMEOUT_TIME \<equiv> 3 * AD_SLOW_PERIODIC_TIME"
abbreviation AD_CHURN_DETECTION_TIME :: u16 where "AD_CHURN_DETECTION_TIME \<equiv> 60"
abbreviation AD_AGGREGATE_WAIT_TIME :: u16 where "AD_AGGREGATE_WAIT_TIME \<equiv> 2"

definition AD_PORT_BEGIN :: u16 where "AD_PORT_BEGIN = 0x1"
definition AD_PORT_LACP_ENABLED :: u16 where "AD_PORT_LACP_ENABLED = 0x2"
definition AD_PORT_ACTOR_CHURN :: u16 where "AD_PORT_ACTOR_CHURN = 0x4"
definition AD_PORT_PARTNER_CHURN :: u16 where "AD_PORT_PARTNER_CHURN = 0x8"
definition AD_PORT_READY :: u16 where "AD_PORT_READY = 0x10"
definition AD_PORT_READY_N :: u16 where "AD_PORT_READY_N = 0x20"
definition AD_PORT_MATCHED :: u16 where "AD_PORT_MATCHED = 0x40"
definition AD_PORT_STANDBY :: u16 where "AD_PORT_STANDBY = 0x80"
definition AD_PORT_SELECTED :: u16 where "AD_PORT_SELECTED = 0x100"
definition AD_PORT_CHURNED :: u16 where "AD_PORT_CHURNED = AD_PORT_ACTOR_CHURN OR AD_PORT_PARTNER_CHURN"

abbreviation AD_DUPLEX_KEY_MASKS :: u16 where "AD_DUPLEX_KEY_MASKS \<equiv> 0x1"
abbreviation AD_SPEED_KEY_MASKS :: u16 where "AD_SPEED_KEY_MASKS \<equiv> 0x3E"

abbreviation lacpdu_mcast_addr :: mac_addr where
  "lacpdu_mcast_addr \<equiv> [0x01, 0x80, 0xC2, 0x00, 0x00, 0x02]"

record port_params =
  pp_system :: mac_addr
  pp_system_priority :: u16
  pp_key :: u16
  pp_port_number :: u16
  pp_port_priority :: u16
  pp_port_state :: "lacp_flag set"

record lacpdu =
  subtype :: u8
  version_number :: u8
  tlv_type_actor_info :: u8
  actor_information_length :: u8
  l_actor_system_priority :: u16
  l_actor_system :: mac_addr
  l_actor_key :: u16
  l_actor_port_priority :: u16
  l_actor_port :: u16
  l_actor_state :: "lacp_flag set"
  tlv_type_partner_info :: u8
  partner_information_length :: u8
  l_partner_system_priority :: u16
  l_partner_system :: mac_addr
  l_partner_key :: u16
  l_partner_port_priority :: u16
  l_partner_port :: u16
  l_partner_state :: "lacp_flag set"
  tlv_type_collector_info :: u8
  collector_information_length :: u8
  collector_max_delay :: u16

record ad_port =
  actor_port_number :: u16
  actor_port_priority :: u16
  actor_system :: mac_addr
  actor_system_priority :: u16
  actor_port_aggregator_identifier :: u16
  ntt :: bool
  actor_admin_port_key :: u16
  actor_oper_port_key :: u16
  actor_admin_port_state :: "lacp_flag set"
  actor_oper_port_state :: "lacp_flag set"
  partner_admin :: port_params
  partner_oper :: port_params
  is_enabled :: bool
  sm_vars :: u16
  sm_rx_state :: rx_states_t
  sm_rx_timer_counter :: u16
  sm_periodic_state :: periodic_states_t
  sm_periodic_timer_counter :: u16
  sm_mux_state :: mux_states_t
  sm_mux_timer_counter :: u16
  sm_tx_timer_counter :: u16
  sm_churn_actor_state :: churn_state_t
  sm_churn_actor_timer_counter :: u16
  churn_actor_count :: u32
  sm_churn_partner_state :: churn_state_t
  sm_churn_partner_timer_counter :: u16
  churn_partner_count :: u32
  p_slave :: "nat option"
  p_aggregator :: "nat option"
  next_port_in_aggregator :: "nat option"
  p_lacpdu :: lacpdu

record ad_env =
  ad_ticks_per_sec :: u16
  zero_rx :: rx_states_t
  zero_periodic :: periodic_states_t
  zero_mux :: mux_states_t
  zero_churn :: churn_state_t
  set_slave_active_flags :: "u32 \<Rightarrow> u32"
  set_slave_inactive_flags :: "u32 \<Rightarrow> u32"
  set_slave_rx_enabled_flags :: "u32 \<Rightarrow> u32"
  set_slave_tx_disabled_flags :: "u32 \<Rightarrow> u32"
  is_active_slave :: "u32 \<Rightarrow> bool"
  is_slave_rx_disabled :: "u32 \<Rightarrow> bool"
  should_notify :: "u32 \<Rightarrow> bool"

definition MAC_ADDRESS_EQUAL :: "mac_addr \<Rightarrow> mac_addr \<Rightarrow> bool" where
  "MAC_ADDRESS_EQUAL a b = (a = b)"

text \<open>The test of a bit of \<open>sm_vars\<close>.\<close>

definition on :: "u16 \<Rightarrow> u16 \<Rightarrow> bool" where
  "on v mask0 = (v AND mask0 \<noteq> 0)"

lemma on_simps [simp]:
  "on v (2 ^ n) = bit v n" "on v 1 = bit v 0"
  using and_exp_eq_0_iff_not_bit [of v n] and_exp_eq_0_iff_not_bit [of v 0] by (auto simp: on_def)

text \<open>The bits of \<open>sm_vars\<close> are independent of each other.\<close>

lemmas sm_masks = AD_PORT_BEGIN_def AD_PORT_LACP_ENABLED_def AD_PORT_ACTOR_CHURN_def AD_PORT_PARTNER_CHURN_def
  AD_PORT_READY_def AD_PORT_READY_N_def AD_PORT_MATCHED_def AD_PORT_STANDBY_def AD_PORT_SELECTED_def AD_PORT_CHURNED_def

lemma on_or [simp]: "on (v OR w) m = (on v m \<or> on w m)"
  by (auto simp: on_def bit_eq_iff bit_simps)

lemma on_clear_bit: "m' = 2 ^ n \<Longrightarrow> on (v AND NOT m) m' = (on v m' \<and> \<not> on m m')"
  by (auto simp: bit_simps dest: bit_imp_le_length)

lemma on_clear [simp]:
  "on (v AND NOT m) AD_PORT_BEGIN = (on v AD_PORT_BEGIN \<and> \<not> on m AD_PORT_BEGIN)"
  "on (v AND NOT m) AD_PORT_LACP_ENABLED = (on v AD_PORT_LACP_ENABLED \<and> \<not> on m AD_PORT_LACP_ENABLED)"
  "on (v AND NOT m) AD_PORT_ACTOR_CHURN = (on v AD_PORT_ACTOR_CHURN \<and> \<not> on m AD_PORT_ACTOR_CHURN)"
  "on (v AND NOT m) AD_PORT_PARTNER_CHURN = (on v AD_PORT_PARTNER_CHURN \<and> \<not> on m AD_PORT_PARTNER_CHURN)"
  "on (v AND NOT m) AD_PORT_READY = (on v AD_PORT_READY \<and> \<not> on m AD_PORT_READY)"
  "on (v AND NOT m) AD_PORT_READY_N = (on v AD_PORT_READY_N \<and> \<not> on m AD_PORT_READY_N)"
  "on (v AND NOT m) AD_PORT_MATCHED = (on v AD_PORT_MATCHED \<and> \<not> on m AD_PORT_MATCHED)"
  "on (v AND NOT m) AD_PORT_STANDBY = (on v AD_PORT_STANDBY \<and> \<not> on m AD_PORT_STANDBY)"
  "on (v AND NOT m) AD_PORT_SELECTED = (on v AD_PORT_SELECTED \<and> \<not> on m AD_PORT_SELECTED)"
  subgoal by (rule on_clear_bit [of _ 0]) (simp add: sm_masks)
  subgoal by (rule on_clear_bit [of _ 1]) (simp add: sm_masks)
  subgoal by (rule on_clear_bit [of _ 2]) (simp add: sm_masks)
  subgoal by (rule on_clear_bit [of _ 3]) (simp add: sm_masks)
  subgoal by (rule on_clear_bit [of _ 4]) (simp add: sm_masks)
  subgoal by (rule on_clear_bit [of _ 5]) (simp add: sm_masks)
  subgoal by (rule on_clear_bit [of _ 6]) (simp add: sm_masks)
  subgoal by (rule on_clear_bit [of _ 7]) (simp add: sm_masks)
  subgoal by (rule on_clear_bit [of _ 8]) (simp add: sm_masks)
  done

lemma on_masks [simp]:
  "on AD_PORT_BEGIN AD_PORT_BEGIN" "\<not> on AD_PORT_BEGIN AD_PORT_LACP_ENABLED" "\<not> on AD_PORT_BEGIN AD_PORT_ACTOR_CHURN" "\<not> on AD_PORT_BEGIN AD_PORT_PARTNER_CHURN" "\<not> on AD_PORT_BEGIN AD_PORT_READY" "\<not> on AD_PORT_BEGIN AD_PORT_READY_N" "\<not> on AD_PORT_BEGIN AD_PORT_MATCHED" "\<not> on AD_PORT_BEGIN AD_PORT_STANDBY" "\<not> on AD_PORT_BEGIN AD_PORT_SELECTED"
  "\<not> on AD_PORT_LACP_ENABLED AD_PORT_BEGIN" "on AD_PORT_LACP_ENABLED AD_PORT_LACP_ENABLED" "\<not> on AD_PORT_LACP_ENABLED AD_PORT_ACTOR_CHURN" "\<not> on AD_PORT_LACP_ENABLED AD_PORT_PARTNER_CHURN" "\<not> on AD_PORT_LACP_ENABLED AD_PORT_READY" "\<not> on AD_PORT_LACP_ENABLED AD_PORT_READY_N" "\<not> on AD_PORT_LACP_ENABLED AD_PORT_MATCHED" "\<not> on AD_PORT_LACP_ENABLED AD_PORT_STANDBY" "\<not> on AD_PORT_LACP_ENABLED AD_PORT_SELECTED"
  "\<not> on AD_PORT_ACTOR_CHURN AD_PORT_BEGIN" "\<not> on AD_PORT_ACTOR_CHURN AD_PORT_LACP_ENABLED" "on AD_PORT_ACTOR_CHURN AD_PORT_ACTOR_CHURN" "\<not> on AD_PORT_ACTOR_CHURN AD_PORT_PARTNER_CHURN" "\<not> on AD_PORT_ACTOR_CHURN AD_PORT_READY" "\<not> on AD_PORT_ACTOR_CHURN AD_PORT_READY_N" "\<not> on AD_PORT_ACTOR_CHURN AD_PORT_MATCHED" "\<not> on AD_PORT_ACTOR_CHURN AD_PORT_STANDBY" "\<not> on AD_PORT_ACTOR_CHURN AD_PORT_SELECTED"
  "\<not> on AD_PORT_PARTNER_CHURN AD_PORT_BEGIN" "\<not> on AD_PORT_PARTNER_CHURN AD_PORT_LACP_ENABLED" "\<not> on AD_PORT_PARTNER_CHURN AD_PORT_ACTOR_CHURN" "on AD_PORT_PARTNER_CHURN AD_PORT_PARTNER_CHURN" "\<not> on AD_PORT_PARTNER_CHURN AD_PORT_READY" "\<not> on AD_PORT_PARTNER_CHURN AD_PORT_READY_N" "\<not> on AD_PORT_PARTNER_CHURN AD_PORT_MATCHED" "\<not> on AD_PORT_PARTNER_CHURN AD_PORT_STANDBY" "\<not> on AD_PORT_PARTNER_CHURN AD_PORT_SELECTED"
  "\<not> on AD_PORT_READY AD_PORT_BEGIN" "\<not> on AD_PORT_READY AD_PORT_LACP_ENABLED" "\<not> on AD_PORT_READY AD_PORT_ACTOR_CHURN" "\<not> on AD_PORT_READY AD_PORT_PARTNER_CHURN" "on AD_PORT_READY AD_PORT_READY" "\<not> on AD_PORT_READY AD_PORT_READY_N" "\<not> on AD_PORT_READY AD_PORT_MATCHED" "\<not> on AD_PORT_READY AD_PORT_STANDBY" "\<not> on AD_PORT_READY AD_PORT_SELECTED"
  "\<not> on AD_PORT_READY_N AD_PORT_BEGIN" "\<not> on AD_PORT_READY_N AD_PORT_LACP_ENABLED" "\<not> on AD_PORT_READY_N AD_PORT_ACTOR_CHURN" "\<not> on AD_PORT_READY_N AD_PORT_PARTNER_CHURN" "\<not> on AD_PORT_READY_N AD_PORT_READY" "on AD_PORT_READY_N AD_PORT_READY_N" "\<not> on AD_PORT_READY_N AD_PORT_MATCHED" "\<not> on AD_PORT_READY_N AD_PORT_STANDBY" "\<not> on AD_PORT_READY_N AD_PORT_SELECTED"
  "\<not> on AD_PORT_MATCHED AD_PORT_BEGIN" "\<not> on AD_PORT_MATCHED AD_PORT_LACP_ENABLED" "\<not> on AD_PORT_MATCHED AD_PORT_ACTOR_CHURN" "\<not> on AD_PORT_MATCHED AD_PORT_PARTNER_CHURN" "\<not> on AD_PORT_MATCHED AD_PORT_READY" "\<not> on AD_PORT_MATCHED AD_PORT_READY_N" "on AD_PORT_MATCHED AD_PORT_MATCHED" "\<not> on AD_PORT_MATCHED AD_PORT_STANDBY" "\<not> on AD_PORT_MATCHED AD_PORT_SELECTED"
  "\<not> on AD_PORT_STANDBY AD_PORT_BEGIN" "\<not> on AD_PORT_STANDBY AD_PORT_LACP_ENABLED" "\<not> on AD_PORT_STANDBY AD_PORT_ACTOR_CHURN" "\<not> on AD_PORT_STANDBY AD_PORT_PARTNER_CHURN" "\<not> on AD_PORT_STANDBY AD_PORT_READY" "\<not> on AD_PORT_STANDBY AD_PORT_READY_N" "\<not> on AD_PORT_STANDBY AD_PORT_MATCHED" "on AD_PORT_STANDBY AD_PORT_STANDBY" "\<not> on AD_PORT_STANDBY AD_PORT_SELECTED"
  "\<not> on AD_PORT_SELECTED AD_PORT_BEGIN" "\<not> on AD_PORT_SELECTED AD_PORT_LACP_ENABLED" "\<not> on AD_PORT_SELECTED AD_PORT_ACTOR_CHURN" "\<not> on AD_PORT_SELECTED AD_PORT_PARTNER_CHURN" "\<not> on AD_PORT_SELECTED AD_PORT_READY" "\<not> on AD_PORT_SELECTED AD_PORT_READY_N" "\<not> on AD_PORT_SELECTED AD_PORT_MATCHED" "\<not> on AD_PORT_SELECTED AD_PORT_STANDBY" "on AD_PORT_SELECTED AD_PORT_SELECTED"
  "\<not> on AD_PORT_CHURNED AD_PORT_BEGIN" "\<not> on AD_PORT_CHURNED AD_PORT_LACP_ENABLED" "on AD_PORT_CHURNED AD_PORT_ACTOR_CHURN" "on AD_PORT_CHURNED AD_PORT_PARTNER_CHURN" "\<not> on AD_PORT_CHURNED AD_PORT_READY" "\<not> on AD_PORT_CHURNED AD_PORT_READY_N" "\<not> on AD_PORT_CHURNED AD_PORT_MATCHED" "\<not> on AD_PORT_CHURNED AD_PORT_STANDBY" "\<not> on AD_PORT_CHURNED AD_PORT_SELECTED"
  by (simp_all add: on_def sm_masks)

definition ad_timer_to_ticks :: "ad_env \<Rightarrow> ad_timer \<Rightarrow> u16 \<Rightarrow> u16" where
  "ad_timer_to_ticks e timer_type par = (case timer_type of
     AD_CURRENT_WHILE_TIMER \<Rightarrow>
       (if par \<noteq> 0 then AD_SHORT_TIMEOUT_TIME * ad_ticks_per_sec e else AD_LONG_TIMEOUT_TIME * ad_ticks_per_sec e)
   | AD_ACTOR_CHURN_TIMER \<Rightarrow> AD_CHURN_DETECTION_TIME * ad_ticks_per_sec e
   | AD_PERIODIC_TIMER \<Rightarrow> par * ad_ticks_per_sec e
   | AD_PARTNER_CHURN_TIMER \<Rightarrow> AD_CHURN_DETECTION_TIME * ad_ticks_per_sec e
   | AD_WAIT_WHILE_TIMER \<Rightarrow> AD_AGGREGATE_WAIT_TIME * ad_ticks_per_sec e)"

end
