(* ===== verification/Lacp_Rx.thy ===== *)
theory Lacp_Rx
  imports Lacp_Base
begin

text \<open>
  The receive machine of servers/bond_3ad.c and the functions it calls on the port: recording the
  parameters of a received LACPDU or the defaults, and the \<open>Selected\<close>, \<open>Matched\<close> and \<open>ntt\<close>
  variables. The counters of received PDUs are kept with the bond (theory Lacp_Mux).
\<close>

definition choose_matched :: "lacpdu \<Rightarrow> ad_port \<Rightarrow> ad_port" where
  "choose_matched l p =
     (if (ntohs (l_partner_port l) = actor_port_number p \<and>
          ntohs (l_partner_port_priority l) = actor_port_priority p \<and>
          MAC_ADDRESS_EQUAL (l_partner_system l) (actor_system p) \<and>
          ntohs (l_partner_system_priority l) = actor_system_priority p \<and>
          ntohs (l_partner_key l) = actor_oper_port_key p \<and>
          (AGGREGATION \<in> l_partner_state l) = (AGGREGATION \<in> actor_oper_port_state p)) \<or>
         AGGREGATION \<notin> l_actor_state l
      then p\<lparr>sm_vars := sm_vars p OR AD_PORT_MATCHED\<rparr>
      else p\<lparr>sm_vars := sm_vars p AND NOT AD_PORT_MATCHED\<rparr>)"

definition record_pdu :: "lacpdu \<Rightarrow> ad_port \<Rightarrow> ad_port" where
  "record_pdu l p =
     (let p = choose_matched l p;
          partner = (partner_oper p)\<lparr>pp_port_number := ntohs (l_actor_port l),
            pp_port_priority := ntohs (l_actor_port_priority l), pp_system := l_actor_system l,
            pp_system_priority := ntohs (l_actor_system_priority l), pp_key := ntohs (l_actor_key l),
            pp_port_state := l_actor_state l\<rparr>;
          p = p\<lparr>actor_oper_port_state := actor_oper_port_state p - {DEFAULTED}\<rparr>;
          partner = (if on (sm_vars p) AD_PORT_MATCHED \<and> SYNCHRONIZATION \<in> l_actor_state l
            then partner\<lparr>pp_port_state := insert SYNCHRONIZATION (pp_port_state partner)\<rparr>
            else partner\<lparr>pp_port_state := pp_port_state partner - {SYNCHRONIZATION}\<rparr>)
      in p\<lparr>partner_oper := partner\<rparr>)"

definition record_default :: "ad_port \<Rightarrow> ad_port" where
  "record_default p = p\<lparr>partner_oper := partner_admin p,
     actor_oper_port_state := insert DEFAULTED (actor_oper_port_state p)\<rparr>"

definition update_selected :: "lacpdu \<Rightarrow> ad_port \<Rightarrow> ad_port" where
  "update_selected l p =
     (let partner = partner_oper p
      in if ntohs (l_actor_port l) \<noteq> pp_port_number partner \<or>
            ntohs (l_actor_port_priority l) \<noteq> pp_port_priority partner \<or>
            \<not> MAC_ADDRESS_EQUAL (l_actor_system l) (pp_system partner) \<or>
            ntohs (l_actor_system_priority l) \<noteq> pp_system_priority partner \<or>
            ntohs (l_actor_key l) \<noteq> pp_key partner \<or>
            (AGGREGATION \<in> l_actor_state l) \<noteq> (AGGREGATION \<in> pp_port_state partner)
         then p\<lparr>sm_vars := sm_vars p AND NOT AD_PORT_SELECTED\<rparr> else p)"

definition update_default_selected :: "ad_port \<Rightarrow> ad_port" where
  "update_default_selected p =
     (let admin = partner_admin p; oper = partner_oper p
      in if pp_port_number admin \<noteq> pp_port_number oper \<or>
            pp_port_priority admin \<noteq> pp_port_priority oper \<or>
            \<not> MAC_ADDRESS_EQUAL (pp_system admin) (pp_system oper) \<or>
            pp_system_priority admin \<noteq> pp_system_priority oper \<or>
            pp_key admin \<noteq> pp_key oper \<or>
            (AGGREGATION \<in> pp_port_state admin) \<noteq> (AGGREGATION \<in> pp_port_state oper)
         then p\<lparr>sm_vars := sm_vars p AND NOT AD_PORT_SELECTED\<rparr> else p)"

definition update_ntt :: "lacpdu \<Rightarrow> ad_port \<Rightarrow> ad_port" where
  "update_ntt l p =
     (if ntohs (l_partner_port l) \<noteq> actor_port_number p \<or>
         ntohs (l_partner_port_priority l) \<noteq> actor_port_priority p \<or>
         \<not> MAC_ADDRESS_EQUAL (l_partner_system l) (actor_system p) \<or>
         ntohs (l_partner_system_priority l) \<noteq> actor_system_priority p \<or>
         ntohs (l_partner_key l) \<noteq> actor_oper_port_key p \<or>
         (LACP_ACTIVITY \<in> l_partner_state l) \<noteq> (LACP_ACTIVITY \<in> actor_oper_port_state p) \<or>
         (LACP_TIMEOUT \<in> l_partner_state l) \<noteq> (LACP_TIMEOUT \<in> actor_oper_port_state p) \<or>
         (SYNCHRONIZATION \<in> l_partner_state l) \<noteq> (SYNCHRONIZATION \<in> actor_oper_port_state p) \<or>
         (AGGREGATION \<in> l_partner_state l) \<noteq> (AGGREGATION \<in> actor_oper_port_state p)
      then p\<lparr>ntt := True\<rparr> else p)"

definition update_lacpdu_from_port :: "ad_port \<Rightarrow> ad_port" where
  "update_lacpdu_from_port p =
     (let partner = partner_oper p
      in p\<lparr>p_lacpdu := (p_lacpdu p)\<lparr>
        l_actor_system_priority := htons (actor_system_priority p), l_actor_system := actor_system p,
        l_actor_key := htons (actor_oper_port_key p), l_actor_port_priority := htons (actor_port_priority p),
        l_actor_port := htons (actor_port_number p), l_actor_state := actor_oper_port_state p,
        l_partner_system_priority := htons (pp_system_priority partner), l_partner_system := pp_system partner,
        l_partner_key := htons (pp_key partner), l_partner_port_priority := htons (pp_port_priority partner),
        l_partner_port := htons (pp_port_number partner), l_partner_state := pp_port_state partner\<rparr>\<rparr>)"

text \<open>The transition part and the entry actions of \<open>ad_rx_machine\<close>.\<close>

definition rx_transition :: "lacpdu option \<Rightarrow> ad_port \<Rightarrow> ad_port" where
  "rx_transition l p =
     (if on (sm_vars p) AD_PORT_BEGIN
      then p\<lparr>sm_rx_state := AD_RX_INITIALIZE, sm_vars := sm_vars p OR AD_PORT_CHURNED\<rparr>
      else if \<not> is_enabled p then p\<lparr>sm_rx_state := AD_RX_PORT_DISABLED\<rparr>
      else if l \<noteq> None \<and> sm_rx_state p \<in> {AD_RX_EXPIRED, AD_RX_DEFAULTED, AD_RX_CURRENT} then
        let p = (if sm_rx_state p \<noteq> AD_RX_CURRENT then p\<lparr>sm_vars := sm_vars p OR AD_PORT_CHURNED\<rparr> else p)
        in p\<lparr>sm_rx_timer_counter := 0, sm_rx_state := AD_RX_CURRENT\<rparr>
      else if sm_rx_timer_counter p \<noteq> 0 \<and> sm_rx_timer_counter p - 1 = 0 then
        let p = p\<lparr>sm_rx_timer_counter := 0\<rparr>
        in (case sm_rx_state p of
              AD_RX_EXPIRED \<Rightarrow> p\<lparr>sm_rx_state := AD_RX_DEFAULTED\<rparr>
            | AD_RX_CURRENT \<Rightarrow> p\<lparr>sm_rx_state := AD_RX_EXPIRED\<rparr>
            | _ \<Rightarrow> p)
      else
        let p = (if sm_rx_timer_counter p \<noteq> 0
                 then p\<lparr>sm_rx_timer_counter := sm_rx_timer_counter p - 1\<rparr> else p)
        in (case sm_rx_state p of
              AD_RX_PORT_DISABLED \<Rightarrow>
                (if is_enabled p \<and> on (sm_vars p) AD_PORT_LACP_ENABLED then p\<lparr>sm_rx_state := AD_RX_EXPIRED\<rparr>
                 else if is_enabled p \<and> \<not> on (sm_vars p) AD_PORT_LACP_ENABLED
                 then p\<lparr>sm_rx_state := AD_RX_LACP_DISABLED\<rparr> else p)
            | _ \<Rightarrow> p))"

definition rx_action :: "ad_env \<Rightarrow> lacpdu option \<Rightarrow> ad_port \<Rightarrow> ad_port defined" where
  "rx_action e l p = (case sm_rx_state p of
     AD_RX_INITIALIZE \<Rightarrow>
       let p = (if actor_oper_port_key p AND AD_DUPLEX_KEY_MASKS = 0
                then p\<lparr>sm_vars := sm_vars p AND NOT AD_PORT_LACP_ENABLED\<rparr>
                else p\<lparr>sm_vars := sm_vars p OR AD_PORT_LACP_ENABLED\<rparr>);
           p = record_default (p\<lparr>sm_vars := sm_vars p AND NOT AD_PORT_SELECTED\<rparr>);
           p = p\<lparr>actor_oper_port_state := actor_oper_port_state p - {EXPIRED}, sm_rx_state := AD_RX_PORT_DISABLED\<rparr>
       in Some (p\<lparr>sm_vars := sm_vars p AND NOT AD_PORT_MATCHED\<rparr>)
   | AD_RX_PORT_DISABLED \<Rightarrow> Some (p\<lparr>sm_vars := sm_vars p AND NOT AD_PORT_MATCHED\<rparr>)
   | AD_RX_LACP_DISABLED \<Rightarrow>
       let p = record_default (p\<lparr>sm_vars := sm_vars p AND NOT AD_PORT_SELECTED\<rparr>);
           p = p\<lparr>partner_oper := (partner_oper p)\<lparr>pp_port_state := pp_port_state (partner_oper p) - {AGGREGATION}\<rparr>\<rparr>
       in Some (p\<lparr>sm_vars := sm_vars p OR AD_PORT_MATCHED,
                  actor_oper_port_state := actor_oper_port_state p - {EXPIRED}\<rparr>)
   | AD_RX_EXPIRED \<Rightarrow>
       let p = p\<lparr>sm_vars := sm_vars p AND NOT AD_PORT_MATCHED\<rparr>;
           p = p\<lparr>partner_oper := (partner_oper p)\<lparr>pp_port_state := pp_port_state (partner_oper p) - {SYNCHRONIZATION}\<rparr>\<rparr>;
           p = p\<lparr>partner_oper := (partner_oper p)\<lparr>pp_port_state := insert LACP_TIMEOUT (pp_port_state (partner_oper p))\<rparr>\<rparr>
       in Some (p\<lparr>sm_rx_timer_counter := ad_timer_to_ticks e AD_CURRENT_WHILE_TIMER AD_SHORT_TIMEOUT,
                  actor_oper_port_state := insert EXPIRED (actor_oper_port_state p),
                  sm_vars := sm_vars p OR AD_PORT_CHURNED\<rparr>)
   | AD_RX_DEFAULTED \<Rightarrow>
       let p = record_default (update_default_selected p)
       in Some (p\<lparr>sm_vars := sm_vars p OR AD_PORT_MATCHED,
                  actor_oper_port_state := actor_oper_port_state p - {EXPIRED}\<rparr>)
   | AD_RX_CURRENT \<Rightarrow> (case l of
         None \<Rightarrow> None
       | Some l \<Rightarrow>
           if MAC_ADDRESS_EQUAL (l_actor_system l) (actor_system p) then Some p
           else let p = record_pdu l (update_ntt l (update_selected l p))
                in Some (p\<lparr>sm_rx_timer_counter := ad_timer_to_ticks e AD_CURRENT_WHILE_TIMER
                              (if LACP_TIMEOUT \<in> actor_oper_port_state p then 1 else 0),
                           actor_oper_port_state := actor_oper_port_state p - {EXPIRED}\<rparr>))
   | AD_RX_DUMMY \<Rightarrow> Some p)"

definition rx_machine :: "ad_env \<Rightarrow> lacpdu option \<Rightarrow> ad_port \<Rightarrow> ad_port defined" where
  "rx_machine e l p =
     (let last_state = sm_rx_state p; p = rx_transition l p
      in if sm_rx_state p \<noteq> last_state \<or> l \<noteq> None then rx_action e l p else Some p)"

subsection \<open>The machine is total\<close>

lemma rx_machine_defined: "\<exists>p'. rx_machine e l p = Some p'"
proof -
  have "sm_rx_state (rx_transition l p) = AD_RX_CURRENT \<Longrightarrow> AD_RX_CURRENT = sm_rx_state p \<or> l \<noteq> None"
    by (auto simp: rx_transition_def Let_def split: if_splits rx_states_t.splits)
  then show ?thesis
    by (auto simp: rx_machine_def rx_action_def Let_def split: rx_states_t.split option.split)
qed

fun rx_ticks :: "ad_env \<Rightarrow> nat \<Rightarrow> ad_port \<Rightarrow> ad_port defined" where
  "rx_ticks e 0 p = Some p"
| "rx_ticks e (Suc n) p = rx_machine e None p \<bind> rx_ticks e n"

lemma rx_ticks_add: "rx_ticks e (m + n) p = rx_ticks e m p \<bind> rx_ticks e n"
  by (induction m arbitrary: p) (auto split: bind_splits)

definition running :: "ad_port \<Rightarrow> bool" where
  "running p = (is_enabled p \<and> \<not> on (sm_vars p) AD_PORT_BEGIN)"

lemma rx_tick_counts:
  assumes "running p" "sm_rx_state p \<in> {AD_RX_CURRENT, AD_RX_EXPIRED}" "1 < unat (sm_rx_timer_counter p)"
  shows "rx_machine e None p = Some (p\<lparr>sm_rx_timer_counter := sm_rx_timer_counter p - 1\<rparr>)"
proof -
  have "sm_rx_timer_counter p \<noteq> 0" "sm_rx_timer_counter p - 1 \<noteq> 0" using assms(3) by auto
  with assms(1,2) show ?thesis by (auto simp: rx_machine_def rx_transition_def running_def Let_def)
qed

lemma rx_ticks_count:
  "running p \<Longrightarrow> sm_rx_state p \<in> {AD_RX_CURRENT, AD_RX_EXPIRED} \<Longrightarrow> k < unat (sm_rx_timer_counter p) \<Longrightarrow>
     rx_ticks e k p = Some (p\<lparr>sm_rx_timer_counter := sm_rx_timer_counter p - of_nat k\<rparr>)"
proof (induction k arbitrary: p)
  case (Suc k)
  let ?p = "p\<lparr>sm_rx_timer_counter := sm_rx_timer_counter p - 1\<rparr>"
  have "unat (sm_rx_timer_counter p - 1) = unat (sm_rx_timer_counter p) - 1"
    using Suc.prems(3) by (simp add: unat_sub_if')
  with Suc.prems Suc.IH [of ?p] rx_tick_counts [of p e] show ?case
    by (auto simp: running_def diff_diff_eq)
qed simp

lemma count_down_last: "v \<noteq> 0 \<Longrightarrow> v - of_nat (unat v - 1) = 1" for v :: u16
proof -
  assume "v \<noteq> 0"
  then have "1 \<le> unat v" by (simp add: Suc_leI unat_gt_0)
  then have "of_nat (unat v - 1) = v - 1" by (simp add: of_nat_diff)
  then show ?thesis by simp
qed

lemma rx_ticks_last:
  assumes "running p" "sm_rx_state p \<in> {AD_RX_CURRENT, AD_RX_EXPIRED}" "sm_rx_timer_counter p \<noteq> 0"
  shows "rx_ticks e (unat (sm_rx_timer_counter p)) p = rx_machine e None (p\<lparr>sm_rx_timer_counter := 1\<rparr>)"
proof -
  let ?n = "unat (sm_rx_timer_counter p)"
  have n: "0 < ?n" using assms(3) by (simp add: unat_gt_0)
  then have "rx_ticks e (?n - 1) p = Some (p\<lparr>sm_rx_timer_counter := 1\<rparr>)"
    using rx_ticks_count [OF assms(1,2), of "?n - 1" e] count_down_last [OF assms(3)] by simp
  then show ?thesis using rx_ticks_add [of e "?n - 1" 1 p] n by (cases "rx_machine e None (p\<lparr>sm_rx_timer_counter := 1\<rparr>)") auto
qed

lemma rx_tick_expires:
  assumes "running p" "sm_rx_state p = AD_RX_CURRENT" "sm_rx_timer_counter p = 1"
  shows "\<exists>q. rx_machine e None p = Some q \<and> running q \<and> sm_rx_state q = AD_RX_EXPIRED \<and>
    sm_rx_timer_counter q = 3 * ad_ticks_per_sec e \<and> SYNCHRONIZATION \<notin> pp_port_state (partner_oper q) \<and>
    EXPIRED \<in> actor_oper_port_state q \<and> partner_admin q = partner_admin p"
  using assms
  by (auto simp: rx_machine_def rx_transition_def rx_action_def running_def Let_def ad_timer_to_ticks_def)

lemma rx_tick_defaults:
  assumes "running p" "sm_rx_state p = AD_RX_EXPIRED" "sm_rx_timer_counter p = 1"
  shows "\<exists>q. rx_machine e None p = Some q \<and> sm_rx_state q = AD_RX_DEFAULTED \<and>
    partner_oper q = partner_admin p \<and> DEFAULTED \<in> actor_oper_port_state q"
  using assms
  by (auto simp: rx_machine_def rx_transition_def rx_action_def running_def Let_def record_default_def
      update_default_selected_def)

subsection \<open>Exchange of LACPDUs\<close>

text \<open>What port \<open>a\<close> believes of its partner is what port \<open>b\<close> says of itself.\<close>

definition knows :: "ad_port \<Rightarrow> ad_port \<Rightarrow> bool" where
  "knows a b = (pp_port_number (partner_oper a) = actor_port_number b \<and>
     pp_port_priority (partner_oper a) = actor_port_priority b \<and> pp_system (partner_oper a) = actor_system b \<and>
     pp_system_priority (partner_oper a) = actor_system_priority b \<and> pp_key (partner_oper a) = actor_oper_port_key b \<and>
     (AGGREGATION \<in> pp_port_state (partner_oper a)) = (AGGREGATION \<in> actor_oper_port_state b))"

definition listening :: "ad_port \<Rightarrow> bool" where
  "listening b = (running b \<and> sm_rx_state b \<in> {AD_RX_EXPIRED, AD_RX_DEFAULTED, AD_RX_CURRENT})"

definition pdu_of :: "ad_port \<Rightarrow> lacpdu" where
  "pdu_of a = p_lacpdu (update_lacpdu_from_port a)"

lemma choose_matched_pdu:
  "on (sm_vars (choose_matched (pdu_of a) b)) AD_PORT_MATCHED =
     (knows a b \<or> AGGREGATION \<notin> actor_oper_port_state a)"
  by (auto simp: choose_matched_def pdu_of_def update_lacpdu_from_port_def Let_def knows_def MAC_ADDRESS_EQUAL_def)

lemma rx_current:
  assumes "listening b" "actor_system a \<noteq> actor_system b"
  shows "\<exists>b0. rx_machine e (Some (pdu_of a)) b = Some (
      let p = record_pdu (pdu_of a) (update_ntt (pdu_of a) (update_selected (pdu_of a) b0))
      in p\<lparr>sm_rx_timer_counter := ad_timer_to_ticks e AD_CURRENT_WHILE_TIMER
             (if LACP_TIMEOUT \<in> actor_oper_port_state p then 1 else 0),
           actor_oper_port_state := actor_oper_port_state p - {EXPIRED}\<rparr>) \<and>
    sm_rx_state b0 = AD_RX_CURRENT \<and> knows a b0 = knows a b \<and> partner_oper b0 = partner_oper b \<and>
    actor_oper_port_state b0 = actor_oper_port_state b \<and> on (sm_vars b0) AD_PORT_SELECTED = on (sm_vars b) AD_PORT_SELECTED"
proof -
  let ?b = "rx_transition (Some (pdu_of a)) b"
  have b: "sm_rx_state ?b = AD_RX_CURRENT" "knows a ?b = knows a b" "partner_oper ?b = partner_oper b"
    "actor_oper_port_state ?b = actor_oper_port_state b" "actor_system ?b = actor_system b"
    "on (sm_vars ?b) AD_PORT_SELECTED = on (sm_vars b) AD_PORT_SELECTED"
    using assms(1) by (auto simp: rx_transition_def listening_def running_def Let_def knows_def)
  have "l_actor_system (pdu_of a) = actor_system a"
    by (simp add: pdu_of_def update_lacpdu_from_port_def Let_def)
  with b assms(2) have "rx_machine e (Some (pdu_of a)) b = Some (
      let p = record_pdu (pdu_of a) (update_ntt (pdu_of a) (update_selected (pdu_of a) ?b))
      in p\<lparr>sm_rx_timer_counter := ad_timer_to_ticks e AD_CURRENT_WHILE_TIMER
             (if LACP_TIMEOUT \<in> actor_oper_port_state p then 1 else 0),
           actor_oper_port_state := actor_oper_port_state p - {EXPIRED}\<rparr>)"
    by (simp add: rx_machine_def rx_action_def MAC_ADDRESS_EQUAL_def Let_def)
  with b show ?thesis by blast
qed

subsection \<open>Properties\<close>

text \<open>
  C8: An LACPDU carries the sender's parameters to the receiver unchanged: a listening port that
  receives the PDU which another system's port has built becomes current, and records as its partner
  exactly that port's actor parameters; the partner counts as synchronised only if it says so and
  the receiver is matched, which it is when the sender knows the receiver or is not aggregatable. Whether
  LACP is active on either side, which the comment of \<open>__choose_matched\<close> requires in addition, plays no
  part: two passive ports match as well.
\<close>

theorem lacpdu_exchange:
  assumes "listening b" "actor_system a \<noteq> actor_system b"
  shows "\<exists>b'. rx_machine e (Some (p_lacpdu (update_lacpdu_from_port a))) b = Some b' \<and>
    sm_rx_state b' = AD_RX_CURRENT \<and>
    on (sm_vars b') AD_PORT_MATCHED = (knows a b \<or> AGGREGATION \<notin> actor_oper_port_state a) \<and>
    partner_oper b' = \<lparr>pp_system = actor_system a, pp_system_priority = actor_system_priority a,
      pp_key = actor_oper_port_key a, pp_port_number = actor_port_number a, pp_port_priority = actor_port_priority a,
      pp_port_state = (if on (sm_vars b') AD_PORT_MATCHED then actor_oper_port_state a
        else actor_oper_port_state a - {SYNCHRONIZATION})\<rparr>"
proof -
  obtain b0 where r: "rx_machine e (Some (pdu_of a)) b = Some (
      let p = record_pdu (pdu_of a) (update_ntt (pdu_of a) (update_selected (pdu_of a) b0))
      in p\<lparr>sm_rx_timer_counter := ad_timer_to_ticks e AD_CURRENT_WHILE_TIMER
             (if LACP_TIMEOUT \<in> actor_oper_port_state p then 1 else 0),
           actor_oper_port_state := actor_oper_port_state p - {EXPIRED}\<rparr>)"
    and b0: "sm_rx_state b0 = AD_RX_CURRENT" "knows a b0 = knows a b"
    using rx_current [OF assms, of e] by blast
  let ?c = "update_ntt (pdu_of a) (update_selected (pdu_of a) b0)"
  have c: "sm_rx_state ?c = AD_RX_CURRENT" "knows a ?c = knows a b"
    using b0 by (simp_all add: update_ntt_def update_selected_def Let_def knows_def)
  have f: "l_actor_port (pdu_of a) = htons (actor_port_number a)" "l_actor_port_priority (pdu_of a) = htons (actor_port_priority a)"
    "l_actor_system (pdu_of a) = actor_system a" "l_actor_system_priority (pdu_of a) = htons (actor_system_priority a)"
    "l_actor_key (pdu_of a) = htons (actor_oper_port_key a)" "l_actor_state (pdu_of a) = actor_oper_port_state a"
    by (simp_all add: pdu_of_def update_lacpdu_from_port_def Let_def)
  have st: "sm_rx_state (choose_matched l q) = sm_rx_state q" for l q by (simp add: choose_matched_def)
  show ?thesis
    by (rule exI, rule conjI, rule r [unfolded pdu_of_def])
      (auto simp: record_pdu_def Let_def f [unfolded pdu_of_def] c [unfolded pdu_of_def] st
        choose_matched_pdu [unfolded pdu_of_def] intro!: port_params.equality)
qed

definition no_params :: port_params where
  "no_params = \<lparr>pp_system = [0, 0, 0, 0, 0, 0], pp_system_priority = 0xffff, pp_key = 1, pp_port_number = 1,
     pp_port_priority = 0xff, pp_port_state = {}\<rparr>"

definition no_lacpdu :: lacpdu where
  "no_lacpdu = \<lparr>subtype = 1, version_number = 1, tlv_type_actor_info = 1, actor_information_length = 0x14,
     l_actor_system_priority = 0, l_actor_system = [0, 0, 0, 0, 0, 0], l_actor_key = 0, l_actor_port_priority = 0,
     l_actor_port = 0, l_actor_state = {}, tlv_type_partner_info = 2, partner_information_length = 0x14,
     l_partner_system_priority = 0, l_partner_system = [0, 0, 0, 0, 0, 0], l_partner_key = 0, l_partner_port_priority = 0,
     l_partner_port = 0, l_partner_state = {}, tlv_type_collector_info = 3, collector_information_length = 0x10,
     collector_max_delay = 0\<rparr>"

definition sample_port :: "u8 \<Rightarrow> u16 \<Rightarrow> ad_port" where
  "sample_port sys num = \<lparr>actor_port_number = num, actor_port_priority = 0xff, actor_system = [2, 0, 0, 0, 0, sys],
     actor_system_priority = 0xffff, actor_port_aggregator_identifier = 0, ntt = False, actor_admin_port_key = 9,
     actor_oper_port_key = 9, actor_admin_port_state = {AGGREGATION}, actor_oper_port_state = {AGGREGATION, LACP_TIMEOUT},
     partner_admin = no_params, partner_oper = no_params, is_enabled = True, sm_vars = AD_PORT_LACP_ENABLED,
     sm_rx_state = AD_RX_CURRENT, sm_rx_timer_counter = 30, sm_periodic_state = AD_NO_PERIODIC, sm_periodic_timer_counter = 0,
     sm_mux_state = AD_MUX_DETACHED, sm_mux_timer_counter = 0, sm_tx_timer_counter = 0, sm_churn_actor_state = AD_CHURN_MONITOR,
     sm_churn_actor_timer_counter = 0, churn_actor_count = 0, sm_churn_partner_state = AD_CHURN_MONITOR,
     sm_churn_partner_timer_counter = 0, churn_partner_count = 0, p_slave = Some 0, p_aggregator = None,
     next_port_in_aggregator = None, p_lacpdu = no_lacpdu\<rparr>"

definition sample_env :: ad_env where
  "sample_env = \<lparr>ad_ticks_per_sec = 10, zero_rx = AD_RX_DUMMY, zero_periodic = AD_PERIODIC_DUMMY,
     zero_mux = AD_MUX_DUMMY, zero_churn = AD_CHURN_MONITOR, set_slave_active_flags = (\<lambda>_. 0),
     set_slave_inactive_flags = (\<lambda>_. 3), set_slave_rx_enabled_flags = (\<lambda>f. f AND NOT 2),
     set_slave_tx_disabled_flags = (\<lambda>f. f OR 1), is_active_slave = (\<lambda>f. f AND 1 = 0),
     is_slave_rx_disabled = (\<lambda>f. f AND 2 \<noteq> 0), should_notify = (\<lambda>_. False)\<rparr>"

lemma sample_port_listens: "listening (sample_port sys num)"
  by (simp add: listening_def running_def sample_port_def)

theorem lacpdu_exchange_witness:
  "listening (sample_port 1 1) \<and> actor_system (sample_port 2 7) \<noteq> actor_system (sample_port 1 1) \<and>
   (\<exists>b'. rx_machine sample_env (Some (p_lacpdu (update_lacpdu_from_port (sample_port 2 7)))) (sample_port 1 1) = Some b' \<and>
     pp_port_number (partner_oper b') = 7 \<and> \<not> on (sm_vars b') AD_PORT_MATCHED)"
proof -
  have ne: "actor_system (sample_port 2 7) \<noteq> actor_system (sample_port 1 1)" by (simp add: sample_port_def)
  have "\<not> knows (sample_port 2 7) (sample_port 1 1)" by (simp add: knows_def sample_port_def no_params_def)
  moreover have "AGGREGATION \<in> actor_oper_port_state (sample_port 2 7)" "actor_port_number (sample_port 2 7) = 7"
    by (simp_all add: sample_port_def)
  ultimately show ?thesis
    using lacpdu_exchange [OF sample_port_listens ne, of sample_env] ne sample_port_listens by auto
qed

text \<open>
  C9: A current port that hears nothing more stays current for the ticks its timer has left, then
  expires (its partner no longer counts as synchronised), and after another three seconds falls back
  to the administrative defaults for its partner.
\<close>

theorem silent_partner_times_out:
  assumes "running p" "sm_rx_state p = AD_RX_CURRENT" "sm_rx_timer_counter p = n" "n \<noteq> 0"
    and "0 < unat (ad_ticks_per_sec e)" "3 * unat (ad_ticks_per_sec e) < 65536"
  shows "(\<forall>k < unat n. rx_ticks e k p = Some (p\<lparr>sm_rx_timer_counter := n - of_nat k\<rparr>)) \<and>
    (\<exists>q. rx_ticks e (unat n) p = Some q \<and> sm_rx_state q = AD_RX_EXPIRED \<and>
       SYNCHRONIZATION \<notin> pp_port_state (partner_oper q) \<and> EXPIRED \<in> actor_oper_port_state q) \<and>
    (\<exists>r. rx_ticks e (unat n + 3 * unat (ad_ticks_per_sec e)) p = Some r \<and> sm_rx_state r = AD_RX_DEFAULTED \<and>
       partner_oper r = partner_admin p \<and> DEFAULTED \<in> actor_oper_port_state r)"
proof -
  obtain q where q: "rx_machine e None (p\<lparr>sm_rx_timer_counter := 1\<rparr>) = Some q" "running q"
      "sm_rx_state q = AD_RX_EXPIRED" "sm_rx_timer_counter q = 3 * ad_ticks_per_sec e"
      "SYNCHRONIZATION \<notin> pp_port_state (partner_oper q)" "EXPIRED \<in> actor_oper_port_state q"
      "partner_admin q = partner_admin p"
    using rx_tick_expires [of "p\<lparr>sm_rx_timer_counter := 1\<rparr>" e] assms(1,2) by (auto simp: running_def)
  have n: "rx_ticks e (unat n) p = Some q"
    using rx_ticks_last [of p e] assms(1-4) q(1) by simp
  have t: "unat (sm_rx_timer_counter q) = 3 * unat (ad_ticks_per_sec e)"
    using assms(5,6) q(4) by (simp add: unat_word_ariths)
  then have tq: "sm_rx_timer_counter q \<noteq> 0" using assms(5) by auto
  obtain r where r: "rx_machine e None (q\<lparr>sm_rx_timer_counter := 1\<rparr>) = Some r" "sm_rx_state r = AD_RX_DEFAULTED"
      "partner_oper r = partner_admin p" "DEFAULTED \<in> actor_oper_port_state r"
    using rx_tick_defaults [of "q\<lparr>sm_rx_timer_counter := 1\<rparr>" e] q(2,3,7) by (auto simp: running_def)
  have "rx_ticks e (3 * unat (ad_ticks_per_sec e)) q = Some r"
    using rx_ticks_last [of q e] q(2,3) tq r(1) t by simp
  then have "rx_ticks e (unat n + 3 * unat (ad_ticks_per_sec e)) p = Some r" by (simp add: rx_ticks_add n)
  moreover have "\<forall>k < unat n. rx_ticks e k p = Some (p\<lparr>sm_rx_timer_counter := n - of_nat k\<rparr>)"
    using rx_ticks_count [of p] assms(1-3) by simp
  ultimately show ?thesis using r(2-) n q by blast
qed

theorem silent_partner_times_out_witness:
  "running (sample_port 1 1) \<and> sm_rx_state (sample_port 1 1) = AD_RX_CURRENT \<and>
   (\<exists>r. rx_ticks sample_env 60 (sample_port 1 1) = Some r \<and> sm_rx_state r = AD_RX_DEFAULTED)"
proof -
  have a: "running (sample_port 1 1)" "sm_rx_state (sample_port 1 1) = AD_RX_CURRENT"
    "sm_rx_timer_counter (sample_port 1 1) = 30" "(30 :: u16) \<noteq> 0" "0 < unat (ad_ticks_per_sec sample_env)"
    "3 * unat (ad_ticks_per_sec sample_env) < 65536"
    by (simp_all add: running_def sample_port_def sample_env_def)
  have "unat (30 :: u16) + 3 * unat (ad_ticks_per_sec sample_env) = 60" by (simp add: sample_env_def)
  with silent_partner_times_out [OF a] a show ?thesis by auto
qed

text \<open>
  A looped-back LACPDU (one that carries the port's own system) stops the timer of a current port
  and nothing restarts it: the port stays current, with its recorded partner, for ever.
\<close>

theorem loopback_freezes_rx:
  assumes "running p" "sm_rx_state p = AD_RX_CURRENT" "l_actor_system l = actor_system p"
  shows "\<exists>q. rx_machine e (Some l) p = Some q \<and> partner_oper q = partner_oper p \<and>
    (\<forall>n. rx_ticks e n q = Some q \<and> sm_rx_state q = AD_RX_CURRENT)"
proof -
  let ?q = "p\<lparr>sm_rx_timer_counter := 0\<rparr>"
  have r: "rx_machine e (Some l) p = Some ?q"
    using assms by (simp add: rx_machine_def rx_transition_def rx_action_def running_def MAC_ADDRESS_EQUAL_def Let_def)
  have "rx_machine e None ?q = Some ?q"
    using assms(1,2) by (simp add: rx_machine_def rx_transition_def running_def Let_def)
  then have "rx_ticks e n ?q = Some ?q" for n by (induction n) auto
  with r assms(2) show ?thesis by auto
qed

theorem loopback_freezes_rx_witness:
  "running (sample_port 1 1) \<and>
   (\<exists>q. rx_machine sample_env (Some (p_lacpdu (update_lacpdu_from_port (sample_port 1 2)))) (sample_port 1 1) = Some q \<and>
      rx_ticks sample_env 10000 q = Some q)"
proof -
  have a: "running (sample_port 1 1)" "sm_rx_state (sample_port 1 1) = AD_RX_CURRENT"
    "l_actor_system (p_lacpdu (update_lacpdu_from_port (sample_port 1 2))) = actor_system (sample_port 1 1)"
    by (simp_all add: running_def sample_port_def update_lacpdu_from_port_def)
  from loopback_freezes_rx [OF a, of sample_env] a show ?thesis by blast
qed

end
