(* ===== verification/Lacp_Tx.thy ===== *)
theory Lacp_Tx
  imports Lacp_Rx
begin

text \<open>
  The churn, transmit and periodic machines of servers/bond_3ad.c, as functions on the port. Whether
  \<open>dev_alloc_skb\<close> finds memory for the frame is the argument \<open>alloc\<close>; the transmitted LACPDU, if
  any, is part of the result.
\<close>

definition churn_actor :: "ad_port \<Rightarrow> ad_port" where
  "churn_actor p =
     (if sm_churn_actor_timer_counter p \<noteq> 0 then
        let p = p\<lparr>sm_churn_actor_timer_counter := sm_churn_actor_timer_counter p - 1\<rparr>
        in if sm_churn_actor_timer_counter p = 0 \<and> sm_churn_actor_state p = AD_CHURN_MONITOR then
             (if SYNCHRONIZATION \<in> actor_oper_port_state p then p\<lparr>sm_churn_actor_state := AD_NO_CHURN\<rparr>
              else p\<lparr>churn_actor_count := churn_actor_count p + 1, sm_churn_actor_state := AD_CHURN\<rparr>)
           else p
      else p)"

definition churn_partner :: "ad_port \<Rightarrow> ad_port" where
  "churn_partner p =
     (if sm_churn_partner_timer_counter p \<noteq> 0 then
        let p = p\<lparr>sm_churn_partner_timer_counter := sm_churn_partner_timer_counter p - 1\<rparr>
        in if sm_churn_partner_timer_counter p = 0 \<and> sm_churn_partner_state p = AD_CHURN_MONITOR then
             (if SYNCHRONIZATION \<in> pp_port_state (partner_oper p) then p\<lparr>sm_churn_partner_state := AD_NO_CHURN\<rparr>
              else p\<lparr>churn_partner_count := churn_partner_count p + 1, sm_churn_partner_state := AD_CHURN\<rparr>)
           else p
      else p)"

definition ad_churn_machine :: "ad_env \<Rightarrow> ad_port \<Rightarrow> ad_port" where
  "ad_churn_machine e p =
     (if on (sm_vars p) AD_PORT_CHURNED then
        p\<lparr>sm_vars := sm_vars p AND NOT AD_PORT_CHURNED, sm_churn_actor_state := AD_CHURN_MONITOR,
          sm_churn_partner_state := AD_CHURN_MONITOR,
          sm_churn_actor_timer_counter := ad_timer_to_ticks e AD_ACTOR_CHURN_TIMER 0,
          sm_churn_partner_timer_counter := ad_timer_to_ticks e AD_PARTNER_CHURN_TIMER 0\<rparr>
      else churn_partner (churn_actor p))"

definition tx_machine :: "ad_env \<Rightarrow> bool \<Rightarrow> ad_port \<Rightarrow> lacpdu option \<times> ad_port" where
  "tx_machine e alloc p =
     (let (fire, p) = (if sm_tx_timer_counter p = 0 then (True, p)
            else (sm_tx_timer_counter p - 1 = 0, p\<lparr>sm_tx_timer_counter := sm_tx_timer_counter p - 1\<rparr>))
      in if fire \<and> ntt p \<and> on (sm_vars p) AD_PORT_LACP_ENABLED then
           let p = update_lacpdu_from_port p
           in if alloc
              then (Some (p_lacpdu p), p\<lparr>ntt := False, sm_tx_timer_counter := ad_ticks_per_sec e div AD_MAX_TX_IN_SECOND\<rparr>)
              else (None, p)
         else (None, p))"

definition periodic_transition :: "ad_port \<Rightarrow> ad_port" where
  "periodic_transition p =
     (if on (sm_vars p) AD_PORT_BEGIN \<or> \<not> on (sm_vars p) AD_PORT_LACP_ENABLED \<or> \<not> is_enabled p \<or>
         (LACP_ACTIVITY \<notin> actor_oper_port_state p \<and> LACP_ACTIVITY \<notin> pp_port_state (partner_oper p))
      then p\<lparr>sm_periodic_state := AD_NO_PERIODIC\<rparr>
      else if sm_periodic_timer_counter p \<noteq> 0 then
        let p = p\<lparr>sm_periodic_timer_counter := sm_periodic_timer_counter p - 1\<rparr>
        in if sm_periodic_timer_counter p = 0 then p\<lparr>sm_periodic_state := AD_PERIODIC_TX\<rparr>
           else (case sm_periodic_state p of
               AD_FAST_PERIODIC \<Rightarrow>
                 (if LACP_TIMEOUT \<notin> pp_port_state (partner_oper p) then p\<lparr>sm_periodic_state := AD_SLOW_PERIODIC\<rparr> else p)
             | AD_SLOW_PERIODIC \<Rightarrow>
                 (if LACP_TIMEOUT \<in> pp_port_state (partner_oper p)
                  then p\<lparr>sm_periodic_timer_counter := 0, sm_periodic_state := AD_PERIODIC_TX\<rparr> else p)
             | _ \<Rightarrow> p)
      else (case sm_periodic_state p of
          AD_NO_PERIODIC \<Rightarrow> p\<lparr>sm_periodic_state := AD_FAST_PERIODIC\<rparr>
        | AD_PERIODIC_TX \<Rightarrow>
            (if LACP_TIMEOUT \<notin> pp_port_state (partner_oper p) then p\<lparr>sm_periodic_state := AD_SLOW_PERIODIC\<rparr>
             else p\<lparr>sm_periodic_state := AD_FAST_PERIODIC\<rparr>)
        | _ \<Rightarrow> p))"

definition ad_periodic_machine :: "ad_env \<Rightarrow> ad_port \<Rightarrow> ad_port" where
  "ad_periodic_machine e p =
     (let last_state = sm_periodic_state p; p = periodic_transition p
      in if sm_periodic_state p \<noteq> last_state then
           (case sm_periodic_state p of
              AD_NO_PERIODIC \<Rightarrow> p\<lparr>sm_periodic_timer_counter := 0\<rparr>
            | AD_FAST_PERIODIC \<Rightarrow>
                p\<lparr>sm_periodic_timer_counter := ad_timer_to_ticks e AD_PERIODIC_TIMER AD_FAST_PERIODIC_TIME - 1\<rparr>
            | AD_SLOW_PERIODIC \<Rightarrow>
                p\<lparr>sm_periodic_timer_counter := ad_timer_to_ticks e AD_PERIODIC_TIMER AD_SLOW_PERIODIC_TIME - 1\<rparr>
            | AD_PERIODIC_TX \<Rightarrow> p\<lparr>ntt := True\<rparr>
            | AD_PERIODIC_DUMMY \<Rightarrow> p)
         else p)"

subsection \<open>Transmission rate\<close>

text \<open>
  A run of the transmit machine: before each tick the other machines may have changed the port in any way,
  except for the transmit timer, which is the machine's own; memory may or may not be available. The result
  tells at which ticks the machine sent a PDU.
\<close>

abbreviation others_change :: "(ad_port \<Rightarrow> ad_port) \<Rightarrow> ad_port \<Rightarrow> ad_port" where
  "others_change change p \<equiv> (change p)\<lparr>sm_tx_timer_counter := sm_tx_timer_counter p\<rparr>"

abbreviation asking :: "ad_port \<Rightarrow> ad_port" where
  "asking p \<equiv> p\<lparr>ntt := True\<rparr>"

fun tx_run :: "ad_env \<Rightarrow> ((ad_port \<Rightarrow> ad_port) \<times> bool) list \<Rightarrow> ad_port \<Rightarrow> bool list" where
  "tx_run e [] p = []"
| "tx_run e ((change, alloc) # ticks) p =
     (let (l, p) = tx_machine e alloc (others_change change p) in (l \<noteq> None) # tx_run e ticks p)"

lemma request_alone [simp]: "others_change asking p = asking p"
  by (cases p) simp

lemma tx_machine_cases:
  obtains (sent) l q where "tx_machine e alloc p = (Some l, q)" "unat (sm_tx_timer_counter p) \<le> 1"
      "sm_tx_timer_counter q = ad_ticks_per_sec e div AD_MAX_TX_IN_SECOND"
    | (quiet) q where "tx_machine e alloc p = (None, q)"
      "unat (sm_tx_timer_counter q) = unat (sm_tx_timer_counter p) - 1"
proof -
  have one: "unat v \<le> 1" if "v - 1 = 0" for v :: u16 using that by simp
  have dec: "unat (v - 1) = unat v - 1" if "v \<noteq> 0" for v :: u16
    using that by (simp add: unat_sub_if' unat_gt_0 Suc_leI)
  show thesis
  proof (cases "fst (tx_machine e alloc p)")
    case None
    with dec quiet [of "snd (tx_machine e alloc p)"] show thesis
      by (auto simp: tx_machine_def Let_def update_lacpdu_from_port_def prod_eq_iff split: if_splits)
  next
    case (Some l)
    with one sent [of l "snd (tx_machine e alloc p)"] show thesis
      by (auto simp: tx_machine_def Let_def update_lacpdu_from_port_def prod_eq_iff split: if_splits)
  qed
qed

lemma tx_run_waits:
  "j < length (tx_run e ticks p) \<Longrightarrow> tx_run e ticks p ! j \<Longrightarrow> unat (sm_tx_timer_counter p) \<le> Suc j"
proof (induction ticks arbitrary: p j)
  case (Cons tick ticks)
  obtain change alloc where tick: "tick = (change, alloc)" by (cases tick)
  let ?p = "others_change change p"
  show ?case
  proof (cases rule: tx_machine_cases [of e alloc ?p])
    case (sent l q)
    then show ?thesis by simp
  next
    case (quiet q)
    with Cons.prems tick obtain i where "j = Suc i" "i < length (tx_run e ticks q)" "tx_run e ticks q ! i"
      by (cases j) auto
    with Cons.IH [of i q] quiet(2) show ?thesis by simp
  qed
qed simp

lemma tx_run_gap:
  "i < j \<Longrightarrow> j < length (tx_run e ticks p) \<Longrightarrow> tx_run e ticks p ! i \<Longrightarrow> tx_run e ticks p ! j \<Longrightarrow>
     unat (ad_ticks_per_sec e div AD_MAX_TX_IN_SECOND) \<le> j - i"
proof (induction ticks arbitrary: p i j)
  case (Cons tick ticks)
  obtain change alloc where tick: "tick = (change, alloc)" by (cases tick)
  let ?p = "others_change change p"
  obtain k where j: "j = Suc k" using Cons.prems(1) by (cases j) auto
  obtain l q where r: "tx_machine e alloc ?p = (l, q)" by fastforce
  with Cons.prems tick j have k: "k < length (tx_run e ticks q)" "tx_run e ticks q ! k" by simp_all
  show ?case
  proof (cases i)
    case 0
    with Cons.prems tick r have "l \<noteq> None" by simp
    then have "sm_tx_timer_counter q = ad_ticks_per_sec e div AD_MAX_TX_IN_SECOND"
      using r by (cases rule: tx_machine_cases [of e alloc ?p]) auto
    with tx_run_waits [OF k] 0 j show ?thesis by simp
  next
    case (Suc i')
    with Cons.prems tick r j Cons.IH [of i' k q] show ?thesis by simp
  qed
qed simp

lemma tx_fires:
  "unat (sm_tx_timer_counter p) \<le> 1 \<Longrightarrow> ntt p \<Longrightarrow> on (sm_vars p) AD_PORT_LACP_ENABLED \<Longrightarrow>
   \<exists>l q. tx_machine e True p = (Some l, q) \<and> sm_tx_timer_counter q = ad_ticks_per_sec e div AD_MAX_TX_IN_SECOND \<and>
     on (sm_vars q) AD_PORT_LACP_ENABLED"
proof -
  assume *: "unat (sm_tx_timer_counter p) \<le> 1" "ntt p" "on (sm_vars p) AD_PORT_LACP_ENABLED"
  then have "sm_tx_timer_counter p = 0 \<or> sm_tx_timer_counter p - 1 = 0"
    by (auto simp: word_unat_eq_iff le_Suc_eq unat_sub_if')
  with * show ?thesis by (auto simp: tx_machine_def Let_def update_lacpdu_from_port_def)
qed

lemma tx_waits_step:
  "1 < unat (sm_tx_timer_counter p) \<Longrightarrow> tx_machine e alloc p = (None, p\<lparr>sm_tx_timer_counter := sm_tx_timer_counter p - 1\<rparr>)"
proof -
  assume "1 < unat (sm_tx_timer_counter p)"
  then have "sm_tx_timer_counter p \<noteq> 0" "sm_tx_timer_counter p - 1 \<noteq> 0" by auto
  then show ?thesis by (simp add: tx_machine_def)
qed

text \<open>With a standing request, a three-tick gap yields one PDU in three ticks.\<close>

lemma tx_run_three:
  assumes "unat (sm_tx_timer_counter p) \<le> 1" "on (sm_vars p) AD_PORT_LACP_ENABLED"
    "ad_ticks_per_sec e div AD_MAX_TX_IN_SECOND = 3"
  shows "\<exists>q. tx_run e ((asking, True) # (asking, True) # (asking, True) # ticks) p = True # False # False # tx_run e ticks q \<and>
    unat (sm_tx_timer_counter q) \<le> 1 \<and> on (sm_vars q) AD_PORT_LACP_ENABLED"
proof -
  obtain l q where q: "tx_machine e True (p\<lparr>ntt := True\<rparr>) = (Some l, q)" "sm_tx_timer_counter q = 3"
      "on (sm_vars q) AD_PORT_LACP_ENABLED"
    using tx_fires [of "p\<lparr>ntt := True\<rparr>" e] assms by auto
  let ?q1 = "q\<lparr>ntt := True, sm_tx_timer_counter := 2\<rparr>"
  let ?q2 = "q\<lparr>ntt := True, sm_tx_timer_counter := 1\<rparr>"
  have "tx_machine e True (q\<lparr>ntt := True\<rparr>) = (None, ?q1)" "tx_machine e True (?q1\<lparr>ntt := True\<rparr>) = (None, ?q2)"
    using tx_waits_step [of "q\<lparr>ntt := True\<rparr>" e True] tx_waits_step [of "?q1\<lparr>ntt := True\<rparr>" e True] q(2) by simp_all
  with q show ?thesis by (intro exI [of _ ?q2]) simp
qed

subsection \<open>Period\<close>

lemma unat_u16_of_nat: "n < 65536 \<Longrightarrow> unat (of_nat n :: u16) = n"
  by (simp add: unsigned_of_nat take_bit_eq_mod)

fun periodic_ticks :: "ad_env \<Rightarrow> nat \<Rightarrow> ad_port \<Rightarrow> ad_port" where
  "periodic_ticks e 0 p = p"
| "periodic_ticks e (Suc n) p = periodic_ticks e n (ad_periodic_machine e p)"

definition periodic_on :: "ad_port \<Rightarrow> bool" where
  "periodic_on p = (\<not> on (sm_vars p) AD_PORT_BEGIN \<and> on (sm_vars p) AD_PORT_LACP_ENABLED \<and> is_enabled p \<and>
     (LACP_ACTIVITY \<in> actor_oper_port_state p \<or> LACP_ACTIVITY \<in> pp_port_state (partner_oper p)))"

text \<open>The state in which a port waits, as its partner's timeout asks.\<close>

definition waiting_state :: "ad_port \<Rightarrow> periodic_states_t" where
  "waiting_state p = (if LACP_TIMEOUT \<in> pp_port_state (partner_oper p) then AD_FAST_PERIODIC else AD_SLOW_PERIODIC)"

definition period :: "ad_env \<Rightarrow> ad_port \<Rightarrow> nat" where
  "period e p = (if LACP_TIMEOUT \<in> pp_port_state (partner_oper p) then 1 else 30) * unat (ad_ticks_per_sec e)"

lemma periodic_waits:
  "periodic_on p \<Longrightarrow> sm_periodic_state p = waiting_state p \<Longrightarrow> k < unat (sm_periodic_timer_counter p) \<Longrightarrow>
     periodic_ticks e k p = p\<lparr>sm_periodic_timer_counter := sm_periodic_timer_counter p - of_nat k\<rparr>"
proof (induction k arbitrary: p)
  case (Suc k)
  let ?p = "p\<lparr>sm_periodic_timer_counter := sm_periodic_timer_counter p - 1\<rparr>"
  have c: "sm_periodic_timer_counter p \<noteq> 0" "sm_periodic_timer_counter p - 1 \<noteq> 0"
    using Suc.prems(3) by auto
  have u: "unat (sm_periodic_timer_counter p - 1) = unat (sm_periodic_timer_counter p) - 1"
    using Suc.prems(3) by (simp add: unat_sub_if')
  have "ad_periodic_machine e p = ?p"
    using Suc.prems(1,2) c
    by (auto simp: ad_periodic_machine_def periodic_transition_def Let_def periodic_on_def waiting_state_def)
  moreover have "periodic_ticks e k ?p = ?p\<lparr>sm_periodic_timer_counter := sm_periodic_timer_counter ?p - of_nat k\<rparr>"
    by (rule Suc.IH) (use Suc.prems u in \<open>auto simp: periodic_on_def waiting_state_def\<close>)
  ultimately show ?case by (simp add: diff_diff_eq)
qed simp

lemma periodic_starts:
  assumes "periodic_on p" "sm_periodic_state p = AD_PERIODIC_TX" "sm_periodic_timer_counter p = 0"
    "1 < unat (ad_ticks_per_sec e)" "30 * unat (ad_ticks_per_sec e) < 65536"
  shows "ad_periodic_machine e p = p\<lparr>sm_periodic_state := waiting_state p,
     sm_periodic_timer_counter := of_nat (period e p - 1)\<rparr>" "unat (of_nat (period e p - 1) :: u16) = period e p - 1"
proof -
  have pos: "1 \<le> period e p" "period e p < 65536" using assms(4,5) by (auto simp: period_def)
  then show "unat (of_nat (period e p - 1) :: u16) = period e p - 1"
    by (intro unat_u16_of_nat) simp
  define v :: u16 where "v = of_nat (period e p - 1)"
  have v: "v = (if LACP_TIMEOUT \<in> pp_port_state (partner_oper p) then 1 else 30) * ad_ticks_per_sec e - 1"
    unfolding v_def of_nat_diff [OF pos(1)] by (simp add: period_def)
  show "ad_periodic_machine e p = p\<lparr>sm_periodic_state := waiting_state p,
     sm_periodic_timer_counter := of_nat (period e p - 1)\<rparr>"
  proof (cases "LACP_TIMEOUT \<in> pp_port_state (partner_oper p)")
    case True
    then have "periodic_transition p = p\<lparr>sm_periodic_state := AD_FAST_PERIODIC\<rparr>"
      using assms(1-3) by (auto simp: periodic_transition_def periodic_on_def)
    with True assms(2) v v_def show ?thesis
      by (simp add: ad_periodic_machine_def waiting_state_def ad_timer_to_ticks_def)
  next
    case False
    then have "periodic_transition p = p\<lparr>sm_periodic_state := AD_SLOW_PERIODIC\<rparr>"
      using assms(1-3) by (auto simp: periodic_transition_def periodic_on_def)
    with False assms(2) v v_def show ?thesis
      by (simp add: ad_periodic_machine_def waiting_state_def ad_timer_to_ticks_def)
  qed
qed

lemma periodic_fires:
  assumes "periodic_on p" "sm_periodic_state p = waiting_state p" "sm_periodic_timer_counter p = 1"
  shows "ad_periodic_machine e p = p\<lparr>sm_periodic_state := AD_PERIODIC_TX, sm_periodic_timer_counter := 0, ntt := True\<rparr>"
  using assms
  by (cases "LACP_TIMEOUT \<in> pp_port_state (partner_oper p)")
    (auto simp: ad_periodic_machine_def periodic_transition_def Let_def periodic_on_def waiting_state_def)

lemma periodic_ticks_add: "periodic_ticks e (m + n) p = periodic_ticks e n (periodic_ticks e m p)"
  by (induction m arbitrary: p) auto

subsection \<open>Properties\<close>

text \<open>
  C10: Two LACPDUs that the transmit machine of a port sends are at least a third of a second (rounded down to
  ticks) apart, whatever the other machines do to the port in between (they do not touch the transmit timer) and
  whether or not memory is available. The farewell LACPDU of \<open>bond_3ad_unbind_slave\<close> is not sent by the
  machine and does not wait for its timer.
\<close>

theorem lacpdu_spacing:
  assumes "i < j" "j < length (tx_run e ticks p)" "tx_run e ticks p ! i" "tx_run e ticks p ! j"
  shows "unat (ad_ticks_per_sec e) div 3 \<le> j - i"
  using tx_run_gap [OF assms] by (simp add: unat_div)

lemma tx_run_ten:
  assumes "unat (sm_tx_timer_counter p) \<le> 1" "on (sm_vars p) AD_PORT_LACP_ENABLED" "ad_ticks_per_sec e = 10"
  shows "tx_run e (replicate 10 (asking, True)) p = [True, False, False, True, False, False, True, False, False, True]"
proof -
  have d: "ad_ticks_per_sec e div AD_MAX_TX_IN_SECOND = 3" by (simp add: assms(3))
  have ten: "replicate 10 (asking, True) = (asking, True) # (asking, True) # (asking, True) # (asking, True) # (asking, True) #
      (asking, True) # (asking, True) # (asking, True) # (asking, True) # [(asking, True)]"
    by (simp add: numeral_eq_Suc)
  obtain q1 where 1: "tx_run e (replicate 10 (asking, True)) p = True # False # False # tx_run e
      ((asking, True) # (asking, True) # (asking, True) # (asking, True) # (asking, True) # (asking, True) # [(asking, True)]) q1"
    "unat (sm_tx_timer_counter q1) \<le> 1" "on (sm_vars q1) AD_PORT_LACP_ENABLED"
    unfolding ten using tx_run_three [OF assms(1,2) d] by blast
  obtain q2 where 2: "tx_run e ((asking, True) # (asking, True) # (asking, True) # (asking, True) # (asking, True) # (asking, True) #
      [(asking, True)]) q1 = True # False # False # tx_run e ((asking, True) # (asking, True) # (asking, True) # [(asking, True)]) q2"
    "unat (sm_tx_timer_counter q2) \<le> 1" "on (sm_vars q2) AD_PORT_LACP_ENABLED"
    using tx_run_three [OF 1(2,3) d] by blast
  obtain q3 where 3: "tx_run e ((asking, True) # (asking, True) # (asking, True) # [(asking, True)]) q2 =
      True # False # False # tx_run e [(asking, True)] q3"
    "unat (sm_tx_timer_counter q3) \<le> 1" "on (sm_vars q3) AD_PORT_LACP_ENABLED"
    using tx_run_three [OF 2(2,3) d] by blast
  have "tx_run e [(asking, True)] q3 = [True]"
    using tx_fires [of "q3\<lparr>ntt := True\<rparr>" e] 3(2,3) by auto
  with 1(1) 2(1) 3(1) show ?thesis by simp
qed

theorem lacpdu_spacing_witness:
  "tx_run sample_env (replicate 10 (asking, True)) (sample_port 1 1) ! 3 \<and> unat (ad_ticks_per_sec sample_env) div 3 \<le> 3 - 0"
proof -
  have r: "tx_run sample_env (replicate 10 (asking, True)) (sample_port 1 1) =
      [True, False, False, True, False, False, True, False, False, True]"
    by (rule tx_run_ten) (simp_all add: sample_port_def sample_env_def)
  show ?thesis using lacpdu_spacing [of 0 3 sample_env "replicate 10 (asking, True)" "sample_port 1 1"] r by simp
qed

text \<open>
  The limit of three LACPDUs per second is not kept when a second is ten ticks: the gap of
  10 div 3 ticks lets a port with a standing request send four PDUs in the ten ticks of a second.
\<close>

theorem four_lacpdus_per_second:
  assumes "unat (sm_tx_timer_counter p) \<le> 1" "on (sm_vars p) AD_PORT_LACP_ENABLED" "ad_ticks_per_sec e = 10"
  shows "length (filter (\<lambda>sent. sent) (tx_run e (replicate (unat (ad_ticks_per_sec e)) (asking, True)) p)) = 4 \<and>
    unat AD_MAX_TX_IN_SECOND = 3"
  using tx_run_ten [OF assms] assms(3) by simp

theorem four_lacpdus_per_second_witness:
  "length (filter (\<lambda>sent. sent) (tx_run sample_env (replicate 10 (asking, True)) (sample_port 1 1))) = 4"
proof -
  have a: "unat (sm_tx_timer_counter (sample_port 1 1)) \<le> 1" "on (sm_vars (sample_port 1 1)) AD_PORT_LACP_ENABLED"
    "ad_ticks_per_sec sample_env = 10"
    by (simp_all add: sample_port_def sample_env_def)
  show ?thesis using four_lacpdus_per_second [OF a] a(3) by simp
qed

text \<open>
  C11: A port that has just requested a periodic transmission requests the next one after exactly one
  second when its partner asks for the short timeout and after thirty seconds otherwise, and does not
  touch the request flag in between.
\<close>

theorem periodic_transmission:
  assumes "periodic_on p" "sm_periodic_state p = AD_PERIODIC_TX" "sm_periodic_timer_counter p = 0"
    "1 < unat (ad_ticks_per_sec e)" "30 * unat (ad_ticks_per_sec e) < 65536"
  shows "periodic_ticks e (period e p) p = p\<lparr>ntt := True\<rparr> \<and>
    (\<forall>k < period e p. ntt (periodic_ticks e k p) = ntt p \<and> (0 < k \<longrightarrow> sm_periodic_state (periodic_ticks e k p) \<noteq> AD_PERIODIC_TX))"
proof -
  let ?q = "p\<lparr>sm_periodic_state := waiting_state p, sm_periodic_timer_counter := of_nat (period e p - 1)\<rparr>"
  note start = periodic_starts [OF assms]
  have two: "2 \<le> period e p" using assms(4) by (auto simp: period_def)
  have q: "periodic_on ?q" "sm_periodic_state ?q = waiting_state ?q"
    using assms(1) by (simp_all add: periodic_on_def waiting_state_def)
  have wait: "periodic_ticks e k ?q = ?q\<lparr>sm_periodic_timer_counter := of_nat (period e p - 1) - of_nat k\<rparr>"
    if "k < period e p - 1" for k
    using periodic_waits [OF q, of k e] that start(2) by simp
  have steps: "periodic_ticks e (Suc k) p = periodic_ticks e k ?q" for k using start(1) by simp
  let ?r = "?q\<lparr>sm_periodic_timer_counter := 1\<rparr>"
  have "of_nat (period e p - 1) - of_nat (period e p - 2) = (1 :: u16)" using two by simp
  then have "periodic_ticks e (period e p - 2) ?q = ?r" using wait [of "period e p - 2"] two by simp
  moreover have "ad_periodic_machine e ?r = p\<lparr>ntt := True\<rparr>"
    using periodic_fires [of ?r e] q assms(2,3) by (simp add: periodic_on_def waiting_state_def)
  moreover have "period e p - 1 = period e p - 2 + 1" using two by simp
  ultimately have "periodic_ticks e (period e p - 1) ?q = p\<lparr>ntt := True\<rparr>"
    by (simp only: periodic_ticks_add) simp
  then have last: "periodic_ticks e (period e p) p = p\<lparr>ntt := True\<rparr>"
    using steps [of "period e p - 1"] two by simp
  have "ntt (periodic_ticks e k p) = ntt p \<and> (0 < k \<longrightarrow> sm_periodic_state (periodic_ticks e k p) \<noteq> AD_PERIODIC_TX)"
    if "k < period e p" for k
    using that wait steps by (cases k) (auto simp: waiting_state_def)
  with last show ?thesis by blast
qed

definition periodic_sample :: ad_port where
  "periodic_sample = (sample_port 1 1)\<lparr>sm_periodic_state := AD_PERIODIC_TX, actor_oper_port_state := {LACP_ACTIVITY}\<rparr>"

theorem periodic_transmission_witness:
  "periodic_on periodic_sample \<and> period sample_env periodic_sample = 300 \<and>
   periodic_ticks sample_env 300 periodic_sample = periodic_sample\<lparr>ntt := True\<rparr>"
proof -
  have a: "periodic_on periodic_sample" "sm_periodic_state periodic_sample = AD_PERIODIC_TX"
    "sm_periodic_timer_counter periodic_sample = 0" "1 < unat (ad_ticks_per_sec sample_env)"
    "30 * unat (ad_ticks_per_sec sample_env) < 65536"
    by (simp_all add: periodic_sample_def periodic_on_def sample_port_def sample_env_def)
  have n: "period sample_env periodic_sample = 300"
    by (simp add: period_def periodic_sample_def sample_port_def sample_env_def no_params_def)
  show ?thesis using periodic_transmission [OF a] a(1) n by simp
qed

end
