(* ===== verification/Lacp_Agg.thy ===== *)
theory Lacp_Agg
  imports Lacp_Tx
begin

text \<open>
  The bond of servers/bond_3ad.c with its slaves, ports and aggregators, and the selection logic: the
  lists of ports that belong to an aggregator, the choice of an aggregator for a port and the choice
  of the active aggregator. A list is walked by \<open>lag_list\<close>; a walk that never ends, like a null
  dereference, is \<open>None\<close>. The result of a function with the parameter \<open>update_slave_arr\<close> says
  whether it stored \<open>true\<close> there.
\<close>

record ad_stats =
  lacpdu_rx :: u64
  lacpdu_tx :: u64
  lacpdu_unknown_rx :: u64
  lacpdu_illegal_rx :: u64
  marker_rx :: u64
  marker_tx :: u64
  marker_resp_rx :: u64
  marker_resp_tx :: u64
  marker_unknown_rx :: u64

record ad_slave =
  link_up :: bool
  slave_is_up :: bool
  dev_running :: bool
  dev_carrier :: bool
  s_speed :: ethtool_speed
  full_duplex :: bool
  s_flags :: u32
  perm_hwaddr :: mac_addr
  s_port_priority :: u16
  s_id :: u16
  s_stats :: ad_stats

record aggregator =
  aggregator_mac_address :: mac_addr
  aggregator_identifier :: u16
  is_individual :: bool
  actor_admin_aggregator_key :: u16
  actor_oper_aggregator_key :: u16
  partner_system :: mac_addr
  partner_system_priority :: u16
  partner_oper_aggregator_key :: u16
  receive_state :: u16
  transmit_state :: u16
  lag_ports :: "nat option"
  a_slave :: "nat option"
  is_active :: bool
  num_of_ports :: u16

record bond_params =
  ad_select :: ad_select_t
  lacp_active :: bool
  lacp_fast :: bool
  coupled_control :: bool
  broadcast_neighbor :: bool
  min_links :: u32
  ad_actor_sys_prio :: u16
  ad_actor_system :: mac_addr
  ad_user_port_key :: u16

record bond_marker =
  tlv_type :: u8
  marker_body :: "u8 list"

datatype ad_frame = LacpduFrame nat mac_addr mac_addr lacpdu | MarkerFrame nat mac_addr mac_addr bond_marker

record ad_bond =
  b_slaves :: "nat list"
  b_slave :: "nat \<Rightarrow> ad_slave"
  b_port :: "nat \<Rightarrow> ad_port"
  b_agg :: "nat \<Rightarrow> aggregator"
  b_params :: bond_params
  agg_select_timer :: u32
  last_agg_identifier :: u16
  sys_priority :: u16
  sys_mac_addr :: mac_addr
  dev_addr :: mac_addr
  carrier_ok :: bool
  b_stats :: ad_stats
  sent_frames :: "ad_frame list"
  peer_notify_rearms :: nat

abbreviation upd_port :: "nat \<Rightarrow> (ad_port \<Rightarrow> ad_port) \<Rightarrow> ad_bond \<Rightarrow> ad_bond" where
  "upd_port i f b \<equiv> b\<lparr>b_port := (b_port b)(i := f (b_port b i))\<rparr>"

abbreviation upd_agg :: "nat \<Rightarrow> (aggregator \<Rightarrow> aggregator) \<Rightarrow> ad_bond \<Rightarrow> ad_bond" where
  "upd_agg i f b \<equiv> b\<lparr>b_agg := (b_agg b)(i := f (b_agg b i))\<rparr>"

abbreviation upd_slave :: "nat \<Rightarrow> (ad_slave \<Rightarrow> ad_slave) \<Rightarrow> ad_bond \<Rightarrow> ad_bond" where
  "upd_slave i f b \<equiv> b\<lparr>b_slave := (b_slave b)(i := f (b_slave b i))\<rparr>"

subsection \<open>Helpers\<close>

definition get_first_agg :: "ad_bond \<Rightarrow> nat \<Rightarrow> nat option" where
  "get_first_agg b i = (if p_slave (b_port b i) = None then None
     else case b_slaves b of [] \<Rightarrow> None | s # _ \<Rightarrow> Some s)"

definition agg_has_partner :: "aggregator \<Rightarrow> bool" where
  "agg_has_partner a = (\<not> is_zero_ether_addr (partner_system a))"

text \<open>The functions on the flags of the slave behind a port.\<close>

definition on_slave :: "nat \<Rightarrow> (u32 \<Rightarrow> u32) \<Rightarrow> ad_bond \<Rightarrow> ad_bond defined" where
  "on_slave i f b = (case p_slave (b_port b i) of
     None \<Rightarrow> None
   | Some s \<Rightarrow> Some (upd_slave s (\<lambda>x. x\<lparr>s_flags := f (s_flags x)\<rparr>) b))"

definition on_up_slave :: "nat \<Rightarrow> (u32 \<Rightarrow> u32) \<Rightarrow> ad_bond \<Rightarrow> ad_bond defined" where
  "on_up_slave i f b = (case p_slave (b_port b i) of
     None \<Rightarrow> None
   | Some s \<Rightarrow> if link_up (b_slave b s) \<and> slave_is_up (b_slave b s) then on_slave i f b else Some b)"

definition disable_distributing_port :: "ad_env \<Rightarrow> nat \<Rightarrow> ad_bond \<Rightarrow> ad_bond defined" where
  "disable_distributing_port e i b = on_slave i (set_slave_tx_disabled_flags e) b"

definition enable_collecting_port :: "ad_env \<Rightarrow> nat \<Rightarrow> ad_bond \<Rightarrow> ad_bond defined" where
  "enable_collecting_port e i b = on_up_slave i (set_slave_rx_enabled_flags e) b"

definition disable_port :: "ad_env \<Rightarrow> nat \<Rightarrow> ad_bond \<Rightarrow> ad_bond defined" where
  "disable_port e i b = on_slave i (set_slave_inactive_flags e) b"

definition enable_port :: "ad_env \<Rightarrow> nat \<Rightarrow> ad_bond \<Rightarrow> ad_bond defined" where
  "enable_port e i b = on_up_slave i (set_slave_active_flags e) b"

definition get_agg_selection_mode :: "ad_bond \<Rightarrow> nat \<Rightarrow> ad_select_t" where
  "get_agg_selection_mode b i = (if p_slave (b_port b i) = None then BOND_AD_STABLE else ad_select (b_params b))"

definition check_agg_selection_timer :: "ad_bond \<Rightarrow> nat \<Rightarrow> bool" where
  "check_agg_selection_timer b i = (p_slave (b_port b i) \<noteq> None \<and> agg_select_timer b \<noteq> 0)"

definition speed_code :: "ethtool_speed \<Rightarrow> u16" where
  "speed_code v = (case v of SPEED_10 \<Rightarrow> 2 | SPEED_100 \<Rightarrow> 3 | SPEED_1000 \<Rightarrow> 4 | SPEED_2500 \<Rightarrow> 5 | SPEED_5000 \<Rightarrow> 6
     | SPEED_10000 \<Rightarrow> 7 | SPEED_14000 \<Rightarrow> 8 | SPEED_20000 \<Rightarrow> 9 | SPEED_25000 \<Rightarrow> 10 | SPEED_40000 \<Rightarrow> 11
     | SPEED_50000 \<Rightarrow> 12 | SPEED_56000 \<Rightarrow> 13 | SPEED_80000 \<Rightarrow> 14 | SPEED_100000 \<Rightarrow> 15 | SPEED_200000 \<Rightarrow> 16
     | SPEED_400000 \<Rightarrow> 17 | SPEED_800000 \<Rightarrow> 18 | SPEED_1600000 \<Rightarrow> 19 | SPEED_OTHER \<Rightarrow> 0)"

definition get_link_speed :: "ad_bond \<Rightarrow> nat \<Rightarrow> u16 defined" where
  "get_link_speed b i = (case p_slave (b_port b i) of
     None \<Rightarrow> None
   | Some s \<Rightarrow> Some (if link_up (b_slave b s) then speed_code (s_speed (b_slave b s)) else 0))"

definition get_duplex :: "ad_bond \<Rightarrow> nat \<Rightarrow> u8 defined" where
  "get_duplex b i = (case p_slave (b_port b i) of
     None \<Rightarrow> None
   | Some s \<Rightarrow> Some (if link_up (b_slave b s) \<and> full_duplex (b_slave b s) then 1 else 0))"

subsection \<open>The ports of an aggregator\<close>

partial_function (option) lag_list :: "(nat \<Rightarrow> nat option) \<Rightarrow> nat option \<Rightarrow> nat list option" where
  "lag_list nxt p = (case p of None \<Rightarrow> Some []
     | Some i \<Rightarrow> do { ps \<leftarrow> lag_list nxt (nxt i); Some (i # ps) })"

declare lag_list.simps [code]

definition agg_ports :: "ad_bond \<Rightarrow> nat \<Rightarrow> nat list defined" where
  "agg_ports b a = lag_list (\<lambda>i. next_port_in_aggregator (b_port b i)) (lag_ports (b_agg b a))"

definition agg_ports_are_ready :: "ad_bond \<Rightarrow> nat \<Rightarrow> bool defined" where
  "agg_ports_are_ready b a = do {
     ps \<leftarrow> agg_ports b a;
     Some (list_all (\<lambda>i. on (sm_vars (b_port b i)) AD_PORT_READY_N) ps)
   }"

definition set_ready :: "bool \<Rightarrow> ad_port \<Rightarrow> ad_port" where
  "set_ready val p = (if val then p\<lparr>sm_vars := sm_vars p OR AD_PORT_READY\<rparr>
     else p\<lparr>sm_vars := sm_vars p AND NOT AD_PORT_READY\<rparr>)"

definition set_agg_ports_ready :: "nat \<Rightarrow> bool \<Rightarrow> ad_bond \<Rightarrow> ad_bond defined" where
  "set_agg_ports_ready a val b = do {
     ps \<leftarrow> agg_ports b a;
     Some (fold (\<lambda>i. upd_port i (set_ready val)) ps b)
   }"

definition agg_active_ports :: "ad_bond \<Rightarrow> nat \<Rightarrow> nat defined" where
  "agg_active_ports b a = do {
     ps \<leftarrow> agg_ports b a;
     Some (length (filter (\<lambda>i. is_enabled (b_port b i)) ps))
   }"

definition agg_ports_priority :: "ad_bond \<Rightarrow> nat \<Rightarrow> u32 defined" where
  "agg_ports_priority b a = do {
     ps \<leftarrow> agg_ports b a;
     Some (fold (\<lambda>i prio. if is_enabled (b_port b i) then prio + ucast (actor_port_priority (b_port b i)) else prio) ps 0)
   }"

text \<open>The bandwidth of one port for a speed code.\<close>

definition code_bandwidth :: "u16 \<Rightarrow> nat" where
  "code_bandwidth c = (if c = 1 then 1 else if c = 2 then 10 else if c = 3 then 100 else if c = 4 then 1000
     else if c = 5 then 2500 else if c = 6 then 5000 else if c = 7 then 10000 else if c = 8 then 14000
     else if c = 9 then 20000 else if c = 10 then 25000 else if c = 11 then 40000 else if c = 12 then 50000
     else if c = 13 then 56000 else if c = 14 then 80000 else if c = 15 then 100000 else if c = 16 then 200000
     else if c = 17 then 400000 else if c = 18 then 800000 else if c = 19 then 1600000 else 0)"

text \<open>
  The number of enabled ports times the speed of the first port of the list, whether or not that port is enabled. The
  product is of type \<open>int\<close>: it overflows from 1343 ports of the fastest speed on, and is taken to wrap then.
\<close>

definition get_agg_bandwidth :: "ad_bond \<Rightarrow> nat \<Rightarrow> u32 defined" where
  "get_agg_bandwidth b a = do {
     nports \<leftarrow> agg_active_ports b a;
     if nports = 0 then Some 0
     else case lag_ports (b_agg b a) of
       None \<Rightarrow> None
     | Some i \<Rightarrow> do { c \<leftarrow> get_link_speed b i; Some (of_nat (nports * code_bandwidth c)) }
   }"

definition get_active_agg :: "ad_bond \<Rightarrow> nat option" where
  "get_active_agg b = find (\<lambda>s. is_active (b_agg b s)) (b_slaves b)"

definition ad_clear_agg :: "aggregator \<Rightarrow> aggregator" where
  "ad_clear_agg a = a\<lparr>is_individual := False, actor_admin_aggregator_key := 0, actor_oper_aggregator_key := 0,
     partner_system := [0, 0, 0, 0, 0, 0], partner_system_priority := 0, partner_oper_aggregator_key := 0,
     receive_state := 0, transmit_state := 0, lag_ports := None, is_active := False, num_of_ports := 0\<rparr>"

definition ad_initialize_agg :: "aggregator \<Rightarrow> aggregator" where
  "ad_initialize_agg a = (ad_clear_agg a)\<lparr>aggregator_mac_address := [0, 0, 0, 0, 0, 0], aggregator_identifier := 0,
     a_slave := None\<rparr>"

subsection \<open>Choosing the active aggregator\<close>

definition bandwidth_test :: "ad_bond \<Rightarrow> nat \<Rightarrow> nat \<Rightarrow> nat defined" where
  "bandwidth_test b best cur = do {
     cw \<leftarrow> get_agg_bandwidth b cur; bw \<leftarrow> get_agg_bandwidth b best;
     Some (if cw > bw then cur else best)
   }"

definition count_test :: "ad_bond \<Rightarrow> nat \<Rightarrow> nat \<Rightarrow> nat defined" where
  "count_test b best cur = do {
     cn \<leftarrow> agg_active_ports b cur; bn \<leftarrow> agg_active_ports b best;
     if cn > bn then Some cur else if cn < bn then Some best else bandwidth_test b best cur
   }"

definition prio_test :: "ad_bond \<Rightarrow> nat \<Rightarrow> nat \<Rightarrow> nat defined" where
  "prio_test b best cur = do {
     cp \<leftarrow> agg_ports_priority b cur; bp \<leftarrow> agg_ports_priority b best;
     if cp > bp then Some cur else if cp < bp then Some best else count_test b best cur
   }"

definition ad_agg_selection_test :: "ad_bond \<Rightarrow> nat option \<Rightarrow> nat \<Rightarrow> nat defined" where
  "ad_agg_selection_test b best cur = (case best of
     None \<Rightarrow> Some cur
   | Some best \<Rightarrow>
       let ca = b_agg b cur; ba = b_agg b best
       in if \<not> is_individual ca \<and> is_individual ba then Some cur
          else if is_individual ca \<and> \<not> is_individual ba then Some best
          else if agg_has_partner ca \<and> \<not> agg_has_partner ba then Some cur
          else if \<not> agg_has_partner ca \<and> agg_has_partner ba then Some best
          else case lag_ports ca of
            None \<Rightarrow> None
          | Some p \<Rightarrow> (case get_agg_selection_mode b p of
                BOND_AD_PRIO \<Rightarrow> prio_test b best cur
              | BOND_AD_COUNT \<Rightarrow> count_test b best cur
              | BOND_AD_STABLE \<Rightarrow> bandwidth_test b best cur
              | BOND_AD_BANDWIDTH \<Rightarrow> bandwidth_test b best cur
              | BOND_AD_OTHER \<Rightarrow> Some best))"

fun up_loop :: "ad_bond \<Rightarrow> nat list \<Rightarrow> bool defined" where
  "up_loop b [] = Some False"
| "up_loop b (i # ps) = (case p_slave (b_port b i) of
     None \<Rightarrow> None
   | Some s \<Rightarrow> if dev_running (b_slave b s) \<and> dev_carrier (b_slave b s) then Some True else up_loop b ps)"

definition agg_device_up :: "ad_bond \<Rightarrow> nat \<Rightarrow> bool defined" where
  "agg_device_up b a = do { ps \<leftarrow> agg_ports b a; up_loop b ps }"

text \<open>The loop that clears \<open>is_active\<close> everywhere and keeps the best candidate.\<close>

fun best_loop :: "nat list \<Rightarrow> nat option \<Rightarrow> ad_bond \<Rightarrow> (nat option \<times> ad_bond) defined" where
  "best_loop [] best b = Some (best, b)"
| "best_loop (s # ss) best b = do {
     let b = upd_agg s (\<lambda>a. a\<lparr>is_active := False\<rparr>) b;
     n \<leftarrow> agg_active_ports b s;
     up \<leftarrow> (if n \<noteq> 0 then agg_device_up b s else Some False);
     best \<leftarrow> (if n \<noteq> 0 \<and> up then map_option Some (ad_agg_selection_test b best s) else Some best);
     best_loop ss best b
   }"

fun each_port :: "(nat \<Rightarrow> ad_bond \<Rightarrow> ad_bond defined) \<Rightarrow> nat list \<Rightarrow> ad_bond \<Rightarrow> ad_bond defined" where
  "each_port f [] b = Some b"
| "each_port f (i # ps) b = f i b \<bind> each_port f ps"

text \<open>
  \<open>bond_3ad_set_carrier\<close>. The count is compared as an unsigned number with \<open>min_links\<close>.
\<close>

definition bond_3ad_set_carrier :: "ad_bond \<Rightarrow> (int \<times> ad_bond) defined" where
  "bond_3ad_set_carrier b = (case b_slaves b of
     [] \<Rightarrow> Some (0, b)
   | s # _ \<Rightarrow>
       if a_slave (b_agg b s) = None then None
       else (case get_active_agg b of
           Some a \<Rightarrow> do {
             n \<leftarrow> agg_active_ports b a;
             Some (1, if (of_nat n :: u32) < min_links (b_params b)
                      then (if carrier_ok b then b\<lparr>carrier_ok := False\<rparr> else b)
                      else if \<not> carrier_ok b then b\<lparr>carrier_ok := True\<rparr> else b)
           }
         | None \<Rightarrow> Some (1, if carrier_ok b then b\<lparr>carrier_ok := False\<rparr> else b)))"

text \<open>The reselection rule of the stable policy: whether the old active aggregator is kept.\<close>

definition keeps_stable :: "ad_bond \<Rightarrow> nat \<Rightarrow> nat \<Rightarrow> bool defined" where
  "keeps_stable b active best =
     (if lag_ports (b_agg b active) = None then Some False
      else do {
        n \<leftarrow> agg_active_ports b active;
        Some (n \<noteq> 0 \<and> (agg_has_partner (b_agg b active) \<or>
                (\<not> agg_has_partner (b_agg b active) \<and> \<not> agg_has_partner (b_agg b best))) \<and>
              \<not> (actor_oper_aggregator_key (b_agg b active) = 0 \<and> actor_oper_aggregator_key (b_agg b best) \<noteq> 0))
      })"

definition stable_step :: "nat option \<Rightarrow> nat option \<Rightarrow> ad_bond \<Rightarrow> (nat option \<times> ad_bond) defined" where
  "stable_step active best b = (case best of
     None \<Rightarrow> Some (None, b)
   | Some c \<Rightarrow> (case lag_ports (b_agg b c) of
         None \<Rightarrow> None
       | Some p \<Rightarrow>
           if get_agg_selection_mode b p = BOND_AD_STABLE then
             (case active of
                None \<Rightarrow> Some (best, b)
              | Some a \<Rightarrow> do {
                  keep \<leftarrow> keeps_stable b a c;
                  Some (if keep then (None, upd_agg a (\<lambda>x. x\<lparr>is_active := True\<rparr>) b) else (best, b))
                })
           else Some (best, b)))"

text \<open>Activating a new best aggregator, and enabling the ports of an active one without a partner.\<close>

definition activate_best :: "ad_env \<Rightarrow> nat option \<Rightarrow> nat option \<Rightarrow> ad_bond \<Rightarrow> (bool \<times> ad_bond) defined" where
  "activate_best e active best b = (case best of
     None \<Rightarrow> Some (False, b)
   | Some c \<Rightarrow> do {
       let b = upd_agg c (\<lambda>x. x\<lparr>is_active := True\<rparr>) b;
       b \<leftarrow> (case active of
           None \<Rightarrow> Some b
         | Some a \<Rightarrow> do { ps \<leftarrow> agg_ports b a; each_port (disable_port e) ps b });
       Some (True, b)
     })"

definition enable_individuals :: "ad_env \<Rightarrow> bool \<Rightarrow> ad_bond \<Rightarrow> (bool \<times> ad_bond) defined" where
  "enable_individuals e upd b = (case get_active_agg b of
     None \<Rightarrow> Some (upd, b)
   | Some a \<Rightarrow>
       if \<not> agg_has_partner (b_agg b a) then do {
         ps \<leftarrow> agg_ports b a;
         b \<leftarrow> each_port (enable_port e) ps b;
         Some (True, b)
       } else Some (upd, b))"

definition ad_agg_selection_logic :: "ad_env \<Rightarrow> nat option \<Rightarrow> ad_bond \<Rightarrow> (bool \<times> ad_bond) defined" where
  "ad_agg_selection_logic e agg b = do {
     origin \<leftarrow> agg;
     _ \<leftarrow> a_slave (b_agg b origin);
     let active = get_active_agg b;
     best \<leftarrow> (case active of
         None \<Rightarrow> Some None
       | Some a \<Rightarrow> do { up \<leftarrow> agg_device_up b a; Some (if up then Some a else None) });
     (best, b) \<leftarrow> best_loop (b_slaves b) best b;
     (best, b) \<leftarrow> stable_step active best b;
     let (best, b) = (if best \<noteq> None \<and> best = active
       then (None, upd_agg (the active) (\<lambda>x. x\<lparr>is_active := True\<rparr>) b) else (best, b));
     (upd, b) \<leftarrow> activate_best e active best b;
     (upd, b) \<leftarrow> enable_individuals e upd b;
     (_, b) \<leftarrow> bond_3ad_set_carrier b;
     Some (upd, b)
   }"

subsection \<open>Choosing the aggregator of a port\<close>

fun detach_loop :: "nat \<Rightarrow> nat \<Rightarrow> nat option \<Rightarrow> nat list \<Rightarrow> ad_bond \<Rightarrow> ad_bond" where
  "detach_loop port t last_port [] b = b"
| "detach_loop port t last_port (cur # ps) b =
     (if cur = port then
        let b = upd_agg t (\<lambda>a. a\<lparr>num_of_ports := num_of_ports a - 1\<rparr>) b;
            nxt = next_port_in_aggregator (b_port b port);
            b = (case last_port of
                None \<Rightarrow> upd_agg t (\<lambda>a. a\<lparr>lag_ports := nxt\<rparr>) b
              | Some l \<Rightarrow> upd_port l (\<lambda>p. p\<lparr>next_port_in_aggregator := nxt\<rparr>) b);
            b = upd_port port (\<lambda>p. p\<lparr>p_aggregator := None, next_port_in_aggregator := None,
                  actor_port_aggregator_identifier := 0\<rparr>) b
        in if lag_ports (b_agg b t) = None then upd_agg t ad_clear_agg b else b
      else detach_loop port t (Some cur) ps b)"

definition suits :: "aggregator \<Rightarrow> ad_port \<Rightarrow> bool" where
  "suits a p = (actor_oper_aggregator_key a = actor_oper_port_key p \<and>
     MAC_ADDRESS_EQUAL (partner_system a) (pp_system (partner_oper p)) \<and>
     partner_system_priority a = pp_system_priority (partner_oper p) \<and>
     partner_oper_aggregator_key a = pp_key (partner_oper p) \<and>
     agg_has_partner a \<and> \<not> is_individual a)"

text \<open>The search over all aggregators: the one that suits, if any, and the first free one seen.\<close>

fun search_agg :: "ad_bond \<Rightarrow> ad_port \<Rightarrow> nat option \<Rightarrow> nat list \<Rightarrow> nat option \<times> nat option" where
  "search_agg b p free [] = (None, free)"
| "search_agg b p free (s # ss) =
     (if lag_ports (b_agg b s) = None then search_agg b p (if free = None then Some s else free) ss
      else if suits (b_agg b s) p then (Some s, free)
      else search_agg b p free ss)"

definition join_agg :: "nat \<Rightarrow> nat \<Rightarrow> ad_bond \<Rightarrow> ad_bond" where
  "join_agg port a b =
     (let b = upd_port port (\<lambda>p. p\<lparr>p_aggregator := Some a,
            actor_port_aggregator_identifier := aggregator_identifier (b_agg b a),
            next_port_in_aggregator := lag_ports (b_agg b a)\<rparr>) b;
          b = upd_agg a (\<lambda>x. x\<lparr>num_of_ports := num_of_ports x + 1, lag_ports := Some port\<rparr>) b
      in upd_port port (\<lambda>p. p\<lparr>sm_vars := sm_vars p OR AD_PORT_SELECTED\<rparr>) b)"

definition found_agg :: "nat \<Rightarrow> nat \<Rightarrow> ad_bond \<Rightarrow> ad_bond" where
  "found_agg port a b =
     (let b = upd_port port (\<lambda>p. p\<lparr>actor_port_aggregator_identifier := aggregator_identifier (b_agg b a)\<rparr>) b;
          p = b_port b port;
          b = upd_agg a (\<lambda>x. x\<lparr>is_individual := (actor_oper_port_key p AND AD_DUPLEX_KEY_MASKS = 0),
            actor_admin_aggregator_key := actor_admin_port_key p,
            actor_oper_aggregator_key := actor_oper_port_key p,
            partner_system := pp_system (partner_oper p),
            partner_system_priority := pp_system_priority (partner_oper p),
            partner_oper_aggregator_key := pp_key (partner_oper p),
            receive_state := 1, transmit_state := 1, lag_ports := Some port,
            num_of_ports := num_of_ports x + 1\<rparr>) b
      in upd_port port (\<lambda>p. p\<lparr>p_aggregator := Some a, sm_vars := sm_vars p OR AD_PORT_SELECTED\<rparr>) b)"

definition detach_port :: "nat \<Rightarrow> ad_bond \<Rightarrow> ad_bond defined" where
  "detach_port port b = (case p_aggregator (b_port b port) of
     None \<Rightarrow> Some b
   | Some t \<Rightarrow> do { ps \<leftarrow> agg_ports b t; Some (detach_loop port t None ps b) })"

definition attach_port :: "nat \<Rightarrow> ad_bond \<Rightarrow> ad_bond option" where
  "attach_port port b = (case search_agg b (b_port b port) None (b_slaves b) of
     (Some a, _) \<Rightarrow> Some (join_agg port a b)
   | (None, Some a) \<Rightarrow> Some (found_agg port a b)
   | (None, None) \<Rightarrow> None)"

definition ad_port_selection_logic :: "ad_env \<Rightarrow> nat \<Rightarrow> ad_bond \<Rightarrow> (bool \<times> ad_bond) defined" where
  "ad_port_selection_logic e port b =
     (if on (sm_vars (b_port b port)) AD_PORT_SELECTED then Some (False, b)
      else do {
        _ \<leftarrow> p_slave (b_port b port);
        b \<leftarrow> detach_port port b;
        case attach_port port b of
          None \<Rightarrow> Some (False, b)
        | Some b \<Rightarrow> do {
            a \<leftarrow> p_aggregator (b_port b port);
            ready \<leftarrow> agg_ports_are_ready b a;
            b \<leftarrow> set_agg_ports_ready a ready b;
            (upd, b) \<leftarrow> ad_agg_selection_logic e (get_first_agg b port) b;
            Some (upd, if \<not> is_active (b_agg b a)
              then upd_port port (\<lambda>p. p\<lparr>actor_oper_port_state := actor_oper_port_state p - {SYNCHRONIZATION}\<rparr>) b else b)
          }
      })"

end
