(* ===== verification/Lacp_Select.thy ===== *)
theory Lacp_Select
  imports Lacp_Agg "HOL-Library.Product_Lexorder"
begin

text \<open>
  The selection of the active aggregator (\<open>ad_agg_selection_logic\<close>): it is total on a bond whose
  port lists are well formed, leaves at most one aggregator active, and picks a candidate of the
  highest rank in the lexicographic order that the comments of the source describe.
\<close>

subsection \<open>Port lists\<close>

fun lseg :: "(nat \<Rightarrow> nat option) \<Rightarrow> nat option \<Rightarrow> nat list \<Rightarrow> bool" where
  "lseg nxt p [] = (p = None)"
| "lseg nxt p (i # ps) = (p = Some i \<and> lseg nxt (nxt i) ps)"

lemma lseg_lag_list: "lseg nxt p ps \<Longrightarrow> lag_list nxt p = Some ps"
  by (induction ps arbitrary: p) (simp_all add: lag_list.simps)

lemma lseg_None [simp]: "lseg nxt None ps = (ps = [])"
  by (cases ps) auto

lemma lseg_unique: "lseg nxt p ps \<Longrightarrow> lseg nxt p qs \<Longrightarrow> ps = qs"
  by (metis lseg_lag_list option.inject)

lemma lseg_append: "lseg nxt p (ps @ qs) \<Longrightarrow> \<exists>q. lseg nxt q qs"
  by (induction ps arbitrary: p) auto

lemma lseg_distinct: "lseg nxt p ps \<Longrightarrow> distinct ps"
proof (induction ps arbitrary: p)
  case (Cons i ps)
  have "i \<notin> set ps"
  proof
    assume "i \<in> set ps"
    then obtain xs ys where ps: "ps = xs @ i # ys" by (auto dest: split_list)
    with Cons.prems have "lseg nxt (nxt i) (xs @ i # ys)" by simp
    from lseg_append [OF this] have "lseg nxt (Some i) (i # ys)" by auto
    moreover have "lseg nxt (Some i) (i # ps)" using Cons.prems by simp
    ultimately have "ys = ps" using lseg_unique by blast
    with ps show False by (simp add: append_eq_Cons_conv)
  qed
  with Cons show ?case by auto
qed simp

lemma lseg_cong: "(\<And>i. i \<in> set ps \<Longrightarrow> nxt i = nxt' i) \<Longrightarrow> lseg nxt p ps = lseg nxt' p ps"
  by (induction ps arbitrary: p) auto

lemma lseg_upd [simp]: "i \<notin> set ps \<Longrightarrow> lseg (nxt(i := v)) p ps = lseg nxt p ps"
  by (rule lseg_cong) auto

subsection \<open>The invariant of the port lists\<close>

abbreviation nextp :: "ad_bond \<Rightarrow> nat \<Rightarrow> nat option" where
  "nextp b i \<equiv> next_port_in_aggregator (b_port b i)"

text \<open>
  \<open>L\<close> gives each aggregator its list of ports: every port of a list belongs to that aggregator, and
  the counters agree. In a quiescent bond moreover a port with an aggregator is on its list, and one
  without has no successor; that part does not matter for the selection, which also runs while a
  port is being removed.
\<close>

definition lists_ok :: "(nat \<Rightarrow> nat list) \<Rightarrow> ad_bond \<Rightarrow> bool" where
  "lists_ok L b = (distinct (b_slaves b) \<and> length (b_slaves b) < 65536 \<and>
     (\<forall>a\<in>set (b_slaves b). lseg (nextp b) (lag_ports (b_agg b a)) (L a) \<and> a_slave (b_agg b a) = Some a \<and>
        unat (num_of_ports (b_agg b a)) = length (L a) \<and>
        (\<forall>i\<in>set (L a). i \<in> set (b_slaves b) \<and> p_aggregator (b_port b i) = Some a)) \<and>
     (\<forall>i\<in>set (b_slaves b). p_slave (b_port b i) = Some i))"

definition port_placed :: "(nat \<Rightarrow> nat list) \<Rightarrow> ad_bond \<Rightarrow> nat \<Rightarrow> bool" where
  "port_placed L b i = (case p_aggregator (b_port b i) of
     None \<Rightarrow> nextp b i = None
   | Some a \<Rightarrow> a \<in> set (b_slaves b) \<and> i \<in> set (L a))"

definition lag_inv :: "(nat \<Rightarrow> nat list) \<Rightarrow> ad_bond \<Rightarrow> bool" where
  "lag_inv L b = (lists_ok L b \<and> (\<forall>i\<in>set (b_slaves b). port_placed L b i))"

lemma lists_okD:
  assumes "lists_ok L b" "a \<in> set (b_slaves b)"
  shows "agg_ports b a = Some (L a)" "a_slave (b_agg b a) = Some a" "set (L a) \<subseteq> set (b_slaves b)"
    "lseg (nextp b) (lag_ports (b_agg b a)) (L a)" "unat (num_of_ports (b_agg b a)) = length (L a)"
    "p_slave (b_port b a) = Some a"
    "\<And>i. i \<in> set (L a) \<Longrightarrow> p_aggregator (b_port b i) = Some a"
    "\<And>i. i \<in> set (L a) \<Longrightarrow> p_slave (b_port b i) = Some i"
  using assms by (auto simp: lists_ok_def agg_ports_def lseg_lag_list)

lemma lag_lists: "lag_inv L b \<Longrightarrow> lists_ok L b"
  by (simp add: lag_inv_def)

lemmas lag_invD = lists_okD [OF lag_lists]

text \<open>What the lists consist of is all that the invariant depends on.\<close>

definition same_lag :: "ad_bond \<Rightarrow> ad_bond \<Rightarrow> bool" where
  "same_lag b b' = (b_slaves b' = b_slaves b \<and>
     (\<forall>i. p_slave (b_port b' i) = p_slave (b_port b i) \<and> p_aggregator (b_port b' i) = p_aggregator (b_port b i) \<and>
          nextp b' i = nextp b i) \<and>
     (\<forall>a. lag_ports (b_agg b' a) = lag_ports (b_agg b a) \<and> num_of_ports (b_agg b' a) = num_of_ports (b_agg b a) \<and>
          a_slave (b_agg b' a) = a_slave (b_agg b a)))"

lemma same_lag_lists: "same_lag b b' \<Longrightarrow> lists_ok L b' = lists_ok L b"
  by (simp add: same_lag_def lists_ok_def)

lemma same_lag_inv: "same_lag b b' \<Longrightarrow> lag_inv L b' = lag_inv L b"
  by (simp add: lag_inv_def same_lag_lists) (simp add: same_lag_def port_placed_def cong: option.case_cong)

lemma same_lag_refl [simp]: "same_lag b b"
  by (simp add: same_lag_def)

lemma same_lag_trans: "same_lag b b' \<Longrightarrow> same_lag b' b'' \<Longrightarrow> same_lag b b''"
  by (simp add: same_lag_def)

subsection \<open>Activity flags\<close>

definition set_act :: "(nat \<Rightarrow> bool) \<Rightarrow> ad_bond \<Rightarrow> ad_bond" where
  "set_act f b = b\<lparr>b_agg := \<lambda>s. (b_agg b s)\<lparr>is_active := f s\<rparr>\<rparr>"

abbreviation act :: "ad_bond \<Rightarrow> nat \<Rightarrow> bool" where
  "act b s \<equiv> is_active (b_agg b s)"

lemma set_act_simps [simp]:
  "b_slaves (set_act f b) = b_slaves b" "b_port (set_act f b) = b_port b" "b_params (set_act f b) = b_params b"
  "b_slave (set_act f b) = b_slave b" "b_agg (set_act f b) s = (b_agg b s)\<lparr>is_active := f s\<rparr>"
  "set_act f (set_act g b) = set_act f b" "carrier_ok (set_act f b) = carrier_ok b"
  by (simp_all add: set_act_def)

lemma upd_act: "upd_agg s (\<lambda>a. a\<lparr>is_active := v\<rparr>) b = set_act ((act b)(s := v)) b"
  by (simp add: set_act_def fun_eq_iff)

lemma same_lag_set_act [simp]: "same_lag b (set_act f b)"
  by (simp add: same_lag_def)

lemma set_act_views [simp]:
  "agg_ports (set_act f b) a = agg_ports b a"
  "agg_active_ports (set_act f b) a = agg_active_ports b a"
  "agg_ports_priority (set_act f b) a = agg_ports_priority b a"
  "get_agg_selection_mode (set_act f b) i = get_agg_selection_mode b i"
  "get_link_speed (set_act f b) i = get_link_speed b i"
  "get_agg_bandwidth (set_act f b) a = get_agg_bandwidth b a"
  "agg_has_partner (x\<lparr>is_active := v\<rparr>) = agg_has_partner x"
  by (simp_all add: agg_ports_def agg_active_ports_def agg_ports_priority_def get_agg_selection_mode_def
      get_link_speed_def get_agg_bandwidth_def agg_has_partner_def cong: if_cong option.case_cong)

lemma up_loop_set_act [simp]: "up_loop (set_act f b) ps = up_loop b ps"
  by (induction ps) (auto split: option.split)

lemma subtests_set_act [simp]:
  "bandwidth_test (set_act f b) best c = bandwidth_test b best c"
  "count_test (set_act f b) best c = count_test b best c"
  "prio_test (set_act f b) best c = prio_test b best c"
proof -
  show bw: "bandwidth_test (set_act f b) best c = bandwidth_test b best c" by (simp add: bandwidth_test_def)
  show cn: "count_test (set_act f b) best c = count_test b best c" by (simp add: count_test_def bw cong: if_cong)
  show "prio_test (set_act f b) best c = prio_test b best c" by (simp add: prio_test_def cn cong: if_cong)
qed

lemma test_set_act [simp]:
  "agg_device_up (set_act f b) a = agg_device_up b a"
  "ad_agg_selection_test (set_act f b) best c = ad_agg_selection_test b best c"
  by (simp_all add: agg_device_up_def ad_agg_selection_test_def Let_def cong: if_cong option.case_cong ad_select_t.case_cong)

subsection \<open>Ranks\<close>

definition active_count :: "(nat \<Rightarrow> nat list) \<Rightarrow> ad_bond \<Rightarrow> nat \<Rightarrow> nat" where
  "active_count L b a = length (filter (\<lambda>i. is_enabled (b_port b i)) (L a))"

definition prio_sum :: "(nat \<Rightarrow> nat list) \<Rightarrow> ad_bond \<Rightarrow> nat \<Rightarrow> u32" where
  "prio_sum L b a = fold (\<lambda>i prio. if is_enabled (b_port b i) then prio + ucast (actor_port_priority (b_port b i)) else prio) (L a) 0"

definition bandwidth :: "(nat \<Rightarrow> nat list) \<Rightarrow> ad_bond \<Rightarrow> nat \<Rightarrow> u32" where
  "bandwidth L b a = (if active_count L b a = 0 then 0
     else of_nat (active_count L b a *
       code_bandwidth (if link_up (b_slave b (hd (L a))) then speed_code (s_speed (b_slave b (hd (L a)))) else 0)))"

definition device_up :: "(nat \<Rightarrow> nat list) \<Rightarrow> ad_bond \<Rightarrow> nat \<Rightarrow> bool" where
  "device_up L b a = (\<exists>i\<in>set (L a). dev_running (b_slave b i) \<and> dev_carrier (b_slave b i))"

text \<open>The aggregators that may become active, and the order on them under the bond's policy.\<close>

definition candidate :: "(nat \<Rightarrow> nat list) \<Rightarrow> ad_bond \<Rightarrow> nat \<Rightarrow> bool" where
  "candidate L b a = (active_count L b a \<noteq> 0 \<and> device_up L b a)"

definition rank :: "(nat \<Rightarrow> nat list) \<Rightarrow> ad_bond \<Rightarrow> nat \<Rightarrow> bool \<times> bool \<times> nat \<times> nat \<times> nat" where
  "rank L b a = (let mode = ad_select (b_params b)
     in (\<not> is_individual (b_agg b a), agg_has_partner (b_agg b a),
         if mode = BOND_AD_PRIO then unat (prio_sum L b a) else 0,
         if mode \<in> {BOND_AD_PRIO, BOND_AD_COUNT} then active_count L b a else 0,
         if mode = BOND_AD_OTHER then 0 else unat (bandwidth L b a)))"

lemma active_ports_eq:
  assumes "lists_ok L b" "a \<in> set (b_slaves b)"
  shows "agg_active_ports b a = Some (active_count L b a)"
  using lists_okD(1) [OF assms] by (simp add: agg_active_ports_def active_count_def)

lemma priority_eq:
  assumes "lists_ok L b" "a \<in> set (b_slaves b)"
  shows "agg_ports_priority b a = Some (prio_sum L b a)"
  using lists_okD(1) [OF assms] by (simp add: agg_ports_priority_def prio_sum_def)

lemma head_port:
  assumes "lists_ok L b" "a \<in> set (b_slaves b)" "L a \<noteq> []"
  shows "lag_ports (b_agg b a) = Some (hd (L a))" "hd (L a) \<in> set (b_slaves b)" "p_slave (b_port b (hd (L a))) = Some (hd (L a))"
  using lists_okD(3,4,8) [OF assms(1,2)] assms(3) by (cases "L a"; auto)+

lemma bandwidth_eq:
  assumes "lists_ok L b" "a \<in> set (b_slaves b)"
  shows "get_agg_bandwidth b a = Some (bandwidth L b a)"
proof (cases "active_count L b a = 0")
  case True
  then show ?thesis by (simp add: get_agg_bandwidth_def active_ports_eq [OF assms] bandwidth_def)
next
  case False
  then have "L a \<noteq> []" by (auto simp: active_count_def)
  with False head_port [OF assms] show ?thesis
    by (simp add: get_agg_bandwidth_def active_ports_eq [OF assms] bandwidth_def get_link_speed_def)
qed

lemma up_loop_eq:
  "(\<And>i. i \<in> set ps \<Longrightarrow> p_slave (b_port b i) = Some i) \<Longrightarrow>
   up_loop b ps = Some (\<exists>i\<in>set ps. dev_running (b_slave b i) \<and> dev_carrier (b_slave b i))"
  by (induction ps) auto

lemma device_up_eq:
  assumes "lists_ok L b" "a \<in> set (b_slaves b)"
  shows "agg_device_up b a = Some (device_up L b a)"
  using lists_okD(1,8) [OF assms] by (simp add: agg_device_up_def device_up_def up_loop_eq)

lemma test_rank:
  assumes "lists_ok L b" "c \<in> set (b_slaves b)" "d \<in> set (b_slaves b)" "active_count L b d \<noteq> 0"
  shows "ad_agg_selection_test b (Some c) d = Some (if rank L b c < rank L b d then d else c)"
proof -
  have "L d \<noteq> []" using assms(4) by (auto simp: active_count_def)
  note head = head_port [OF assms(1,3) this]
  have mode: "get_agg_selection_mode b (hd (L d)) = ad_select (b_params b)"
    using head(3) by (simp add: get_agg_selection_mode_def)
  note views = active_ports_eq [OF assms(1,2)] active_ports_eq [OF assms(1,3)] priority_eq [OF assms(1,2)]
    priority_eq [OF assms(1,3)] bandwidth_eq [OF assms(1,2)] bandwidth_eq [OF assms(1,3)]
  show ?thesis
    by (cases "ad_select (b_params b)")
      (auto simp: ad_agg_selection_test_def prio_test_def count_test_def bandwidth_test_def Let_def head(1) mode views
        rank_def less_prod_def word_less_nat_alt less_bool_def)
qed

subsection \<open>The best candidate\<close>

definition pick :: "(nat \<Rightarrow> nat list) \<Rightarrow> ad_bond \<Rightarrow> nat \<Rightarrow> nat option \<Rightarrow> nat option" where
  "pick L b s best = (if candidate L b s then (case best of None \<Rightarrow> Some s
      | Some c \<Rightarrow> Some (if rank L b c < rank L b s then s else c)) else best)"

lemma set_act_self [simp]: "set_act (act b) b = b"
  by (simp add: set_act_def)

lemma best_loop_eq:
  assumes inv: "lists_ok L b"
  shows "set ss \<subseteq> set (b_slaves b) \<Longrightarrow> (\<And>c. best = Some c \<Longrightarrow> c \<in> set (b_slaves b)) \<Longrightarrow>
    best_loop ss best (set_act f b) = Some (fold (pick L b) ss best, set_act (\<lambda>s. s \<notin> set ss \<and> f s) b)"
proof (induction ss arbitrary: best f)
  case Nil
  then show ?case by simp
next
  case (Cons s ss)
  let ?f = "f(s := False)"
  have s: "s \<in> set (b_slaves b)" using Cons.prems(1) by simp
  have upd: "upd_agg s (\<lambda>a. a\<lparr>is_active := False\<rparr>) (set_act f b) = set_act ?f b"
    unfolding upd_act by (simp add: set_act_def fun_eq_iff)
  have test: "ad_agg_selection_test b best s = pick L b s best" if "candidate L b s"
  proof (cases best)
    case None
    with that show ?thesis by (simp add: pick_def ad_agg_selection_test_def)
  next
    case (Some c)
    with that test_rank [OF inv _ s, of c] Cons.prems(2) show ?thesis by (simp add: pick_def candidate_def)
  qed
  have some: "map_option Some (pick L b s best) = Some (pick L b s best)" if "candidate L b s"
    using that by (auto simp: pick_def split: option.split)
  have "best_loop (s # ss) best (set_act f b) = best_loop ss (pick L b s best) (set_act ?f b)"
    unfolding best_loop.simps upd Let_def
    by (cases "candidate L b s")
      (auto simp: active_ports_eq [OF inv s] device_up_eq [OF inv s] test some candidate_def [of L b s] pick_def [of L b s] split: option.split)
  also have "\<dots> = Some (fold (pick L b) ss (pick L b s best), set_act (\<lambda>s'. s' \<notin> set ss \<and> ?f s') b)"
    by (rule Cons.IH) (use Cons.prems s in \<open>auto simp: pick_def split: if_splits option.splits\<close>)
  also have "(\<lambda>s'. s' \<notin> set ss \<and> ?f s') = (\<lambda>s'. s' \<notin> set (s # ss) \<and> f s')" by auto
  finally show ?case by simp
qed

lemma fold_pick_mono:
  "fold (pick L b) ss (Some c) = Some m \<Longrightarrow> rank L b c \<le> rank L b m"
  by (induction ss arbitrary: c) (auto simp: pick_def split: if_splits intro: order_trans dest: less_imp_le)

lemma fold_pick_Some: "\<exists>m. fold (pick L b) ss (Some c) = Some m"
  by (induction ss arbitrary: c) (auto simp: pick_def)

lemma fold_pick_best:
  "fold (pick L b) ss best = Some m \<Longrightarrow> s \<in> set ss \<Longrightarrow> candidate L b s \<Longrightarrow> rank L b s \<le> rank L b m"
proof (induction ss arbitrary: best)
  case (Cons t ss)
  show ?case
  proof (cases "s = t")
    case True
    with Cons.prems(3) have "\<exists>c. pick L b t best = Some c \<and> rank L b s \<le> rank L b c"
      by (cases best) (auto simp: pick_def not_less)
    then obtain c where c: "pick L b t best = Some c" "rank L b s \<le> rank L b c" by blast
    with Cons.prems(1) have "rank L b c \<le> rank L b m" by (intro fold_pick_mono [of L b ss]) simp
    with c(2) show ?thesis by (rule order_trans)
  next
    case False
    with Cons.prems Cons.IH [of "pick L b t best"] show ?thesis by simp
  qed
qed simp

lemma fold_pick_None:
  "(fold (pick L b) ss best = None) = (best = None \<and> (\<forall>s\<in>set ss. \<not> candidate L b s))"
proof (induction ss arbitrary: best)
  case (Cons s ss)
  show ?case
    using Cons [of "pick L b s best"] by (auto simp: pick_def split: option.splits)
qed simp

lemma fold_pick_from:
  "fold (pick L b) ss best = Some m \<Longrightarrow> best = Some m \<or> (m \<in> set ss \<and> candidate L b m)"
proof (induction ss arbitrary: best)
  case (Cons s ss)
  from Cons.IH [of "pick L b s best"] Cons.prems show ?case
    by (auto simp: pick_def split: if_splits option.splits)
qed simp

subsection \<open>Flags and carrier\<close>

text \<open>Enabling and disabling ports touches only the flags of slaves.\<close>

definition flags_only :: "ad_bond \<Rightarrow> ad_bond \<Rightarrow> bool" where
  "flags_only b b' = (\<exists>g. b' = b\<lparr>b_slave := \<lambda>s. (b_slave b s)\<lparr>s_flags := g s\<rparr>\<rparr>)"

lemma flags_only_refl: "flags_only b b"
  unfolding flags_only_def by (rule exI [of _ "\<lambda>s. s_flags (b_slave b s)"]) simp

lemma flags_only_trans: "flags_only b b' \<Longrightarrow> flags_only b' b'' \<Longrightarrow> flags_only b b''"
  unfolding flags_only_def by auto

lemma flags_onlyD:
  assumes "flags_only b b'"
  shows "b_slaves b' = b_slaves b" "b_port b' = b_port b" "b_agg b' = b_agg b" "b_params b' = b_params b" "same_lag b b'"
    "agg_ports b' a = agg_ports b a" "get_active_agg b' = get_active_agg b" "agg_active_ports b' a = agg_active_ports b a"
  using assms unfolding flags_only_def
  by (auto simp: same_lag_def agg_ports_def get_active_agg_def agg_active_ports_def)

lemma on_slave_flags: "p_slave (b_port b i) = Some s \<Longrightarrow> \<exists>b'. on_slave i f b = Some b' \<and> flags_only b b'"
  unfolding on_slave_def flags_only_def
  by (auto intro!: exI [of _ "\<lambda>x. if x = s then f (s_flags (b_slave b s)) else s_flags (b_slave b x)"] simp: fun_eq_iff)

lemma each_port_flags:
  assumes "\<And>i b. p_slave (b_port b i) \<noteq> None \<Longrightarrow> \<exists>b'. g i b = Some b' \<and> flags_only b b'"
  shows "(\<And>i. i \<in> set ps \<Longrightarrow> p_slave (b_port b i) \<noteq> None) \<Longrightarrow> \<exists>b'. each_port g ps b = Some b' \<and> flags_only b b'"
proof (induction ps arbitrary: b)
  case (Cons i ps)
  obtain b1 where b1: "g i b = Some b1" "flags_only b b1" using assms Cons.prems by force
  with Cons.prems obtain b2 where "each_port g ps b1 = Some b2" "flags_only b1 b2"
    using Cons.IH [of b1] flags_onlyD(2) [OF b1(2)] by auto
  with b1 show ?case by (auto intro: flags_only_trans)
qed (simp add: flags_only_refl)

lemma disable_enable_flags:
  "p_slave (b_port b i) \<noteq> None \<Longrightarrow> \<exists>b'. disable_port e i b = Some b' \<and> flags_only b b'"
  "p_slave (b_port b i) \<noteq> None \<Longrightarrow> \<exists>b'. enable_port e i b = Some b' \<and> flags_only b b'"
  using on_slave_flags flags_only_refl
  by (auto simp: disable_port_def enable_port_def on_up_slave_def)

lemma each_enable_disable:
  assumes "lists_ok L b" "a \<in> set (b_slaves b)"
  shows "\<exists>b'. each_port (disable_port e) (L a) b = Some b' \<and> flags_only b b'"
    "\<exists>b'. each_port (enable_port e) (L a) b = Some b' \<and> flags_only b b'"
  using lists_okD(8) [OF assms] disable_enable_flags
  by (auto intro!: each_port_flags)

lemma find_in: "find P xs = Some x \<Longrightarrow> x \<in> set xs \<and> P x"
  by (auto simp: find_Some_iff)

lemma set_carrier_total:
  assumes "lists_ok L b"
  shows "\<exists>r v. bond_3ad_set_carrier b = Some (r, b\<lparr>carrier_ok := v\<rparr>)"
proof (cases "b_slaves b")
  case Nil
  then show ?thesis by (auto simp: bond_3ad_set_carrier_def intro!: exI [of _ "carrier_ok b"])
next
  case (Cons s ss)
  then have own: "a_slave (b_agg b s) \<noteq> None" using lists_okD(2) [OF assms, of s] by simp
  have same: "b = b\<lparr>carrier_ok := carrier_ok b\<rparr>" by simp
  show ?thesis
  proof (cases "get_active_agg b")
    case None
    with Cons own show ?thesis
      by (cases "carrier_ok b") (auto simp: bond_3ad_set_carrier_def intro: exI [of _ False])
  next
    case (Some a)
    then have "a \<in> set (b_slaves b)" using find_in by (fastforce simp: get_active_agg_def)
    from active_ports_eq [OF assms this] Some Cons own show ?thesis
      by (cases "carrier_ok b") (auto simp: bond_3ad_set_carrier_def intro: exI [of _ False] exI [of _ True])
  qed
qed

subsection \<open>The selection logic\<close>

definition keeps :: "(nat \<Rightarrow> nat list) \<Rightarrow> ad_bond \<Rightarrow> nat \<Rightarrow> nat \<Rightarrow> bool" where
  "keeps L b a c = (active_count L b a \<noteq> 0 \<and> (agg_has_partner (b_agg b a) \<or> \<not> agg_has_partner (b_agg b c)) \<and>
     \<not> (actor_oper_aggregator_key (b_agg b a) = 0 \<and> actor_oper_aggregator_key (b_agg b c) \<noteq> 0))"

definition initial_best :: "(nat \<Rightarrow> nat list) \<Rightarrow> ad_bond \<Rightarrow> nat option" where
  "initial_best L b = (case get_active_agg b of None \<Rightarrow> None | Some a \<Rightarrow> if device_up L b a then Some a else None)"

definition best_agg :: "(nat \<Rightarrow> nat list) \<Rightarrow> ad_bond \<Rightarrow> nat option" where
  "best_agg L b = fold (pick L b) (b_slaves b) (initial_best L b)"

definition chosen :: "(nat \<Rightarrow> nat list) \<Rightarrow> ad_bond \<Rightarrow> nat option" where
  "chosen L b = (case best_agg L b of None \<Rightarrow> None
     | Some c \<Rightarrow> (case get_active_agg b of
           Some a \<Rightarrow> if ad_select (b_params b) = BOND_AD_STABLE \<and> keeps L b a c then Some a else Some c
         | None \<Rightarrow> Some c))"

definition activated :: "nat option \<Rightarrow> ad_bond \<Rightarrow> ad_bond" where
  "activated m b = set_act (\<lambda>s. s \<notin> set (b_slaves b) \<and> act b s \<or> m = Some s) b"

lemma activate: "c \<in> set (b_slaves b) \<Longrightarrow> upd_agg c (\<lambda>x. x\<lparr>is_active := True\<rparr>) (activated None b) = activated (Some c) b"
  unfolding upd_act by (auto simp: activated_def set_act_def fun_eq_iff)

lemma active_agg_in: "get_active_agg b = Some a \<Longrightarrow> a \<in> set (b_slaves b)"
  using find_in by (fastforce simp: get_active_agg_def)

lemma best_agg_in:
  assumes "lists_ok L b" "best_agg L b = Some c"
  shows "c \<in> set (b_slaves b)" "L c \<noteq> []"
  using fold_pick_from [of L b "b_slaves b" "initial_best L b" c] assms(2) active_agg_in [of b]
  by (auto simp: best_agg_def initial_best_def candidate_def active_count_def device_up_def split: option.splits if_splits)

lemma keeps_stable_eq:
  assumes "lists_ok L b" "a \<in> set (b_slaves b)"
  shows "keeps_stable (set_act f b) a c = Some (keeps L b a c)"
proof (cases "L a")
  case Nil
  then have "lag_ports (b_agg b a) = None" using lists_okD(4) [OF assms] by simp
  with Nil show ?thesis by (simp add: keeps_stable_def keeps_def active_count_def)
next
  case Cons
  then have "lag_ports (b_agg b a) \<noteq> None" using head_port(1) [OF assms] by simp
  then show ?thesis by (auto simp: keeps_stable_def keeps_def active_ports_eq [OF assms])
qed

text \<open>The stable policy and the comparison with the old active aggregator.\<close>

lemma settle_choice:
  assumes inv: "lists_ok L b"
  shows "\<exists>best b1. stable_step (get_active_agg b) (best_agg L b) (activated None b) = Some (best, b1) \<and>
    (let (best', b2) = (if best \<noteq> None \<and> best = get_active_agg b
        then (None, upd_agg (the (get_active_agg b)) (\<lambda>x. x\<lparr>is_active := True\<rparr>) b1) else (best, b1))
     in (best' = None \<and> b2 = activated (chosen L b) b) \<or> (best' \<noteq> None \<and> best' = chosen L b \<and> b2 = activated None b))"
proof (cases "best_agg L b")
  case None
  then show ?thesis by (simp add: stable_step_def chosen_def)
next
  case (Some c)
  note c = best_agg_in [OF inv Some]
  have mode: "lag_ports (b_agg b c) = Some (hd (L c))" "get_agg_selection_mode b (hd (L c)) = ad_select (b_params b)"
    using head_port [OF inv c] by (simp_all add: get_agg_selection_mode_def)
  show ?thesis
  proof (cases "get_active_agg b")
    case None
    with Some mode show ?thesis by (simp add: stable_step_def chosen_def activated_def)
  next
    case a: (Some a)
    note a' = active_agg_in [OF a]
    have keep: "keeps_stable (activated None b) a c = Some (keeps L b a c)"
      unfolding activated_def by (rule keeps_stable_eq [OF inv a'])
    have sel: "lag_ports (b_agg (activated None b) c) = Some (hd (L c))"
      "get_agg_selection_mode (activated None b) (hd (L c)) = ad_select (b_params b)"
      using mode by (simp_all add: activated_def)
    have step: "stable_step (Some a) (Some c) (activated None b) =
        Some (if ad_select (b_params b) = BOND_AD_STABLE \<and> keeps L b a c then (None, activated (Some a) b)
              else (Some c, activated None b))"
      unfolding stable_step_def using keep sel activate [OF a'] by simp
    have ch: "chosen L b = (if ad_select (b_params b) = BOND_AD_STABLE \<and> keeps L b a c then Some a else Some c)"
      by (simp add: chosen_def Some a)
    show ?thesis unfolding Some a step ch
      using activate [OF a'] by (cases "ad_select (b_params b) = BOND_AD_STABLE \<and> keeps L b a c"; cases "a = c") simp_all
  qed
qed

lemma activate_best_total:
  assumes "lists_ok L b" "(best = None \<and> b2 = activated m b) \<or> (best \<noteq> None \<and> best = m \<and> b2 = activated None b)"
    "\<And>c. m = Some c \<Longrightarrow> c \<in> set (b_slaves b)" "\<And>a. active = Some a \<Longrightarrow> a \<in> set (b_slaves b)"
  shows "\<exists>upd b3. activate_best e active best b2 = Some (upd, b3) \<and> flags_only (activated m b) b3"
proof (cases best)
  case None
  with assms(2) show ?thesis by (auto simp: activate_best_def flags_only_refl)
next
  case (Some c)
  with assms(2) have m: "m = Some c" "b2 = activated None b" by auto
  have act: "upd_agg c (\<lambda>x. x\<lparr>is_active := True\<rparr>) b2 = activated m b"
    using activate [of c b] assms(3) m by simp
  have inv: "lists_ok L (activated m b)" using assms(1) by (simp add: activated_def same_lag_lists [OF same_lag_set_act])
  show ?thesis
  proof (cases active)
    case None
    then show ?thesis by (auto simp: activate_best_def Some act flags_only_refl)
  next
    case a: (Some a)
    have "a \<in> set (b_slaves (activated m b))" using assms(4) [OF a] by (simp add: activated_def)
    then show ?thesis
      using each_enable_disable(1) [OF inv, of a e] lists_okD(1) [OF inv, of a]
      by (auto simp: activate_best_def Some act a)
  qed
qed

lemma enable_individuals_total:
  assumes "lists_ok L b"
  shows "\<exists>upd' b'. enable_individuals e upd b = Some (upd', b') \<and> flags_only b b'"
proof (cases "get_active_agg b")
  case None
  then show ?thesis by (auto simp: enable_individuals_def flags_only_refl)
next
  case (Some a)
  note a = active_agg_in [OF Some]
  from each_enable_disable(2) [OF assms a, of e] lists_okD(1) [OF assms a] Some show ?thesis
    by (cases "agg_has_partner (b_agg b a)") (auto simp: enable_individuals_def flags_only_refl)
qed

lemma selection_logic_eq:
  assumes inv: "lists_ok L b" and orig: "orig \<in> set (b_slaves b)"
  shows "\<exists>upd b' v. ad_agg_selection_logic e (Some orig) b = Some (upd, b'\<lparr>carrier_ok := v\<rparr>) \<and>
    flags_only (activated (chosen L b) b) b'"
proof -
  let ?m = "chosen L b" and ?a = "get_active_agg b"
  have m: "c \<in> set (b_slaves b)" if "?m = Some c" for c
    using that active_agg_in best_agg_in(1) [OF inv] by (auto simp: chosen_def split: option.splits if_splits)
  have init: "(case ?a of None \<Rightarrow> Some None
      | Some a \<Rightarrow> do { up \<leftarrow> agg_device_up b a; Some (if up then Some a else None) }) = Some (initial_best L b)"
    using device_up_eq [OF inv active_agg_in [of b]] by (auto simp: initial_best_def split: option.split)
  have loop: "best_loop (b_slaves b) (initial_best L b) b = Some (best_agg L b, activated None b)"
    using best_loop_eq [OF inv, of "b_slaves b" "initial_best L b" "act b"] active_agg_in [of b]
    by (auto simp: best_agg_def initial_best_def activated_def split: option.splits if_splits)
  obtain best b1 where st: "stable_step ?a (best_agg L b) (activated None b) = Some (best, b1)"
    and choice: "let (best', b2) = (if best \<noteq> None \<and> best = ?a
        then (None, upd_agg (the ?a) (\<lambda>x. x\<lparr>is_active := True\<rparr>) b1) else (best, b1))
      in (best' = None \<and> b2 = activated ?m b) \<or> (best' \<noteq> None \<and> best' = ?m \<and> b2 = activated None b)"
    using settle_choice [OF inv] by blast
  obtain best' b2 where sw: "(if best \<noteq> None \<and> best = ?a
      then (None, upd_agg (the ?a) (\<lambda>x. x\<lparr>is_active := True\<rparr>) b1) else (best, b1)) = (best', b2)"
    by (rule prod.exhaust)
  have res: "(best' = None \<and> b2 = activated ?m b) \<or> (best' \<noteq> None \<and> best' = ?m \<and> b2 = activated None b)"
    using choice unfolding sw by simp
  obtain u1 b3 where b3: "activate_best e ?a best' b2 = Some (u1, b3)" "flags_only (activated ?m b) b3"
    using activate_best_total [OF inv res m active_agg_in] by blast
  have "same_lag b (activated ?m b)" by (simp add: activated_def)
  then have inv3: "lists_ok L b3" using inv same_lag_lists flags_onlyD(5) [OF b3(2)] by blast
  obtain u2 b4 where b4: "enable_individuals e u1 b3 = Some (u2, b4)" "flags_only b3 b4"
    using enable_individuals_total [OF inv3] by blast
  then have "lists_ok L b4" using inv3 same_lag_lists flags_onlyD(5) by blast
  from set_carrier_total [OF this] obtain r v where "bond_3ad_set_carrier b4 = Some (r, b4\<lparr>carrier_ok := v\<rparr>)" by blast
  with b3 b4 have "ad_agg_selection_logic e (Some orig) b = Some (u2, b4\<lparr>carrier_ok := v\<rparr>)"
    unfolding ad_agg_selection_logic_def Let_def
    using sw by (cases "best \<noteq> None \<and> best = ?a") (auto simp: init loop st lists_okD(2) [OF inv orig])
  with flags_only_trans [OF b3(2) b4(2)] show ?thesis by blast
qed

lemma selection_logic_acts:
  assumes "lists_ok L b" "orig \<in> set (b_slaves b)"
  shows "\<exists>upd b'. ad_agg_selection_logic e (Some orig) b = Some (upd, b') \<and> same_lag b b' \<and> b_port b' = b_port b \<and>
    (\<forall>s\<in>set (b_slaves b). act b' s = (chosen L b = Some s))"
proof -
  obtain upd b' v where r: "ad_agg_selection_logic e (Some orig) b = Some (upd, b'\<lparr>carrier_ok := v\<rparr>)"
    and f: "flags_only (activated (chosen L b) b) b'"
    using selection_logic_eq [OF assms] by blast
  have "same_lag b (activated (chosen L b) b)" by (simp add: activated_def)
  then have "same_lag b b'" using flags_onlyD(5) [OF f] same_lag_trans by blast
  then have "same_lag b (b'\<lparr>carrier_ok := v\<rparr>)" by (simp add: same_lag_def)
  moreover have "b_port b' = b_port b" using flags_onlyD(2) [OF f] by (simp add: activated_def)
  moreover have "\<forall>s\<in>set (b_slaves b). act b' s = (chosen L b = Some s)"
    using flags_onlyD(3) [OF f] by (simp add: activated_def)
  ultimately show ?thesis using r by auto
qed

lemma chosen_in: "lists_ok L b \<Longrightarrow> chosen L b = Some c \<Longrightarrow> c \<in> set (b_slaves b)"
  using active_agg_in best_agg_in(1) by (fastforce simp: chosen_def split: option.splits if_splits)

subsection \<open>Properties\<close>

text \<open>
  What the ranking is meant to be, without the arithmetic of the code: the sum of the speeds of the enabled ports of an
  aggregator, in Mbit/s, and the sum of their priorities.
\<close>

definition mbps :: "ethtool_speed \<Rightarrow> nat" where
  "mbps v = (case v of SPEED_10 \<Rightarrow> 10 | SPEED_100 \<Rightarrow> 100 | SPEED_1000 \<Rightarrow> 1000 | SPEED_2500 \<Rightarrow> 2500 | SPEED_5000 \<Rightarrow> 5000
     | SPEED_10000 \<Rightarrow> 10000 | SPEED_14000 \<Rightarrow> 14000 | SPEED_20000 \<Rightarrow> 20000 | SPEED_25000 \<Rightarrow> 25000 | SPEED_40000 \<Rightarrow> 40000
     | SPEED_50000 \<Rightarrow> 50000 | SPEED_56000 \<Rightarrow> 56000 | SPEED_80000 \<Rightarrow> 80000 | SPEED_100000 \<Rightarrow> 100000 | SPEED_200000 \<Rightarrow> 200000
     | SPEED_400000 \<Rightarrow> 400000 | SPEED_800000 \<Rightarrow> 800000 | SPEED_1600000 \<Rightarrow> 1600000 | SPEED_OTHER \<Rightarrow> 0)"

definition port_mbps :: "ad_bond \<Rightarrow> nat \<Rightarrow> nat" where
  "port_mbps b i = (if link_up (b_slave b i) then mbps (s_speed (b_slave b i)) else 0)"

definition enabled_ports :: "(nat \<Rightarrow> nat list) \<Rightarrow> ad_bond \<Rightarrow> nat \<Rightarrow> nat list" where
  "enabled_ports L b a = filter (\<lambda>i. is_enabled (b_port b i)) (L a)"

definition total_bandwidth :: "(nat \<Rightarrow> nat list) \<Rightarrow> ad_bond \<Rightarrow> nat \<Rightarrow> nat" where
  "total_bandwidth L b a = sum_list (map (port_mbps b) (enabled_ports L b a))"

definition total_priority :: "(nat \<Rightarrow> nat list) \<Rightarrow> ad_bond \<Rightarrow> nat \<Rightarrow> nat" where
  "total_priority L b a = sum_list (map (\<lambda>i. unat (actor_port_priority (b_port b i))) (enabled_ports L b a))"

definition merit :: "(nat \<Rightarrow> nat list) \<Rightarrow> ad_bond \<Rightarrow> nat \<Rightarrow> bool \<times> bool \<times> nat \<times> nat \<times> nat" where
  "merit L b a = (let mode = ad_select (b_params b)
     in (\<not> is_individual (b_agg b a), agg_has_partner (b_agg b a),
         if mode = BOND_AD_PRIO then total_priority L b a else 0,
         if mode \<in> {BOND_AD_PRIO, BOND_AD_COUNT} then length (enabled_ports L b a) else 0,
         if mode = BOND_AD_OTHER then 0 else total_bandwidth L b a))"

text \<open>
  The code takes the speed of the first port of the list for the speed of all. That is right where the enabled
  ports of an aggregator have the same speed as its first port, and the sum fits an \<open>int\<close>.
\<close>

definition even_speed :: "(nat \<Rightarrow> nat list) \<Rightarrow> ad_bond \<Rightarrow> nat \<Rightarrow> bool" where
  "even_speed L b a = (list_all (\<lambda>i. port_mbps b i = port_mbps b (hd (L a))) (enabled_ports L b a) \<and>
     total_bandwidth L b a < 2 ^ 31)"

lemma code_bandwidth_mbps: "code_bandwidth (speed_code v) = mbps v"
  by (cases v) (simp_all add: code_bandwidth_def speed_code_def mbps_def)

lemma code_bandwidth_port:
  "code_bandwidth (if link_up (b_slave b i) then speed_code (s_speed (b_slave b i)) else 0) = port_mbps b i"
  by (simp add: port_mbps_def code_bandwidth_mbps) (simp add: code_bandwidth_def)

lemma bandwidth_total:
  assumes "even_speed L b a"
  shows "unat (bandwidth L b a) = total_bandwidth L b a"
proof -
  let ?v = "port_mbps b (hd (L a))"
  have "map (port_mbps b) (enabled_ports L b a) = replicate (length (enabled_ports L b a)) ?v"
    using assms by (intro replicate_eqI) (auto simp: even_speed_def list_all_iff)
  then have t: "total_bandwidth L b a = length (enabled_ports L b a) * ?v"
    by (simp add: total_bandwidth_def sum_list_replicate)
  have "bandwidth L b a = of_nat (total_bandwidth L b a)"
    unfolding bandwidth_def code_bandwidth_port t by (simp add: active_count_def enabled_ports_def)
  moreover have "total_bandwidth L b a < 2 ^ 31" using assms by (simp add: even_speed_def)
  ultimately show ?thesis by (simp add: unsigned_of_nat take_bit_eq_mod)
qed

lemma priority_fold:
  "(\<Sum>i\<leftarrow>filter (\<lambda>i. is_enabled (b_port b i)) ps. unat (actor_port_priority (b_port b i))) + unat acc < 2 ^ 32 \<Longrightarrow>
   unat (fold (\<lambda>i prio. if is_enabled (b_port b i) then prio + ucast (actor_port_priority (b_port b i)) else prio) ps (acc :: u32)) =
     (\<Sum>i\<leftarrow>filter (\<lambda>i. is_enabled (b_port b i)) ps. unat (actor_port_priority (b_port b i))) + unat acc"
proof (induction ps arbitrary: acc)
  case (Cons i ps)
  show ?case
  proof (cases "is_enabled (b_port b i)")
    case True
    let ?q = "unat (actor_port_priority (b_port b i))"
    have q: "unat (ucast (actor_port_priority (b_port b i)) :: u32) = ?q"
      using unsigned_less [of "actor_port_priority (b_port b i)", where ?'a = nat]
      by (simp add: unsigned_ucast_eq take_bit_nat_eq_self)
    have "unat (acc + ucast (actor_port_priority (b_port b i))) = unat acc + ?q"
      using Cons.prems True by (simp add: unat_word_ariths q)
    with Cons.IH [of "acc + ucast (actor_port_priority (b_port b i))"] Cons.prems True show ?thesis by simp
  qed (use Cons in simp)
qed simp

lemma priority_total:
  assumes inv: "lists_ok L b" and a: "a \<in> set (b_slaves b)"
  shows "unat (prio_sum L b a) = total_priority L b a"
proof -
  have d: "distinct (L a)" by (rule lseg_distinct [OF lists_okD(4) [OF inv a]])
  have "length (L a) = card (set (L a))" using d by (simp add: distinct_card)
  also have "\<dots> \<le> length (b_slaves b)"
    using card_mono [OF _ lists_okD(3) [OF inv a]] card_length [of "b_slaves b"] by simp
  finally have len: "length (L a) \<le> 65535" using inv by (simp add: lists_ok_def)
  have "sum_list (map (\<lambda>i. unat (actor_port_priority (b_port b i))) ps) \<le> length ps * 65535" for ps
  proof (induction ps)
    case (Cons i ps)
    then show ?case using unsigned_less [of "actor_port_priority (b_port b i)", where ?'a = nat] by simp
  qed simp
  then have "total_priority L b a \<le> length (enabled_ports L b a) * 65535" by (simp add: total_priority_def)
  also have "\<dots> \<le> 65535 * 65535" using len by (intro mult_le_mono1) (simp add: enabled_ports_def le_trans [OF length_filter_le])
  finally have "total_priority L b a < 2 ^ 32" by simp
  then show ?thesis
    using priority_fold [where acc = 0 and ps = "L a" and b = b]
    by (simp add: prio_sum_def total_priority_def enabled_ports_def)
qed

lemma rank_merit:
  assumes "lists_ok L b" "a \<in> set (b_slaves b)" "even_speed L b a"
  shows "rank L b a = merit L b a"
  using bandwidth_total [OF assms(3)] priority_total [OF assms(1,2)]
  by (simp add: rank_def merit_def Let_def active_count_def enabled_ports_def)


definition sample_agg :: "nat \<Rightarrow> aggregator" where
  "sample_agg s = \<lparr>aggregator_mac_address = [2, 0, 0, 0, 0, 1], aggregator_identifier = of_nat s, is_individual = False,
     actor_admin_aggregator_key = 9, actor_oper_aggregator_key = 9, partner_system = [2, 0, 0, 0, 1, of_nat s],
     partner_system_priority = 1, partner_oper_aggregator_key = 1, receive_state = 1, transmit_state = 1,
     lag_ports = Some s, a_slave = Some s, is_active = False, num_of_ports = 1\<rparr>"

definition no_stats :: ad_stats where
  "no_stats = \<lparr>lacpdu_rx = 0, lacpdu_tx = 0, lacpdu_unknown_rx = 0, lacpdu_illegal_rx = 0, marker_rx = 0, marker_tx = 0,
     marker_resp_rx = 0, marker_resp_tx = 0, marker_unknown_rx = 0\<rparr>"

definition sample_slave :: "nat \<Rightarrow> ad_slave" where
  "sample_slave s = \<lparr>link_up = True, slave_is_up = True, dev_running = True, dev_carrier = True,
     s_speed = (if s = 0 then SPEED_1000 else SPEED_10000), full_duplex = True, s_flags = 0, perm_hwaddr = [2, 0, 0, 0, 2, of_nat s],
     s_port_priority = 255, s_id = of_nat s, s_stats = no_stats\<rparr>"

definition sample_params :: bond_params where
  "sample_params = \<lparr>ad_select = BOND_AD_BANDWIDTH, lacp_active = True, lacp_fast = True, coupled_control = True,
     broadcast_neighbor = False, min_links = 1, ad_actor_sys_prio = 1, ad_actor_system = [0, 0, 0, 0, 0, 0],
     ad_user_port_key = 0\<rparr>"

text \<open>Two slaves, the ports of each in the aggregator of its own slave.\<close>

definition sample_bond :: ad_bond where
  "sample_bond = \<lparr>b_slaves = [0, 1], b_slave = sample_slave,
     b_port = (\<lambda>s. (sample_port 1 (of_nat s))\<lparr>p_slave := Some s, p_aggregator := Some s, next_port_in_aggregator := None\<rparr>),
     b_agg = sample_agg, b_params = sample_params, agg_select_timer = 0, last_agg_identifier = 2, sys_priority = 1,
     sys_mac_addr = [2, 0, 0, 0, 0, 1], dev_addr = [2, 0, 0, 0, 0, 1], carrier_ok = False, b_stats = no_stats,
     sent_frames = [], peer_notify_rearms = 0\<rparr>"

lemma sample_bond_inv: "lag_inv (\<lambda>a. [a]) sample_bond"
  by (auto simp: lag_inv_def lists_ok_def port_placed_def sample_bond_def sample_agg_def)

lemmas sample_bond_lists = lag_lists [OF sample_bond_inv]

lemma sample_bond_fields:
  "b_slaves sample_bond = [0, 1]" "ad_select (b_params sample_bond) = BOND_AD_BANDWIDTH"
  "candidate (\<lambda>a. [a]) sample_bond s"
  by (simp_all add: sample_bond_def sample_params_def candidate_def active_count_def device_up_def sample_port_def
      sample_slave_def)


text \<open>
  The first port of the list decides what the code takes for the bandwidth of an aggregator: when its link is down, the
  result is zero, whatever the enabled ports could carry.
\<close>

theorem first_port_decides:
  assumes "lists_ok L b" "a \<in> set (b_slaves b)"
  shows "get_agg_bandwidth b a = Some (of_nat (length (enabled_ports L b a) * port_mbps b (hd (L a)))) \<and>
    (\<not> link_up (b_slave b (hd (L a))) \<longrightarrow> get_agg_bandwidth b a = Some 0)"
  using bandwidth_eq [OF assms] unfolding bandwidth_def code_bandwidth_port
  by (auto simp: active_count_def enabled_ports_def port_mbps_def)

text \<open>Aggregator 0 with a dead port and a 10 Gbit/s port, in this order.\<close>

definition dead_head_bond :: ad_bond where
  "dead_head_bond = sample_bond\<lparr>b_slave := (\<lambda>s. (sample_slave s)\<lparr>link_up := (s \<noteq> 0)\<rparr>),
     b_port := (\<lambda>s. (sample_port 1 (of_nat s))\<lparr>p_slave := Some s, p_aggregator := Some 0, is_enabled := (s \<noteq> 0),
       next_port_in_aggregator := (if s = 0 then Some 1 else None)\<rparr>),
     b_agg := (\<lambda>s. (sample_agg s)\<lparr>lag_ports := (if s = 0 then Some 0 else None), num_of_ports := (if s = 0 then 2 else 0)\<rparr>)\<rparr>"

theorem first_port_decides_witness:
  "get_agg_bandwidth dead_head_bond 0 = Some 0 \<and> total_bandwidth (\<lambda>a. if a = 0 then [0, 1] else []) dead_head_bond 0 = 10000"
proof -
  let ?L = "\<lambda>a :: nat. if a = 0 then [0, 1] else []"
  have "lists_ok ?L dead_head_bond" by (auto simp: lists_ok_def dead_head_bond_def sample_bond_def sample_agg_def)
  moreover have "0 \<in> set (b_slaves dead_head_bond)" "\<not> link_up (b_slave dead_head_bond (hd (?L 0)))"
    by (simp_all add: dead_head_bond_def sample_bond_def)
  ultimately have "get_agg_bandwidth dead_head_bond 0 = Some 0" using first_port_decides [of ?L dead_head_bond 0] by blast
  then show ?thesis
    by (simp add: total_bandwidth_def enabled_ports_def port_mbps_def mbps_def dead_head_bond_def sample_slave_def)
qed

text \<open>
  Whatever the policy, the selection leaves at most one aggregator active; the stable policy keeps
  an active aggregator that still has an enabled port on a running device, an answering partner and
  a key, even when another candidate has a higher rank.
\<close>

theorem one_active_aggregator:
  assumes "lists_ok L b" "orig \<in> set (b_slaves b)"
  shows "\<exists>upd b'. ad_agg_selection_logic e (Some orig) b = Some (upd, b') \<and>
    (\<forall>s\<in>set (b_slaves b'). \<forall>t\<in>set (b_slaves b'). is_active (b_agg b' s) \<longrightarrow> is_active (b_agg b' t) \<longrightarrow> s = t) \<and>
    (\<forall>a. get_active_agg b = Some a \<longrightarrow> ad_select (b_params b) = BOND_AD_STABLE \<longrightarrow> candidate L b a \<longrightarrow>
       agg_has_partner (b_agg b a) \<longrightarrow> actor_oper_aggregator_key (b_agg b a) \<noteq> 0 \<longrightarrow> is_active (b_agg b' a))"
proof -
  obtain upd b' where r: "ad_agg_selection_logic e (Some orig) b = Some (upd, b')" "same_lag b b'"
    "\<forall>s\<in>set (b_slaves b). act b' s = (chosen L b = Some s)"
    using selection_logic_acts [OF assms] by blast
  have sl: "b_slaves b' = b_slaves b" using r(2) by (simp add: same_lag_def)
  have "act b' a" if "get_active_agg b = Some a" "ad_select (b_params b) = BOND_AD_STABLE" "candidate L b a"
    "agg_has_partner (b_agg b a)" "actor_oper_aggregator_key (b_agg b a) \<noteq> 0" for a
  proof -
    have "best_agg L b \<noteq> None"
      using that(3) active_agg_in [OF that(1)] by (auto simp: best_agg_def fold_pick_None)
    then have "chosen L b = Some a" using that by (auto simp: chosen_def keeps_def candidate_def)
    with r(3) active_agg_in [OF that(1)] show ?thesis by simp
  qed
  with r sl show ?thesis by auto
qed

theorem one_active_aggregator_witness:
  "lists_ok (\<lambda>a. [a]) sample_bond \<and>
   (\<exists>upd b'. ad_agg_selection_logic sample_env (Some 1) sample_bond = Some (upd, b') \<and>
      \<not> (is_active (b_agg b' 0) \<and> is_active (b_agg b' 1) \<and> 0 \<in> set (b_slaves b') \<and> 1 \<in> set (b_slaves b')))"
proof -
  have "1 \<in> set (b_slaves sample_bond)" by (simp add: sample_bond_fields)
  from one_active_aggregator [OF sample_bond_lists this, of sample_env] sample_bond_lists show ?thesis
    by (metis zero_neq_one)
qed

end
