(* ===== verification/Lacp_Port.thy ===== *)
theory Lacp_Port
  imports Lacp_Select
begin

text \<open>
  The selection of an aggregator for a port (\<open>ad_port_selection_logic\<close>): detaching from the former
  aggregator and attaching to a suitable or a free one keep the port lists well formed, and a free
  aggregator always exists.
\<close>

lemma lag_invI:
  assumes "distinct (b_slaves b)" "length (b_slaves b) < 65536"
    and "\<And>a. a \<in> set (b_slaves b) \<Longrightarrow> lseg (nextp b) (lag_ports (b_agg b a)) (L a)"
    and "\<And>a. a \<in> set (b_slaves b) \<Longrightarrow> a_slave (b_agg b a) = Some a"
    and "\<And>a. a \<in> set (b_slaves b) \<Longrightarrow> unat (num_of_ports (b_agg b a)) = length (L a)"
    and "\<And>a i. a \<in> set (b_slaves b) \<Longrightarrow> i \<in> set (L a) \<Longrightarrow> i \<in> set (b_slaves b) \<and> p_aggregator (b_port b i) = Some a"
    and "\<And>i. i \<in> set (b_slaves b) \<Longrightarrow> p_slave (b_port b i) = Some i"
    and "\<And>i. i \<in> set (b_slaves b) \<Longrightarrow> p_aggregator (b_port b i) = None \<Longrightarrow> nextp b i = None"
    and "\<And>i a. i \<in> set (b_slaves b) \<Longrightarrow> p_aggregator (b_port b i) = Some a \<Longrightarrow> a \<in> set (b_slaves b) \<and> i \<in> set (L a)"
  shows "lag_inv L b"
  unfolding lag_inv_def lists_ok_def
proof (intro conjI ballI)
  fix i
  assume i: "i \<in> set (b_slaves b)"
  show "port_placed L b i"
    using assms(8,9) [OF i] by (simp add: port_placed_def split: option.split)
qed (use assms(1,2) assms(3-7) in blast)+

lemma lag_inv_slaves: "lag_inv L b \<Longrightarrow> distinct (b_slaves b) \<and> length (b_slaves b) < 65536"
  by (simp add: lag_inv_def lists_ok_def)

lemma lag_inv_port:
  assumes "lag_inv L b" "i \<in> set (b_slaves b)"
  shows "p_aggregator (b_port b i) = None \<Longrightarrow> nextp b i = None"
    "p_aggregator (b_port b i) = Some a \<Longrightarrow> a \<in> set (b_slaves b) \<and> i \<in> set (L a)"
proof -
  have "port_placed L b i" using assms unfolding lag_inv_def by blast
  then show "p_aggregator (b_port b i) = None \<Longrightarrow> nextp b i = None"
    "p_aggregator (b_port b i) = Some a \<Longrightarrow> a \<in> set (b_slaves b) \<and> i \<in> set (L a)"
    by (simp_all add: port_placed_def)
qed

lemma lag_inv_disjoint:
  assumes "lag_inv L b" "a \<in> set (b_slaves b)" "c \<in> set (b_slaves b)" "i \<in> set (L a)" "a \<noteq> c"
  shows "i \<notin> set (L c)"
  using lag_invD(7) [OF assms(1,2) assms(4)] lag_invD(7) [OF assms(1,3), of i] assms(5) by auto

subsection \<open>Leaving an aggregator\<close>

lemma lseg_drop_head: "lseg nxt h (p # ys) \<Longrightarrow> lseg (nxt(p := v)) (nxt p) ys"
proof -
  assume l: "lseg nxt h (p # ys)"
  then have "p \<notin> set ys" using lseg_distinct [OF l] by simp
  with l show ?thesis by simp
qed

lemma lseg_drop_inner:
  assumes "lseg nxt h (xs @ l # p # ys)"
  shows "lseg (nxt(l := nxt p, p := None)) h (xs @ l # ys)"
  using assms
proof (induction xs arbitrary: h)
  case Nil
  then have n: "l \<noteq> p" "l \<notin> set ys" "p \<notin> set ys" using lseg_distinct [OF Nil] by auto
  then have l: "(nxt(l := nxt p, p := None)) l = nxt p" by simp
  have rest: "lseg (nxt(l := nxt p, p := None)) (nxt p) ys = lseg nxt (nxt p) ys"
    by (rule lseg_cong) (use n in auto)
  show ?case unfolding append_Nil lseg.simps l rest using Nil by simp
next
  case (Cons x xs)
  have "x \<noteq> l" "x \<noteq> p" using lseg_distinct [OF Cons.prems] by auto
  with Cons show ?case by simp
qed

definition detach_core :: "nat \<Rightarrow> nat \<Rightarrow> nat option \<Rightarrow> ad_bond \<Rightarrow> ad_bond" where
  "detach_core port t last_port b =
     (let b = upd_agg t (\<lambda>a. a\<lparr>num_of_ports := num_of_ports a - 1\<rparr>) b;
          nxt = next_port_in_aggregator (b_port b port);
          b = (case last_port of
              None \<Rightarrow> upd_agg t (\<lambda>a. a\<lparr>lag_ports := nxt\<rparr>) b
            | Some l \<Rightarrow> upd_port l (\<lambda>p. p\<lparr>next_port_in_aggregator := nxt\<rparr>) b);
          b = upd_port port (\<lambda>p. p\<lparr>p_aggregator := None, next_port_in_aggregator := None,
                actor_port_aggregator_identifier := 0\<rparr>) b
      in if lag_ports (b_agg b t) = None then upd_agg t ad_clear_agg b else b)"

lemma detach_loop_core:
  "port \<notin> set xs \<Longrightarrow> detach_loop port t lp (xs @ port # ys) b =
     detach_core port t (if xs = [] then lp else Some (last xs)) b"
proof (induction xs arbitrary: lp)
  case Nil
  show ?case by (simp only: append_Nil detach_loop.simps detach_core_def simp_thms if_True)
next
  case (Cons x xs)
  then show ?case by simp
qed

text \<open>The fields of the bond after a port has left its aggregator.\<close>

lemma detach_core_fields:
  fixes port t l b
  assumes "l \<noteq> Some port"
  defines "b' \<equiv> detach_core port t l b"
  shows "b_slaves b' = b_slaves b" "p_slave (b_port b' i) = p_slave (b_port b i)"
    "p_aggregator (b_port b' i) = (if i = port then None else p_aggregator (b_port b i))"
    "nextp b' = (case l of None \<Rightarrow> (nextp b)(port := None) | Some k \<Rightarrow> (nextp b)(k := nextp b port, port := None))"
    "a_slave (b_agg b' a) = a_slave (b_agg b a)"
    "lag_ports (b_agg b' a) = (if a = t \<and> l = None then nextp b port else lag_ports (b_agg b a))"
    "num_of_ports (b_agg b' a) = (if a = t then (if lag_ports (b_agg b' t) = None then 0 else num_of_ports (b_agg b t) - 1)
       else num_of_ports (b_agg b a))"
    "sm_vars (b_port b' i) = sm_vars (b_port b i)"
  using assms(1) unfolding b'_def detach_core_def Let_def ad_clear_agg_def
  by (auto simp: fun_eq_iff split: option.split)

lemma detach_core_inv:
  assumes inv: "lag_inv L b" and t: "t \<in> set (b_slaves b)" and Lt: "L t = xs @ port # ys"
  shows "lag_inv (L(t := xs @ ys)) (detach_core port t (if xs = [] then None else Some (last xs)) b)"
proof -
  define l where "l = (if xs = [] then None else Some (last xs))"
  define b' where "b' = detach_core port t l b"
  let ?L = "L(t := xs @ ys)"
  have d: "distinct (L t)" using lag_invD(4) [OF inv t] by (rule lseg_distinct)
  then have p: "port \<notin> set xs" "port \<notin> set ys" using Lt by auto
  then have ne: "l \<noteq> Some port" by (auto simp: l_def dest: last_in_set)
  note f = detach_core_fields [OF ne, of t b, folded b'_def]
  note nx = fun_cong [OF f(4)]
  note D = lag_invD [OF inv]
  have seg: "lseg (nextp b') (lag_ports (b_agg b' t)) (xs @ ys)"
  proof (cases xs rule: rev_cases)
    case Nil
    then show ?thesis using lseg_drop_head [of "nextp b" _ port ys None] D(4) [OF t] Lt by (simp add: f(4,6) l_def)
  next
    case (snoc xs' k)
    then show ?thesis using lseg_drop_inner [of "nextp b" _ xs' k port ys] D(4) [OF t] Lt by (simp add: f(4,6) l_def)
  qed
  have other: "lseg (nextp b') (lag_ports (b_agg b' a)) (L a)" if a: "a \<in> set (b_slaves b)" "a \<noteq> t" for a
  proof -
    have "port \<notin> set (L a)" "xs \<noteq> [] \<Longrightarrow> last xs \<notin> set (L a)"
      using lag_inv_disjoint [OF inv t a(1)] a(2) Lt by auto
    then have "lseg (nextp b') h (L a) = lseg (nextp b) h (L a)" for h
      by (intro lseg_cong) (auto simp: nx l_def)
    with D(4) [OF a(1)] a(2) show ?thesis by (simp add: f(6))
  qed
  have n: "num_of_ports (b_agg b t) \<noteq> 0" using D(5) [OF t] Lt by (auto simp: unat_eq_zero)
  then have "unat (num_of_ports (b_agg b t) - 1) = length (L t) - 1"
    using D(5) [OF t] by (simp add: unat_minus_one)
  then have num: "unat (num_of_ports (b_agg b' t)) = length (xs @ ys)"
    using seg Lt by (auto simp: f(7))
  have "lag_inv ?L b'"
  proof (rule lag_invI)
    fix i
    assume i: "i \<in> set (b_slaves b')" and none: "p_aggregator (b_port b' i) = None"
    show "nextp b' i = None"
    proof (cases "i = port")
      case True
      then show ?thesis by (simp add: nx split: option.split)
    next
      case False
      then have "p_aggregator (b_port b i) = None" using none by (simp add: f(3))
      moreover have "xs \<noteq> [] \<Longrightarrow> p_aggregator (b_port b (last xs)) = Some t"
        using D(7) [OF t] Lt by simp
      ultimately show ?thesis using lag_inv_port(1) [OF inv] i False by (auto simp: f(1) nx l_def)
    qed
  next
    fix a i
    assume "a \<in> set (b_slaves b')" "i \<in> set (?L a)"
    then show "i \<in> set (b_slaves b') \<and> p_aggregator (b_port b' i) = Some a"
      using D(3,7) [of a] lag_inv_disjoint [OF inv t, of a port] Lt p by (auto simp: f(1,3) split: if_splits)
  next
    fix i a
    assume "i \<in> set (b_slaves b')" "p_aggregator (b_port b' i) = Some a"
    then show "a \<in> set (b_slaves b') \<and> i \<in> set (?L a)"
      using lag_inv_port(2) [OF inv, of i a] Lt by (auto simp: f(1,3) split: if_splits)
  qed (use lag_inv_slaves [OF inv] seg other num D(2,5,6) f in \<open>auto split: if_splits\<close>)
  then show ?thesis by (simp add: b'_def l_def)
qed

lemma detach_port_inv:
  assumes inv: "lag_inv L b" and port: "port \<in> set (b_slaves b)"
  shows "\<exists>L' b'. detach_port port b = Some b' \<and> lag_inv L' b' \<and> b_slaves b' = b_slaves b \<and>
    p_aggregator (b_port b' port) = None"
proof (cases "p_aggregator (b_port b port)")
  case None
  with inv show ?thesis by (auto simp: detach_port_def)
next
  case (Some t)
  from lag_inv_port(2) [OF inv port Some] have t: "t \<in> set (b_slaves b)" "port \<in> set (L t)" by auto
  then obtain xs ys where Lt: "L t = xs @ port # ys" "port \<notin> set xs" by (meson split_list_first)
  let ?l = "if xs = [] then None else Some (last xs)"
  have ne: "?l \<noteq> Some port" using Lt(2) by (auto dest: last_in_set)
  have "detach_port port b = Some (detach_core port t ?l b)"
    using lag_invD(1) [OF inv t(1)] detach_loop_core [OF Lt(2), of t None ys b] by (simp add: detach_port_def Some Lt(1))
  moreover note detach_core_inv [OF inv t(1) Lt(1)]
  moreover have "b_slaves (detach_core port t ?l b) = b_slaves b"
    "p_aggregator (b_port (detach_core port t ?l b) port) = None"
    using detach_core_fields [OF ne, of t b] by auto
  ultimately show ?thesis by blast
qed

subsection \<open>Joining an aggregator\<close>

lemma search_agg_cases:
  "search_agg b p free ss = (Some a, f) \<Longrightarrow> a \<in> set ss \<and> lag_ports (b_agg b a) \<noteq> None \<and> suits (b_agg b a) p"
  by (induction ss arbitrary: free) (auto split: if_splits)

lemma search_agg_free:
  "search_agg b p free ss = (None, Some a) \<Longrightarrow> free = Some a \<or> a \<in> set ss \<and> lag_ports (b_agg b a) = None"
  by (induction ss arbitrary: free) (auto split: if_splits)

lemma search_agg_none:
  "search_agg b p free ss = (None, None) \<Longrightarrow> free = None \<and> (\<forall>a\<in>set ss. lag_ports (b_agg b a) \<noteq> None)"
  by (induction ss arbitrary: free) (auto split: if_splits)

text \<open>
  A port without an aggregator finds a free one: the other ports are fewer than the aggregators.
\<close>

lemma free_agg_exists:
  assumes inv: "lag_inv L b" and port: "port \<in> set (b_slaves b)" "p_aggregator (b_port b port) = None"
  shows "\<exists>a\<in>set (b_slaves b). lag_ports (b_agg b a) = None"
proof (rule ccontr)
  assume "\<not> ?thesis"
  then have ne: "L a \<noteq> []" if "a \<in> set (b_slaves b)" for a
    using that lag_invD(4) [OF inv that] by fastforce
  let ?h = "\<lambda>a. hd (L a)"
  have hd: "?h a \<in> set (b_slaves b)" "p_aggregator (b_port b (?h a)) = Some a" if "a \<in> set (b_slaves b)" for a
  proof -
    have "?h a \<in> set (L a)" using ne [OF that] by simp
    then show "?h a \<in> set (b_slaves b)" "p_aggregator (b_port b (?h a)) = Some a"
      using lag_invD(3,7) [OF inv that] by auto
  qed
  have "inj_on ?h (set (b_slaves b))"
    using hd(2) by (intro inj_onI) (metis option.inject)
  moreover have "?h ` set (b_slaves b) \<subseteq> set (b_slaves b) - {port}"
    using hd port(2) by force
  ultimately have "card (set (b_slaves b)) \<le> card (set (b_slaves b) - {port})"
    by (intro card_inj_on_le) auto
  moreover have "card (set (b_slaves b) - {port}) < card (set (b_slaves b))"
    using port(1) by (intro psubset_card_mono) auto
  ultimately show False by simp
qed

text \<open>Putting a detached port in front of the list of an aggregator.\<close>

lemma joined_inv:
  assumes inv: "lag_inv L b" and port: "port \<in> set (b_slaves b)" "p_aggregator (b_port b port) = None"
    and a: "a \<in> set (b_slaves b)" and sl: "b_slaves b' = b_slaves b"
    and slave: "\<And>i. p_slave (b_port b' i) = p_slave (b_port b i)"
    and agg: "\<And>i. p_aggregator (b_port b' i) = (if i = port then Some a else p_aggregator (b_port b i))"
    and nx: "\<And>i. nextp b' i = (if i = port then lag_ports (b_agg b a) else nextp b i)"
    and own: "\<And>c. a_slave (b_agg b' c) = a_slave (b_agg b c)"
    and head: "\<And>c. lag_ports (b_agg b' c) = (if c = a then Some port else lag_ports (b_agg b c))"
    and num: "\<And>c. num_of_ports (b_agg b' c) = (if c = a then num_of_ports (b_agg b c) + 1 else num_of_ports (b_agg b c))"
  shows "lag_inv (L(a := port # L a)) b'"
proof -
  note D = lag_invD [OF inv]
  have fresh: "port \<notin> set (L c)" if "c \<in> set (b_slaves b)" for c using D(7) [OF that] port(2) by force
  have "distinct (port # L a)" using lseg_distinct [OF D(4) [OF a]] fresh [OF a] by simp
  moreover have "set (port # L a) \<subseteq> set (b_slaves b)" using D(3) [OF a] port(1) by simp
  ultimately have "length (port # L a) \<le> length (b_slaves b)"
    by (metis card_length card_mono distinct_card finite_set order_trans)
  then have "unat (num_of_ports (b_agg b a)) + 1 < 65536" using lag_inv_slaves [OF inv] D(5) [OF a] by simp
  then have count: "unat (num_of_ports (b_agg b a) + 1) = length (port # L a)"
    using D(5) [OF a] by (simp add: unat_word_ariths)
  have seg: "lseg (nextp b') h (L c) = lseg (nextp b) h (L c)" if "c \<in> set (b_slaves b)" for c h
    by (rule lseg_cong) (use fresh [OF that] in \<open>auto simp: nx\<close>)
  show ?thesis
  proof (rule lag_invI)
    fix c i
    assume "c \<in> set (b_slaves b')" "i \<in> set ((L(a := port # L a)) c)"
    then show "i \<in> set (b_slaves b') \<and> p_aggregator (b_port b' i) = Some c"
      using D(3,7) [of c] fresh [of c] port(1) by (auto simp: sl agg split: if_splits)
  next
    fix i c
    assume "i \<in> set (b_slaves b')" "p_aggregator (b_port b' i) = Some c"
    then show "c \<in> set (b_slaves b') \<and> i \<in> set ((L(a := port # L a)) c)"
      using lag_inv_port(2) [OF inv, of i c] a by (auto simp: sl agg split: if_splits)
  next
    fix i
    assume "i \<in> set (b_slaves b')" "p_aggregator (b_port b' i) = None"
    then show "nextp b' i = None"
      using lag_inv_port(1) [OF inv, of i] by (auto simp: sl agg nx split: if_splits)
  next
    fix c
    assume c: "c \<in> set (b_slaves b')"
    then show "lseg (nextp b') (lag_ports (b_agg b' c)) ((L(a := port # L a)) c)"
      using D(4) [of c] seg [of c] by (auto simp: sl head nx)
    show "unat (num_of_ports (b_agg b' c)) = length ((L(a := port # L a)) c)"
      using c count D(5) [of c] by (auto simp: sl num)
  qed (use lag_inv_slaves [OF inv] D(2,6) in \<open>auto simp: sl own slave\<close>)
qed

text \<open>The operational key of a port and what it knows of its partner are those of the aggregator.\<close>

definition same_keys :: "aggregator \<Rightarrow> ad_port \<Rightarrow> bool" where
  "same_keys a p = (actor_oper_aggregator_key a = actor_oper_port_key p \<and> partner_system a = pp_system (partner_oper p) \<and>
     partner_system_priority a = pp_system_priority (partner_oper p) \<and> partner_oper_aggregator_key a = pp_key (partner_oper p))"

definition selected_by :: "(nat \<Rightarrow> nat list) \<Rightarrow> nat \<Rightarrow> nat \<Rightarrow> ad_bond \<Rightarrow> bool" where
  "selected_by L port a b = (lag_inv L b \<and> a \<in> set (b_slaves b) \<and> port \<in> set (L a) \<and>
     p_aggregator (b_port b port) = Some a \<and> on (sm_vars (b_port b port)) AD_PORT_SELECTED \<and>
     same_keys (b_agg b a) (b_port b port))"

lemma join_agg_selects:
  assumes "lag_inv L b" "port \<in> set (b_slaves b)" "p_aggregator (b_port b port) = None"
    "a \<in> set (b_slaves b)" "suits (b_agg b a) (b_port b port)"
  shows "selected_by (L(a := port # L a)) port a (join_agg port a b)"
proof -
  have "lag_inv (L(a := port # L a)) (join_agg port a b)"
    by (rule joined_inv [OF assms(1-4)]) (simp_all add: join_agg_def Let_def)
  with assms(4,5) show ?thesis
    by (simp add: selected_by_def same_keys_def suits_def join_agg_def Let_def MAC_ADDRESS_EQUAL_def)
qed

lemma found_agg_selects:
  assumes "lag_inv L b" "port \<in> set (b_slaves b)" "p_aggregator (b_port b port) = None"
    "a \<in> set (b_slaves b)" "lag_ports (b_agg b a) = None"
  shows "selected_by (L(a := port # L a)) port a (found_agg port a b)"
proof -
  have "nextp b port = None" by (rule lag_inv_port(1) [OF assms(1-3)])
  then have "lag_inv (L(a := port # L a)) (found_agg port a b)"
    by (intro joined_inv [OF assms(1-4)]) (simp_all add: found_agg_def Let_def assms(5))
  with assms(4) show ?thesis by (simp add: selected_by_def same_keys_def found_agg_def Let_def)
qed

lemma attach_port_selects:
  assumes "lag_inv L b" "port \<in> set (b_slaves b)" "p_aggregator (b_port b port) = None"
  shows "\<exists>L' a b'. attach_port port b = Some b' \<and> selected_by L' port a b' \<and> b_slaves b' = b_slaves b"
proof -
  obtain m f where s: "search_agg b (b_port b port) None (b_slaves b) = (m, f)" by (rule prod.exhaust)
  consider a where "m = Some a" | a where "m = None" "f = Some a" | "m = None" "f = None" by (cases m; cases f) auto
  then show ?thesis
  proof cases
    case 1
    with search_agg_cases s have "a \<in> set (b_slaves b)" "suits (b_agg b a) (b_port b port)" by blast+
    note sel = join_agg_selects [OF assms this]
    have "attach_port port b = Some (join_agg port a b)" "b_slaves (join_agg port a b) = b_slaves b"
      using 1 s by (simp_all add: attach_port_def join_agg_def Let_def)
    with sel show ?thesis by blast
  next
    case 2
    with search_agg_free s have "a \<in> set (b_slaves b)" "lag_ports (b_agg b a) = None" by blast+
    note sel = found_agg_selects [OF assms this]
    have "attach_port port b = Some (found_agg port a b)" "b_slaves (found_agg port a b) = b_slaves b"
      using 2 s by (simp_all add: attach_port_def found_agg_def Let_def)
    with sel show ?thesis by blast
  next
    case 3
    with search_agg_none s free_agg_exists [OF assms] show ?thesis by blast
  qed
qed

lemma set_ready_fields [simp]:
  "p_slave (set_ready v p) = p_slave p" "p_aggregator (set_ready v p) = p_aggregator p"
  "next_port_in_aggregator (set_ready v p) = next_port_in_aggregator p"
  "on (sm_vars (set_ready v p)) AD_PORT_SELECTED = on (sm_vars p) AD_PORT_SELECTED"
  "actor_oper_port_key (set_ready v p) = actor_oper_port_key p" "partner_oper (set_ready v p) = partner_oper p"
  by (simp_all add: set_ready_def)

lemma ready_fold:
  assumes "b' = fold (\<lambda>i. upd_port i (set_ready v)) ps b"
  shows "same_lag b b'" "b_agg b' = b_agg b"
    "on (sm_vars (b_port b' i)) AD_PORT_SELECTED = on (sm_vars (b_port b i)) AD_PORT_SELECTED"
    "actor_oper_port_key (b_port b' i) = actor_oper_port_key (b_port b i)"
    "partner_oper (b_port b' i) = partner_oper (b_port b i)"
  unfolding assms by (induction ps arbitrary: b) (auto simp: same_lag_def)

lemma selection_logic_result:
  assumes "lists_ok L b" "orig \<in> set (b_slaves b)"
  shows "\<exists>upd b'. ad_agg_selection_logic e (Some orig) b = Some (upd, b') \<and> same_lag b b' \<and> b_port b' = b_port b \<and>
    (\<forall>s\<in>set (b_slaves b). act b' s = (chosen L b = Some s)) \<and> (\<forall>s. \<exists>v. b_agg b' s = (b_agg b s)\<lparr>is_active := v\<rparr>)"
proof -
  obtain upd b' v where r: "ad_agg_selection_logic e (Some orig) b = Some (upd, b'\<lparr>carrier_ok := v\<rparr>)"
    and f: "flags_only (activated (chosen L b) b) b'"
    using selection_logic_eq [OF assms] by blast
  have "\<exists>v. b_agg (b'\<lparr>carrier_ok := v0\<rparr>) s = (b_agg b s)\<lparr>is_active := v\<rparr>" for s v0
    using flags_onlyD(3) [OF f] by (auto simp: activated_def)
  with selection_logic_acts [OF assms, of e] r show ?thesis by auto
qed

lemma selected_by_mono:
  assumes "selected_by L port a b" "same_lag b b'" "same_keys (b_agg b' a) (b_port b' port) = same_keys (b_agg b a) (b_port b port)"
    "on (sm_vars (b_port b' port)) AD_PORT_SELECTED = on (sm_vars (b_port b port)) AD_PORT_SELECTED"
  shows "selected_by L port a b'"
  using assms same_lag_inv [OF assms(2)] by (simp add: selected_by_def same_lag_def)

text \<open>
  What the selection keeps of the ports: the state of the mux machine, all flags but
  \<open>SYNCHRONIZATION\<close>, and for the other ports their aggregator and whether they are selected.
\<close>

definition others_kept :: "nat \<Rightarrow> ad_bond \<Rightarrow> ad_bond \<Rightarrow> bool" where
  "others_kept port b b' = (\<forall>j. sm_mux_state (b_port b' j) = sm_mux_state (b_port b j) \<and>
     actor_oper_port_state (b_port b' j) - {SYNCHRONIZATION} = actor_oper_port_state (b_port b j) - {SYNCHRONIZATION} \<and>
     (j \<noteq> port \<longrightarrow> p_aggregator (b_port b' j) = p_aggregator (b_port b j) \<and>
        on (sm_vars (b_port b' j)) AD_PORT_SELECTED = on (sm_vars (b_port b j)) AD_PORT_SELECTED))"

lemma others_kept_refl [simp]: "others_kept port b b"
  by (simp add: others_kept_def)

lemma others_kept_trans: "others_kept port b b' \<Longrightarrow> others_kept port b' b'' \<Longrightarrow> others_kept port b b''"
  by (simp add: others_kept_def)

lemma others_kept_detach: "detach_port port b = Some b' \<Longrightarrow> others_kept port b b'"
proof -
  have "others_kept port b (detach_loop port t l ps b)" for t l ps
    by (induction ps arbitrary: l) (auto simp: others_kept_def Let_def split: option.split)
  then show "detach_port port b = Some b' \<Longrightarrow> others_kept port b b'"
    by (auto simp: detach_port_def split: option.splits bind_splits)
qed

lemma others_kept_attach: "attach_port port b = Some b' \<Longrightarrow> others_kept port b b'"
proof -
  have "others_kept port b (join_agg port a b)" "others_kept port b (found_agg port a b)" for a
    by (simp_all add: join_agg_def found_agg_def Let_def others_kept_def)
  then show "attach_port port b = Some b' \<Longrightarrow> others_kept port b b'"
    by (auto simp: attach_port_def split: prod.splits option.splits)
qed

lemma others_kept_ready: "set_agg_ports_ready a v b = Some b' \<Longrightarrow> others_kept port b b'"
proof -
  have "others_kept port b (fold (\<lambda>i. upd_port i (set_ready v)) ps b)" for ps
  proof (induction ps arbitrary: b)
    case (Cons i ps)
    have "others_kept port b (upd_port i (set_ready v) b)" by (simp add: others_kept_def) (simp add: set_ready_def)
    from others_kept_trans [OF this Cons] show ?case by (simp only: fold_simps)
  qed simp
  then show "set_agg_ports_ready a v b = Some b' \<Longrightarrow> others_kept port b b'"
    by (auto simp: set_agg_ports_ready_def split: bind_splits)
qed

text \<open>The three steps that follow the attachment.\<close>

lemma after_attach:
  assumes sel: "selected_by L port a b"
  shows "\<exists>ready b1 upd b2. agg_ports_are_ready b a = Some ready \<and> set_agg_ports_ready a ready b = Some b1 \<and>
    ad_agg_selection_logic e (get_first_agg b1 port) b1 = Some (upd, b2) \<and> selected_by L port a b2 \<and>
    b_slaves b2 = b_slaves b \<and> (\<exists>c. \<forall>s\<in>set (b_slaves b). act b2 s = (c = Some s)) \<and> others_kept port b b2"
proof -
  from sel have inv: "lag_inv L b" and a: "a \<in> set (b_slaves b)" "port \<in> set (L a)" by (simp_all add: selected_by_def)
  obtain ready where ready: "agg_ports_are_ready b a = Some ready"
    by (simp add: agg_ports_are_ready_def lag_invD(1) [OF inv a(1)])
  define b1 where "b1 = fold (\<lambda>i. upd_port i (set_ready ready)) (L a) b"
  note f = ready_fold [OF b1_def]
  have r1: "set_agg_ports_ready a ready b = Some b1"
    by (simp add: set_agg_ports_ready_def lag_invD(1) [OF inv a(1)] b1_def)
  have s1: "selected_by L port a b1" by (rule selected_by_mono [OF sel f(1)]) (simp_all add: f same_keys_def)
  then have inv1: "lag_inv L b1" by (simp add: selected_by_def)
  have sl: "b_slaves b1 = b_slaves b" using f(1) by (simp add: same_lag_def)
  have "p_slave (b_port b1 port) = Some port" using lag_invD(8) [OF inv1, of a port] a sl by simp
  then obtain orig where o: "get_first_agg b1 port = Some orig" "orig \<in> set (b_slaves b1)"
    using a(1) unfolding sl by (cases "b_slaves b") (auto simp: get_first_agg_def sl)
  obtain upd b2 where r2: "ad_agg_selection_logic e (Some orig) b1 = Some (upd, b2)" "same_lag b1 b2" "b_port b2 = b_port b1"
    "\<forall>s\<in>set (b_slaves b1). act b2 s = (chosen L b1 = Some s)" "\<forall>s. \<exists>v. b_agg b2 s = (b_agg b1 s)\<lparr>is_active := v\<rparr>"
    using selection_logic_result [OF lag_lists [OF inv1] o(2)] by blast
  have "same_keys (b_agg b2 a) (b_port b2 port) = same_keys (b_agg b1 a) (b_port b1 port)"
    using spec [OF r2(5), of a] by (auto simp: same_keys_def r2(3))
  then have "selected_by L port a b2" by (intro selected_by_mono [OF s1 r2(2)]) (simp_all add: r2(3))
  moreover have "b_slaves b2 = b_slaves b" using r2(2) sl by (simp add: same_lag_def)
  moreover have "others_kept port b b2" using others_kept_ready [OF r1, of port] by (simp add: others_kept_def r2(3))
  ultimately show ?thesis using ready r1 r2(1,4) o(1) sl by auto
qed

lemma clear_sync_selected:
  "selected_by L port a b \<Longrightarrow> selected_by L port a (upd_port port (\<lambda>p. p\<lparr>actor_oper_port_state := S p\<rparr>) b)"
  by (rule selected_by_mono) (simp_all add: same_lag_def same_keys_def)

lemma port_selection_result:
  assumes "lag_inv L b" "port \<in> set (b_slaves b)" "\<not> on (sm_vars (b_port b port)) AD_PORT_SELECTED"
  shows "\<exists>upd b' L' a. ad_port_selection_logic e port b = Some (upd, b') \<and> b_slaves b' = b_slaves b \<and>
    selected_by L' port a b' \<and> (\<exists>c. \<forall>s\<in>set (b_slaves b'). act b' s = (c = Some s)) \<and> others_kept port b b' \<and>
    (\<not> act b' a \<longrightarrow> SYNCHRONIZATION \<notin> actor_oper_port_state (b_port b' port))"
proof -
  obtain L1 b1 where d: "detach_port port b = Some b1" "lag_inv L1 b1" "b_slaves b1 = b_slaves b"
    "p_aggregator (b_port b1 port) = None"
    using detach_port_inv [OF assms(1,2)] by blast
  obtain L2 a b2 where at: "attach_port port b1 = Some b2" "selected_by L2 port a b2" "b_slaves b2 = b_slaves b"
    using attach_port_selects [OF d(2) _ d(4)] assms(2) d(3) by auto
  obtain ready b3 upd b4 c where s: "agg_ports_are_ready b2 a = Some ready" "set_agg_ports_ready a ready b2 = Some b3"
    "ad_agg_selection_logic e (get_first_agg b3 port) b3 = Some (upd, b4)" "selected_by L2 port a b4"
    "b_slaves b4 = b_slaves b" "\<forall>s\<in>set (b_slaves b). act b4 s = (c = Some s)" "others_kept port b2 b4"
    using after_attach [OF at(2), of e] at(3) by metis
  define b5 where "b5 = (if \<not> act b4 a
    then upd_port port (\<lambda>p. p\<lparr>actor_oper_port_state := actor_oper_port_state p - {SYNCHRONIZATION}\<rparr>) b4 else b4)"
  have slave: "p_slave (b_port b port) = Some port" using lag_invD(6) [OF assms(1,2)] .
  have "p_aggregator (b_port b2 port) = Some a" using at(2) by (simp add: selected_by_def)
  then have "ad_port_selection_logic e port b = Some (upd, b5)"
    using assms(3) slave by (simp add: ad_port_selection_logic_def d(1) at(1) s(1,2,3) b5_def)
  moreover have "selected_by L2 port a b5"
    using s(4) clear_sync_selected [OF s(4), of "\<lambda>p. actor_oper_port_state p - {SYNCHRONIZATION}"] by (simp add: b5_def)
  moreover have "b_slaves b5 = b_slaves b" "b_agg b5 = b_agg b4" using s(5) by (simp_all add: b5_def)
  moreover have "\<not> act b5 a \<longrightarrow> SYNCHRONIZATION \<notin> actor_oper_port_state (b_port b5 port)" by (simp add: b5_def)
  moreover have clr: "others_kept port b4 b5" by (auto simp: b5_def others_kept_def)
  moreover have "others_kept port b b5"
    using others_kept_trans [OF others_kept_detach [OF d(1)] others_kept_attach [OF at(1)]] s(7)
      clr others_kept_trans by blast
  ultimately show ?thesis using s(6) by metis
qed

text \<open>
  C6: Selecting an aggregator for a port that has none selected always succeeds: the port leaves its
  former aggregator, ends in the port list of an aggregator with its operational key and the partner
  it knows, and is marked as selected; every port list stays well formed, at most one aggregator is
  active, and a port of an aggregator that is not active is out of synchronization.
\<close>

theorem port_selection_selects:
  assumes "lag_inv L b" "port \<in> set (b_slaves b)" "\<not> on (sm_vars (b_port b port)) AD_PORT_SELECTED"
  shows "\<exists>upd b' L' a. ad_port_selection_logic e port b = Some (upd, b') \<and> b_slaves b' = b_slaves b \<and>
    lag_inv L' b' \<and> a \<in> set (b_slaves b') \<and> port \<in> set (L' a) \<and> p_aggregator (b_port b' port) = Some a \<and>
    on (sm_vars (b_port b' port)) AD_PORT_SELECTED \<and> same_keys (b_agg b' a) (b_port b' port) \<and>
    (\<exists>c. \<forall>s\<in>set (b_slaves b'). is_active (b_agg b' s) = (c = Some s)) \<and>
    (\<not> is_active (b_agg b' a) \<longrightarrow> SYNCHRONIZATION \<notin> actor_oper_port_state (b_port b' port))"
  using port_selection_result [OF assms, of e] unfolding selected_by_def by blast

theorem port_selection_selects_witness:
  "lag_inv (\<lambda>a. [a]) sample_bond \<and> \<not> on (sm_vars (b_port sample_bond 0)) AD_PORT_SELECTED \<and>
   (\<exists>upd b'. ad_port_selection_logic sample_env 0 sample_bond = Some (upd, b') \<and>
      on (sm_vars (b_port b' 0)) AD_PORT_SELECTED)"
proof -
  have u: "\<not> on (sm_vars (b_port sample_bond 0)) AD_PORT_SELECTED"
    by (simp add: sample_bond_def sample_port_def)
  have "0 \<in> set (b_slaves sample_bond)" by (simp add: sample_bond_fields)
  from port_selection_selects [OF sample_bond_inv this u, of sample_env] u sample_bond_inv show ?thesis by blast
qed

end
