(* ===== verification/Lacp_Mux.thy ===== *)
theory Lacp_Mux
  imports Lacp_Port
begin

text \<open>
  The operations of servers/bond_3ad.c that act on one port of a bond: sending frames, enabling and
  disabling the slave of a port, the mux machine, the keys of a port and its initialization. A
  result \<open>(upd, b)\<close> holds what was stored in \<open>update_slave_arr\<close>; \<open>alloc\<close> says whether
  \<open>dev_alloc_skb\<close> finds memory. The numbers of the frame types, declared in net/bond_3ad.h, and the
  layout of a marker in the bytes of a received frame are fields of \<open>frame_env\<close>.
\<close>

record frame_env =
  AD_TYPE_LACPDU :: u8
  AD_TYPE_MARKER :: u8
  AD_MARKER_INFORMATION_SUBTYPE :: u8
  AD_MARKER_RESPONSE_SUBTYPE :: u8
  as_marker :: "lacpdu \<Rightarrow> bond_marker"

subsection \<open>Frames and counters\<close>

text \<open>A counter is kept for the slave of the port and for the bond.\<close>

definition count_stat :: "nat \<Rightarrow> (ad_stats \<Rightarrow> ad_stats) \<Rightarrow> ad_bond \<Rightarrow> ad_bond defined" where
  "count_stat i f b = do {
     s \<leftarrow> p_slave (b_port b i);
     Some ((upd_slave s (\<lambda>x. x\<lparr>s_stats := f (s_stats x)\<rparr>) b)\<lparr>b_stats := f (b_stats b)\<rparr>)
   }"

definition ad_lacpdu_send :: "bool \<Rightarrow> nat \<Rightarrow> ad_bond \<Rightarrow> (int \<times> ad_bond) defined" where
  "ad_lacpdu_send alloc i b =
     (if \<not> alloc then Some (- ENOMEM, b)
      else do {
        s \<leftarrow> p_slave (b_port b i);
        b \<leftarrow> count_stat i (\<lambda>x. x\<lparr>lacpdu_tx := lacpdu_tx x + 1\<rparr>) b;
        Some (0, b\<lparr>sent_frames := sent_frames b @
          [LacpduFrame s lacpdu_mcast_addr (perm_hwaddr (b_slave b s)) (p_lacpdu (b_port b i))]\<rparr>)
      })"

definition ad_marker_send :: "frame_env \<Rightarrow> bool \<Rightarrow> nat \<Rightarrow> bond_marker \<Rightarrow> ad_bond \<Rightarrow> (int \<times> ad_bond) defined" where
  "ad_marker_send fe alloc i m b =
     (if \<not> alloc then Some (- ENOMEM, b)
      else do {
        s \<leftarrow> p_slave (b_port b i);
        b \<leftarrow> (if tlv_type m = AD_MARKER_INFORMATION_SUBTYPE fe then count_stat i (\<lambda>x. x\<lparr>marker_tx := marker_tx x + 1\<rparr>) b
             else if tlv_type m = AD_MARKER_RESPONSE_SUBTYPE fe
             then count_stat i (\<lambda>x. x\<lparr>marker_resp_tx := marker_resp_tx x + 1\<rparr>) b
             else Some b);
        Some (0, b\<lparr>sent_frames := sent_frames b @ [MarkerFrame s lacpdu_mcast_addr (perm_hwaddr (b_slave b s)) m]\<rparr>)
      })"

definition ad_marker_info_received :: "frame_env \<Rightarrow> bool \<Rightarrow> bond_marker \<Rightarrow> nat \<Rightarrow> ad_bond \<Rightarrow> ad_bond defined" where
  "ad_marker_info_received fe alloc m i b = do {
     b \<leftarrow> count_stat i (\<lambda>x. x\<lparr>marker_rx := marker_rx x + 1\<rparr>) b;
     (_, b) \<leftarrow> ad_marker_send fe alloc i (m\<lparr>tlv_type := AD_MARKER_RESPONSE_SUBTYPE fe\<rparr>) b;
     Some b
   }"

definition ad_marker_response_received :: "bond_marker \<Rightarrow> nat \<Rightarrow> ad_bond \<Rightarrow> ad_bond defined" where
  "ad_marker_response_received m i b = count_stat i (\<lambda>x. x\<lparr>marker_resp_rx := marker_resp_rx x + 1\<rparr>) b"

text \<open>The receive and the transmit machine with the counters of the bond.\<close>

definition ad_rx_machine :: "ad_env \<Rightarrow> lacpdu option \<Rightarrow> nat \<Rightarrow> ad_bond \<Rightarrow> ad_bond defined" where
  "ad_rx_machine e l i b = do {
     b \<leftarrow> (if l \<noteq> None then count_stat i (\<lambda>x. x\<lparr>lacpdu_rx := lacpdu_rx x + 1\<rparr>) b else Some b);
     p \<leftarrow> rx_machine e l (b_port b i);
     Some (upd_port i (\<lambda>_. p) b)
   }"

definition ad_tx_machine :: "ad_env \<Rightarrow> bool \<Rightarrow> nat \<Rightarrow> ad_bond \<Rightarrow> ad_bond defined" where
  "ad_tx_machine e alloc i b =
     (case tx_machine e alloc (b_port b i) of
        (None, p) \<Rightarrow> Some (upd_port i (\<lambda>_. p) b)
      | (Some _, p) \<Rightarrow> do { (_, b) \<leftarrow> ad_lacpdu_send alloc i (upd_port i (\<lambda>_. p) b); Some b })"

subsection \<open>Enabling and disabling\<close>

definition ad_cond_set_peer_notif :: "nat \<Rightarrow> ad_bond \<Rightarrow> ad_bond defined" where
  "ad_cond_set_peer_notif i b = do {
     _ \<leftarrow> p_slave (b_port b i);
     Some (if broadcast_neighbor (b_params b) then b\<lparr>peer_notify_rearms := peer_notify_rearms b + 1\<rparr> else b)
   }"

definition ad_enable_collecting :: "ad_env \<Rightarrow> nat \<Rightarrow> ad_bond \<Rightarrow> ad_bond defined" where
  "ad_enable_collecting e i b = do {
     a \<leftarrow> p_aggregator (b_port b i);
     if is_active (b_agg b a) then enable_collecting_port e i b else Some b
   }"

definition ad_disable_distributing :: "ad_env \<Rightarrow> nat \<Rightarrow> bool \<Rightarrow> ad_bond \<Rightarrow> (bool \<times> ad_bond) defined" where
  "ad_disable_distributing e i upd b = (case p_aggregator (b_port b i) of
     Some a \<Rightarrow>
       if agg_has_partner (b_agg b a) then do { b \<leftarrow> disable_distributing_port e i b; Some (True, b) } else Some (upd, b)
   | None \<Rightarrow> Some (upd, b))"

definition ad_enable_collecting_distributing :: "ad_env \<Rightarrow> nat \<Rightarrow> bool \<Rightarrow> ad_bond \<Rightarrow> (bool \<times> ad_bond) defined" where
  "ad_enable_collecting_distributing e i upd b = do {
     a \<leftarrow> p_aggregator (b_port b i);
     if is_active (b_agg b a) then do {
       b \<leftarrow> enable_port e i b;
       b \<leftarrow> ad_cond_set_peer_notif i b;
       Some (True, b)
     } else Some (upd, b)
   }"

definition ad_disable_collecting_distributing :: "ad_env \<Rightarrow> nat \<Rightarrow> bool \<Rightarrow> ad_bond \<Rightarrow> (bool \<times> ad_bond) defined" where
  "ad_disable_collecting_distributing e i upd b = (case p_aggregator (b_port b i) of
     Some a \<Rightarrow> if agg_has_partner (b_agg b a) then do { b \<leftarrow> disable_port e i b; Some (True, b) } else Some (upd, b)
   | None \<Rightarrow> Some (upd, b))"

subsection \<open>The mux machine\<close>

definition port_move_to_attached_state :: "ad_port \<Rightarrow> ad_port" where
  "port_move_to_attached_state p =
     (if \<not> on (sm_vars p) AD_PORT_SELECTED \<or> on (sm_vars p) AD_PORT_STANDBY \<or>
         SYNCHRONIZATION \<notin> pp_port_state (partner_oper p) \<or> SYNCHRONIZATION \<notin> actor_oper_port_state p
      then p\<lparr>sm_mux_state := AD_MUX_ATTACHED\<rparr> else p)"

definition port_is_collecting_distributing :: "ad_env \<Rightarrow> nat \<Rightarrow> ad_bond \<Rightarrow> bool defined" where
  "port_is_collecting_distributing e i b = do { s \<leftarrow> p_slave (b_port b i); Some (is_active_slave e (s_flags (b_slave b s))) }"

text \<open>\<open>__set_agg_ports_ready(aggregator, __agg_ports_are_ready(aggregator))\<close> for the port's aggregator.\<close>

definition update_ready :: "nat \<Rightarrow> ad_bond \<Rightarrow> ad_bond defined" where
  "update_ready i b = do {
     a \<leftarrow> p_aggregator (b_port b i);
     ready \<leftarrow> agg_ports_are_ready b a;
     set_agg_ports_ready a ready b
   }"

definition mux_state :: "mux_states_t \<Rightarrow> ad_port \<Rightarrow> ad_port" where
  "mux_state st p = p\<lparr>sm_mux_state := st\<rparr>"

definition unready_detach :: "nat \<Rightarrow> ad_bond \<Rightarrow> ad_bond defined" where
  "unready_detach i b = do {
     b \<leftarrow> update_ready i (upd_port i (\<lambda>p. p\<lparr>sm_vars := sm_vars p AND NOT AD_PORT_READY_N\<rparr>) b);
     Some (upd_port i (mux_state AD_MUX_DETACHED) b)
   }"

definition wait_tick :: "ad_port \<Rightarrow> ad_port" where
  "wait_tick p =
     (if sm_mux_timer_counter p \<noteq> 0 then
        let p = p\<lparr>sm_mux_timer_counter := sm_mux_timer_counter p - 1\<rparr>
        in if sm_mux_timer_counter p = 0 then p\<lparr>sm_vars := sm_vars p OR AD_PORT_READY_N\<rparr> else p
      else p)"

definition mux_waiting :: "nat \<Rightarrow> ad_bond \<Rightarrow> ad_bond defined" where
  "mux_waiting i b =
     (if \<not> on (sm_vars (b_port b i)) AD_PORT_SELECTED then unready_detach i b
      else do {
        b \<leftarrow> update_ready i (upd_port i wait_tick b);
        Some (if on (sm_vars (b_port b i)) AD_PORT_READY \<and> sm_mux_timer_counter (b_port b i) = 0
              then upd_port i (mux_state AD_MUX_ATTACHED) b else b)
      })"

definition mux_attached :: "nat \<Rightarrow> ad_bond \<Rightarrow> ad_bond defined" where
  "mux_attached i b =
     (let p = b_port b i
      in if on (sm_vars p) AD_PORT_SELECTED \<and> SYNCHRONIZATION \<in> pp_port_state (partner_oper p) \<and>
            \<not> check_agg_selection_timer b i then do {
           a \<leftarrow> p_aggregator p;
           if is_active (b_agg b a) then do {
             _ \<leftarrow> p_slave p;
             Some (upd_port i (mux_state (if coupled_control (b_params b) then AD_MUX_COLLECTING_DISTRIBUTING
                                          else AD_MUX_COLLECTING)) b)
           } else Some b
         }
         else if \<not> on (sm_vars p) AD_PORT_SELECTED \<or> on (sm_vars p) AD_PORT_STANDBY then unready_detach i b
         else do {
           a \<leftarrow> p_aggregator p;
           Some (if is_active (b_agg b a)
             then upd_port i (\<lambda>p. p\<lparr>actor_oper_port_state := insert SYNCHRONIZATION (actor_oper_port_state p)\<rparr>) b
             else b)
         })"

definition mux_keep_enabled :: "ad_env \<Rightarrow> nat \<Rightarrow> bool \<Rightarrow> ad_bond \<Rightarrow> (bool \<times> ad_bond) defined" where
  "mux_keep_enabled e i upd b = do {
     a \<leftarrow> p_aggregator (b_port b i);
     on_both \<leftarrow> (if is_active (b_agg b a) then port_is_collecting_distributing e i b else Some True);
     if \<not> on_both then do { b \<leftarrow> enable_port e i b; Some (True, b) } else Some (upd, b)
   }"

definition mux_collecting :: "ad_env \<Rightarrow> nat \<Rightarrow> bool \<Rightarrow> ad_bond \<Rightarrow> (bool \<times> ad_bond) defined" where
  "mux_collecting e i upd b =
     (let b = upd_port i port_move_to_attached_state b; p = b_port b i
      in if sm_mux_state p = AD_MUX_ATTACHED then Some (upd, b)
         else if on (sm_vars p) AD_PORT_SELECTED \<and> SYNCHRONIZATION \<in> pp_port_state (partner_oper p) \<and>
            COLLECTING \<in> pp_port_state (partner_oper p) then Some (upd, upd_port i (mux_state AD_MUX_DISTRIBUTING) b)
         else do {
           a \<leftarrow> p_aggregator p;
           off \<leftarrow> (if is_active (b_agg b a)
             then do { s \<leftarrow> p_slave p; Some (is_slave_rx_disabled e (s_flags (b_slave b s))) } else Some False);
           if off then do { b \<leftarrow> ad_enable_collecting e i b; Some (True, b) } else Some (upd, b)
         })"

definition mux_distributing :: "ad_env \<Rightarrow> nat \<Rightarrow> bool \<Rightarrow> ad_bond \<Rightarrow> (bool \<times> ad_bond) defined" where
  "mux_distributing e i upd b =
     (let p = b_port b i
      in if \<not> on (sm_vars p) AD_PORT_SELECTED \<or> on (sm_vars p) AD_PORT_STANDBY \<or>
            COLLECTING \<notin> pp_port_state (partner_oper p) \<or> SYNCHRONIZATION \<notin> pp_port_state (partner_oper p) \<or>
            SYNCHRONIZATION \<notin> actor_oper_port_state p
         then Some (upd, upd_port i (mux_state AD_MUX_COLLECTING) b)
         else if p_aggregator p = None then Some (upd, b)
         else mux_keep_enabled e i upd b)"

text \<open>The transition part of \<open>ad_mux_machine\<close>.\<close>

definition mux_transition :: "ad_env \<Rightarrow> nat \<Rightarrow> bool \<Rightarrow> ad_bond \<Rightarrow> (bool \<times> ad_bond) defined" where
  "mux_transition e i upd b =
     (let p = b_port b i
      in if on (sm_vars p) AD_PORT_BEGIN then Some (upd, upd_port i (mux_state AD_MUX_DETACHED) b)
         else case sm_mux_state p of
           AD_MUX_DETACHED \<Rightarrow>
             Some (upd, if on (sm_vars p) AD_PORT_SELECTED \<or> on (sm_vars p) AD_PORT_STANDBY
                        then upd_port i (mux_state AD_MUX_WAITING) b else b)
         | AD_MUX_WAITING \<Rightarrow> map_option (Pair upd) (mux_waiting i b)
         | AD_MUX_ATTACHED \<Rightarrow> map_option (Pair upd) (mux_attached i b)
         | AD_MUX_COLLECTING_DISTRIBUTING \<Rightarrow>
             (let b = upd_port i port_move_to_attached_state b
              in if sm_mux_state (b_port b i) = AD_MUX_ATTACHED then Some (upd, b) else mux_keep_enabled e i upd b)
         | AD_MUX_COLLECTING \<Rightarrow> mux_collecting e i upd b
         | AD_MUX_DISTRIBUTING \<Rightarrow> mux_distributing e i upd b
         | AD_MUX_DUMMY \<Rightarrow> Some (upd, b))"

text \<open>The actions on entering a state. The three bits that a state sets or clears come first.\<close>

definition oper_bits :: "lacp_flag set \<Rightarrow> lacp_flag set \<Rightarrow> ad_port \<Rightarrow> ad_port" where
  "oper_bits off set_on p = p\<lparr>actor_oper_port_state := actor_oper_port_state p - off \<union> set_on\<rparr>"

definition need_tx :: "nat \<Rightarrow> bool \<times> ad_bond \<Rightarrow> (bool \<times> ad_bond) defined" where
  "need_tx i = (\<lambda>(upd, b). Some (upd, upd_port i (\<lambda>p. p\<lparr>ntt := True\<rparr>) b))"

definition mux_action :: "ad_env \<Rightarrow> nat \<Rightarrow> bool \<Rightarrow> ad_bond \<Rightarrow> (bool \<times> ad_bond) defined" where
  "mux_action e i upd b = (case sm_mux_state (b_port b i) of
     AD_MUX_DETACHED \<Rightarrow> do {
       (upd, b) \<leftarrow> ad_disable_collecting_distributing e i upd (upd_port i (oper_bits {SYNCHRONIZATION} {}) b);
       need_tx i (upd, upd_port i (oper_bits {COLLECTING, DISTRIBUTING} {}) b)
     }
   | AD_MUX_WAITING \<Rightarrow>
       Some (upd, upd_port i (\<lambda>p. p\<lparr>sm_mux_timer_counter := ad_timer_to_ticks e AD_WAIT_WHILE_TIMER 0\<rparr>) b)
   | AD_MUX_ATTACHED \<Rightarrow> do {
       a \<leftarrow> p_aggregator (b_port b i);
       let b = upd_port i (if is_active (b_agg b a) then oper_bits {} {SYNCHRONIZATION} else oper_bits {SYNCHRONIZATION} {}) b;
       (upd, b) \<leftarrow> ad_disable_collecting_distributing e i upd (upd_port i (oper_bits {COLLECTING, DISTRIBUTING} {}) b);
       need_tx i (upd, b)
     }
   | AD_MUX_COLLECTING_DISTRIBUTING \<Rightarrow> do {
       (upd, b) \<leftarrow> ad_enable_collecting_distributing e i upd
         (upd_port i (oper_bits {} {COLLECTING, DISTRIBUTING, SYNCHRONIZATION}) b);
       need_tx i (upd, b)
     }
   | AD_MUX_COLLECTING \<Rightarrow> do {
       b \<leftarrow> ad_enable_collecting e i (upd_port i (oper_bits {DISTRIBUTING} {COLLECTING, SYNCHRONIZATION}) b);
       (upd, b) \<leftarrow> ad_disable_distributing e i upd b;
       need_tx i (upd, b)
     }
   | AD_MUX_DISTRIBUTING \<Rightarrow>
       ad_enable_collecting_distributing e i upd (upd_port i (oper_bits {} {DISTRIBUTING, SYNCHRONIZATION}) b)
   | AD_MUX_DUMMY \<Rightarrow> Some (upd, b))"

definition ad_mux_machine :: "ad_env \<Rightarrow> nat \<Rightarrow> bool \<Rightarrow> ad_bond \<Rightarrow> (bool \<times> ad_bond) defined" where
  "ad_mux_machine e i upd b = do {
     let last_state = sm_mux_state (b_port b i);
     (upd, b) \<leftarrow> mux_transition e i upd b;
     if sm_mux_state (b_port b i) \<noteq> last_state then mux_action e i upd b else Some (upd, b)
   }"

subsection \<open>What the machine leaves alone\<close>

text \<open>Apart from slave flags and counters only the \<open>READY\<close> bits of ports change.\<close>

definition port_same :: "ad_port \<Rightarrow> ad_port \<Rightarrow> bool" where
  "port_same p p' = (\<exists>v. p' = p\<lparr>sm_vars := v\<rparr> \<and> v AND NOT AD_PORT_READY = sm_vars p AND NOT AD_PORT_READY)"

lemma port_same_refl [simp]: "port_same p p"
  unfolding port_same_def by (rule exI [of _ "sm_vars p"]) simp

lemma port_same_trans: "port_same p q \<Longrightarrow> port_same q r \<Longrightarrow> port_same p r"
  unfolding port_same_def by auto

lemma port_same_set_ready: "port_same p (set_ready v p)"
proof -
  have "(w OR AD_PORT_READY) AND NOT AD_PORT_READY = w AND NOT AD_PORT_READY" for w :: u16
    by (rule bit_eqI) (auto simp: bit_simps)
  then show ?thesis by (auto simp: port_same_def set_ready_def)
qed

lemma port_same_on:
  assumes "v AND NOT AD_PORT_READY = w AND NOT AD_PORT_READY"
  shows "on v AD_PORT_SELECTED = on w AD_PORT_SELECTED" "on v AD_PORT_BEGIN = on w AD_PORT_BEGIN"
    "on v AD_PORT_STANDBY = on w AD_PORT_STANDBY" "on v AD_PORT_READY_N = on w AD_PORT_READY_N"
proof -
  have "on (v AND NOT AD_PORT_READY) m = on (w AND NOT AD_PORT_READY) m" for m using assms by simp
  from this [of AD_PORT_SELECTED] this [of AD_PORT_BEGIN] this [of AD_PORT_STANDBY] this [of AD_PORT_READY_N]
  show "on v AD_PORT_SELECTED = on w AD_PORT_SELECTED" "on v AD_PORT_BEGIN = on w AD_PORT_BEGIN"
    "on v AD_PORT_STANDBY = on w AD_PORT_STANDBY" "on v AD_PORT_READY_N = on w AD_PORT_READY_N" by simp_all
qed

lemma port_sameD:
  assumes "port_same p p'"
  shows "on (sm_vars p') AD_PORT_SELECTED = on (sm_vars p) AD_PORT_SELECTED"
    "on (sm_vars p') AD_PORT_BEGIN = on (sm_vars p) AD_PORT_BEGIN"
    "sm_mux_state p' = sm_mux_state p" "actor_oper_port_state p' = actor_oper_port_state p"
    "p_aggregator p' = p_aggregator p" "p_slave p' = p_slave p"
    "next_port_in_aggregator p' = next_port_in_aggregator p" "sm_mux_timer_counter p' = sm_mux_timer_counter p"
    "sm_rx_state p' = sm_rx_state p" "is_enabled p' = is_enabled p" "partner_oper p' = partner_oper p"
proof -
  obtain v where v: "p' = p\<lparr>sm_vars := v\<rparr>" "v AND NOT AD_PORT_READY = sm_vars p AND NOT AD_PORT_READY"
    using assms unfolding port_same_def by blast
  note on = port_same_on [OF v(2)]
  show "on (sm_vars p') AD_PORT_SELECTED = on (sm_vars p) AD_PORT_SELECTED"
    "on (sm_vars p') AD_PORT_BEGIN = on (sm_vars p) AD_PORT_BEGIN"
    "sm_mux_state p' = sm_mux_state p" "actor_oper_port_state p' = actor_oper_port_state p"
    "p_aggregator p' = p_aggregator p" "p_slave p' = p_slave p"
    "next_port_in_aggregator p' = next_port_in_aggregator p" "sm_mux_timer_counter p' = sm_mux_timer_counter p"
    "sm_rx_state p' = sm_rx_state p" "is_enabled p' = is_enabled p" "partner_oper p' = partner_oper p"
    by (simp_all add: v(1) on)
qed

definition quiet :: "ad_bond \<Rightarrow> ad_bond \<Rightarrow> bool" where
  "quiet b b' = (b_slaves b' = b_slaves b \<and> b_agg b' = b_agg b \<and> b_params b' = b_params b \<and>
     agg_select_timer b' = agg_select_timer b \<and> (\<forall>j. port_same (b_port b j) (b_port b' j)))"

lemma quiet_refl [simp]: "quiet b b"
  by (simp add: quiet_def)

lemma quiet_trans: "quiet b b' \<Longrightarrow> quiet b' b'' \<Longrightarrow> quiet b b''"
  unfolding quiet_def by (auto intro: port_same_trans)

lemma quiet_lag: "quiet b b' \<Longrightarrow> same_lag b b'"
  by (simp add: quiet_def same_lag_def port_sameD)

lemma quiet_flags: "flags_only b b' \<Longrightarrow> quiet b b'"
  by (auto simp: flags_only_def quiet_def)

lemma quiet_port: "quiet b b' \<Longrightarrow> port_same (b_port b j) (b_port b' j)"
  by (simp add: quiet_def)

lemma enabling_quiet:
  assumes "p_slave (b_port b i) \<noteq> None"
  shows "\<exists>b'. enable_port e i b = Some b' \<and> quiet b b'" "\<exists>b'. disable_port e i b = Some b' \<and> quiet b b'"
    "\<exists>b'. enable_collecting_port e i b = Some b' \<and> quiet b b'"
    "\<exists>b'. disable_distributing_port e i b = Some b' \<and> quiet b b'"
proof -
  obtain s where s: "p_slave (b_port b i) = Some s" using assms by blast
  have on: "\<exists>b'. on_slave i f b = Some b' \<and> quiet b b'" for f using on_slave_flags [OF s] quiet_flags by blast
  then have up: "\<exists>b'. on_up_slave i f b = Some b' \<and> quiet b b'" for f by (simp add: on_up_slave_def s)
  show "\<exists>b'. enable_port e i b = Some b' \<and> quiet b b'" "\<exists>b'. disable_port e i b = Some b' \<and> quiet b b'"
    "\<exists>b'. enable_collecting_port e i b = Some b' \<and> quiet b b'"
    "\<exists>b'. disable_distributing_port e i b = Some b' \<and> quiet b b'"
    unfolding enable_port_def disable_port_def enable_collecting_port_def disable_distributing_port_def by (rule on up)+
qed

lemma update_ready_quiet:
  assumes "lag_inv L b" "p_aggregator (b_port b i) = Some a" "a \<in> set (b_slaves b)"
  shows "\<exists>b'. update_ready i b = Some b' \<and> quiet b b' \<and>
    (i \<in> set (L a) \<longrightarrow> on (sm_vars (b_port b' i)) AD_PORT_READY =
       (\<forall>j\<in>set (L a). on (sm_vars (b_port b j)) AD_PORT_READY_N))"
proof -
  let ?r = "list_all (\<lambda>i. on (sm_vars (b_port b i)) AD_PORT_READY_N) (L a)"
  let ?b = "fold (\<lambda>i. upd_port i (set_ready ?r)) (L a) b"
  have port: "b_port (fold (\<lambda>i. upd_port i (set_ready r)) ps c) j =
      (if j \<in> set ps then set_ready r (b_port c j) else b_port c j)" for r ps c j
  proof (induction ps arbitrary: c)
    case (Cons k ps)
    have "set_ready r (set_ready r p) = set_ready r p" for p
      by (simp add: set_ready_def bit_eq_iff bit_simps)
    with Cons show ?case by simp
  qed simp
  have "b_slaves (fold (\<lambda>i. upd_port i (set_ready r)) ps c) = b_slaves c \<and> b_agg (fold (\<lambda>i. upd_port i (set_ready r)) ps c) = b_agg c \<and>
      b_params (fold (\<lambda>i. upd_port i (set_ready r)) ps c) = b_params c \<and>
      agg_select_timer (fold (\<lambda>i. upd_port i (set_ready r)) ps c) = agg_select_timer c" for r ps c
    by (induction ps arbitrary: c) auto
  then have "quiet b ?b" by (simp add: quiet_def port port_same_set_ready)
  moreover have "update_ready i b = Some ?b"
    using lag_invD(1) [OF assms(1,3)] assms(2)
    by (simp add: update_ready_def agg_ports_are_ready_def set_agg_ports_ready_def)
  moreover have "i \<in> set (L a) \<longrightarrow> on (sm_vars (b_port ?b i)) AD_PORT_READY = ?r"
    by (simp add: port) (simp add: set_ready_def)
  ultimately show ?thesis by (auto simp: list_all_iff)
qed

text \<open>What a step of the machine keeps of its own port.\<close>

definition port_moved :: "ad_port \<Rightarrow> ad_port \<Rightarrow> bool" where
  "port_moved p p' = (p_slave p' = p_slave p \<and> p_aggregator p' = p_aggregator p \<and>
     next_port_in_aggregator p' = next_port_in_aggregator p \<and> partner_oper p' = partner_oper p \<and>
     on (sm_vars p') AD_PORT_SELECTED = on (sm_vars p) AD_PORT_SELECTED \<and>
     actor_oper_port_state p' - {SYNCHRONIZATION} = actor_oper_port_state p - {SYNCHRONIZATION})"

definition moved :: "nat \<Rightarrow> ad_bond \<Rightarrow> ad_bond \<Rightarrow> bool" where
  "moved i b b' = (b_slaves b' = b_slaves b \<and> b_agg b' = b_agg b \<and> b_params b' = b_params b \<and>
     agg_select_timer b' = agg_select_timer b \<and> (\<forall>j. j \<noteq> i \<longrightarrow> port_same (b_port b j) (b_port b' j)) \<and>
     port_moved (b_port b i) (b_port b' i))"

lemma port_moved_trans: "port_moved p q \<Longrightarrow> port_moved q r \<Longrightarrow> port_moved p r"
  by (simp add: port_moved_def)

lemma port_same_moved: "port_same p p' \<Longrightarrow> port_moved p p'"
  using port_sameD [of p p'] by (simp add: port_moved_def)

lemma moved_quiet: "quiet b b' \<Longrightarrow> moved i b b'"
  by (simp add: moved_def quiet_def port_same_moved)

lemma moved_trans: "moved i b b' \<Longrightarrow> moved i b' b'' \<Longrightarrow> moved i b b''"
  unfolding moved_def by (auto intro: port_same_trans port_moved_trans)

lemma moved_upd: "port_moved (b_port b i) (f (b_port b i)) \<Longrightarrow> moved i b (upd_port i f b)"
  by (simp add: moved_def)

lemma moved_lag: "moved i b b' \<Longrightarrow> same_lag b b'"
proof -
  assume m: "moved i b b'"
  have p: "port_moved (b_port b j) (b_port b' j)" for j
    using m port_same_moved by (cases "j = i") (auto simp: moved_def)
  show ?thesis using m p by (simp add: same_lag_def moved_def port_moved_def)
qed

lemma moved_fields:
  assumes "moved i b b'"
  shows "b_slaves b' = b_slaves b" "b_agg b' = b_agg b" "p_slave (b_port b' i) = p_slave (b_port b i)"
    "p_aggregator (b_port b' i) = p_aggregator (b_port b i)"
  using assms by (simp_all add: moved_def port_moved_def)

lemma port_moved_simps [simp]:
  "port_moved p (mux_state st q) = port_moved p q" "port_moved p p"
  "port_moved p (q\<lparr>ntt := t\<rparr>) = port_moved p q" "port_moved p (q\<lparr>sm_mux_timer_counter := c\<rparr>) = port_moved p q"
  "sm_mux_state (mux_state st q) = st"
  by (auto simp: port_moved_def mux_state_def)

subsection \<open>The state diagram\<close>

text \<open>
  The diagram of the machine: the next state as a function of the variables of the port, of its
  partner and of the aggregator \<open>a\<close> whose ports are \<open>L a\<close>. A port has waited when its timer runs out.
\<close>

definition waited :: "ad_port \<Rightarrow> bool" where
  "waited p = (sm_mux_timer_counter p = 1 \<or> sm_mux_timer_counter p = 0 \<and> on (sm_vars p) AD_PORT_READY_N)"

definition in_sync :: "ad_port \<Rightarrow> bool" where
  "in_sync p = (on (sm_vars p) AD_PORT_SELECTED \<and> \<not> on (sm_vars p) AD_PORT_STANDBY \<and>
     SYNCHRONIZATION \<in> pp_port_state (partner_oper p) \<and> SYNCHRONIZATION \<in> actor_oper_port_state p)"

definition mux_next :: "(nat \<Rightarrow> nat list) \<Rightarrow> nat \<Rightarrow> ad_bond \<Rightarrow> nat \<Rightarrow> mux_states_t" where
  "mux_next L a b i =
     (let p = b_port b i; selected = on (sm_vars p) AD_PORT_SELECTED; standby = on (sm_vars p) AD_PORT_STANDBY
      in if on (sm_vars p) AD_PORT_BEGIN then AD_MUX_DETACHED
         else case sm_mux_state p of
           AD_MUX_DETACHED \<Rightarrow> if selected \<or> standby then AD_MUX_WAITING else AD_MUX_DETACHED
         | AD_MUX_WAITING \<Rightarrow>
             if \<not> selected then AD_MUX_DETACHED
             else if waited p \<and> (\<forall>j\<in>set (L a) - {i}. on (sm_vars (b_port b j)) AD_PORT_READY_N) then AD_MUX_ATTACHED
             else AD_MUX_WAITING
         | AD_MUX_ATTACHED \<Rightarrow>
             if selected \<and> SYNCHRONIZATION \<in> pp_port_state (partner_oper p) \<and> agg_select_timer b = 0 then
               (if is_active (b_agg b a)
                then (if coupled_control (b_params b) then AD_MUX_COLLECTING_DISTRIBUTING else AD_MUX_COLLECTING)
                else AD_MUX_ATTACHED)
             else if \<not> selected \<or> standby then AD_MUX_DETACHED else AD_MUX_ATTACHED
         | AD_MUX_COLLECTING_DISTRIBUTING \<Rightarrow> if in_sync p then AD_MUX_COLLECTING_DISTRIBUTING else AD_MUX_ATTACHED
         | AD_MUX_COLLECTING \<Rightarrow>
             if \<not> in_sync p then AD_MUX_ATTACHED
             else if COLLECTING \<in> pp_port_state (partner_oper p) then AD_MUX_DISTRIBUTING else AD_MUX_COLLECTING
         | AD_MUX_DISTRIBUTING \<Rightarrow>
             if in_sync p \<and> COLLECTING \<in> pp_port_state (partner_oper p) then AD_MUX_DISTRIBUTING else AD_MUX_COLLECTING
         | AD_MUX_DUMMY \<Rightarrow> AD_MUX_DUMMY)"

lemma mux_state_port: "sm_mux_state (b_port (upd_port i (mux_state st) b) i) = st"
  by simp

lemma unready_detach_result:
  assumes "lag_inv L b" "p_aggregator (b_port b i) = Some a" "a \<in> set (b_slaves b)"
  shows "\<exists>b'. unready_detach i b = Some b' \<and> moved i b b' \<and> sm_mux_state (b_port b' i) = AD_MUX_DETACHED"
proof -
  let ?b = "upd_port i (\<lambda>p. p\<lparr>sm_vars := sm_vars p AND NOT AD_PORT_READY_N\<rparr>) b"
  have m: "moved i b ?b" by (rule moved_upd) (simp add: port_moved_def)
  have "lag_inv L ?b" using assms(1) same_lag_inv [OF moved_lag [OF m]] by simp
  then obtain b1 where "update_ready i ?b = Some b1" "quiet ?b b1"
    using update_ready_quiet [of L ?b i a] assms(2,3) by auto
  with moved_trans [OF m moved_quiet] moved_trans [OF _ moved_upd [of b1 i "mux_state AD_MUX_DETACHED"]] show ?thesis
    by (auto simp: unready_detach_def)
qed

lemma mux_waiting_result:
  assumes inv: "lag_inv L b" and a: "p_aggregator (b_port b i) = Some a" "a \<in> set (b_slaves b)" "i \<in> set (L a)"
    and sel: "on (sm_vars (b_port b i)) AD_PORT_SELECTED"
  shows "\<exists>b'. mux_waiting i b = Some b' \<and> moved i b b' \<and>
    sm_mux_state (b_port b' i) =
      (if waited (b_port b i) \<and> (\<forall>j\<in>set (L a) - {i}. on (sm_vars (b_port b j)) AD_PORT_READY_N) then AD_MUX_ATTACHED
       else sm_mux_state (b_port b i))"
proof -
  let ?b = "upd_port i wait_tick b"
  let ?p = "wait_tick (b_port b i)"
  have "port_moved (b_port b i) ?p" by (simp add: wait_tick_def Let_def port_moved_def)
  then have m: "moved i b ?b" by (rule moved_upd)
  have "lag_inv L ?b" using inv same_lag_inv [OF moved_lag [OF m]] by simp
  moreover have "p_aggregator ?p = Some a" using a(1) by (simp add: wait_tick_def Let_def)
  ultimately obtain b1 where b1: "update_ready i ?b = Some b1" "quiet ?b b1"
    "on (sm_vars (b_port b1 i)) AD_PORT_READY = (\<forall>j\<in>set (L a). on (sm_vars (b_port ?b j)) AD_PORT_READY_N)"
    using update_ready_quiet [of L ?b i a] a(2,3) by auto
  have t: "sm_mux_timer_counter (b_port b1 i) = sm_mux_timer_counter ?p" "sm_mux_state (b_port b1 i) = sm_mux_state (b_port b i)"
    using port_sameD(3,8) [OF quiet_port [OF b1(2)], of i] by (simp_all add: wait_tick_def Let_def)
  have w: "waited (b_port b i) = (on (sm_vars ?p) AD_PORT_READY_N \<and> sm_mux_timer_counter ?p = 0)"
    by (auto simp: waited_def wait_tick_def Let_def)
  have all: "(\<forall>j\<in>set (L a). on (sm_vars (b_port ?b j)) AD_PORT_READY_N) =
      (on (sm_vars ?p) AD_PORT_READY_N \<and> (\<forall>j\<in>set (L a) - {i}. on (sm_vars (b_port b j)) AD_PORT_READY_N))"
    using a(3) by auto
  have r: "mux_waiting i b = Some (if on (sm_vars (b_port b1 i)) AD_PORT_READY \<and> sm_mux_timer_counter (b_port b1 i) = 0
      then upd_port i (mux_state AD_MUX_ATTACHED) b1 else b1)"
    using sel b1(1) by (simp add: mux_waiting_def)
  have "moved i b b1" using moved_trans [OF m moved_quiet [OF b1(2)]] .
  moreover from this have "moved i b (upd_port i (mux_state AD_MUX_ATTACHED) b1)"
    using moved_trans moved_upd [of b1 i "mux_state AD_MUX_ATTACHED"] by simp
  moreover define C where
    "C = (waited (b_port b i) \<and> (\<forall>j\<in>set (L a) - {i}. on (sm_vars (b_port b j)) AD_PORT_READY_N))"
  moreover have "(on (sm_vars (b_port b1 i)) AD_PORT_READY \<and> sm_mux_timer_counter (b_port b1 i) = 0) = C"
    unfolding b1(3) all t(1) w C_def by blast
  ultimately show ?thesis using r t(2) unfolding C_def [symmetric] by (cases C) auto
qed

lemma mux_attached_result:
  assumes inv: "lag_inv L b" and a: "p_aggregator (b_port b i) = Some a" "a \<in> set (b_slaves b)"
    and i: "p_slave (b_port b i) = Some i"
    and st: "sm_mux_state (b_port b i) = AD_MUX_ATTACHED" "\<not> on (sm_vars (b_port b i)) AD_PORT_BEGIN"
  shows "\<exists>b'. mux_attached i b = Some b' \<and> moved i b b' \<and> sm_mux_state (b_port b' i) = mux_next L a b i"
proof -
  have s: "moved i b (upd_port i (mux_state st) b)" for st by (rule moved_upd) simp
  have "moved i b (upd_port i (\<lambda>p. p\<lparr>actor_oper_port_state := insert SYNCHRONIZATION (actor_oper_port_state p)\<rparr>) b)"
    by (rule moved_upd) (simp add: port_moved_def)
  moreover obtain bd where "unready_detach i b = Some bd" "moved i b bd" "sm_mux_state (b_port bd i) = AD_MUX_DETACHED"
    using unready_detach_result [OF inv a] by blast
  moreover have "moved i b b" by (simp add: moved_quiet)
  ultimately show ?thesis using s a(1) i st
    by (auto simp: mux_attached_def mux_next_def Let_def check_agg_selection_timer_def)
qed

lemma mux_keep_enabled_result:
  assumes "p_aggregator (b_port b i) = Some a" "p_slave (b_port b i) = Some s"
  shows "\<exists>upd' b'. mux_keep_enabled e i upd b = Some (upd', b') \<and> quiet b b'"
  using assms enabling_quiet(1) [of b i e] by (auto simp: mux_keep_enabled_def port_is_collecting_distributing_def)

lemma move_to_attached:
  "sm_mux_state p \<noteq> AD_MUX_ATTACHED \<Longrightarrow> (sm_mux_state (port_move_to_attached_state p) = AD_MUX_ATTACHED) = (\<not> in_sync p)"
  "in_sync p \<Longrightarrow> port_move_to_attached_state p = p"
  "port_moved p (port_move_to_attached_state p)"
  by (auto simp: port_move_to_attached_state_def in_sync_def port_moved_def)

lemma mux_collecting_result:
  assumes a: "p_aggregator (b_port b i) = Some a" and s: "p_slave (b_port b i) = Some s"
    and st: "sm_mux_state (b_port b i) = AD_MUX_COLLECTING" "\<not> on (sm_vars (b_port b i)) AD_PORT_BEGIN"
  shows "\<exists>upd' b'. mux_collecting e i upd b = Some (upd', b') \<and> moved i b b' \<and> sm_mux_state (b_port b' i) = mux_next L a b i"
proof (cases "in_sync (b_port b i)")
  case False
  then show ?thesis using st move_to_attached(1,3) [of "b_port b i"] moved_upd [of b i port_move_to_attached_state]
    by (simp add: mux_collecting_def mux_next_def)
next
  case True
  then have b: "upd_port i port_move_to_attached_state b = b" by (simp add: move_to_attached(2))
  have sel: "on (sm_vars (b_port b i)) AD_PORT_SELECTED" "SYNCHRONIZATION \<in> pp_port_state (partner_oper (b_port b i))"
    using True by (simp_all add: in_sync_def)
  obtain be where be: "enable_collecting_port e i b = Some be" "quiet b be" using enabling_quiet(3) s by blast
  have "sm_mux_state (b_port be i) = AD_MUX_COLLECTING" using port_sameD(3) [OF quiet_port [OF be(2)], of i] st by simp
  moreover have "moved i b (upd_port i (mux_state AD_MUX_DISTRIBUTING) b)" by (rule moved_upd) simp
  ultimately show ?thesis using a s st sel True be moved_quiet [OF be(2)] moved_quiet [OF quiet_refl]
    by (auto simp: mux_collecting_def b mux_next_def ad_enable_collecting_def)
qed

lemma mux_distributing_result:
  assumes a: "p_aggregator (b_port b i) = Some a" and s: "p_slave (b_port b i) = Some s"
    and st: "sm_mux_state (b_port b i) = AD_MUX_DISTRIBUTING" "\<not> on (sm_vars (b_port b i)) AD_PORT_BEGIN"
  shows "\<exists>upd' b'. mux_distributing e i upd b = Some (upd', b') \<and> moved i b b' \<and> sm_mux_state (b_port b' i) = mux_next L a b i"
proof -
  obtain upd' be where be: "mux_keep_enabled e i upd b = Some (upd', be)" "quiet b be"
    using mux_keep_enabled_result [OF a s] by blast
  have "sm_mux_state (b_port be i) = AD_MUX_DISTRIBUTING" using port_sameD(3) [OF quiet_port [OF be(2)], of i] st by simp
  moreover have "moved i b (upd_port i (mux_state AD_MUX_COLLECTING) b)" by (rule moved_upd) simp
  ultimately show ?thesis using a st be moved_quiet [OF be(2)]
    by (auto simp: mux_distributing_def mux_next_def in_sync_def Let_def)
qed

lemma mux_transition_result:
  assumes inv: "lag_inv L b" and i: "i \<in> set (b_slaves b)" and a: "p_aggregator (b_port b i) = Some a"
  shows "\<exists>upd' b'. mux_transition e i upd b = Some (upd', b') \<and> moved i b b' \<and>
    sm_mux_state (b_port b' i) = mux_next L a b i"
proof (cases "on (sm_vars (b_port b i)) AD_PORT_BEGIN")
  case True
  then show ?thesis using moved_upd [of b i "mux_state AD_MUX_DETACHED"] by (simp add: mux_transition_def mux_next_def)
next
  case nb: False
  have s: "p_slave (b_port b i) = Some i" using lag_invD(6) [OF inv i] .
  have al: "a \<in> set (b_slaves b)" "i \<in> set (L a)" using lag_inv_port(2) [OF inv i a] by auto
  have refl: "moved i b b" by (simp add: moved_quiet)
  show ?thesis
  proof (cases "sm_mux_state (b_port b i)")
    case w: AD_MUX_WAITING
    show ?thesis
    proof (cases "on (sm_vars (b_port b i)) AD_PORT_SELECTED")
      case True
      have "mux_next L a b i =
          (if waited (b_port b i) \<and> (\<forall>j\<in>set (L a) - {i}. on (sm_vars (b_port b j)) AD_PORT_READY_N) then AD_MUX_ATTACHED
           else sm_mux_state (b_port b i))" using True w nb by (simp add: mux_next_def)
      moreover obtain b' where "mux_waiting i b = Some b'" "moved i b b'" "sm_mux_state (b_port b' i) =
          (if waited (b_port b i) \<and> (\<forall>j\<in>set (L a) - {i}. on (sm_vars (b_port b j)) AD_PORT_READY_N) then AD_MUX_ATTACHED
           else sm_mux_state (b_port b i))"
        using mux_waiting_result [OF inv a al True] by blast
      ultimately show ?thesis using w nb by (simp add: mux_transition_def)
    next
      case False
      with unready_detach_result [OF inv a al(1)] w nb show ?thesis
        by (auto simp: mux_transition_def mux_next_def mux_waiting_def)
    qed
  next
    case AD_MUX_ATTACHED
    from mux_attached_result [OF inv a al(1) s this nb] AD_MUX_ATTACHED nb show ?thesis by (auto simp: mux_transition_def)
  next
    case AD_MUX_COLLECTING
    from mux_collecting_result [OF a s this nb, of e upd] AD_MUX_COLLECTING nb show ?thesis by (simp add: mux_transition_def)
  next
    case AD_MUX_DISTRIBUTING
    from mux_distributing_result [OF a s this nb, of e upd] AD_MUX_DISTRIBUTING nb show ?thesis by (simp add: mux_transition_def)
  next
    case cd: AD_MUX_COLLECTING_DISTRIBUTING
    obtain upd' be where be: "mux_keep_enabled e i upd b = Some (upd', be)" "quiet b be"
      using mux_keep_enabled_result [OF a s] by blast
    have "sm_mux_state (b_port be i) = AD_MUX_COLLECTING_DISTRIBUTING"
      using port_sameD(3) [OF quiet_port [OF be(2)], of i] cd by simp
    then show ?thesis using nb cd be moved_quiet [OF be(2)] move_to_attached [of "b_port b i"]
        moved_upd [of b i port_move_to_attached_state]
      by (cases "in_sync (b_port b i)") (simp_all add: mux_transition_def mux_next_def)
  qed (use nb refl moved_upd [of b i "mux_state AD_MUX_WAITING"] in \<open>simp_all add: mux_transition_def mux_next_def Let_def\<close>)
qed

subsection \<open>Entering a state\<close>

definition collecting_state :: "mux_states_t \<Rightarrow> bool" where
  "collecting_state st = (st \<in> {AD_MUX_COLLECTING, AD_MUX_DISTRIBUTING, AD_MUX_COLLECTING_DISTRIBUTING})"

definition distributing_state :: "mux_states_t \<Rightarrow> bool" where
  "distributing_state st = (st \<in> {AD_MUX_DISTRIBUTING, AD_MUX_COLLECTING_DISTRIBUTING})"

text \<open>The operational state that a port announces agrees with the state of its machine.\<close>

definition mux_bits :: "ad_port \<Rightarrow> bool" where
  "mux_bits p = ((COLLECTING \<in> actor_oper_port_state p) = collecting_state (sm_mux_state p) \<and>
     (DISTRIBUTING \<in> actor_oper_port_state p) = distributing_state (sm_mux_state p))"

definition port_kept :: "ad_port \<Rightarrow> ad_port \<Rightarrow> bool" where
  "port_kept p p' = (p_slave p' = p_slave p \<and> p_aggregator p' = p_aggregator p \<and>
     next_port_in_aggregator p' = next_port_in_aggregator p \<and> partner_oper p' = partner_oper p \<and>
     on (sm_vars p') AD_PORT_SELECTED = on (sm_vars p) AD_PORT_SELECTED)"

definition kept :: "nat \<Rightarrow> ad_bond \<Rightarrow> ad_bond \<Rightarrow> bool" where
  "kept i b b' = (b_slaves b' = b_slaves b \<and> b_agg b' = b_agg b \<and> b_params b' = b_params b \<and>
     agg_select_timer b' = agg_select_timer b \<and> (\<forall>j. j \<noteq> i \<longrightarrow> port_same (b_port b j) (b_port b' j)) \<and>
     port_kept (b_port b i) (b_port b' i))"

lemma kept_moved: "moved i b b' \<Longrightarrow> kept i b b'"
  by (simp add: moved_def kept_def port_moved_def port_kept_def)

lemma kept_trans: "kept i b b' \<Longrightarrow> kept i b' b'' \<Longrightarrow> kept i b b''"
  unfolding kept_def port_kept_def by (auto intro: port_same_trans)

lemma kept_quiet: "quiet b b' \<Longrightarrow> kept i b b'"
  by (simp add: kept_moved moved_quiet)

lemma kept_bits [simp]: "kept i b (upd_port i (oper_bits off set_on) b)" "kept i b (upd_port i (\<lambda>p. p\<lparr>ntt := t\<rparr>) b)"
  "kept i b (upd_port i (\<lambda>p. p\<lparr>sm_mux_timer_counter := c\<rparr>) b)" "kept i b b"
  by (simp_all add: kept_def port_kept_def oper_bits_def)

lemma kept_lag: "kept i b b' \<Longrightarrow> same_lag b b'"
proof -
  assume k: "kept i b b'"
  have p: "port_kept (b_port b j) (b_port b' j)" for j
    using k port_same_moved [of "b_port b j" "b_port b' j"] by (cases "j = i") (auto simp: kept_def port_moved_def port_kept_def)
  show ?thesis using k p by (simp add: same_lag_def kept_def port_kept_def)
qed

text \<open>Switching the slave on or off leaves the port as it is, but for the \<open>READY\<close> bits.\<close>

lemma switching_quiet:
  assumes "p_aggregator (b_port b i) = Some a" "p_slave (b_port b i) = Some s"
  shows "\<exists>upd' b'. ad_disable_collecting_distributing e i upd b = Some (upd', b') \<and> quiet b b'"
    "\<exists>upd' b'. ad_enable_collecting_distributing e i upd b = Some (upd', b') \<and> quiet b b'"
    "\<exists>b'. ad_enable_collecting e i b = Some b' \<and> quiet b b'"
    "\<exists>upd' b'. ad_disable_distributing e i upd b = Some (upd', b') \<and> quiet b b'"
proof -
  have sl: "p_slave (b_port b i) \<noteq> None" using assms(2) by simp
  note q = enabling_quiet [OF sl, of e]
  have notif: "\<exists>b2. ad_cond_set_peer_notif i b1 = Some b2 \<and> quiet b b2" if "quiet b b1" for b1
    using that port_sameD(6) [OF quiet_port [OF that], of i] assms(2) by (auto simp: ad_cond_set_peer_notif_def quiet_def)
  show "\<exists>upd' b'. ad_disable_collecting_distributing e i upd b = Some (upd', b') \<and> quiet b b'"
    "\<exists>b'. ad_enable_collecting e i b = Some b' \<and> quiet b b'"
    "\<exists>upd' b'. ad_disable_distributing e i upd b = Some (upd', b') \<and> quiet b b'"
    using q assms by (auto simp: ad_disable_collecting_distributing_def ad_enable_collecting_def ad_disable_distributing_def)
  show "\<exists>upd' b'. ad_enable_collecting_distributing e i upd b = Some (upd', b') \<and> quiet b b'"
    using q(1) notif assms by (fastforce simp: ad_enable_collecting_distributing_def)
qed

text \<open>What entering a state does to the announced bits.\<close>

definition entered :: "ad_port \<Rightarrow> ad_port \<Rightarrow> bool" where
  "entered p p' = (sm_mux_state p' = sm_mux_state p \<and>
     (case sm_mux_state p of
        AD_MUX_WAITING \<Rightarrow> actor_oper_port_state p' = actor_oper_port_state p
      | AD_MUX_DUMMY \<Rightarrow> actor_oper_port_state p' = actor_oper_port_state p
      | AD_MUX_DISTRIBUTING \<Rightarrow> actor_oper_port_state p' = actor_oper_port_state p \<union> {DISTRIBUTING, SYNCHRONIZATION}
      | _ \<Rightarrow> mux_bits p'))"

lemma quiet_view:
  assumes "quiet b b'"
  shows "sm_mux_state (b_port b' i) = sm_mux_state (b_port b i)" "actor_oper_port_state (b_port b' i) = actor_oper_port_state (b_port b i)"
    "p_aggregator (b_port b' i) = p_aggregator (b_port b i)" "p_slave (b_port b' i) = p_slave (b_port b i)"
  using port_sameD [OF quiet_port [OF assms, of i]] by auto

lemma oper_bits_simps [simp]:
  "actor_oper_port_state (oper_bits off set_on p) = actor_oper_port_state p - off \<union> set_on"
  "sm_mux_state (oper_bits off set_on p) = sm_mux_state p" "p_aggregator (oper_bits off set_on p) = p_aggregator p"
  "p_slave (oper_bits off set_on p) = p_slave p"
  by (simp_all add: oper_bits_def)

lemmas entering = entered_def mux_bits_def collecting_state_def distributing_state_def

lemma mux_action_result:
  assumes a: "p_aggregator (b_port b i) = Some a" and s: "p_slave (b_port b i) = Some s"
  shows "\<exists>upd' b'. mux_action e i upd b = Some (upd', b') \<and> kept i b b' \<and> entered (b_port b i) (b_port b' i)"
proof -
  have view: "p_aggregator (b_port (upd_port i (oper_bits off set_on) c) i) = Some a"
    "p_slave (b_port (upd_port i (oper_bits off set_on) c) i) = Some s"
    if "p_aggregator (b_port c i) = Some a" "p_slave (b_port c i) = Some s" for c off set_on using that by simp_all
  note sw = switching_quiet [OF view]
  show ?thesis
  proof (cases "sm_mux_state (b_port b i)")
    case st: AD_MUX_DETACHED
    obtain upd1 b1 where 1: "ad_disable_collecting_distributing e i upd (upd_port i (oper_bits {SYNCHRONIZATION} {}) b) = Some (upd1, b1)"
      "quiet (upd_port i (oper_bits {SYNCHRONIZATION} {}) b) b1" using sw(1) [OF a s a s] by blast
    let ?b2 = "upd_port i (oper_bits {COLLECTING, DISTRIBUTING} {}) b1"
    have "kept i b (upd_port i (\<lambda>p. p\<lparr>ntt := True\<rparr>) ?b2)"
      by (rule kept_trans [OF kept_trans [OF kept_trans]]) (rule kept_bits kept_quiet [OF 1(2)])+
    with 1 st quiet_view [OF 1(2), of i] show ?thesis by (simp add: mux_action_def need_tx_def entering)
  next
    case st: AD_MUX_ATTACHED
    let ?f = "if is_active (b_agg b a) then oper_bits {} {SYNCHRONIZATION} else oper_bits {SYNCHRONIZATION} {}"
    let ?b0 = "upd_port i (oper_bits {COLLECTING, DISTRIBUTING} {}) (upd_port i ?f b)"
    have "p_aggregator (b_port (upd_port i ?f b) i) = Some a" "p_slave (b_port (upd_port i ?f b) i) = Some s" using a s by auto
    then obtain upd1 b1 where 1: "ad_disable_collecting_distributing e i upd ?b0 = Some (upd1, b1)" "quiet ?b0 b1"
      using sw(1) by blast
    have "kept i b (upd_port i ?f b)" by auto
    then have "kept i b (upd_port i (\<lambda>p. p\<lparr>ntt := True\<rparr>) b1)"
      using kept_trans [OF kept_trans [OF kept_trans [OF _ kept_bits(1)] kept_quiet [OF 1(2)]] kept_bits(2)] by blast
    with 1 st a quiet_view [OF 1(2), of i] show ?thesis by (auto simp: mux_action_def need_tx_def entering)
  next
    case st: AD_MUX_COLLECTING_DISTRIBUTING
    let ?b0 = "upd_port i (oper_bits {} {COLLECTING, DISTRIBUTING, SYNCHRONIZATION}) b"
    obtain upd1 b1 where 1: "ad_enable_collecting_distributing e i upd ?b0 = Some (upd1, b1)" "quiet ?b0 b1"
      using sw(2) [OF a s a s] by blast
    have "kept i b (upd_port i (\<lambda>p. p\<lparr>ntt := True\<rparr>) b1)"
      by (rule kept_trans [OF kept_trans]) (rule kept_bits kept_quiet [OF 1(2)])+
    with 1 st quiet_view [OF 1(2), of i] show ?thesis by (simp add: mux_action_def need_tx_def entering)
  next
    case st: AD_MUX_COLLECTING
    let ?b0 = "upd_port i (oper_bits {DISTRIBUTING} {COLLECTING, SYNCHRONIZATION}) b"
    obtain b1 where 1: "ad_enable_collecting e i ?b0 = Some b1" "quiet ?b0 b1" using sw(3) [OF a s a s] by blast
    have "p_aggregator (b_port b1 i) = Some a" "p_slave (b_port b1 i) = Some s" using quiet_view [OF 1(2), of i] a s by simp_all
    then obtain upd2 b2 where 2: "ad_disable_distributing e i upd b1 = Some (upd2, b2)" "quiet b1 b2"
      using switching_quiet(4) by blast
    have "kept i b (upd_port i (\<lambda>p. p\<lparr>ntt := True\<rparr>) b2)"
      by (rule kept_trans [OF kept_trans [OF kept_trans]]) (rule kept_bits kept_quiet [OF 1(2)] kept_quiet [OF 2(2)])+
    with 1 2 st quiet_view [OF 1(2), of i] quiet_view [OF 2(2), of i] show ?thesis
      by (simp add: mux_action_def need_tx_def entering)
  next
    case st: AD_MUX_DISTRIBUTING
    let ?b0 = "upd_port i (oper_bits {} {DISTRIBUTING, SYNCHRONIZATION}) b"
    obtain upd1 b1 where 1: "ad_enable_collecting_distributing e i upd ?b0 = Some (upd1, b1)" "quiet ?b0 b1"
      using sw(2) [OF a s a s] by blast
    have "kept i b b1" by (rule kept_trans) (rule kept_bits kept_quiet [OF 1(2)])+
    with 1 st quiet_view [OF 1(2), of i] show ?thesis by (simp add: mux_action_def entered_def)
  qed (simp_all add: mux_action_def entered_def)
qed

lemma mux_next_from:
  "mux_next L a b i = AD_MUX_DISTRIBUTING \<Longrightarrow> sm_mux_state (b_port b i) \<in> {AD_MUX_COLLECTING, AD_MUX_DISTRIBUTING}"
  "mux_next L a b i = AD_MUX_WAITING \<Longrightarrow> sm_mux_state (b_port b i) \<in> {AD_MUX_DETACHED, AD_MUX_WAITING}"
  "mux_next L a b i = AD_MUX_DUMMY \<Longrightarrow> sm_mux_state (b_port b i) = AD_MUX_DUMMY"
  "collecting_state (mux_next L a b i) \<Longrightarrow> \<not> collecting_state (sm_mux_state (b_port b i)) \<Longrightarrow>
     on (sm_vars (b_port b i)) AD_PORT_SELECTED \<and> SYNCHRONIZATION \<in> pp_port_state (partner_oper (b_port b i)) \<and>
     agg_select_timer b = 0 \<and> is_active (b_agg b a)"
  unfolding mux_next_def Let_def collecting_state_def by (auto split: if_splits mux_states_t.splits)

lemma entered_bits:
  assumes "mux_bits p" "actor_oper_port_state q - {SYNCHRONIZATION} = actor_oper_port_state p - {SYNCHRONIZATION}"
    "entered q r" "sm_mux_state q = AD_MUX_DISTRIBUTING \<Longrightarrow> collecting_state (sm_mux_state p)"
    "sm_mux_state q = AD_MUX_WAITING \<Longrightarrow> sm_mux_state p = AD_MUX_DETACHED" "sm_mux_state q \<noteq> AD_MUX_DUMMY"
  shows "mux_bits r"
proof -
  have o: "(f \<in> actor_oper_port_state q) = (f \<in> actor_oper_port_state p)" if "f \<noteq> SYNCHRONIZATION" for f
    using assms(2) that by blast
  from o [of COLLECTING] o [of DISTRIBUTING] assms(1,3-6) show ?thesis
    by (cases "sm_mux_state q") (auto simp: entering)
qed

lemma mux_machine_result:
  assumes inv: "lag_inv L b" and i: "i \<in> set (b_slaves b)" and a: "p_aggregator (b_port b i) = Some a"
    and bits: "mux_bits (b_port b i)"
  shows "\<exists>upd' b'. ad_mux_machine e i upd b = Some (upd', b') \<and> kept i b b' \<and>
    sm_mux_state (b_port b' i) = mux_next L a b i \<and> mux_bits (b_port b' i)"
proof -
  obtain upd1 b1 where 1: "mux_transition e i upd b = Some (upd1, b1)" "moved i b b1" "sm_mux_state (b_port b1 i) = mux_next L a b i"
    using mux_transition_result [OF inv i a] by blast
  have oper: "actor_oper_port_state (b_port b1 i) - {SYNCHRONIZATION} = actor_oper_port_state (b_port b i) - {SYNCHRONIZATION}"
    using 1(2) by (simp add: moved_def port_moved_def)
  show ?thesis
  proof (cases "sm_mux_state (b_port b1 i) = sm_mux_state (b_port b i)")
    case True
    have o: "(f \<in> actor_oper_port_state (b_port b1 i)) = (f \<in> actor_oper_port_state (b_port b i))" if "f \<noteq> SYNCHRONIZATION" for f
      using oper that by blast
    have "mux_bits (b_port b1 i)" using o [of COLLECTING] o [of DISTRIBUTING] bits True by (simp add: mux_bits_def)
    with True 1 show ?thesis by (simp add: ad_mux_machine_def kept_moved)
  next
    case False
    have s: "p_slave (b_port b1 i) = Some i" "p_aggregator (b_port b1 i) = Some a"
      using moved_fields [OF 1(2)] lag_invD(6) [OF inv i] a by simp_all
    obtain upd2 b2 where 2: "mux_action e i upd1 b1 = Some (upd2, b2)" "kept i b1 b2" "entered (b_port b1 i) (b_port b2 i)"
      using mux_action_result [OF s(2,1)] by blast
    have "mux_bits (b_port b2 i)"
      by (rule entered_bits [OF bits oper 2(3)])
        (use False 1(3) mux_next_from(1-3) [of L a b i] in \<open>auto simp: collecting_state_def\<close>)
    with False 1 2 show ?thesis using kept_trans [OF kept_moved [OF 1(2)] 2(2)]
      by (simp add: ad_mux_machine_def entered_def)
  qed
qed

text \<open>
  C7: For a port that belongs to an aggregator of a bond with well-formed lists, the mux machine
  returns, moves to the state that the diagram prescribes, and keeps the \<open>COLLECTING\<close> and
  \<open>DISTRIBUTING\<close> bits announced to the partner in step with that state; the aggregators and the port
  lists do not change. A port starts collecting only when it is selected, its partner is in
  synchronization, the selection timer has run out and its aggregator is active.
\<close>

theorem mux_machine_refines:
  assumes "lag_inv L b" "i \<in> set (b_slaves b)" "p_aggregator (b_port b i) = Some a" "mux_bits (b_port b i)"
  shows "\<exists>upd' b'. ad_mux_machine e i upd b = Some (upd', b') \<and> lag_inv L b' \<and> b_agg b' = b_agg b \<and>
    sm_mux_state (b_port b' i) = mux_next L a b i \<and> mux_bits (b_port b' i) \<and>
    (COLLECTING \<in> actor_oper_port_state (b_port b' i) \<longrightarrow> COLLECTING \<notin> actor_oper_port_state (b_port b i) \<longrightarrow>
       on (sm_vars (b_port b i)) AD_PORT_SELECTED \<and> SYNCHRONIZATION \<in> pp_port_state (partner_oper (b_port b i)) \<and>
       agg_select_timer b = 0 \<and> is_active (b_agg b a))"
proof -
  obtain upd' b' where r: "ad_mux_machine e i upd b = Some (upd', b')" "kept i b b'"
    "sm_mux_state (b_port b' i) = mux_next L a b i" "mux_bits (b_port b' i)"
    using mux_machine_result [OF assms] by blast
  have "lag_inv L b'" using assms(1) same_lag_inv [OF kept_lag [OF r(2)]] by simp
  moreover have "b_agg b' = b_agg b" using r(2) by (simp add: kept_def)
  ultimately show ?thesis using r mux_next_from(4) [of L a b i] assms(4) by (auto simp: mux_bits_def)
qed

theorem mux_machine_refines_witness:
  "mux_bits (b_port sample_bond 0) \<and>
   (\<exists>upd' b'. ad_mux_machine sample_env 0 False sample_bond = Some (upd', b') \<and> mux_bits (b_port b' 0))"
proof -
  have "0 \<in> set (b_slaves sample_bond)" "p_aggregator (b_port sample_bond 0) = Some 0" "mux_bits (b_port sample_bond 0)"
    by (simp_all add: sample_bond_def sample_port_def mux_bits_def collecting_state_def distributing_state_def)
  from mux_machine_refines [OF sample_bond_inv this, of sample_env False] this(3) show ?thesis by blast
qed

end
