(* ===== verification/Lacp_Bond.thy ===== *)
theory Lacp_Bond
  imports Lacp_Mux
begin

text \<open>
  The entry points of servers/bond_3ad.c: binding a slave to a bond and unbinding it, the handler
  that runs every tick, the reception of frames, the changes of links and parameters, and the
  queries. The locks that surround them are not modelled: \<open>mode_lock\<close> makes each of them one step.
  What the handler does after the machines is part of its result: whether the slave array is to be
  rebuilt and whether the state of some slave is to be announced.
\<close>

abbreviation AD_AGGREGATOR_SELECTION_TIMER :: u32 where "AD_AGGREGATOR_SELECTION_TIMER \<equiv> 8"

datatype rx_handler_result = RX_HANDLER_ANOTHER | RX_HANDLER_CONSUMED

subsection \<open>Keys and initialization\<close>

definition ad_actor_update_port :: "nat \<Rightarrow> ad_bond \<Rightarrow> ad_bond defined" where
  "ad_actor_update_port i b = do {
     s \<leftarrow> p_slave (b_port b i);
     Some (upd_port i (\<lambda>p. p\<lparr>actor_system := sys_mac_addr b, actor_system_priority := sys_priority b,
       actor_port_priority := s_port_priority (b_slave b s)\<rparr>) b)
   }"

definition ad_update_actor_keys :: "nat \<Rightarrow> bool \<Rightarrow> ad_bond \<Rightarrow> ad_bond defined" where
  "ad_update_actor_keys i reset b = do {
     let old_oper_key = actor_oper_port_key (b_port b i);
     let b = upd_port i (\<lambda>p. p\<lparr>actor_admin_port_key :=
       actor_admin_port_key p AND NOT (AD_SPEED_KEY_MASKS OR AD_DUPLEX_KEY_MASKS)\<rparr>) b;
     (speed, ospeed, duplex) \<leftarrow> (if reset then Some (0, 0, 0) else do {
       speed \<leftarrow> get_link_speed b i;
       duplex \<leftarrow> get_duplex b i;
       Some (speed, drop_bit 1 (old_oper_key AND AD_SPEED_KEY_MASKS), duplex)
     });
     let b = (if reset then b else upd_port i (\<lambda>p. p\<lparr>actor_admin_port_key :=
       actor_admin_port_key p OR (push_bit 1 speed OR ucast duplex)\<rparr>) b);
     let b = upd_port i (\<lambda>p. p\<lparr>actor_oper_port_key := actor_admin_port_key p\<rparr>) b;
     Some (if old_oper_key \<noteq> actor_oper_port_key (b_port b i) then
       upd_port i (\<lambda>p.
         let p = (if duplex \<noteq> 0 then p\<lparr>sm_vars := sm_vars p OR AD_PORT_LACP_ENABLED\<rparr>
                  else p\<lparr>sm_vars := sm_vars p AND NOT AD_PORT_LACP_ENABLED\<rparr>)
         in if \<not> reset \<and> speed \<noteq> 0 \<and> duplex \<noteq> 0 \<and> ospeed \<noteq> speed
            then p\<lparr>sm_vars := sm_vars p OR AD_PORT_BEGIN\<rparr> else p) b
       else b)
   }"

definition port_tmpl :: port_params where
  "port_tmpl = \<lparr>pp_system = [0, 0, 0, 0, 0, 0], pp_system_priority = 0xffff, pp_key = 1, pp_port_number = 1,
     pp_port_priority = 0xff, pp_port_state = {}\<rparr>"

definition lacpdu_tmpl :: lacpdu where
  "lacpdu_tmpl = \<lparr>subtype = 0x01, version_number = 0x01, tlv_type_actor_info = 0x01, actor_information_length = 0x14,
     l_actor_system_priority = 0, l_actor_system = [0, 0, 0, 0, 0, 0], l_actor_key = 0, l_actor_port_priority = 0,
     l_actor_port = 0, l_actor_state = {}, tlv_type_partner_info = 0x02, partner_information_length = 0x14,
     l_partner_system_priority = 0, l_partner_system = [0, 0, 0, 0, 0, 0], l_partner_key = 0, l_partner_port_priority = 0,
     l_partner_port = 0, l_partner_state = {}, tlv_type_collector_info = 0x03, collector_information_length = 0x10,
     collector_max_delay = htons 0\<rparr>"

definition ad_initialize_port :: "ad_env \<Rightarrow> bond_params \<Rightarrow> ad_port \<Rightarrow> ad_port" where
  "ad_initialize_port e bp p =
     (let p = p\<lparr>actor_port_priority := 0xff, actor_port_aggregator_identifier := 0, ntt := False,
            actor_admin_port_state := {AGGREGATION}, actor_oper_port_state := {AGGREGATION}\<rparr>;
          p = (if lacp_active bp then p\<lparr>actor_admin_port_state := insert LACP_ACTIVITY (actor_admin_port_state p),
                 actor_oper_port_state := insert LACP_ACTIVITY (actor_oper_port_state p)\<rparr> else p);
          p = (if lacp_fast bp then p\<lparr>actor_oper_port_state := insert LACP_TIMEOUT (actor_oper_port_state p)\<rparr> else p)
      in p\<lparr>partner_admin := port_tmpl, partner_oper := port_tmpl, is_enabled := True,
           sm_vars := AD_PORT_BEGIN OR AD_PORT_LACP_ENABLED, sm_rx_state := zero_rx e, sm_rx_timer_counter := 0,
           sm_periodic_state := zero_periodic e, sm_periodic_timer_counter := 0, sm_mux_state := zero_mux e,
           sm_mux_timer_counter := 0, p_aggregator := None, next_port_in_aggregator := None,
           sm_churn_actor_timer_counter := 0, sm_churn_actor_state := zero_churn e, churn_actor_count := 0,
           sm_churn_partner_timer_counter := 0, sm_churn_partner_state := zero_churn e, churn_partner_count := 0,
           p_lacpdu := lacpdu_tmpl\<rparr>)"

definition bond_3ad_initiate_agg_selection :: "ad_bond \<Rightarrow> u32 \<Rightarrow> ad_bond" where
  "bond_3ad_initiate_agg_selection b timeout = b\<lparr>agg_select_timer := timeout\<rparr>"

definition bond_3ad_initialize :: "ad_env \<Rightarrow> ad_bond \<Rightarrow> ad_bond" where
  "bond_3ad_initialize e b =
     (let b = b\<lparr>last_agg_identifier := 0, sys_priority := ad_actor_sys_prio (b_params b),
            sys_mac_addr := (if is_zero_ether_addr (ad_actor_system (b_params b)) then dev_addr b
              else ad_actor_system (b_params b))\<rparr>
      in bond_3ad_initiate_agg_selection b (AD_AGGREGATOR_SELECTION_TIMER * ucast (ad_ticks_per_sec e)))"

subsection \<open>Binding and unbinding a slave\<close>

definition bond_3ad_bind_slave :: "ad_env \<Rightarrow> nat \<Rightarrow> ad_bond \<Rightarrow> ad_bond defined" where
  "bond_3ad_bind_slave e s b =
     (if p_slave (b_port b s) \<noteq> Some s then do {
        let b = upd_port s (ad_initialize_port e (b_params b)) b;
        let b = upd_slave s (\<lambda>x. x\<lparr>s_port_priority := actor_port_priority (b_port b s)\<rparr>) b;
        let b = upd_port s (\<lambda>p. p\<lparr>p_slave := Some s, actor_port_number := s_id (b_slave b s),
              actor_admin_port_key := push_bit 6 (ad_user_port_key (b_params b))\<rparr>) b;
        b \<leftarrow> ad_update_actor_keys s False b;
        b \<leftarrow> ad_actor_update_port s b;
        let b = upd_port s (\<lambda>p. p\<lparr>sm_tx_timer_counter := ad_ticks_per_sec e div AD_MAX_TX_IN_SECOND\<rparr>) b;
        b \<leftarrow> disable_port e s b;
        let b = b\<lparr>last_agg_identifier := last_agg_identifier b + 1\<rparr>;
        Some (upd_agg s (\<lambda>a. (ad_initialize_agg a)\<lparr>aggregator_mac_address := dev_addr b,
          aggregator_identifier := last_agg_identifier b, a_slave := Some s, is_active := False, num_of_ports := 0\<rparr>) b)
      } else Some b)"

text \<open>An aggregator that can take over the ports of another one while \<open>port\<close> is removed.\<close>

definition takes_over :: "ad_bond \<Rightarrow> nat \<Rightarrow> nat \<Rightarrow> bool" where
  "takes_over b port n = (lag_ports (b_agg b n) = None \<or>
     lag_ports (b_agg b n) = Some port \<and> next_port_in_aggregator (b_port b port) = None)"

definition copy_agg :: "aggregator \<Rightarrow> aggregator \<Rightarrow> aggregator" where
  "copy_agg a n = n\<lparr>is_individual := is_individual a, actor_admin_aggregator_key := actor_admin_aggregator_key a,
     actor_oper_aggregator_key := actor_oper_aggregator_key a, partner_system := partner_system a,
     partner_system_priority := partner_system_priority a, partner_oper_aggregator_key := partner_oper_aggregator_key a,
     receive_state := receive_state a, transmit_state := transmit_state a, lag_ports := lag_ports a,
     is_active := is_active a, num_of_ports := num_of_ports a\<rparr>"

definition reselect :: "ad_env \<Rightarrow> nat \<Rightarrow> ad_bond \<Rightarrow> ad_bond defined" where
  "reselect e port b = do { (_, b) \<leftarrow> ad_agg_selection_logic e (get_first_agg b port) b; Some b }"

definition move_ports :: "ad_env \<Rightarrow> nat \<Rightarrow> nat \<Rightarrow> ad_bond \<Rightarrow> ad_bond defined" where
  "move_ports e a n b = do {
     let sel = (lag_ports (b_agg b n) = Some a \<and> is_active (b_agg b n));
     let b = upd_agg n (copy_agg (b_agg b a)) b;
     ps \<leftarrow> agg_ports b a;
     let b = fold (\<lambda>i b. upd_port i (\<lambda>p. p\<lparr>p_aggregator := Some n,
           actor_port_aggregator_identifier := aggregator_identifier (b_agg b n)\<rparr>) b) ps b;
     let b = upd_agg a ad_clear_agg b;
     if sel then reselect e a b else Some b
   }"

definition release_agg :: "ad_env \<Rightarrow> nat \<Rightarrow> ad_bond \<Rightarrow> ad_bond defined" where
  "release_agg e s b =
     (if lag_ports (b_agg b s) = None then Some b
      else if lag_ports (b_agg b s) \<noteq> Some s \<or> next_port_in_aggregator (b_port b s) \<noteq> None then
        (case find (takes_over b s) (b_slaves b) of
           Some n \<Rightarrow> move_ports e s n b
         | None \<Rightarrow> Some b)
      else do {
        let sel = is_active (b_agg b s);
        let b = upd_agg s ad_clear_agg b;
        if sel \<and> get_first_agg b s \<noteq> None then reselect e s b else Some b
      })"

fun unlink_loop :: "ad_env \<Rightarrow> nat \<Rightarrow> nat \<Rightarrow> nat option \<Rightarrow> nat list \<Rightarrow> ad_bond \<Rightarrow> ad_bond defined" where
  "unlink_loop e port t prev [] b = Some b"
| "unlink_loop e port t prev (cur # ps) b =
     (if cur = port then do {
        let nxt = next_port_in_aggregator (b_port b port);
        let b = (case prev of
            Some l \<Rightarrow> upd_port l (\<lambda>p. p\<lparr>next_port_in_aggregator := nxt\<rparr>) b
          | None \<Rightarrow> upd_agg t (\<lambda>a. a\<lparr>lag_ports := nxt\<rparr>) b);
        let b = upd_agg t (\<lambda>a. a\<lparr>num_of_ports := num_of_ports a - 1\<rparr>) b;
        n \<leftarrow> agg_active_ports b t;
        if n = 0 then do {
          let sel = is_active (b_agg b t);
          let b = (if num_of_ports (b_agg b t) = 0 then upd_agg t ad_clear_agg b else b);
          if sel then reselect e port b else Some b
        } else Some b
      }
      else unlink_loop e port t (Some cur) ps b)"

fun unlink_port :: "ad_env \<Rightarrow> nat \<Rightarrow> nat list \<Rightarrow> ad_bond \<Rightarrow> ad_bond defined" where
  "unlink_port e port [] b = Some b"
| "unlink_port e port (t # ts) b = do {
     ps \<leftarrow> agg_ports b t;
     b \<leftarrow> unlink_loop e port t None ps b;
     unlink_port e port ts b
   }"

definition bond_3ad_unbind_slave :: "ad_env \<Rightarrow> bool \<Rightarrow> nat \<Rightarrow> ad_bond \<Rightarrow> ad_bond defined" where
  "bond_3ad_unbind_slave e alloc s b =
     (if p_slave (b_port b s) = None then Some b
      else do {
        let b = upd_port s (\<lambda>p. update_lacpdu_from_port (p\<lparr>actor_oper_port_state :=
          actor_oper_port_state p - {SYNCHRONIZATION, COLLECTING, DISTRIBUTING, AGGREGATION}\<rparr>)) b;
        (_, b) \<leftarrow> ad_lacpdu_send alloc s b;
        b \<leftarrow> release_agg e s b;
        b \<leftarrow> unlink_port e s (b_slaves b) b;
        Some (upd_port s (\<lambda>p. p\<lparr>p_slave := None\<rparr>) b)
      })"

subsection \<open>Parameters\<close>

fun update_settings_loop :: "nat list \<Rightarrow> ad_bond \<Rightarrow> ad_bond defined" where
  "update_settings_loop [] b = Some b"
| "update_settings_loop (s # ss) b = do {
     b \<leftarrow> ad_actor_update_port s b;
     update_settings_loop ss (upd_port s (\<lambda>p. p\<lparr>ntt := True\<rparr>) b)
   }"

definition bond_3ad_update_ad_actor_settings :: "ad_bond \<Rightarrow> ad_bond defined" where
  "bond_3ad_update_ad_actor_settings b =
     update_settings_loop (b_slaves b) (b\<lparr>sys_priority := ad_actor_sys_prio (b_params b),
       sys_mac_addr := (if is_zero_ether_addr (ad_actor_system (b_params b)) then dev_addr b
         else ad_actor_system (b_params b))\<rparr>)"

definition oper_flag :: "bool \<Rightarrow> lacp_flag \<Rightarrow> ad_port \<Rightarrow> ad_port" where
  "oper_flag v f p = p\<lparr>actor_oper_port_state := (if v then insert f (actor_oper_port_state p) else actor_oper_port_state p - {f})\<rparr>"

definition bond_3ad_update_lacp_rate :: "ad_bond \<Rightarrow> ad_bond" where
  "bond_3ad_update_lacp_rate b = fold (\<lambda>s. upd_port s (oper_flag (lacp_fast (b_params b)) LACP_TIMEOUT)) (b_slaves b) b"

definition bond_3ad_update_lacp_active :: "ad_bond \<Rightarrow> ad_bond" where
  "bond_3ad_update_lacp_active b = fold (\<lambda>s. upd_port s (oper_flag (lacp_active (b_params b)) LACP_ACTIVITY)) (b_slaves b) b"

subsection \<open>The handler of the state machines\<close>

text \<open>The loop around \<open>atomic_cmpxchg\<close> ends with its first pass: nothing else stores to the timer meanwhile.\<close>

definition bond_agg_timer_advance :: "ad_bond \<Rightarrow> bool \<times> ad_bond" where
  "bond_agg_timer_advance b =
     (let val = agg_select_timer b; nval = val - 1
      in if val = 0 then (False, b) else (nval = 0, b\<lparr>agg_select_timer := nval\<rparr>))"

definition run_port :: "ad_env \<Rightarrow> bool \<Rightarrow> nat \<Rightarrow> bool \<Rightarrow> ad_bond \<Rightarrow> (bool \<times> ad_bond) defined" where
  "run_port e alloc i upd b = do {
     b \<leftarrow> ad_rx_machine e None i b;
     let b = upd_port i (ad_periodic_machine e) b;
     (u, b) \<leftarrow> ad_port_selection_logic e i b;
     (upd, b) \<leftarrow> ad_mux_machine e i (upd \<or> u) b;
     b \<leftarrow> ad_tx_machine e alloc i b;
     let b = upd_port i (ad_churn_machine e) b;
     Some (upd, upd_port i (\<lambda>p. if on (sm_vars p) AD_PORT_BEGIN then p\<lparr>sm_vars := sm_vars p AND NOT AD_PORT_BEGIN\<rparr> else p) b)
   }"

fun run_ports :: "ad_env \<Rightarrow> (nat \<Rightarrow> bool) \<Rightarrow> nat list \<Rightarrow> bool \<Rightarrow> ad_bond \<Rightarrow> (bool \<times> ad_bond) defined" where
  "run_ports e alloc [] upd b = Some (upd, b)"
| "run_ports e alloc (i # ports) upd b =
     (if p_slave (b_port b i) = None then Some (upd, b)
      else do {
        (upd, b) \<leftarrow> run_port e (alloc i) i upd b;
        run_ports e alloc ports upd b
      })"

definition run_machines :: "ad_env \<Rightarrow> (nat \<Rightarrow> bool) \<Rightarrow> ad_bond \<Rightarrow> (bool \<times> ad_bond) defined" where
  "run_machines e alloc b = (case b_slaves b of
     [] \<Rightarrow> Some (False, b)
   | s # _ \<Rightarrow>
       (let (expired, b) = bond_agg_timer_advance b
        in if expired then
             if p_slave (b_port b s) = None then Some (False, b)
             else do {
               (upd, b) \<leftarrow> ad_agg_selection_logic e (get_first_agg b s) b;
               (_, b) \<leftarrow> bond_3ad_set_carrier b;
               run_ports e alloc (b_slaves b) upd b
             }
           else run_ports e alloc (b_slaves b) False b))"

definition bond_3ad_state_machine_handler :: "ad_env \<Rightarrow> (nat \<Rightarrow> bool) \<Rightarrow> ad_bond \<Rightarrow> (bool \<times> bool \<times> ad_bond) defined" where
  "bond_3ad_state_machine_handler e alloc b = do {
     (upd, b) \<leftarrow> run_machines e alloc b;
     Some (upd, list_ex (\<lambda>s. should_notify e (s_flags (b_slave b s))) (b_slaves b), b)
   }"

subsection \<open>Frames and link changes\<close>

definition bond_3ad_rx_indication :: "ad_env \<Rightarrow> frame_env \<Rightarrow> bool \<Rightarrow> lacpdu \<Rightarrow> nat \<Rightarrow> ad_bond \<Rightarrow>
    (rx_handler_result \<times> ad_bond) defined" where
  "bond_3ad_rx_indication e fe alloc l s b =
     (if p_slave (b_port b s) = None then Some (RX_HANDLER_ANOTHER, b)
      else if subtype l = AD_TYPE_LACPDU fe then do {
        b \<leftarrow> ad_rx_machine e (Some l) s b;
        Some (RX_HANDLER_CONSUMED, b)
      }
      else if subtype l = AD_TYPE_MARKER fe then do {
        let m = as_marker fe l;
        b \<leftarrow> (if tlv_type m = AD_MARKER_INFORMATION_SUBTYPE fe then ad_marker_info_received fe alloc m s b
             else if tlv_type m = AD_MARKER_RESPONSE_SUBTYPE fe then ad_marker_response_received m s b
             else count_stat s (\<lambda>x. x\<lparr>marker_unknown_rx := marker_unknown_rx x + 1\<rparr>) b);
        Some (RX_HANDLER_CONSUMED, b)
      }
      else do {
        b \<leftarrow> count_stat s (\<lambda>x. x\<lparr>lacpdu_unknown_rx := lacpdu_unknown_rx x + 1\<rparr>) b;
        Some (RX_HANDLER_ANOTHER, b)
      })"

record rx_skb =
  is_lacp_protocol :: bool
  h_dest :: mac_addr
  header_lacpdu :: "lacpdu option"

definition bond_3ad_lacpdu_recv :: "ad_env \<Rightarrow> frame_env \<Rightarrow> bool \<Rightarrow> rx_skb \<Rightarrow> nat \<Rightarrow> ad_bond \<Rightarrow>
    (rx_handler_result \<times> ad_bond) defined" where
  "bond_3ad_lacpdu_recv e fe alloc skb s b =
     (if \<not> is_lacp_protocol skb then Some (RX_HANDLER_ANOTHER, b)
      else if \<not> MAC_ADDRESS_EQUAL (h_dest skb) lacpdu_mcast_addr then Some (RX_HANDLER_ANOTHER, b)
      else case header_lacpdu skb of
        None \<Rightarrow> Some (RX_HANDLER_ANOTHER, (upd_slave s (\<lambda>x. x\<lparr>s_stats := (s_stats x)\<lparr>lacpdu_illegal_rx :=
            lacpdu_illegal_rx (s_stats x) + 1\<rparr>\<rparr>) b)\<lparr>b_stats := (b_stats b)\<lparr>lacpdu_illegal_rx := lacpdu_illegal_rx (b_stats b) + 1\<rparr>\<rparr>)
      | Some l \<Rightarrow> bond_3ad_rx_indication e fe alloc l s b)"

definition bond_3ad_adapter_speed_duplex_changed :: "nat \<Rightarrow> ad_bond \<Rightarrow> ad_bond defined" where
  "bond_3ad_adapter_speed_duplex_changed s b =
     (if p_slave (b_port b s) = None then Some b else ad_update_actor_keys s False b)"

definition bond_3ad_handle_link_change :: "ad_env \<Rightarrow> nat \<Rightarrow> bool \<Rightarrow> ad_bond \<Rightarrow> ad_bond defined" where
  "bond_3ad_handle_link_change e s link b =
     (if p_slave (b_port b s) = None then Some b
      else do {
        b \<leftarrow> ad_update_actor_keys s (\<not> link) (upd_port s (\<lambda>p. p\<lparr>is_enabled := link\<rparr>) b);
        reselect e s b
      })"

subsection \<open>Queries\<close>

record ad_info =
  i_aggregator_id :: u16
  i_ports :: u16
  i_actor_key :: u16
  i_partner_key :: u16
  i_partner_system :: mac_addr

fun active_info_loop :: "ad_bond \<Rightarrow> nat list \<Rightarrow> nat option" where
  "active_info_loop b [] = None"
| "active_info_loop b (s # ss) = (case p_aggregator (b_port b s) of
     Some a \<Rightarrow> if is_active (b_agg b a) then Some a else active_info_loop b ss
   | None \<Rightarrow> active_info_loop b ss)"

definition bond_3ad_get_active_agg_info :: "ad_bond \<Rightarrow> (int \<times> ad_info option) defined" where
  "bond_3ad_get_active_agg_info b = (case active_info_loop b (b_slaves b) of
     None \<Rightarrow> Some (-1, None)
   | Some a \<Rightarrow> do {
       n \<leftarrow> agg_active_ports b a;
       let g = b_agg b a;
       Some (0, Some \<lparr>i_aggregator_id = aggregator_identifier g, i_ports = of_nat n, i_actor_key = actor_oper_aggregator_key g,
         i_partner_key = partner_oper_aggregator_key g, i_partner_system = partner_system g\<rparr>)
     })"

text \<open>The counters are appended one by one to a netlink message; \<open>put\<close> stands for \<open>nla_put_u64_64bit\<close>.\<close>

datatype bond_3ad_stat = BOND_3AD_STAT_LACPDU_RX | BOND_3AD_STAT_LACPDU_TX | BOND_3AD_STAT_LACPDU_UNKNOWN_RX
  | BOND_3AD_STAT_LACPDU_ILLEGAL_RX | BOND_3AD_STAT_MARKER_RX | BOND_3AD_STAT_MARKER_TX | BOND_3AD_STAT_MARKER_RESP_RX
  | BOND_3AD_STAT_MARKER_RESP_TX | BOND_3AD_STAT_MARKER_UNKNOWN_RX

definition stats_list :: "ad_stats \<Rightarrow> (bond_3ad_stat \<times> u64) list" where
  "stats_list s = [(BOND_3AD_STAT_LACPDU_RX, lacpdu_rx s), (BOND_3AD_STAT_LACPDU_TX, lacpdu_tx s),
     (BOND_3AD_STAT_LACPDU_UNKNOWN_RX, lacpdu_unknown_rx s), (BOND_3AD_STAT_LACPDU_ILLEGAL_RX, lacpdu_illegal_rx s),
     (BOND_3AD_STAT_MARKER_RX, marker_rx s), (BOND_3AD_STAT_MARKER_TX, marker_tx s),
     (BOND_3AD_STAT_MARKER_RESP_RX, marker_resp_rx s), (BOND_3AD_STAT_MARKER_RESP_TX, marker_resp_tx s),
     (BOND_3AD_STAT_MARKER_UNKNOWN_RX, marker_unknown_rx s)]"

fun put_all :: "('m \<Rightarrow> bond_3ad_stat \<times> u64 \<Rightarrow> 'm option) \<Rightarrow> (bond_3ad_stat \<times> u64) list \<Rightarrow> 'm \<Rightarrow> int \<times> 'm" where
  "put_all put [] skb = (0, skb)"
| "put_all put (x # xs) skb = (case put skb x of None \<Rightarrow> (- EMSGSIZE, skb) | Some skb \<Rightarrow> put_all put xs skb)"

definition bond_3ad_stats_fill :: "('m \<Rightarrow> bond_3ad_stat \<times> u64 \<Rightarrow> 'm option) \<Rightarrow> 'm \<Rightarrow> ad_stats \<Rightarrow> int \<times> 'm" where
  "bond_3ad_stats_fill put skb stats = put_all put (stats_list stats) skb"

definition bond_3ad_stats_size :: "(nat \<Rightarrow> nat) \<Rightarrow> nat" where
  "bond_3ad_stats_size nla_total_size_64bit = 9 * nla_total_size_64bit 8"

end
