(* ===== verification/Lacp_System.thy ===== *)
theory Lacp_System
  imports Lacp_Bond
begin

text \<open>
  The bond of servers/bond_3ad.c as a whole: the invariant that every entry point keeps, and that no
  entry point dereferences a null pointer or walks a list forever in a reachable bond.
\<close>

subsection \<open>The invariant\<close>

definition port_ok :: "ad_port \<Rightarrow> bool" where
  "port_ok p = ((on (sm_vars p) AD_PORT_SELECTED \<longrightarrow> p_aggregator p \<noteq> None) \<and> mux_bits p)"

definition one_active :: "ad_bond \<Rightarrow> bool" where
  "one_active b = (\<forall>s\<in>set (b_slaves b). \<forall>t\<in>set (b_slaves b). act b s \<longrightarrow> act b t \<longrightarrow> s = t)"

definition bond_ok :: "ad_bond \<Rightarrow> bool" where
  "bond_ok b = ((\<exists>L. lag_inv L b) \<and> one_active b \<and> (\<forall>i\<in>set (b_slaves b). port_ok (b_port b i)))"

lemma bond_okI: "lag_inv L b \<Longrightarrow> one_active b \<Longrightarrow> (\<And>i. i \<in> set (b_slaves b) \<Longrightarrow> port_ok (b_port b i)) \<Longrightarrow> bond_ok b"
  unfolding bond_ok_def by blast

lemma one_activeI: "\<forall>s\<in>set (b_slaves b). act b s = (c = Some s) \<Longrightarrow> one_active b"
  by (auto simp: one_active_def)

text \<open>Steps that touch neither the lists nor what the invariant says of a port.\<close>

definition port_benign :: "ad_port \<Rightarrow> ad_port \<Rightarrow> bool" where
  "port_benign p p' = (p_slave p' = p_slave p \<and> p_aggregator p' = p_aggregator p \<and>
     next_port_in_aggregator p' = next_port_in_aggregator p \<and> sm_mux_state p' = sm_mux_state p \<and>
     (COLLECTING \<in> actor_oper_port_state p') = (COLLECTING \<in> actor_oper_port_state p) \<and>
     (DISTRIBUTING \<in> actor_oper_port_state p') = (DISTRIBUTING \<in> actor_oper_port_state p) \<and>
     (on (sm_vars p') AD_PORT_SELECTED \<longrightarrow> on (sm_vars p) AD_PORT_SELECTED))"

definition benign :: "ad_bond \<Rightarrow> ad_bond \<Rightarrow> bool" where
  "benign b b' = (b_slaves b' = b_slaves b \<and> b_agg b' = b_agg b \<and> (\<forall>j. port_benign (b_port b j) (b_port b' j)))"

lemma port_benign_refl [simp]: "port_benign p p"
  by (simp add: port_benign_def)

lemma port_benign_trans: "port_benign p q \<Longrightarrow> port_benign q r \<Longrightarrow> port_benign p r"
  by (simp add: port_benign_def)

lemma benign_refl [simp]: "benign b b"
  by (simp add: benign_def)

lemma benign_trans: "benign b b' \<Longrightarrow> benign b' b'' \<Longrightarrow> benign b b''"
  unfolding benign_def by (auto intro: port_benign_trans)

lemma benign_upd: "port_benign (b_port b i) (f (b_port b i)) \<Longrightarrow> benign b (upd_port i f b)"
  by (simp add: benign_def)

lemma benign_upd_back: "port_benign (f (b_port b i)) (b_port b i) \<Longrightarrow> benign (upd_port i f b) b"
  by (simp add: benign_def)

lemma benign_lag: "benign b b' \<Longrightarrow> same_lag b b'"
  by (simp add: benign_def same_lag_def port_benign_def)

lemma benign_view:
  assumes "benign b b'"
  shows "b_slaves b' = b_slaves b" "p_slave (b_port b' i) = p_slave (b_port b i)"
    "p_aggregator (b_port b' i) = p_aggregator (b_port b i)"
  using assms by (simp_all add: benign_def port_benign_def)

lemma port_benign_ok: "port_benign p p' \<Longrightarrow> port_ok p \<Longrightarrow> port_ok p'"
  by (auto simp: port_benign_def port_ok_def mux_bits_def)

lemma benign_ok: "benign b b' \<Longrightarrow> bond_ok b \<Longrightarrow> bond_ok b'"
proof -
  assume g: "benign b b'" and ok: "bond_ok b"
  then obtain L where "lag_inv L b" by (auto simp: bond_ok_def)
  then have "lag_inv L b'" using same_lag_inv [OF benign_lag [OF g]] by simp
  moreover have "one_active b'" using ok g by (simp add: bond_ok_def one_active_def benign_def)
  moreover have "port_ok (b_port b' i)" if "i \<in> set (b_slaves b')" for i
    using ok g that port_benign_ok [of "b_port b i" "b_port b' i"] by (simp add: bond_ok_def benign_def)
  ultimately show "bond_ok b'" by (rule bond_okI)
qed

lemma bond_ok_slave: "bond_ok b \<Longrightarrow> i \<in> set (b_slaves b) \<Longrightarrow> p_slave (b_port b i) = Some i"
  using lag_invD(6) by (auto simp: bond_ok_def)

subsection \<open>The machines on one port\<close>

lemma record_benign [simp]:
  "port_benign p (choose_matched l p)" "port_benign p (record_default p)" "port_benign p (update_selected l p)"
  "port_benign p (update_default_selected p)" "port_benign p (update_ntt l p)" "port_benign p (update_lacpdu_from_port p)"
  by (simp_all add: port_benign_def choose_matched_def record_default_def update_selected_def update_default_selected_def
      update_ntt_def update_lacpdu_from_port_def Let_def)

lemma record_pdu_benign: "port_benign p (record_pdu l p)"
proof -
  have "port_benign (choose_matched l p) (record_pdu l p)" by (simp add: record_pdu_def Let_def port_benign_def)
  then show ?thesis using port_benign_trans record_benign(1) by blast
qed

lemma rx_transition_benign: "port_benign p (rx_transition l p)"
  by (simp add: rx_transition_def port_benign_def Let_def AD_PORT_CHURNED_def split: rx_states_t.split)

lemma port_benign_upd [simp]:
  "port_benign p (q\<lparr>sm_rx_timer_counter := c\<rparr>) = port_benign p q" "port_benign p (q\<lparr>partner_oper := o'\<rparr>) = port_benign p q"
  "port_benign p (q\<lparr>ntt := t\<rparr>) = port_benign p q" "port_benign p (q\<lparr>sm_rx_state := st\<rparr>) = port_benign p q"
  "port_benign p (q\<lparr>sm_periodic_state := ps\<rparr>) = port_benign p q" "port_benign p (q\<lparr>sm_periodic_timer_counter := c\<rparr>) = port_benign p q"
  "port_benign p (q\<lparr>sm_tx_timer_counter := c\<rparr>) = port_benign p q" "port_benign p (q\<lparr>is_enabled := t\<rparr>) = port_benign p q"
  "port_benign p (q\<lparr>actor_oper_port_key := c\<rparr>) = port_benign p q" "port_benign p (q\<lparr>actor_admin_port_key := c\<rparr>) = port_benign p q"
  by (simp_all add: port_benign_def)

lemma rx_action_benign:
  assumes "rx_action e l p = Some q"
  shows "port_benign p q"
proof (cases "sm_rx_state p")
  case AD_RX_DEFAULTED
  have "port_benign p (record_default (update_default_selected p))"
    using port_benign_trans record_benign(2,4) by blast
  with assms AD_RX_DEFAULTED show ?thesis by (auto simp: rx_action_def Let_def port_benign_def)
next
  case AD_RX_CURRENT
  have "port_benign p (record_pdu m (update_ntt m (update_selected m p)))" for m
    using port_benign_trans record_benign(3,5) record_pdu_benign by blast
  then have "port_benign p ((record_pdu m (update_ntt m (update_selected m p)))\<lparr>sm_rx_timer_counter := c,
      actor_oper_port_state := actor_oper_port_state (record_pdu m (update_ntt m (update_selected m p))) - {EXPIRED}\<rparr>)" for m c
    by (simp add: port_benign_def)
  with assms AD_RX_CURRENT show ?thesis by (auto simp: rx_action_def Let_def split: option.splits if_splits)
qed (use assms in \<open>auto simp: rx_action_def Let_def port_benign_def record_default_def AD_PORT_CHURNED_def split: if_splits\<close>)

lemma rx_machine_benign: "rx_machine e l p = Some q \<Longrightarrow> port_benign p q"
  using rx_transition_benign port_benign_trans [OF rx_transition_benign rx_action_benign]
  by (auto simp: rx_machine_def Let_def split: if_splits)

lemma periodic_benign: "port_benign p (ad_periodic_machine e p)"
proof -
  have "port_benign p (periodic_transition p)"
    by (simp add: periodic_transition_def Let_def split: periodic_states_t.split)
  then show ?thesis by (simp add: ad_periodic_machine_def Let_def split: periodic_states_t.split)
qed

lemma tx_benign:
  assumes "tx_machine e alloc p = (l, q)"
  shows "port_benign p q" "port_benign q p"
proof -
  have "sm_vars q = sm_vars p \<and> port_benign p q"
    using assms by (auto simp: tx_machine_def Let_def update_lacpdu_from_port_def port_benign_def split: if_splits prod.splits)
  then show "port_benign p q" "port_benign q p" by (auto simp: port_benign_def)
qed

lemma churned_not_selected [simp]: "\<not> on AD_PORT_CHURNED AD_PORT_SELECTED"
  by (simp add: AD_PORT_CHURNED_def)

lemma churn_keeps:
  "port_benign p (ad_churn_machine e p)" "port_benign (ad_churn_machine e p) p"
  by (simp_all add: ad_churn_machine_def churn_actor_def churn_partner_def Let_def port_benign_def)

lemma count_stat_benign:
  assumes "p_slave (b_port b i) = Some s"
  shows "\<exists>b'. count_stat i f b = Some b' \<and> benign b b'"
  using assms by (simp add: count_stat_def benign_def)

lemma rx_benign:
  assumes "p_slave (b_port b i) = Some s"
  shows "\<exists>b'. ad_rx_machine e l i b = Some b' \<and> benign b b'"
proof -
  obtain b1 where b1: "(if l \<noteq> None then count_stat i (\<lambda>x. x\<lparr>lacpdu_rx := lacpdu_rx x + 1\<rparr>) b else Some b) = Some b1" "benign b b1"
    using count_stat_benign [OF assms] by (cases l) auto
  obtain q where q: "rx_machine e l (b_port b1 i) = Some q" using rx_machine_defined by blast
  have "benign b1 (upd_port i (\<lambda>_. q) b1)" using rx_machine_benign [OF q] by (rule benign_upd)
  with b1 q show ?thesis using benign_trans by (auto simp: ad_rx_machine_def)
qed

lemma lacpdu_send_ports:
  assumes "p_slave (b_port b i) = Some s"
  shows "\<exists>r b'. ad_lacpdu_send alloc i b = Some (r, b') \<and> benign b b' \<and> benign b' b"
  using assms by (simp add: ad_lacpdu_send_def count_stat_def benign_def)

lemma tx_machine_ports:
  assumes "p_slave (b_port b i) = Some s"
  shows "\<exists>b'. ad_tx_machine e alloc i b = Some b' \<and> benign b b' \<and> benign b' b"
proof -
  obtain l q where q: "tx_machine e alloc (b_port b i) = (l, q)" by (rule prod.exhaust)
  have g: "benign b (upd_port i (\<lambda>_. q) b)" using tx_benign(1) [OF q] by (rule benign_upd)
  have g': "benign (upd_port i (\<lambda>_. q) b) b" using tx_benign(2) [OF q] by (simp add: benign_def)
  have "p_slave (b_port (upd_port i (\<lambda>_. q) b) i) = Some s" using benign_view(2) [OF g, of i] assms by simp
  from lacpdu_send_ports [OF this] obtain r b' where
    b': "ad_lacpdu_send alloc i (upd_port i (\<lambda>_. q) b) = Some (r, b')" "benign (upd_port i (\<lambda>_. q) b) b'"
    "benign b' (upd_port i (\<lambda>_. q) b)" by blast
  show ?thesis
    using g g' q b'(1) benign_trans [OF g b'(2)] benign_trans [OF b'(3) g'] by (cases l) (auto simp: ad_tx_machine_def)
qed

lemma clear_begin_benign:
  fixes p defines "p' \<equiv> if on (sm_vars p) AD_PORT_BEGIN then p\<lparr>sm_vars := sm_vars p AND NOT AD_PORT_BEGIN\<rparr> else p"
  shows "port_benign p p'" "port_benign p' p"
  by (simp_all add: port_benign_def p'_def)

subsection \<open>The tick handler\<close>

text \<open>A port that has been served: it has an aggregator and is marked as selected.\<close>

definition served :: "ad_bond \<Rightarrow> nat \<Rightarrow> bool" where
  "served b i = (on (sm_vars (b_port b i)) AD_PORT_SELECTED \<and> p_aggregator (b_port b i) \<noteq> None)"

text \<open>What the other ports see of a step for port \<open>i\<close>.\<close>

definition undisturbed :: "nat \<Rightarrow> ad_bond \<Rightarrow> ad_bond \<Rightarrow> bool" where
  "undisturbed i b b' = (b_slaves b' = b_slaves b \<and> (\<forall>j. j \<noteq> i \<longrightarrow> served b j \<longrightarrow> served b' j))"

lemma undisturbed_trans: "undisturbed i b b' \<Longrightarrow> undisturbed i b' b'' \<Longrightarrow> undisturbed i b b''"
  by (simp add: undisturbed_def)

lemma undisturbed_upd: "undisturbed i b (upd_port i f b)"
  by (simp add: undisturbed_def served_def)

lemma selection_step:
  assumes ok: "bond_ok b" and i: "i \<in> set (b_slaves b)"
  shows "\<exists>upd b'. ad_port_selection_logic e i b = Some (upd, b') \<and> bond_ok b' \<and> undisturbed i b b' \<and> served b' i"
proof (cases "on (sm_vars (b_port b i)) AD_PORT_SELECTED")
  case True
  with ok i show ?thesis
    by (auto simp: ad_port_selection_logic_def undisturbed_def served_def bond_ok_def port_ok_def)
next
  case False
  obtain L where "lag_inv L b" using ok by (auto simp: bond_ok_def)
  from port_selection_result [OF this i False, of e] obtain upd b' L' a c where
    r: "ad_port_selection_logic e i b = Some (upd, b')" "b_slaves b' = b_slaves b" "selected_by L' i a b'"
      "\<forall>s\<in>set (b_slaves b'). act b' s = (c = Some s)" "others_kept i b b'" by blast
  have bits: "mux_bits (b_port b' j)" if "mux_bits (b_port b j)" for j
  proof -
    have "(f \<in> actor_oper_port_state (b_port b' j)) = (f \<in> actor_oper_port_state (b_port b j))" if "f \<noteq> SYNCHRONIZATION" for f
      using r(5) that unfolding others_kept_def by blast
    moreover have "sm_mux_state (b_port b' j) = sm_mux_state (b_port b j)" using r(5) by (simp add: others_kept_def)
    ultimately show ?thesis using that by (simp add: mux_bits_def)
  qed
  have "port_ok (b_port b' j)" if "j \<in> set (b_slaves b')" for j
    using ok bits [of j] that r(2,3,5) by (cases "j = i") (auto simp: bond_ok_def port_ok_def others_kept_def selected_by_def)
  with r have "bond_ok b'" by (intro bond_okI [of L']) (auto simp: selected_by_def intro: one_activeI)
  moreover have "undisturbed i b b'" using r(2,5) by (simp add: undisturbed_def served_def others_kept_def)
  moreover have "served b' i" using r(3) by (simp add: served_def selected_by_def)
  ultimately show ?thesis using r(1) by blast
qed

lemma mux_step:
  assumes ok: "bond_ok b" and i: "i \<in> set (b_slaves b)" and s: "served b i"
  shows "\<exists>upd' b'. ad_mux_machine e i upd b = Some (upd', b') \<and> bond_ok b' \<and> undisturbed i b b' \<and> served b' i"
proof -
  obtain L a where L: "lag_inv L b" and a: "p_aggregator (b_port b i) = Some a" using ok s by (auto simp: bond_ok_def served_def)
  have "mux_bits (b_port b i)" using ok i by (simp add: bond_ok_def port_ok_def)
  from mux_machine_result [OF L i a this] obtain upd' b' where
    r: "ad_mux_machine e i upd b = Some (upd', b')" "kept i b b'" "mux_bits (b_port b' i)" by blast
  have k: "b_slaves b' = b_slaves b" "b_agg b' = b_agg b" "port_kept (b_port b i) (b_port b' i)"
    "\<And>j. j \<noteq> i \<Longrightarrow> port_same (b_port b j) (b_port b' j)" using r(2) by (simp_all add: kept_def)
  have "port_ok (b_port b' j)" if "j \<in> set (b_slaves b')" for j
  proof (cases "j = i")
    case True
    with k(1,3) ok that r(3) show ?thesis by (simp add: bond_ok_def port_ok_def port_kept_def)
  next
    case False
    with port_sameD [OF k(4)] ok that k(1) show ?thesis by (simp add: bond_ok_def port_ok_def mux_bits_def)
  qed
  then have "bond_ok b'"
    using L same_lag_inv [OF kept_lag [OF r(2)]] ok k(1,2) by (intro bond_okI [of L]) (auto simp: bond_ok_def one_active_def)
  moreover have "undisturbed i b b'" using k(1) port_sameD [OF k(4)] by (simp add: undisturbed_def served_def)
  moreover have "served b' i" using s k(3) by (simp add: served_def port_kept_def)
  ultimately show ?thesis using r(1) by blast
qed

lemma benign_served: "benign b b' \<Longrightarrow> benign b' b \<Longrightarrow> served b j \<Longrightarrow> served b' j"
  by (simp add: served_def benign_def port_benign_def)

text \<open>Transmission, churn detection and the end of the initialization.\<close>

lemma run_port_tail:
  assumes "p_slave (b_port b i) = Some s"
  shows "\<exists>b1 b'. ad_tx_machine e alloc i b = Some b1 \<and> benign b b' \<and> benign b' b \<and>
    b' = upd_port i (\<lambda>p. if on (sm_vars p) AD_PORT_BEGIN then p\<lparr>sm_vars := sm_vars p AND NOT AD_PORT_BEGIN\<rparr> else p)
      (upd_port i (ad_churn_machine e) b1)"
proof -
  obtain b1 where 1: "ad_tx_machine e alloc i b = Some b1" "benign b b1" "benign b1 b"
    using tx_machine_ports [OF assms] by blast
  let ?f = "\<lambda>p. if on (sm_vars p) AD_PORT_BEGIN then p\<lparr>sm_vars := sm_vars p AND NOT AD_PORT_BEGIN\<rparr> else p"
  have "benign b (upd_port i ?f (upd_port i (ad_churn_machine e) b1))"
    by (rule benign_trans [OF 1(2) benign_trans [OF benign_upd benign_upd]]) (rule churn_keeps clear_begin_benign)+
  moreover have "benign (upd_port i ?f (upd_port i (ad_churn_machine e) b1)) b"
    by (rule benign_trans [OF benign_trans [OF benign_upd_back benign_upd_back] 1(3)]) (rule churn_keeps clear_begin_benign)+
  ultimately show ?thesis using 1(1) by blast
qed

lemma run_port_ok:
  assumes ok: "bond_ok b" and i: "i \<in> set (b_slaves b)"
  shows "\<exists>upd' b'. run_port e alloc i upd b = Some (upd', b') \<and> bond_ok b' \<and> undisturbed i b b' \<and> served b' i"
proof -
  note sl = bond_ok_slave [OF ok i]
  obtain b1 where 1: "ad_rx_machine e None i b = Some b1" "benign b b1" using rx_benign [OF sl] by blast
  let ?b2 = "upd_port i (ad_periodic_machine e) b1"
  have g2: "benign b ?b2" by (rule benign_trans [OF 1(2) benign_upd]) (rule periodic_benign)
  have u1: "undisturbed i b ?b2" using 1 by (auto simp: ad_rx_machine_def undisturbed_def served_def split: bind_splits)
  obtain u b3 where 3: "ad_port_selection_logic e i ?b2 = Some (u, b3)" "bond_ok b3" "undisturbed i ?b2 b3" "served b3 i"
    using selection_step [OF benign_ok [OF g2 ok]] i benign_view(1) [OF g2] by metis
  have sl3: "b_slaves b3 = b_slaves b" using 3(3) u1 by (simp add: undisturbed_def)
  obtain upd4 b4 where 4: "ad_mux_machine e i (upd \<or> u) b3 = Some (upd4, b4)" "bond_ok b4" "undisturbed i b3 b4" "served b4 i"
    using mux_step [OF 3(2) _ 3(4)] i sl3 by metis
  have i4: "i \<in> set (b_slaves b4)" using 4(3) sl3 i by (simp add: undisturbed_def)
  obtain b5 b' where 5: "ad_tx_machine e alloc i b4 = Some b5" "benign b4 b'" "benign b' b4"
    "b' = upd_port i (\<lambda>p. if on (sm_vars p) AD_PORT_BEGIN then p\<lparr>sm_vars := sm_vars p AND NOT AD_PORT_BEGIN\<rparr> else p)
      (upd_port i (ad_churn_machine e) b5)"
    using run_port_tail [OF bond_ok_slave [OF 4(2) i4]] by blast
  have "run_port e alloc i upd b = Some (upd4, b')" using 1(1) 3(1) 4(1) 5(1,4) by (simp add: run_port_def)
  moreover have "undisturbed i b4 b'" using benign_served [OF 5(2,3)] benign_view(1) [OF 5(2)] by (simp add: undisturbed_def)
  then have "undisturbed i b b'" using u1 3(3) 4(3) undisturbed_trans by blast
  ultimately show ?thesis using benign_ok [OF 5(2) 4(2)] benign_served [OF 5(2,3) 4(4)] by blast
qed

lemma run_ports_ok:
  assumes "bond_ok b" "distinct ports" "set ports \<subseteq> set (b_slaves b)"
  shows "\<exists>upd' b'. run_ports e alloc ports upd b = Some (upd', b') \<and> bond_ok b' \<and> b_slaves b' = b_slaves b \<and>
    (\<forall>j. j \<in> set ports \<or> served b j \<longrightarrow> served b' j)"
  using assms
proof (induction ports arbitrary: upd b)
  case (Cons i ports)
  have i: "i \<in> set (b_slaves b)" using Cons.prems(3) by simp
  obtain upd1 b1 where 1: "run_port e (alloc i) i upd b = Some (upd1, b1)" "bond_ok b1" "undisturbed i b b1" "served b1 i"
    using run_port_ok [OF Cons.prems(1) i] by blast
  then have sub: "set ports \<subseteq> set (b_slaves b1)" using Cons.prems(3) by (simp add: undisturbed_def)
  have "distinct ports" using Cons.prems(2) by simp
  from Cons.IH [OF 1(2) this sub, of upd1] obtain upd' b' where
    "run_ports e alloc ports upd1 b1 = Some (upd', b')" "bond_ok b'" "b_slaves b' = b_slaves b1"
    "\<forall>j. j \<in> set ports \<or> served b1 j \<longrightarrow> served b' j" by blast
  moreover have "\<forall>j. j \<in> set (i # ports) \<or> served b j \<longrightarrow> j \<in> set ports \<or> served b1 j"
    using 1(3,4) by (auto simp: undisturbed_def)
  ultimately show ?case using 1 bond_ok_slave [OF Cons.prems(1) i] by (auto simp: undisturbed_def)
qed simp

lemma agg_selection_ok:
  assumes ok: "bond_ok b" and s: "s \<in> set (b_slaves b)"
  shows "\<exists>upd b'. ad_agg_selection_logic e (get_first_agg b s) b = Some (upd, b') \<and> bond_ok b' \<and>
    b_slaves b' = b_slaves b \<and> b_port b' = b_port b"
proof -
  obtain L where L: "lag_inv L b" using ok by (auto simp: bond_ok_def)
  obtain orig where o: "get_first_agg b s = Some orig" "orig \<in> set (b_slaves b)"
    using s bond_ok_slave [OF ok s] by (cases "b_slaves b") (auto simp: get_first_agg_def)
  obtain upd b' where r: "ad_agg_selection_logic e (Some orig) b = Some (upd, b')" "same_lag b b'" "b_port b' = b_port b"
    "\<forall>s\<in>set (b_slaves b). act b' s = (chosen L b = Some s)"
    using selection_logic_result [OF lag_lists [OF L] o(2)] by blast
  have sl: "b_slaves b' = b_slaves b" using r(2) by (simp add: same_lag_def)
  have "one_active b'" using r(4) sl one_activeI [of b' "chosen L b"] by simp
  moreover have "lag_inv L b'" using L same_lag_inv [OF r(2)] by simp
  ultimately have "bond_ok b'" using ok sl r(3) by (intro bond_okI) (auto simp: bond_ok_def)
  with r o sl show ?thesis by auto
qed

lemma set_carrier_ok:
  assumes "bond_ok b"
  shows "\<exists>r b'. bond_3ad_set_carrier b = Some (r, b') \<and> benign b b'"
proof -
  obtain L where "lag_inv L b" using assms by (auto simp: bond_ok_def)
  from set_carrier_total [OF lag_lists [OF this]] show ?thesis by (auto simp: benign_def)
qed

lemma run_machines_ok:
  assumes ok: "bond_ok b"
  shows "\<exists>upd b'. run_machines e alloc b = Some (upd, b') \<and> bond_ok b' \<and> b_slaves b' = b_slaves b \<and>
    (\<forall>i\<in>set (b_slaves b). served b' i)"
proof (cases "b_slaves b")
  case Nil
  with ok show ?thesis by (auto simp: run_machines_def)
next
  case (Cons s ss)
  have all: "\<exists>upd b'. run_ports e alloc (b_slaves c) u c = Some (upd, b') \<and> bond_ok b' \<and> b_slaves b' = b_slaves b \<and>
      (\<forall>i\<in>set (b_slaves b). served b' i)" if "bond_ok c" "b_slaves c = b_slaves b" for c u
  proof -
    have "distinct (b_slaves c)" using that(1) lag_inv_slaves by (auto simp: bond_ok_def)
    from run_ports_ok [OF that(1) this, of e alloc u] that(2) show ?thesis by auto
  qed
  obtain expired b1 where 1: "bond_agg_timer_advance b = (expired, b1)" by (rule prod.exhaust)
  have "benign b b1" using 1 by (auto simp: bond_agg_timer_advance_def Let_def benign_def split: if_splits)
  from benign_ok [OF this ok] benign_view(1) [OF this] have ok1: "bond_ok b1" "b_slaves b1 = b_slaves b" by auto
  have s1: "s \<in> set (b_slaves b1)" using ok1(2) Cons by simp
  show ?thesis
  proof (cases expired)
    case True
    obtain upd2 b2 where 2: "ad_agg_selection_logic e (get_first_agg b1 s) b1 = Some (upd2, b2)" "bond_ok b2" "b_slaves b2 = b_slaves b1"
      using agg_selection_ok [OF ok1(1) s1] by blast
    obtain r b3 where 3: "bond_3ad_set_carrier b2 = Some (r, b3)" "benign b2 b3" using set_carrier_ok [OF 2(2)] by blast
    have "bond_ok b3" "b_slaves b3 = b_slaves b" using benign_ok [OF 3(2) 2(2)] benign_view(1) [OF 3(2)] 2(3) ok1(2) by auto
    from all [OF this] True 1 2(1) 3(1) bond_ok_slave [OF ok1(1) s1] Cons show ?thesis by (simp add: run_machines_def)
  next
    case False
    from all [OF ok1] False 1 Cons show ?thesis by (simp add: run_machines_def)
  qed
qed

end
