(* ===== verification/Lacp_Unbind.thy ===== *)
theory Lacp_Unbind
  imports Lacp_System
begin

text \<open>
  Unbinding a slave of the bond of servers/bond_3ad.c (\<open>bond_3ad_unbind_slave\<close>): the ports of its
  aggregator move to another one, its own port leaves its list, and what remains is well formed.
\<close>

subsection \<open>Lists while a port is removed\<close>

lemma lists_okI:
  assumes "distinct (b_slaves b)" "length (b_slaves b) < 65536"
    and "\<And>a. a \<in> set (b_slaves b) \<Longrightarrow> lseg (nextp b) (lag_ports (b_agg b a)) (L a)"
    and "\<And>a. a \<in> set (b_slaves b) \<Longrightarrow> a_slave (b_agg b a) = Some a"
    and "\<And>a. a \<in> set (b_slaves b) \<Longrightarrow> unat (num_of_ports (b_agg b a)) = length (L a)"
    and "\<And>a i. a \<in> set (b_slaves b) \<Longrightarrow> i \<in> set (L a) \<Longrightarrow> i \<in> set (b_slaves b) \<and> p_aggregator (b_port b i) = Some a"
    and "\<And>i. i \<in> set (b_slaves b) \<Longrightarrow> p_slave (b_port b i) = Some i"
  shows "lists_ok L b"
  unfolding lists_ok_def using assms by blast

lemma lists_slaves: "lists_ok L b \<Longrightarrow> distinct (b_slaves b) \<and> length (b_slaves b) < 65536"
  by (simp add: lists_ok_def)

lemma lists_disjoint:
  assumes "lists_ok L b" "a \<in> set (b_slaves b)" "c \<in> set (b_slaves b)" "i \<in> set (L a)" "a \<noteq> c"
  shows "i \<notin> set (L c)"
  using lists_okD(7) [OF assms(1,2) assms(4)] lists_okD(7) [OF assms(1,3), of i] assms(5) by auto

text \<open>The invariant of the bond for all ports but \<open>s\<close>.\<close>

definition ok_but :: "nat \<Rightarrow> (nat \<Rightarrow> nat list) \<Rightarrow> ad_bond \<Rightarrow> bool" where
  "ok_but s L b = (lists_ok L b \<and> one_active b \<and>
     (\<forall>i\<in>set (b_slaves b). i \<noteq> s \<longrightarrow> port_placed L b i \<and> port_ok (b_port b i)))"

lemma bond_ok_but: "lag_inv L b \<Longrightarrow> bond_ok b \<Longrightarrow> ok_but s L b"
  by (simp add: ok_but_def bond_ok_def lag_inv_def)

lemma ok_but_reselect:
  assumes ok: "ok_but s L b" and s: "s \<in> set (b_slaves b)"
  shows "\<exists>b'. reselect e s b = Some b' \<and> ok_but s L b' \<and> b_slaves b' = b_slaves b"
proof -
  have lists: "lists_ok L b" using ok by (simp add: ok_but_def)
  obtain orig where o: "get_first_agg b s = Some orig" "orig \<in> set (b_slaves b)"
    using s lists_okD(6) [OF lists s] by (cases "b_slaves b") (auto simp: get_first_agg_def)
  obtain upd b' where r: "ad_agg_selection_logic e (Some orig) b = Some (upd, b')" "same_lag b b'" "b_port b' = b_port b"
    "\<forall>s\<in>set (b_slaves b). act b' s = (chosen L b = Some s)"
    using selection_logic_result [OF lists o(2)] by blast
  have sl: "b_slaves b' = b_slaves b" using r(2) by (simp add: same_lag_def)
  have "one_active b'" using r(4) sl one_activeI [of b' "chosen L b"] by simp
  moreover have "lists_ok L b'" using lists same_lag_lists [OF r(2)] by simp
  ultimately have "ok_but s L b'" using ok sl r(3) by (simp add: ok_but_def port_placed_def cong: option.case_cong)
  with r o sl show ?thesis by (simp add: reselect_def)
qed

subsection \<open>Giving up the aggregator of the slave\<close>

lemma ok_but_clear:
  assumes ok: "ok_but s L b" and s: "s \<in> set (b_slaves b)" and L: "set (L a) \<subseteq> {s}" and a: "a \<in> set (b_slaves b)"
  shows "ok_but s (L(a := [])) (upd_agg a ad_clear_agg b)"
proof -
  have lists: "lists_ok L b" using ok by (simp add: ok_but_def)
  note D = lists_okD [OF lists]
  let ?b = "upd_agg a ad_clear_agg b"
  have "lists_ok (L(a := [])) ?b"
  proof (rule lists_okI)
    fix c i
    assume "c \<in> set (b_slaves ?b)" "i \<in> set ((L(a := [])) c)"
    then show "i \<in> set (b_slaves ?b) \<and> p_aggregator (b_port ?b i) = Some c"
      using D(3,7) [of c] by (auto split: if_splits)
  qed (use lists_slaves [OF lists] D(2,4,5,6) in \<open>auto simp: ad_clear_agg_def\<close>)
  moreover have "one_active ?b" using ok by (simp add: ok_but_def one_active_def ad_clear_agg_def)
  moreover have "port_placed (L(a := [])) ?b i" if "i \<in> set (b_slaves b)" "i \<noteq> s" for i
    using ok that L by (auto simp: ok_but_def port_placed_def split: option.splits)
  ultimately show ?thesis using ok by (simp add: ok_but_def)
qed

text \<open>The ports of \<open>a\<close> move to \<open>n\<close>, which is empty but perhaps for the port that is removed.\<close>

lemma lseg_single: "lseg nxt h xs \<Longrightarrow> h = Some i \<Longrightarrow> nxt i = None \<Longrightarrow> xs = [i]"
  by (cases xs; cases "tl xs") auto

lemma takes_over_empty:
  assumes "lists_ok L b" "n \<in> set (b_slaves b)" "takes_over b s n"
  shows "set (L n) \<subseteq> {s}"
  using lists_okD(4) [OF assms(1,2)] lseg_single [of "nextp b" _ "L n" s] assms(3)
  by (cases "L n") (auto simp: takes_over_def)

lemma takes_over_exists:
  assumes lists: "lists_ok L b" and s: "s \<in> set (b_slaves b)"
  shows "find (takes_over b s) (b_slaves b) \<noteq> None"
proof
  assume "find (takes_over b s) (b_slaves b) = None"
  then have no: "\<not> takes_over b s a" if "a \<in> set (b_slaves b)" for a using that by (simp add: find_None_iff)
  have "\<exists>i. i \<in> set (L a) - {s}" if a: "a \<in> set (b_slaves b)" for a
  proof (rule ccontr)
    assume "\<not> ?thesis"
    then have sub: "set (L a) \<subseteq> {s}" by auto
    have seg: "lseg (nextp b) (lag_ports (b_agg b a)) (L a)" using lists_okD(4) [OF lists a] .
    have "takes_over b s a"
    proof (cases "L a")
      case Nil
      with seg show ?thesis by (simp add: takes_over_def)
    next
      case (Cons i ks)
      then have "i = s" "ks = []" using sub lseg_distinct [OF seg] by (auto simp: subset_singleton_iff)
      with seg Cons show ?thesis by (simp add: takes_over_def)
    qed
    with no [OF a] show False by simp
  qed
  then obtain h where h: "\<And>a. a \<in> set (b_slaves b) \<Longrightarrow> h a \<in> set (L a) - {s}" by metis
  have "inj_on h (set (b_slaves b))"
  proof (rule inj_onI)
    fix a c
    assume "a \<in> set (b_slaves b)" "c \<in> set (b_slaves b)" "h a = h c"
    then show "a = c" using lists_disjoint [OF lists, of a c "h a"] h [of a] h [of c] by auto
  qed
  moreover have "h ` set (b_slaves b) \<subseteq> set (b_slaves b) - {s}" using h lists_okD(3) [OF lists] by blast
  ultimately have "card (set (b_slaves b)) \<le> card (set (b_slaves b) - {s})" by (intro card_inj_on_le) auto
  moreover have "card (set (b_slaves b) - {s}) < card (set (b_slaves b))" using s by (intro psubset_card_mono) auto
  ultimately show False by simp
qed

lemma move_fold:
  assumes "b' = fold (\<lambda>i b. upd_port i (\<lambda>p. p\<lparr>p_aggregator := Some n,
      actor_port_aggregator_identifier := aggregator_identifier (b_agg b n)\<rparr>) b) ps b"
  shows "b_slaves b' = b_slaves b" "b_agg b' = b_agg b" "nextp b' i = nextp b i" "p_slave (b_port b' i) = p_slave (b_port b i)"
    "sm_vars (b_port b' i) = sm_vars (b_port b i)" "sm_mux_state (b_port b' i) = sm_mux_state (b_port b i)"
    "actor_oper_port_state (b_port b' i) = actor_oper_port_state (b_port b i)"
    "p_aggregator (b_port b' i) = (if i \<in> set ps then Some n else p_aggregator (b_port b i))"
  unfolding assms by (induction ps arbitrary: b) auto

lemma ok_but_move:
  assumes ok: "ok_but s L b" and a: "a \<in> set (b_slaves b)" and n: "n \<in> set (b_slaves b)" "n \<noteq> a" "set (L n) \<subseteq> {s}"
    and b': "b' = upd_agg a ad_clear_agg (fold (\<lambda>i b. upd_port i (\<lambda>p. p\<lparr>p_aggregator := Some n,
      actor_port_aggregator_identifier := aggregator_identifier (b_agg b n)\<rparr>) b) (L a) (upd_agg n (copy_agg (b_agg b a)) b))"
  shows "ok_but s (L(n := L a, a := [])) b'"
proof -
  define c where "c = fold (\<lambda>i b. upd_port i (\<lambda>p. p\<lparr>p_aggregator := Some n,
      actor_port_aggregator_identifier := aggregator_identifier (b_agg b n)\<rparr>) b) (L a) (upd_agg n (copy_agg (b_agg b a)) b)"
  note f = move_fold [OF c_def]
  have b'c: "b' = upd_agg a ad_clear_agg c" by (simp add: b' c_def)
  have lists: "lists_ok L b" using ok by (simp add: ok_but_def)
  note D = lists_okD [OF lists]
  let ?L = "L(n := L a, a := [])"
  have nx: "nextp b' i = nextp b i" "p_slave (b_port b' i) = p_slave (b_port b i)"
    "p_aggregator (b_port b' i) = (if i \<in> set (L a) then Some n else p_aggregator (b_port b i))" for i
    using f(3,4,8) [of i] by (simp_all add: b'c)
  have sl: "b_slaves b' = b_slaves b" using f(1) by (simp add: b'c)
  have ag: "b_agg b' x = (if x = a then ad_clear_agg (b_agg b a) else if x = n then copy_agg (b_agg b a) (b_agg b n) else b_agg b x)" for x
    using n(2) by (simp add: b'c f(2))
  have seg: "lseg (nextp b') h xs = lseg (nextp b) h xs" for h xs by (rule lseg_cong) (simp add: nx)
  have "lists_ok ?L b'"
  proof (rule lists_okI)
    fix x i
    assume "x \<in> set (b_slaves b')" "i \<in> set (?L x)"
    then show "i \<in> set (b_slaves b') \<and> p_aggregator (b_port b' i) = Some x"
      using D(3,7) [of x] D(3) [OF a] lists_disjoint [OF lists a, of x i] by (auto simp: sl nx split: if_splits)
  next
    fix x
    assume "x \<in> set (b_slaves b')"
    then show "lseg (nextp b') (lag_ports (b_agg b' x)) (?L x)" "unat (num_of_ports (b_agg b' x)) = length (?L x)"
      using D(4,5) [of x] D(4,5) [OF a] n(2) by (simp_all add: sl seg ag ad_clear_agg_def copy_agg_def)
  qed (use lists_slaves [OF lists] D(2,6) in \<open>auto simp: sl nx ag ad_clear_agg_def copy_agg_def\<close>)
  moreover have one: "x = y" if "act b x" "act b y" "x \<in> set (b_slaves b)" "y \<in> set (b_slaves b)" for x y
    using ok that by (auto simp: ok_but_def one_active_def)
  have "one_active b'"
    unfolding one_active_def sl by (auto simp: ag ad_clear_agg_def copy_agg_def split: if_splits dest: one [OF _ _ a] one)
  moreover have "port_placed ?L b' i \<and> port_ok (b_port b' i)" if i: "i \<in> set (b_slaves b)" "i \<noteq> s" for i
  proof -
    have p: "port_placed L b i" "port_ok (b_port b i)" using ok i by (auto simp: ok_but_def)
    have "port_placed ?L b' i" using p(1) n i(2) by (auto simp: port_placed_def nx sl split: option.splits)
    moreover have "port_ok (b_port b' i)"
      using p(2) f(5-8) [of i] by (simp add: port_ok_def mux_bits_def b'c)
    ultimately show ?thesis by blast
  qed
  ultimately show ?thesis by (simp add: ok_but_def sl)
qed

lemma move_ports_ok:
  assumes ok: "ok_but s L b" and s: "s \<in> set (b_slaves b)" and n: "n \<in> set (b_slaves b)" "n \<noteq> s" "set (L n) \<subseteq> {s}"
  shows "\<exists>b'. move_ports e s n b = Some b' \<and> ok_but s (L(n := L s, s := [])) b' \<and> b_slaves b' = b_slaves b"
proof -
  have lists: "lists_ok L b" using ok by (simp add: ok_but_def)
  let ?b1 = "upd_agg n (copy_agg (b_agg b s)) b"
  have ps: "agg_ports ?b1 s = Some (L s)" using lists_okD(1) [OF lists s] n(2) by (simp add: agg_ports_def)
  define b2 where "b2 = upd_agg s ad_clear_agg (fold (\<lambda>i b. upd_port i (\<lambda>p. p\<lparr>p_aggregator := Some n,
      actor_port_aggregator_identifier := aggregator_identifier (b_agg b n)\<rparr>) b) (L s) ?b1)"
  have ok2: "ok_but s (L(n := L s, s := [])) b2" using ok_but_move [OF ok s n b2_def] .
  have sl2: "b_slaves b2 = b_slaves b" using move_fold(1) [OF refl, of n "L s" ?b1] by (simp add: b2_def)
  have r: "move_ports e s n b = (if lag_ports (b_agg b n) = Some s \<and> is_active (b_agg b n) then reselect e s b2 else Some b2)"
    unfolding move_ports_def Let_def ps by (simp add: b2_def)
  show ?thesis using r ok2 sl2 ok_but_reselect [OF ok2, of e] s by auto
qed

lemma release_agg_ok:
  assumes ok: "ok_but s L b" and s: "s \<in> set (b_slaves b)"
  shows "\<exists>L' b'. release_agg e s b = Some b' \<and> ok_but s L' b' \<and> b_slaves b' = b_slaves b \<and> L' s = []"
proof -
  have lists: "lists_ok L b" using ok by (simp add: ok_but_def)
  have seg: "lseg (nextp b) (lag_ports (b_agg b s)) (L s)" using lists_okD(4) [OF lists s] .
  consider "lag_ports (b_agg b s) = None"
    | "lag_ports (b_agg b s) \<noteq> None" "lag_ports (b_agg b s) \<noteq> Some s \<or> nextp b s \<noteq> None"
    | "lag_ports (b_agg b s) = Some s" "nextp b s = None" by blast
  then show ?thesis
  proof cases
    case 1
    then have "L s = []" using seg by (cases "L s") auto
    with 1 ok show ?thesis by (auto simp: release_agg_def)
  next
    case 2
    obtain n where n: "find (takes_over b s) (b_slaves b) = Some n" using takes_over_exists [OF lists s] by blast
    then have n': "n \<in> set (b_slaves b)" "takes_over b s n" by (auto simp: find_Some_iff)
    have "n \<noteq> s" using n'(2) 2 by (auto simp: takes_over_def)
    from move_ports_ok [OF ok s n'(1) this takes_over_empty [OF lists n'], of e] obtain b' where
      "move_ports e s n b = Some b'" "ok_but s (L(n := L s, s := [])) b'" "b_slaves b' = b_slaves b" by blast
    moreover have "release_agg e s b = move_ports e s n b" using 2 n by (auto simp: release_agg_def)
    moreover have "(L(n := L s, s := [])) s = []" by simp
    ultimately show ?thesis by metis
  next
    case 3
    have "set (L s) \<subseteq> {s}" using lseg_single [OF seg 3] by simp
    note ok2 = ok_but_clear [OF ok s this s]
    let ?b = "upd_agg s ad_clear_agg b"
    obtain b' where b': "reselect e s ?b = Some b'" "ok_but s (L(s := [])) b'" "b_slaves b' = b_slaves b"
      using ok_but_reselect [OF ok2, of e] s by auto
    have "release_agg e s b = Some b' \<or> release_agg e s b = Some ?b" using 3 b'(1) by (simp add: release_agg_def Let_def)
    moreover have "(L(s := [])) s = []" "b_slaves ?b = b_slaves b" by simp_all
    ultimately show ?thesis using ok2 b'(2,3) by metis
  qed
qed

subsection \<open>Taking the port from its list\<close>

lemma lists_unlink:
  assumes lists: "lists_ok L b" and t: "t \<in> set (b_slaves b)" and Lt: "L t = xs @ port # ys"
    and sl: "b_slaves b' = b_slaves b" and slave: "\<And>i. p_slave (b_port b' i) = p_slave (b_port b i)"
    and agg: "\<And>i. p_aggregator (b_port b' i) = p_aggregator (b_port b i)"
    and nx: "\<And>i. nextp b' i = (if xs \<noteq> [] \<and> i = last xs then nextp b port else nextp b i)"
    and own: "\<And>a. a_slave (b_agg b' a) = a_slave (b_agg b a)"
    and head: "\<And>a. lag_ports (b_agg b' a) = (if a = t \<and> xs = [] then nextp b port else lag_ports (b_agg b a))"
    and num: "\<And>a. num_of_ports (b_agg b' a) = (if a = t then num_of_ports (b_agg b a) - 1 else num_of_ports (b_agg b a))"
  shows "lists_ok (L(t := xs @ ys)) b'"
proof -
  note D = lists_okD [OF lists]
  have "distinct (L t)" using D(4) [OF t] by (rule lseg_distinct)
  then have p: "port \<notin> set xs" "port \<notin> set ys" using Lt by auto
  have seg: "lseg (nextp b') (lag_ports (b_agg b' t)) (xs @ ys)"
  proof (cases xs rule: rev_cases)
    case Nil
    have "lseg (nextp b') (nextp b port) ys = lseg (nextp b) (nextp b port) ys" by (rule lseg_cong) (simp add: nx Nil)
    then show ?thesis using D(4) [OF t] Lt by (simp add: head Nil)
  next
    case (snoc xs' k)
    have k: "k \<noteq> port" using p snoc by auto
    have "lseg (nextp b') h (xs' @ k # ys) = lseg ((nextp b)(k := nextp b port, port := None)) h (xs' @ k # ys)" for h
      by (rule lseg_cong) (use p snoc in \<open>auto simp: nx\<close>)
    then show ?thesis using lseg_drop_inner [of "nextp b" _ xs' k port ys] D(4) [OF t] Lt snoc by (simp add: head)
  qed
  have other: "lseg (nextp b') (lag_ports (b_agg b' a)) (L a)" if a: "a \<in> set (b_slaves b)" "a \<noteq> t" for a
  proof -
    have "xs \<noteq> [] \<Longrightarrow> last xs \<notin> set (L a)" using lists_disjoint [OF lists t a(1)] a(2) Lt by auto
    then have "lseg (nextp b') h (L a) = lseg (nextp b) h (L a)" for h by (intro lseg_cong) (auto simp: nx)
    with D(4) [OF a(1)] a(2) show ?thesis by (simp add: head)
  qed
  have "num_of_ports (b_agg b t) \<noteq> 0" using D(5) [OF t] Lt by (auto simp: unat_eq_zero)
  then have cnt: "unat (num_of_ports (b_agg b t) - 1) = length (xs @ ys)"
    using D(5) [OF t] Lt by (simp add: unat_minus_one)
  show ?thesis
  proof (rule lists_okI)
    fix a i
    assume "a \<in> set (b_slaves b')" "i \<in> set ((L(t := xs @ ys)) a)"
    then show "i \<in> set (b_slaves b') \<and> p_aggregator (b_port b' i) = Some a"
      using D(3,7) [of a] Lt by (auto simp: sl agg split: if_splits)
  next
    fix a
    assume "a \<in> set (b_slaves b')"
    then show "lseg (nextp b') (lag_ports (b_agg b' a)) ((L(t := xs @ ys)) a)"
      "unat (num_of_ports (b_agg b' a)) = length ((L(t := xs @ ys)) a)"
      using seg other cnt D(5) [of a] by (auto simp: sl num)
  qed (use lists_slaves [OF lists] D(2,6) in \<open>auto simp: sl own slave\<close>)
qed

text \<open>The bond right after the port has been unlinked, and what the loop does with it.\<close>

definition unlinked :: "nat \<Rightarrow> nat \<Rightarrow> nat option \<Rightarrow> ad_bond \<Rightarrow> ad_bond" where
  "unlinked port t prev b =
     (let nxt = next_port_in_aggregator (b_port b port);
          b = (case prev of
              Some l \<Rightarrow> upd_port l (\<lambda>p. p\<lparr>next_port_in_aggregator := nxt\<rparr>) b
            | None \<Rightarrow> upd_agg t (\<lambda>a. a\<lparr>lag_ports := nxt\<rparr>) b)
      in upd_agg t (\<lambda>a. a\<lparr>num_of_ports := num_of_ports a - 1\<rparr>) b)"

definition after_unlink :: "ad_env \<Rightarrow> nat \<Rightarrow> nat \<Rightarrow> ad_bond \<Rightarrow> ad_bond defined" where
  "after_unlink e port t b = do {
     n \<leftarrow> agg_active_ports b t;
     if n = 0 then do {
       let sel = is_active (b_agg b t);
       let b = (if num_of_ports (b_agg b t) = 0 then upd_agg t ad_clear_agg b else b);
       if sel then reselect e port b else Some b
     } else Some b
   }"

lemma unlink_loop_skip: "port \<notin> set ps \<Longrightarrow> unlink_loop e port t prev ps b = Some b"
  by (induction ps arbitrary: prev) auto

lemma unlink_loop_found:
  "port \<notin> set xs \<Longrightarrow> unlink_loop e port t prev (xs @ port # ys) b =
     after_unlink e port t (unlinked port t (if xs = [] then prev else Some (last xs)) b)"
proof (induction xs arbitrary: prev)
  case Nil
  show ?case
    by (simp only: append_Nil unlink_loop.simps unlinked_def after_unlink_def Let_def simp_thms if_True)
next
  case (Cons x xs)
  then show ?case by simp
qed

lemma unlinked_ok:
  assumes ok: "ok_but s L b" and t: "t \<in> set (b_slaves b)" and Lt: "L t = xs @ s # ys"
  shows "ok_but s (L(t := xs @ ys)) (unlinked s t (if xs = [] then None else Some (last xs)) b)"
proof -
  define c where "c = unlinked s t (if xs = [] then None else Some (last xs)) b"
  have lists: "lists_ok L b" using ok by (simp add: ok_but_def)
  note f = c_def unlinked_def Let_def
  have sl: "b_slaves c = b_slaves b" by (simp add: f)
  have v: "p_aggregator (b_port c i) = p_aggregator (b_port b i)" "sm_vars (b_port c i) = sm_vars (b_port b i)"
    "sm_mux_state (b_port c i) = sm_mux_state (b_port b i)" "actor_oper_port_state (b_port c i) = actor_oper_port_state (b_port b i)"
    "nextp c i = (if xs \<noteq> [] \<and> i = last xs then nextp b s else nextp b i)" for i
    by (simp_all add: f)
  have "lists_ok (L(t := xs @ ys)) c"
    by (rule lists_unlink [OF lists t Lt]) (simp_all add: f)
  moreover have act: "act c a = act b a" for a by (simp add: f)
  have "one_active c" using ok unfolding ok_but_def one_active_def act sl by blast
  moreover have "port_placed (L(t := xs @ ys)) c i" if i: "i \<in> set (b_slaves b)" "i \<noteq> s" for i
  proof -
    have p: "port_placed L b i" using ok i by (simp add: ok_but_def)
    have "p_aggregator (b_port b (last xs)) = Some t" if "xs \<noteq> []" using lists_okD(7) [OF lists t] Lt that by simp
    with p i(2) Lt show ?thesis by (auto simp: port_placed_def v sl split: option.splits)
  qed
  moreover have "port_ok (b_port c i)" if "i \<in> set (b_slaves b)" "i \<noteq> s" for i
    using ok that by (simp add: ok_but_def port_ok_def mux_bits_def v)
  ultimately show ?thesis unfolding c_def [symmetric] by (simp add: ok_but_def sl)
qed

lemma after_unlink_ok:
  assumes ok: "ok_but s L b" and t: "t \<in> set (b_slaves b)" and s: "s \<in> set (b_slaves b)"
  shows "\<exists>b'. after_unlink e s t b = Some b' \<and> ok_but s L b' \<and> b_slaves b' = b_slaves b"
proof -
  have lists: "lists_ok L b" using ok by (simp add: ok_but_def)
  obtain n where n: "agg_active_ports b t = Some n" using lists_okD(1) [OF lists t] by (simp add: agg_active_ports_def)
  let ?b = "if num_of_ports (b_agg b t) = 0 then upd_agg t ad_clear_agg b else b"
  have ok2: "ok_but s L ?b"
  proof (cases "num_of_ports (b_agg b t) = 0")
    case True
    then have "L t = []" using lists_okD(5) [OF lists t] by simp
    then have "L(t := []) = L" by auto
    with ok_but_clear [OF ok s _ t] \<open>L t = []\<close> True show ?thesis by simp
  qed (use ok in simp)
  have sl: "b_slaves ?b = b_slaves b" by simp
  obtain b' where "reselect e s ?b = Some b'" "ok_but s L b'" "b_slaves b' = b_slaves ?b"
    using ok_but_reselect [OF ok2, of e] s sl by metis
  with n ok ok2 sl show ?thesis unfolding after_unlink_def Let_def by (cases "n = 0"; cases "act b t") auto
qed

lemma unlink_port_ok:
  assumes "ok_but s L b" "s \<in> set (b_slaves b)" "set ts \<subseteq> set (b_slaves b)"
  shows "\<exists>L' b'. unlink_port e s ts b = Some b' \<and> ok_but s L' b' \<and> b_slaves b' = b_slaves b \<and>
    (\<forall>t\<in>set ts. s \<notin> set (L' t)) \<and> (\<forall>t. set (L' t) \<subseteq> set (L t))"
  using assms
proof (induction ts arbitrary: L b)
  case (Cons t ts)
  have t: "t \<in> set (b_slaves b)" using Cons.prems(3) by simp
  have lists: "lists_ok L b" using Cons.prems(1) by (simp add: ok_but_def)
  have "\<exists>L1 b1. unlink_loop e s t None (L t) b = Some b1 \<and> ok_but s L1 b1 \<and> b_slaves b1 = b_slaves b \<and>
      s \<notin> set (L1 t) \<and> (\<forall>t. set (L1 t) \<subseteq> set (L t))"
  proof (cases "s \<in> set (L t)")
    case True
    then obtain xs ys where Lt: "L t = xs @ s # ys" "s \<notin> set xs" by (meson split_list_first)
    have "s \<notin> set ys" using lseg_distinct [OF lists_okD(4) [OF lists t]] Lt by simp
    let ?b = "unlinked s t (if xs = [] then None else Some (last xs)) b"
    have sl: "b_slaves ?b = b_slaves b" by (simp add: unlinked_def Let_def)
    obtain b1 where "after_unlink e s t ?b = Some b1" "ok_but s (L(t := xs @ ys)) b1" "b_slaves b1 = b_slaves ?b"
      using after_unlink_ok [OF unlinked_ok [OF Cons.prems(1) t Lt(1)]] t Cons.prems(2) sl by metis
    moreover have "unlink_loop e s t None (L t) b = after_unlink e s t ?b" using unlink_loop_found [OF Lt(2)] by (simp add: Lt(1))
    moreover have "s \<notin> set ((L(t := xs @ ys)) t)" "\<forall>u. set ((L(t := xs @ ys)) u) \<subseteq> set (L u)"
      using Lt \<open>s \<notin> set ys\<close> by auto
    ultimately show ?thesis using sl by metis
  next
    case False
    with unlink_loop_skip [OF False] Cons.prems(1) show ?thesis by blast
  qed
  then obtain L1 b1 where 1: "unlink_loop e s t None (L t) b = Some b1" "ok_but s L1 b1" "b_slaves b1 = b_slaves b"
    "s \<notin> set (L1 t)" "\<forall>t. set (L1 t) \<subseteq> set (L t)" by blast
  have "s \<in> set (b_slaves b1)" "set ts \<subseteq> set (b_slaves b1)" using Cons.prems(2,3) 1(3) by auto
  from Cons.IH [OF 1(2) this] obtain L' b' where 2: "unlink_port e s ts b1 = Some b'" "ok_but s L' b'" "b_slaves b' = b_slaves b1"
    "\<forall>t\<in>set ts. s \<notin> set (L' t)" "\<forall>t. set (L' t) \<subseteq> set (L1 t)" by blast
  have "unlink_port e s (t # ts) b = Some b'" using lists_okD(1) [OF lists t] 1(1) 2(1) by simp
  moreover have "\<forall>u\<in>set (t # ts). s \<notin> set (L' u)" using 1(4) 2(4,5) by auto
  moreover have "\<forall>u. set (L' u) \<subseteq> set (L u)" using 1(5) 2(5) by blast
  ultimately show ?case using 2(2,3) 1(3) by metis
qed auto

subsection \<open>The whole operation\<close>

text \<open>The list of slaves without \<open>s\<close>, which bonding.c unlinks after the call.\<close>

definition bond_upper_dev_unlink :: "nat \<Rightarrow> ad_bond \<Rightarrow> ad_bond" where
  "bond_upper_dev_unlink s b = b\<lparr>b_slaves := remove1 s (b_slaves b)\<rparr>"

lemma unlink_dev_ok:
  assumes ok: "ok_but s L b" and s: "s \<in> set (b_slaves b)" "\<forall>t\<in>set (b_slaves b). s \<notin> set (L t)" "L s = []"
  shows "bond_ok (bond_upper_dev_unlink s (upd_port s (\<lambda>p. p\<lparr>p_slave := None\<rparr>) b))"
proof -
  let ?b = "bond_upper_dev_unlink s (upd_port s (\<lambda>p. p\<lparr>p_slave := None\<rparr>) b)"
  have lists: "lists_ok L b" using ok by (simp add: ok_but_def)
  note D = lists_okD [OF lists]
  have d: "distinct (b_slaves b)" using lists_slaves [OF lists] by simp
  have sl: "set (b_slaves ?b) = set (b_slaves b) - {s}" using d by (simp add: bond_upper_dev_unlink_def)
  have v: "p_aggregator (b_port ?b i) = p_aggregator (b_port b i)" "nextp ?b i = nextp b i" "b_agg ?b = b_agg b"
    "sm_vars (b_port ?b i) = sm_vars (b_port b i)" "sm_mux_state (b_port ?b i) = sm_mux_state (b_port b i)"
    "actor_oper_port_state (b_port ?b i) = actor_oper_port_state (b_port b i)"
    "i \<noteq> s \<Longrightarrow> p_slave (b_port ?b i) = p_slave (b_port b i)" for i
    by (simp_all add: bond_upper_dev_unlink_def)
  have seg: "lseg (nextp ?b) h xs = lseg (nextp b) h xs" for h xs by (rule lseg_cong) (simp add: v)
  have "lag_inv L ?b"
  proof (rule lag_invI)
    show "distinct (b_slaves ?b)" using d by (simp add: bond_upper_dev_unlink_def)
    have "length (b_slaves ?b) \<le> length (b_slaves b)" by (simp add: bond_upper_dev_unlink_def length_remove1)
    then show "length (b_slaves ?b) < 65536" using lists_slaves [OF lists] by simp
  next
    fix a i
    assume "a \<in> set (b_slaves ?b)" "i \<in> set (L a)"
    then show "i \<in> set (b_slaves ?b) \<and> p_aggregator (b_port ?b i) = Some a"
      unfolding sl v using D(3,7) [of a] s(2) by auto
  next
    fix i
    assume i: "i \<in> set (b_slaves ?b)"
    then have "port_placed L b i" using ok unfolding sl by (simp add: ok_but_def)
    then show "p_aggregator (b_port ?b i) = None \<Longrightarrow> nextp ?b i = None"
      "p_aggregator (b_port ?b i) = Some a \<Longrightarrow> a \<in> set (b_slaves ?b) \<and> i \<in> set (L a)" for a
      unfolding sl v using s(3) by (auto simp: port_placed_def)
    show "p_slave (b_port ?b i) = Some i" using i v(7) [of i] D(6) [of i] unfolding sl by simp
  qed (use D(2,4,5) in \<open>auto simp: sl seg v\<close>)
  moreover have "one_active ?b" using ok unfolding ok_but_def one_active_def sl v by blast
  moreover have "port_ok (b_port ?b i)" if "i \<in> set (b_slaves ?b)" for i
    using ok that unfolding sl by (simp add: ok_but_def port_ok_def mux_bits_def v)
  ultimately show ?thesis by (rule bond_okI)
qed

lemma unbind_ok:
  assumes ok: "bond_ok b" and s: "s \<in> set (b_slaves b)"
  shows "\<exists>b'. bond_3ad_unbind_slave e alloc s b = Some b' \<and> b_slaves b' = b_slaves b \<and> bond_ok (bond_upper_dev_unlink s b') \<and>
    p_slave (b_port b' s) = None"
proof -
  obtain L where L: "lag_inv L b" using ok by (auto simp: bond_ok_def)
  note sl = bond_ok_slave [OF ok s]
  let ?f = "\<lambda>p. update_lacpdu_from_port (p\<lparr>actor_oper_port_state :=
    actor_oper_port_state p - {SYNCHRONIZATION, COLLECTING, DISTRIBUTING, AGGREGATION}\<rparr>)"
  let ?b1 = "upd_port s ?f b"
  have f: "p_slave (?f p) = p_slave p" "p_aggregator (?f p) = p_aggregator p"
    "next_port_in_aggregator (?f p) = next_port_in_aggregator p" for p
    by (simp_all add: update_lacpdu_from_port_def Let_def)
  have sl1: "p_slave (b_port ?b1 s) = Some s" using sl by (simp add: f)
  have lag1: "same_lag b ?b1" by (simp add: same_lag_def f)
  obtain r b2 where 2: "ad_lacpdu_send alloc s ?b1 = Some (r, b2)" "benign ?b1 b2"
    using lacpdu_send_ports [OF sl1] by blast
  have L2: "lag_inv L b2" using L same_lag_inv [OF lag1] same_lag_inv [OF benign_lag [OF 2(2)]] by simp
  have "port_ok (b_port b2 i)" if "i \<in> set (b_slaves b)" "i \<noteq> s" for i
  proof (rule port_benign_ok)
    have "port_benign (b_port ?b1 i) (b_port b2 i)" using 2(2) by (simp add: benign_def)
    then show "port_benign (b_port b i) (b_port b2 i)" using that(2) by simp
    show "port_ok (b_port b i)" using ok that(1) by (simp add: bond_ok_def)
  qed
  moreover have sl2: "b_slaves b2 = b_slaves b" "b_agg b2 = b_agg b" using 2(2) by (simp_all add: benign_def)
  ultimately have ok2: "ok_but s L b2" using L2 ok by (simp add: ok_but_def lag_inv_def bond_ok_def one_active_def)
  obtain L3 b3 where 3: "release_agg e s b2 = Some b3" "ok_but s L3 b3" "b_slaves b3 = b_slaves b" "L3 s = []"
    using release_agg_ok [OF ok2] s sl2 by metis
  obtain L4 b4 where 4: "unlink_port e s (b_slaves b3) b3 = Some b4" "ok_but s L4 b4" "b_slaves b4 = b_slaves b3"
    "\<forall>t\<in>set (b_slaves b3). s \<notin> set (L4 t)" "\<forall>t. set (L4 t) \<subseteq> set (L3 t)"
    using unlink_port_ok [OF 3(2), of "b_slaves b3" e] s 3(3) by auto
  have "L4 s = []" using 3(4) 4(5) by (metis set_empty2 subset_empty)
  then have "bond_ok (bond_upper_dev_unlink s (upd_port s (\<lambda>p. p\<lparr>p_slave := None\<rparr>) b4))"
    using unlink_dev_ok [OF 4(2)] s 3(3) 4(3,4) by simp
  moreover have "bond_3ad_unbind_slave e alloc s b = Some (upd_port s (\<lambda>p. p\<lparr>p_slave := None\<rparr>) b4)"
    using sl 2(1) 3(1) 4(1) by (simp add: bond_3ad_unbind_slave_def)
  ultimately show ?thesis using 3(3) 4(3) by simp
qed

end
