(* ===== verification/Lacp_Reach.thy ===== *)
theory Lacp_Reach
  imports Lacp_Unbind
begin

text \<open>
  The life of a bond in mode 802.3ad: the calls that servers/bonding.c and servers/bond_options.c make
  of servers/bond_3ad.c, as events of a transition system, and the safety of every bond that such events
  can produce.
\<close>

subsection \<open>The callers\<close>

text \<open>
  Enslaving: \<open>bond_alloc_slave\<close> gives the new slave \<open>s\<close> the device \<open>x\<close> and a zeroed \<open>ad_slave_info\<close>
  with the port \<open>p\<close> and the aggregator \<open>g\<close>; the slave is bound and then linked to the bond.
\<close>

definition bond_alloc_slave :: "nat \<Rightarrow> ad_slave \<Rightarrow> ad_port \<Rightarrow> aggregator \<Rightarrow> ad_bond \<Rightarrow> ad_bond" where
  "bond_alloc_slave s x p g b = upd_agg s (\<lambda>_. g) (upd_port s (\<lambda>_. p) (upd_slave s (\<lambda>_. x) b))"

definition enslave_3ad :: "ad_env \<Rightarrow> nat \<Rightarrow> ad_bond \<Rightarrow> ad_bond defined" where
  "enslave_3ad e s b = do {
     let b = upd_slave s (\<lambda>x. x\<lparr>s_flags := set_slave_inactive_flags e (s_flags x)\<rparr>) b;
     let b = (if b_slaves b = [] then bond_3ad_initialize e (upd_slave s (\<lambda>x. x\<lparr>s_id := 1\<rparr>) b)
              else upd_slave s (\<lambda>x. x\<lparr>s_id := s_id (b_slave b (last (b_slaves b))) + 1\<rparr>) b);
     bond_3ad_bind_slave e s b
   }"

definition bond_master_upper_dev_link :: "nat \<Rightarrow> ad_bond \<Rightarrow> ad_bond" where
  "bond_master_upper_dev_link s b = b\<lparr>b_slaves := b_slaves b @ [s]\<rparr>"

definition bond_enslave :: "ad_env \<Rightarrow> nat \<Rightarrow> ad_slave \<Rightarrow> ad_port \<Rightarrow> aggregator \<Rightarrow> ad_bond \<Rightarrow> ad_bond defined" where
  "bond_enslave e s x p g b = do {
     b \<leftarrow> enslave_3ad e s (bond_alloc_slave s x p g b);
     Some (bond_master_upper_dev_link s b)
   }"

text \<open>
  The error path of \<open>bond_enslave\<close> from the point where the slave has been linked, as far as it concerns the link
  aggregation: the slave is unlinked, and freed with its port and its aggregator. It is not unbound.
\<close>

definition bond_enslave_undo :: "nat \<Rightarrow> ad_bond \<Rightarrow> ad_bond defined" where
  "bond_enslave_undo s b = do {
     let b = bond_upper_dev_unlink s b;
     Some b
   }"

definition bond_release_one :: "ad_env \<Rightarrow> bool \<Rightarrow> nat \<Rightarrow> ad_bond \<Rightarrow> ad_bond defined" where
  "bond_release_one e alloc s b = do {
     b \<leftarrow> bond_3ad_unbind_slave e alloc s b;
     Some (bond_upper_dev_unlink s b)
   }"

text \<open>\<open>bond_open\<close> restarts the selection and \<open>bond_set_carrier\<close> follows the active aggregator.\<close>

definition bond_open :: "ad_bond \<Rightarrow> ad_bond" where
  "bond_open b = bond_3ad_initiate_agg_selection b 1"

definition bond_set_carrier :: "ad_bond \<Rightarrow> (int \<times> ad_bond) defined" where
  "bond_set_carrier b = (if b_slaves b = [] then Some (if carrier_ok b then 1 else 0, b\<lparr>carrier_ok := False\<rparr>) else bond_3ad_set_carrier b)"

text \<open>The options of servers/bond_options.c that reach the link aggregation.\<close>

definition bond_option_lacp_active_set :: "bool \<Rightarrow> ad_bond \<Rightarrow> ad_bond" where
  "bond_option_lacp_active_set v b = bond_3ad_update_lacp_active (b\<lparr>b_params := (b_params b)\<lparr>lacp_active := v\<rparr>\<rparr>)"

definition bond_option_lacp_rate_set :: "bool \<Rightarrow> ad_bond \<Rightarrow> ad_bond" where
  "bond_option_lacp_rate_set v b = bond_3ad_update_lacp_rate (b\<lparr>b_params := (b_params b)\<lparr>lacp_fast := v\<rparr>\<rparr>)"

definition bond_option_ad_select_set :: "ad_select_t \<Rightarrow> ad_bond \<Rightarrow> ad_bond" where
  "bond_option_ad_select_set v b = b\<lparr>b_params := (b_params b)\<lparr>ad_select := v\<rparr>\<rparr>"

definition bond_option_ad_actor_sys_prio_set :: "u16 \<Rightarrow> ad_bond \<Rightarrow> ad_bond defined" where
  "bond_option_ad_actor_sys_prio_set v b =
     bond_3ad_update_ad_actor_settings (b\<lparr>b_params := (b_params b)\<lparr>ad_actor_sys_prio := v\<rparr>\<rparr>)"

definition bond_option_actor_port_prio_set :: "nat \<Rightarrow> u16 \<Rightarrow> ad_bond \<Rightarrow> ad_bond defined" where
  "bond_option_actor_port_prio_set s v b = bond_3ad_update_ad_actor_settings (upd_slave s (\<lambda>x. x\<lparr>s_port_priority := v\<rparr>) b)"

text \<open>The address is what \<open>mac_pton\<close> reads from the string, if it can; \<open>multicast\<close> stands for \<open>is_multicast_ether_addr\<close>.\<close>

definition bond_option_ad_actor_system_set :: "(mac_addr \<Rightarrow> bool) \<Rightarrow> mac_addr option \<Rightarrow> ad_bond \<Rightarrow> (int \<times> ad_bond) defined" where
  "bond_option_ad_actor_system_set multicast macaddr b = (case macaddr of
     None \<Rightarrow> Some (- EINVAL, b)
   | Some mac \<Rightarrow>
       if multicast mac then Some (- EINVAL, b)
       else do {
         b \<leftarrow> bond_3ad_update_ad_actor_settings (b\<lparr>b_params := (b_params b)\<lparr>ad_actor_system := mac\<rparr>\<rparr>);
         Some (0, b)
       })"

definition bond_option_ad_user_port_key_set :: "u16 \<Rightarrow> ad_bond \<Rightarrow> ad_bond" where
  "bond_option_ad_user_port_key_set v b = b\<lparr>b_params := (b_params b)\<lparr>ad_user_port_key := v\<rparr>\<rparr>"

definition bond_option_coupled_control_set :: "bool \<Rightarrow> ad_bond \<Rightarrow> ad_bond" where
  "bond_option_coupled_control_set v b = b\<lparr>b_params := (b_params b)\<lparr>coupled_control := v\<rparr>\<rparr>"

subsection \<open>Events\<close>

text \<open>
  \<open>Device\<close> is any change of what a slave knows of its device (speed, duplex, link), which bonding.c
  and the driver make without a call. \<open>BindFailed\<close> is a \<open>bond_enslave\<close> that fails after the slave has been bound and
  before it is linked, \<open>EnslaveUndone\<close> the error path of one that fails later, \<open>QueryInfo\<close> the query
  \<open>bond_3ad_get_active_agg_info\<close>.
\<close>

datatype ad_event = Enslave nat ad_slave ad_port aggregator | BindFailed nat ad_slave ad_port aggregator | EnslaveUndone nat
  | QueryInfo | Release bool nat | Open | Carrier | Tick "nat \<Rightarrow> bool"
  | Receive bool rx_skb nat | LinkChange nat bool | SpeedChange nat | Device nat ad_slave
  | SetActive bool | SetRate bool | SetSelect ad_select_t | SetSysPrio u16 | SetPortPrio nat u16
  | SetSystem "mac_addr option" | SetUserKey u16 | SetCoupled bool

record ad_world =
  w_env :: ad_env
  w_frame :: frame_env
  w_multicast :: "mac_addr \<Rightarrow> bool"

fun ad_happens :: "ad_world \<Rightarrow> ad_event \<Rightarrow> ad_bond \<Rightarrow> ad_bond defined" where
  "ad_happens w (Enslave s x p g) b = bond_enslave (w_env w) s x p g b"
| "ad_happens w (BindFailed s x p g) b = enslave_3ad (w_env w) s (bond_alloc_slave s x p g b)"
| "ad_happens w (EnslaveUndone s) b = bond_enslave_undo s b"
| "ad_happens w QueryInfo b = do { _ \<leftarrow> bond_3ad_get_active_agg_info b; Some b }"
| "ad_happens w (Release alloc s) b = bond_release_one (w_env w) alloc s b"
| "ad_happens w Open b = Some (bond_open b)"
| "ad_happens w Carrier b = do { (_, b) \<leftarrow> bond_set_carrier b; Some b }"
| "ad_happens w (Tick alloc) b = do { (_, _, b) \<leftarrow> bond_3ad_state_machine_handler (w_env w) alloc b; Some b }"
| "ad_happens w (Receive alloc skb s) b = do { (_, b) \<leftarrow> bond_3ad_lacpdu_recv (w_env w) (w_frame w) alloc skb s b; Some b }"
| "ad_happens w (LinkChange s link) b = bond_3ad_handle_link_change (w_env w) s link b"
| "ad_happens w (SpeedChange s) b = bond_3ad_adapter_speed_duplex_changed s b"
| "ad_happens w (Device s x) b = Some (upd_slave s (\<lambda>_. x) b)"
| "ad_happens w (SetActive v) b = Some (bond_option_lacp_active_set v b)"
| "ad_happens w (SetRate v) b = Some (bond_option_lacp_rate_set v b)"
| "ad_happens w (SetSelect v) b = Some (bond_option_ad_select_set v b)"
| "ad_happens w (SetSysPrio v) b = bond_option_ad_actor_sys_prio_set v b"
| "ad_happens w (SetPortPrio s v) b = bond_option_actor_port_prio_set s v b"
| "ad_happens w (SetSystem mac) b = do { (_, b) \<leftarrow> bond_option_ad_actor_system_set (w_multicast w) mac b; Some b }"
| "ad_happens w (SetUserKey v) b = Some (bond_option_ad_user_port_key_set v b)"
| "ad_happens w (SetCoupled v) b = Some (bond_option_coupled_control_set v b)"

text \<open>
  When a call is covered: a slave is enslaved once, with zeroed data, and there are fewer than
  65535 of them; the other calls are for slaves of the bond. The error path of \<open>bond_enslave\<close> is covered as long as the
  port of the slave is in no list and its aggregator has none; the driver can come there later as well,
  which is the case that goes wrong (see the end of this theory).
\<close>

definition unused_3ad :: "nat \<Rightarrow> ad_bond \<Rightarrow> bool" where
  "unused_3ad s b = (p_aggregator (b_port b s) = None \<and> lag_ports (b_agg b s) = None)"

fun may_happen :: "ad_event \<Rightarrow> ad_bond \<Rightarrow> bool" where
  "may_happen (Enslave s x p g) b = (s \<notin> set (b_slaves b) \<and> p_slave p = None \<and> length (b_slaves b) < 65535)"
| "may_happen (BindFailed s x p g) b = (s \<notin> set (b_slaves b) \<and> p_slave p = None)"
| "may_happen (EnslaveUndone s) b = (s \<in> set (b_slaves b) \<and> unused_3ad s b)"
| "may_happen (Release alloc s) b = (s \<in> set (b_slaves b))"
| "may_happen (Receive alloc skb s) b = (s \<in> set (b_slaves b))"
| "may_happen (LinkChange s link) b = (s \<in> set (b_slaves b))"
| "may_happen (SpeedChange s) b = (s \<in> set (b_slaves b))"
| "may_happen ev b = True"

inductive ad_reachable :: "ad_world \<Rightarrow> ad_bond \<Rightarrow> bool" for w where
  created: "b_slaves b = [] \<Longrightarrow> ad_reachable w b"
| event: "ad_reachable w b \<Longrightarrow> may_happen ev b \<Longrightarrow> ad_happens w ev b = Some b' \<Longrightarrow> ad_reachable w b'"

text \<open>A run of events, each at a time when it is covered; \<open>background\<close> are those that need no lock of the caller.\<close>

fun ad_run :: "ad_world \<Rightarrow> ad_event list \<Rightarrow> ad_bond \<Rightarrow> ad_bond defined" where
  "ad_run w [] b = Some b"
| "ad_run w (ev # evs) b = (if may_happen ev b then ad_happens w ev b \<bind> ad_run w evs else None)"

fun background :: "ad_event \<Rightarrow> bool" where
  "background (Tick alloc) = True"
| "background (Receive alloc skb s) = True"
| "background ev = False"

lemma run_reachable: "ad_reachable w b \<Longrightarrow> ad_run w evs b = Some b' \<Longrightarrow> ad_reachable w b'"
proof (induction evs arbitrary: b)
  case (Cons ev evs)
  then obtain b1 where "may_happen ev b" "ad_happens w ev b = Some b1" "ad_run w evs b1 = Some b'"
    by (auto split: if_splits bind_splits)
  with Cons.IH [of b1] ad_reachable.event [OF Cons.prems(1)] show ?case by blast
qed simp

subsection \<open>Every call keeps the invariant\<close>

lemma upd_port_benign: "(\<And>p. port_benign p (f p)) \<Longrightarrow> benign b (upd_port i f b)"
  by (rule benign_upd) blast

lemma benign_if: "benign b c \<Longrightarrow> benign b d \<Longrightarrow> benign b (if P then c else d)"
  by simp

lemma keys_vars_benign:
  "port_benign p (let p = (if d then p\<lparr>sm_vars := sm_vars p OR AD_PORT_LACP_ENABLED\<rparr>
     else p\<lparr>sm_vars := sm_vars p AND NOT AD_PORT_LACP_ENABLED\<rparr>)
   in if c then p\<lparr>sm_vars := sm_vars p OR AD_PORT_BEGIN\<rparr> else p)"
  by (cases d; cases c) (simp_all add: port_benign_def)

lemma actor_keys_benign:
  assumes "p_slave (b_port b i) = Some s"
  shows "\<exists>b'. ad_update_actor_keys i reset b = Some b' \<and> benign b b'"
proof -
  define b1 where "b1 = upd_port i (\<lambda>p. p\<lparr>actor_admin_port_key :=
    actor_admin_port_key p AND NOT (AD_SPEED_KEY_MASKS OR AD_DUPLEX_KEY_MASKS)\<rparr>) b"
  have 1: "benign b b1" unfolding b1_def by (rule upd_port_benign) simp
  have sl: "p_slave (b_port b1 i) = Some s" using assms benign_view(2) [OF 1] by simp
  obtain speed ospeed duplex where k: "(if reset then Some (0, 0, 0) else do {
       speed \<leftarrow> get_link_speed b1 i;
       duplex \<leftarrow> get_duplex b1 i;
       Some (speed, drop_bit 1 (actor_oper_port_key (b_port b i) AND AD_SPEED_KEY_MASKS), duplex)
     }) = Some (speed, ospeed, duplex)"
    using sl by (cases reset) (auto simp: get_link_speed_def get_duplex_def)
  define b2 where "b2 = (if reset then b1 else upd_port i (\<lambda>p. p\<lparr>actor_admin_port_key :=
    actor_admin_port_key p OR (push_bit 1 speed OR ucast duplex)\<rparr>) b1)"
  have 2: "benign b1 b2" unfolding b2_def by (intro benign_if upd_port_benign benign_refl) simp
  define b3 where "b3 = upd_port i (\<lambda>p. p\<lparr>actor_oper_port_key := actor_admin_port_key p\<rparr>) b2"
  have 3: "benign b2 b3" unfolding b3_def by (rule upd_port_benign) simp
  define b4 where "b4 = (if actor_oper_port_key (b_port b i) \<noteq> actor_oper_port_key (b_port b3 i) then
    upd_port i (\<lambda>p. let p = (if duplex \<noteq> 0 then p\<lparr>sm_vars := sm_vars p OR AD_PORT_LACP_ENABLED\<rparr>
         else p\<lparr>sm_vars := sm_vars p AND NOT AD_PORT_LACP_ENABLED\<rparr>)
       in if \<not> reset \<and> speed \<noteq> 0 \<and> duplex \<noteq> 0 \<and> ospeed \<noteq> speed
          then p\<lparr>sm_vars := sm_vars p OR AD_PORT_BEGIN\<rparr> else p) b3
    else b3)"
  have 4: "benign b3 b4" unfolding b4_def by (intro benign_if upd_port_benign keys_vars_benign benign_refl)
  have "ad_update_actor_keys i reset b = Some b4"
    unfolding ad_update_actor_keys_def Let_def b1_def [symmetric] k Option.bind.simps(2) prod.case
    unfolding b2_def [symmetric] b3_def [symmetric] unfolding b4_def Let_def ..
  then show ?thesis using benign_trans [OF 1 benign_trans [OF 2 benign_trans [OF 3 4]]] by blast
qed

lemma actor_update_port_benign:
  assumes "p_slave (b_port b i) = Some s"
  shows "\<exists>b'. ad_actor_update_port i b = Some b' \<and> benign b b'"
  using assms by (simp add: ad_actor_update_port_def benign_def port_benign_def)

lemma speed_change_benign: "\<exists>b'. bond_3ad_adapter_speed_duplex_changed s b = Some b' \<and> benign b b'"
  using actor_keys_benign by (auto simp: bond_3ad_adapter_speed_duplex_changed_def)

lemma link_change_ok:
  assumes ok: "bond_ok b" and s: "s \<in> set (b_slaves b)"
  shows "\<exists>b'. bond_3ad_handle_link_change e s link b = Some b' \<and> bond_ok b' \<and> b_slaves b' = b_slaves b"
proof -
  let ?b = "upd_port s (\<lambda>p. p\<lparr>is_enabled := link\<rparr>) b"
  have g: "benign b ?b" by (rule benign_upd) simp
  have "p_slave (b_port ?b s) = Some s" using bond_ok_slave [OF ok s] by simp
  from actor_keys_benign [OF this] obtain b1 where 1: "ad_update_actor_keys s (\<not> link) ?b = Some b1" "benign ?b b1" by blast
  have g1: "benign b b1" by (rule benign_trans [OF g 1(2)])
  have "s \<in> set (b_slaves b1)" using s benign_view(1) [OF g1] by simp
  from agg_selection_ok [OF benign_ok [OF g1 ok] this] obtain upd b' where
    "ad_agg_selection_logic e (get_first_agg b1 s) b1 = Some (upd, b')" "bond_ok b'" "b_slaves b' = b_slaves b1" by blast
  with 1(1) bond_ok_slave [OF ok s] benign_view(1) [OF g1] show ?thesis
    by (simp add: bond_3ad_handle_link_change_def reselect_def)
qed

lemma marker_benign:
  assumes s: "p_slave (b_port b i) = Some s"
  shows "\<exists>b'. ad_marker_info_received fe alloc m i b = Some b' \<and> benign b b'"
    "\<exists>b'. ad_marker_response_received m i b = Some b' \<and> benign b b'"
  using s by (simp_all add: ad_marker_info_received_def ad_marker_response_received_def ad_marker_send_def count_stat_def
      benign_def)

lemma rx_indication_benign:
  assumes s: "p_slave (b_port b i) = Some s"
  shows "\<exists>r b'. bond_3ad_rx_indication e fe alloc l i b = Some (r, b') \<and> benign b b'"
proof -
  obtain b1 where 1: "ad_rx_machine e (Some l) i b = Some b1" "benign b b1" using rx_benign [OF s] by blast
  let ?m = "as_marker fe l"
  obtain b2 where 2: "(if tlv_type ?m = AD_MARKER_INFORMATION_SUBTYPE fe then ad_marker_info_received fe alloc ?m i b
     else if tlv_type ?m = AD_MARKER_RESPONSE_SUBTYPE fe then ad_marker_response_received ?m i b
     else count_stat i (\<lambda>x. x\<lparr>marker_unknown_rx := marker_unknown_rx x + 1\<rparr>) b) = Some b2" "benign b b2"
    using marker_benign [OF s] count_stat_benign [OF s] by metis
  obtain b3 where 3: "count_stat i (\<lambda>x. x\<lparr>lacpdu_unknown_rx := lacpdu_unknown_rx x + 1\<rparr>) b = Some b3" "benign b b3"
    using count_stat_benign [OF s] by blast
  show ?thesis
    unfolding bond_3ad_rx_indication_def Let_def 2(1) using s 1 2(2) 3 by simp
qed

lemma lacpdu_recv_benign:
  assumes "p_slave (b_port b i) = Some s"
  shows "\<exists>r b'. bond_3ad_lacpdu_recv e fe alloc skb i b = Some (r, b') \<and> benign b b'"
  using rx_indication_benign [OF assms]
  by (cases "header_lacpdu skb") (auto simp: bond_3ad_lacpdu_recv_def benign_def)

lemma update_settings_benign:
  assumes "\<forall>s\<in>set ss. p_slave (b_port b s) = Some s"
  shows "\<exists>b'. update_settings_loop ss b = Some b' \<and> benign b b'"
  using assms
proof (induction ss arbitrary: b)
  case (Cons s ss)
  then obtain b1 where 1: "ad_actor_update_port s b = Some b1" "benign b b1" using actor_update_port_benign by force
  let ?b2 = "upd_port s (\<lambda>p. p\<lparr>ntt := True\<rparr>) b1"
  have g: "benign b ?b2" by (rule benign_trans [OF 1(2) benign_upd]) simp
  have "\<forall>s\<in>set ss. p_slave (b_port ?b2 s) = Some s" using Cons.prems benign_view(2) [OF g] by (metis list.set_intros(2))
  from Cons.IH [OF this] 1(1) benign_trans [OF g] show ?case by fastforce
qed simp

lemma actor_settings_benign:
  assumes "\<forall>s\<in>set (b_slaves b). p_slave (b_port b s) = Some s"
  shows "\<exists>b'. bond_3ad_update_ad_actor_settings b = Some b' \<and> benign b b'"
proof -
  let ?c = "b\<lparr>sys_priority := ad_actor_sys_prio (b_params b), sys_mac_addr :=
    (if is_zero_ether_addr (ad_actor_system (b_params b)) then dev_addr b else ad_actor_system (b_params b))\<rparr>"
  have "benign b ?c" by (simp add: benign_def)
  moreover have "\<forall>s\<in>set (b_slaves b). p_slave (b_port ?c s) = Some s" using assms by simp
  from update_settings_benign [OF this] obtain b' where "update_settings_loop (b_slaves b) ?c = Some b'" "benign ?c b'" by blast
  ultimately show ?thesis using benign_trans unfolding bond_3ad_update_ad_actor_settings_def by blast
qed

lemma oper_flag_fold:
  assumes "f \<noteq> COLLECTING" "f \<noteq> DISTRIBUTING"
  shows "benign b (fold (\<lambda>s. upd_port s (oper_flag v f)) ss b)"
proof (induction ss arbitrary: b)
  case (Cons s ss)
  have "port_benign p (oper_flag v f p)" for p using assms by (simp add: oper_flag_def port_benign_def)
  then have "benign b (upd_port s (oper_flag v f) b)" by (simp add: benign_def)
  from benign_trans [OF this Cons.IH] show ?case by (simp only: fold_simps)
qed simp

subsection \<open>A new slave\<close>

definition fresh_port :: "nat \<Rightarrow> ad_port \<Rightarrow> bool" where
  "fresh_port s p = (p_slave p = Some s \<and> p_aggregator p = None \<and> next_port_in_aggregator p = None \<and>
     \<not> collecting_state (sm_mux_state p) \<and> COLLECTING \<notin> actor_oper_port_state p \<and>
     DISTRIBUTING \<notin> actor_oper_port_state p \<and> \<not> on (sm_vars p) AD_PORT_SELECTED)"

definition fresh_agg :: "nat \<Rightarrow> aggregator \<Rightarrow> bool" where
  "fresh_agg s g = (lag_ports g = None \<and> num_of_ports g = 0 \<and> a_slave g = Some s \<and> \<not> is_active g)"

text \<open>The bond with the data of \<open>s\<close> in place; the other slaves see nothing.\<close>

definition newcomer :: "nat \<Rightarrow> ad_bond \<Rightarrow> ad_bond \<Rightarrow> bool" where
  "newcomer s b b' = (b_slaves b' = b_slaves b \<and> (\<forall>j. j \<noteq> s \<longrightarrow> port_benign (b_port b j) (b_port b' j) \<and> b_agg b' j = b_agg b j) \<and>
     fresh_port s (b_port b' s))"

lemma newcomer_benign: "newcomer s b b' \<Longrightarrow> benign b' b'' \<Longrightarrow> newcomer s b b''"
  unfolding newcomer_def benign_def fresh_port_def
  by (auto intro: port_benign_trans) (simp_all add: port_benign_def)

lemma bind_newcomer:
  assumes sl: "p_slave (b_port b s) = None" and e: "\<not> collecting_state (zero_mux e)"
  shows "\<exists>b'. bond_3ad_bind_slave e s b = Some b' \<and> newcomer s b b' \<and> fresh_agg s (b_agg b' s)"
proof -
  let ?b1 = "upd_port s (ad_initialize_port e (b_params b)) b"
  let ?b2 = "upd_slave s (\<lambda>x. x\<lparr>s_port_priority := actor_port_priority (b_port ?b1 s)\<rparr>) ?b1"
  let ?b3 = "upd_port s (\<lambda>p. p\<lparr>p_slave := Some s, actor_port_number := s_id (b_slave ?b2 s),
      actor_admin_port_key := push_bit 6 (ad_user_port_key (b_params ?b2))\<rparr>) ?b2"
  have 3: "newcomer s b ?b3"
    using e by (simp add: newcomer_def fresh_port_def ad_initialize_port_def Let_def)
  have "p_slave (b_port ?b3 s) = Some s" by simp
  from actor_keys_benign [OF this] obtain b4 where 4: "ad_update_actor_keys s False ?b3 = Some b4" "benign ?b3 b4" by blast
  note n4 = newcomer_benign [OF 3 4(2)]
  then have "p_slave (b_port b4 s) = Some s" by (simp add: newcomer_def fresh_port_def)
  from actor_update_port_benign [OF this] obtain b5 where 5: "ad_actor_update_port s b4 = Some b5" "benign b4 b5" by blast
  let ?b6 = "upd_port s (\<lambda>p. p\<lparr>sm_tx_timer_counter := ad_ticks_per_sec e div AD_MAX_TX_IN_SECOND\<rparr>) b5"
  have "benign b5 ?b6" by (rule benign_upd) simp
  note n6 = newcomer_benign [OF newcomer_benign [OF n4 5(2)] this]
  then have "p_slave (b_port ?b6 s) = Some s" by (simp add: newcomer_def fresh_port_def)
  from on_slave_flags [OF this] obtain b7 where 7: "disable_port e s ?b6 = Some b7" "flags_only ?b6 b7"
    unfolding disable_port_def by blast
  let ?b' = "upd_agg s (\<lambda>a. (ad_initialize_agg a)\<lparr>aggregator_mac_address := dev_addr b7,
    aggregator_identifier := last_agg_identifier b7 + 1, a_slave := Some s, is_active := False, num_of_ports := 0\<rparr>)
    (b7\<lparr>last_agg_identifier := last_agg_identifier b7 + 1\<rparr>)"
  have "bond_3ad_bind_slave e s b = Some ?b'"
    using sl 4(1) 5(1) 7(1) by (simp add: bond_3ad_bind_slave_def Let_def)
  moreover have "newcomer s b b7" using newcomer_benign [OF n6] 7(2) by (auto simp: flags_only_def benign_def)
  then have "newcomer s b ?b'" by (simp add: newcomer_def)
  moreover have "fresh_agg s (b_agg ?b' s)" by (simp add: fresh_agg_def ad_initialize_agg_def ad_clear_agg_def)
  ultimately show ?thesis by blast
qed

lemma link_newcomer:
  assumes ok: "bond_ok b" and s: "s \<notin> set (b_slaves b)" "length (b_slaves b) < 65535"
    and n: "newcomer s b b'" "fresh_agg s (b_agg b' s)"
  shows "bond_ok (bond_master_upper_dev_link s b')"
proof -
  obtain L where L: "lag_inv L b" using ok by (auto simp: bond_ok_def)
  let ?b = "bond_master_upper_dev_link s b'" and ?L = "L(s := [])"
  have sl: "b_slaves ?b = b_slaves b @ [s]" using n(1) by (simp add: bond_master_upper_dev_link_def newcomer_def)
  have v: "b_port ?b = b_port b'" "b_agg ?b = b_agg b'" by (simp_all add: bond_master_upper_dev_link_def)
  have new: "fresh_port s (b_port b' s)" using n(1) by (simp add: newcomer_def)
  have old: "j \<noteq> s" "b_agg b' j = b_agg b j" "port_benign (b_port b j) (b_port b' j)" if "j \<in> set (b_slaves b)" for j
    using s(1) that n(1) by (auto simp: newcomer_def)
  note D = lag_invD [OF L]
  have seg: "lseg (nextp ?b) (lag_ports (b_agg b a)) (L a)" if a: "a \<in> set (b_slaves b)" for a
  proof -
    have "nextp ?b i = nextp b i" if "i \<in> set (L a)" for i
      using old(3) [of i] D(3) [OF a] that by (auto simp: v port_benign_def)
    then show ?thesis using D(4) [OF a] lseg_cong [of "L a" "nextp ?b" "nextp b"] by simp
  qed
  have "lag_inv ?L ?b"
  proof (rule lag_invI)
    show "distinct (b_slaves ?b)" "length (b_slaves ?b) < 65536" using lag_inv_slaves [OF L] s by (simp_all add: sl)
    show "lseg (nextp ?b) (lag_ports (b_agg ?b a)) (?L a)" "a_slave (b_agg ?b a) = Some a"
      "unat (num_of_ports (b_agg ?b a)) = length (?L a)" if "a \<in> set (b_slaves ?b)" for a
      using that seg [of a] old [of a] D(2,5) [of a] n(2) by (auto simp: sl v fresh_agg_def)
    show "i \<in> set (b_slaves ?b) \<and> p_aggregator (b_port ?b i) = Some a" if "a \<in> set (b_slaves ?b)" "i \<in> set (?L a)" for a i
      using that old(3) [of i] D(3,7) [of a] by (auto simp: sl v port_benign_def split: if_splits)
    show "p_slave (b_port ?b i) = Some i" if "i \<in> set (b_slaves ?b)" for i
      using that old(3) [of i] D(6) [of i] new by (auto simp: sl v port_benign_def fresh_port_def)
    show "nextp ?b i = None" if "i \<in> set (b_slaves ?b)" "p_aggregator (b_port ?b i) = None" for i
      using that old(3) [of i] lag_inv_port(1) [OF L, of i] new by (auto simp: sl v port_benign_def fresh_port_def)
    show "a \<in> set (b_slaves ?b) \<and> i \<in> set (?L a)" if "i \<in> set (b_slaves ?b)" "p_aggregator (b_port ?b i) = Some a" for i a
      using that old(3) [of i] lag_inv_port(2) [OF L, of i] new s(1) by (auto simp: sl v port_benign_def fresh_port_def)
  qed
  moreover have "one_active ?b" using ok old(2) n(2) by (auto simp: bond_ok_def one_active_def sl v fresh_agg_def)
  moreover have "port_ok (b_port ?b i)" if "i \<in> set (b_slaves ?b)" for i
  proof (cases "i = s")
    case True
    then show ?thesis using new
      by (auto simp: v fresh_port_def port_ok_def mux_bits_def collecting_state_def distributing_state_def)
  next
    case False
    then show ?thesis using that ok port_benign_ok [OF old(3)] by (simp add: sl v bond_ok_def)
  qed
  ultimately show ?thesis by (rule bond_okI)
qed

text \<open>Only the data of the slaves of the bond count.\<close>

lemma local_ok:
  assumes ok: "bond_ok b" and sl: "b_slaves b' = b_slaves b"
    and old: "\<And>j. j \<in> set (b_slaves b) \<Longrightarrow> port_benign (b_port b j) (b_port b' j) \<and> b_agg b' j = b_agg b j"
  shows "bond_ok b'"
proof -
  obtain L where L: "lag_inv L b" using ok by (auto simp: bond_ok_def)
  note D = lag_invD [OF L] and P = lag_inv_port [OF L]
  have v: "p_slave (b_port b' j) = p_slave (b_port b j)" "p_aggregator (b_port b' j) = p_aggregator (b_port b j)"
    "nextp b' j = nextp b j" "b_agg b' j = b_agg b j" if "j \<in> set (b_slaves b)" for j
    using old [OF that] by (simp_all add: port_benign_def)
  have seg: "lseg (nextp b') (lag_ports (b_agg b a)) (L a)" if a: "a \<in> set (b_slaves b)" for a
    using D(4) [OF a] lseg_cong [of "L a" "nextp b'" "nextp b"] v(3) D(3) [OF a] by auto
  have "lag_inv L b'"
  proof (rule lag_invI)
    show "distinct (b_slaves b')" "length (b_slaves b') < 65536" using lag_inv_slaves [OF L] by (simp_all add: sl)
    show "i \<in> set (b_slaves b') \<and> p_aggregator (b_port b' i) = Some a" if "a \<in> set (b_slaves b')" "i \<in> set (L a)" for a i
      using that D(3,7) [of a] v(2) [of i] by (auto simp: sl)
  qed (use seg v D(2,5,6) P in \<open>auto simp: sl\<close>)
  moreover have "one_active b'" using ok v(4) by (auto simp: bond_ok_def one_active_def sl)
  moreover have "port_ok (b_port b' i)" if "i \<in> set (b_slaves b')" for i
    using that ok old port_benign_ok by (auto simp: sl bond_ok_def)
  ultimately show ?thesis by (rule bond_okI)
qed

lemma undo_ok:
  assumes ok: "bond_ok b" and s: "s \<in> set (b_slaves b)" "unused_3ad s b"
  shows "\<exists>b'. bond_enslave_undo s b = Some b' \<and> bond_ok b'"
proof -
  obtain L where L: "lag_inv L b" using ok by (auto simp: bond_ok_def)
  have "\<forall>t\<in>set (b_slaves b). s \<notin> set (L t)" using s(2) lag_invD(7) [OF L] by (fastforce simp: unused_3ad_def)
  moreover have "L s = []" using s lag_invD(4) [OF L s(1)] by (cases "L s") (auto simp: unused_3ad_def)
  ultimately have c: "bond_ok (bond_upper_dev_unlink s (upd_port s (\<lambda>p. p\<lparr>p_slave := None\<rparr>) b))" (is "bond_ok ?c")
    using unlink_dev_ok [OF bond_ok_but [OF L ok] s(1)] by blast
  have "distinct (b_slaves b)" using lag_inv_slaves [OF L] by simp
  then have "bond_ok (bond_upper_dev_unlink s b)"
    by (intro local_ok [OF c]) (auto simp: bond_upper_dev_unlink_def)
  then show ?thesis by (simp add: bond_enslave_undo_def)
qed

lemma active_info_returns:
  assumes ok: "bond_ok b"
  shows "\<exists>r. bond_3ad_get_active_agg_info b = Some r"
proof -
  obtain L where L: "lag_inv L b" using ok by (auto simp: bond_ok_def)
  have "\<exists>s\<in>set ss. p_aggregator (b_port b s) = Some a" if "active_info_loop b ss = Some a" for ss a
    using that by (induction ss) (auto split: option.splits if_splits)
  then have "a \<in> set (b_slaves b)" if "active_info_loop b (b_slaves b) = Some a" for a
    using that lag_inv_port(2) [OF L] by blast
  then show ?thesis
    using active_ports_eq [OF lag_lists [OF L]] by (auto simp: bond_3ad_get_active_agg_info_def Let_def split: option.split)
qed

lemma newcomer_from: "newcomer s b b'' \<Longrightarrow> b_slaves b = b_slaves b' \<Longrightarrow> \<forall>j. j \<noteq> s \<longrightarrow> b_port b j = b_port b' j \<and> b_agg b j = b_agg b' j \<Longrightarrow>
    newcomer s b' b''"
  by (simp add: newcomer_def)

lemma enslave_3ad_newcomer:
  assumes "p_slave p = None" "\<not> collecting_state (zero_mux e)"
  shows "\<exists>b'. enslave_3ad e s (bond_alloc_slave s x p g b) = Some b' \<and> newcomer s b b' \<and> fresh_agg s (b_agg b' s)"
proof -
  define b0 where "b0 = upd_slave s (\<lambda>x. x\<lparr>s_flags := set_slave_inactive_flags e (s_flags x)\<rparr>) (bond_alloc_slave s x p g b)"
  define b1 where "b1 = (if b_slaves b0 = [] then bond_3ad_initialize e (upd_slave s (\<lambda>x. x\<lparr>s_id := 1\<rparr>) b0)
    else upd_slave s (\<lambda>x. x\<lparr>s_id := s_id (b_slave b0 (last (b_slaves b0))) + 1\<rparr>) b0)"
  have 0: "b_slaves b0 = b_slaves b" "b_port b0 = (b_port b)(s := p)" "b_agg b0 = (b_agg b)(s := g)"
    by (simp_all add: b0_def bond_alloc_slave_def)
  have 1: "b_slaves b1 = b_slaves b0" "b_port b1 = b_port b0" "b_agg b1 = b_agg b0"
    by (simp_all add: b1_def bond_3ad_initialize_def bond_3ad_initiate_agg_selection_def Let_def)
  have "p_slave (b_port b1 s) = None" using assms(1) by (simp add: 0 1)
  from bind_newcomer [OF this assms(2)] obtain b2 where
    2: "bond_3ad_bind_slave e s b1 = Some b2" "newcomer s b1 b2" "fresh_agg s (b_agg b2 s)" by blast
  have "newcomer s b b2" by (rule newcomer_from [OF 2(2)]) (simp_all add: 0 1)
  then show ?thesis using 2(1,3) by (simp add: enslave_3ad_def b0_def [symmetric] b1_def [symmetric])
qed

lemma bind_failed_ok:
  assumes "bond_ok b" "s \<notin> set (b_slaves b)" "p_slave p = None" "\<not> collecting_state (zero_mux e)"
  shows "\<exists>b'. enslave_3ad e s (bond_alloc_slave s x p g b) = Some b' \<and> bond_ok b'"
proof -
  obtain b' where b': "enslave_3ad e s (bond_alloc_slave s x p g b) = Some b'" "newcomer s b b'"
    using enslave_3ad_newcomer [OF assms(3,4)] by blast
  have "bond_ok b'" by (rule local_ok [OF assms(1)]) (use b'(2) assms(2) in \<open>auto simp: newcomer_def\<close>)
  with b'(1) show ?thesis by blast
qed

lemma enslave_ok:
  assumes ok: "bond_ok b" and s: "s \<notin> set (b_slaves b)" "length (b_slaves b) < 65535" "p_slave p = None"
    and e: "\<not> collecting_state (zero_mux e)"
  shows "\<exists>b'. bond_enslave e s x p g b = Some b' \<and> bond_ok b' \<and> b_slaves b' = b_slaves b @ [s]"
proof -
  obtain b2 where 2: "enslave_3ad e s (bond_alloc_slave s x p g b) = Some b2" "newcomer s b b2" "fresh_agg s (b_agg b2 s)"
    using enslave_3ad_newcomer [OF s(3) e] by blast
  have "b_slaves (bond_master_upper_dev_link s b2) = b_slaves b @ [s]"
    using 2(2) by (simp add: newcomer_def bond_master_upper_dev_link_def)
  then show ?thesis using link_newcomer [OF ok s(1,2) 2(2,3)] 2(1) by (simp add: bond_enslave_def)
qed

subsection \<open>Reachable bonds\<close>

lemma benign_refines: "bond_ok b \<Longrightarrow> \<exists>b'. x = Some b' \<and> benign b b' \<Longrightarrow> \<exists>b'. x = Some b' \<and> bond_ok b'"
  using benign_ok by blast

lemma settings_ok:
  assumes "bond_ok b" "benign b c"
  shows "\<exists>b'. bond_3ad_update_ad_actor_settings c = Some b' \<and> bond_ok b'"
  using benign_refines [OF benign_ok [OF assms(2,1)]] actor_settings_benign bond_ok_slave [OF benign_ok [OF assms(2,1)]] by blast

lemma flag_setters_benign: "benign b (bond_option_lacp_active_set v b)" "benign b (bond_option_lacp_rate_set v b)"
  unfolding bond_option_lacp_active_set_def bond_3ad_update_lacp_active_def
    bond_option_lacp_rate_set_def bond_3ad_update_lacp_rate_def
  by (rule benign_trans [OF _ oper_flag_fold]; simp add: benign_def)+

lemma actor_setters_ok:
  assumes ok: "bond_ok b"
  shows "\<exists>b'. bond_option_ad_actor_sys_prio_set v b = Some b' \<and> bond_ok b'"
    "\<exists>b'. bond_option_actor_port_prio_set s v b = Some b' \<and> bond_ok b'"
    "\<exists>r b'. bond_option_ad_actor_system_set multicast mac b = Some (r, b') \<and> bond_ok b'"
proof -
  have "benign b (b\<lparr>b_params := p\<rparr>)" "benign b (upd_slave s f b)" for p f by (simp_all add: benign_def)
  note new = settings_ok [OF ok this(1)] settings_ok [OF ok this(2)]
  show "\<exists>b'. bond_option_ad_actor_sys_prio_set v b = Some b' \<and> bond_ok b'"
    "\<exists>b'. bond_option_actor_port_prio_set s v b = Some b' \<and> bond_ok b'"
    unfolding bond_option_ad_actor_sys_prio_set_def bond_option_actor_port_prio_set_def by (rule new)+
  show "\<exists>r b'. bond_option_ad_actor_system_set multicast mac b = Some (r, b') \<and> bond_ok b'"
  proof (cases mac)
    case (Some m)
    with ok new(1) [of "(b_params b)\<lparr>ad_actor_system := m\<rparr>"] show ?thesis
      by (auto simp: bond_option_ad_actor_system_set_def)
  qed (use ok in \<open>simp add: bond_option_ad_actor_system_set_def\<close>)
qed

lemma happens_ok:
  assumes ok: "bond_ok b" and ev: "may_happen ev b" and e: "\<not> collecting_state (zero_mux (w_env w))"
  shows "\<exists>b'. ad_happens w ev b = Some b' \<and> bond_ok b'"
proof (cases ev)
  case (Enslave s x p g)
  with enslave_ok [OF ok _ _ _ e, of s p x g] ev show ?thesis by auto
next
  case (BindFailed s x p g)
  with bind_failed_ok [OF ok _ _ e, of s p x g] ev show ?thesis by auto
next
  case (EnslaveUndone s)
  with undo_ok [OF ok, of s] ev show ?thesis by auto
next
  case QueryInfo
  with active_info_returns [OF ok] ok show ?thesis by auto
next
  case (Release alloc s)
  with unbind_ok [OF ok, of s "w_env w" alloc] ev show ?thesis by (auto simp: bond_release_one_def)
next
  case Open
  have "benign b (bond_open b)" by (simp add: bond_open_def bond_3ad_initiate_agg_selection_def benign_def)
  with Open benign_ok ok show ?thesis by auto
next
  case Carrier
  have "\<exists>r b'. bond_set_carrier b = Some (r, b') \<and> benign b b'"
    using set_carrier_ok [OF ok] by (cases "b_slaves b") (simp_all add: bond_set_carrier_def benign_def)
  with Carrier benign_ok [OF _ ok] show ?thesis by auto
next
  case (Tick alloc)
  with run_machines_ok [OF ok, of "w_env w" alloc] show ?thesis by (auto simp: bond_3ad_state_machine_handler_def)
next
  case (Receive alloc skb s)
  with lacpdu_recv_benign [OF bond_ok_slave [OF ok], of s "w_env w" "w_frame w" alloc skb] ev benign_ok [OF _ ok]
  show ?thesis by auto
next
  case (LinkChange s link)
  with link_change_ok [OF ok, of s "w_env w" link] ev show ?thesis by auto
next
  case (SpeedChange s)
  with benign_refines [OF ok speed_change_benign] show ?thesis by simp
next
  case (SetActive v)
  with benign_ok [OF flag_setters_benign(1) ok] show ?thesis by simp
next
  case (SetRate v)
  with benign_ok [OF flag_setters_benign(2) ok] show ?thesis by simp
next
  case (SetSysPrio v)
  with actor_setters_ok(1) [OF ok] show ?thesis by simp
next
  case (SetPortPrio s v)
  with actor_setters_ok(2) [OF ok] show ?thesis by simp
next
  case (SetSystem mac)
  with actor_setters_ok(3) [OF ok, of "w_multicast w" mac] show ?thesis by auto
qed (use benign_ok [OF _ ok] in \<open>auto simp: benign_def bond_option_ad_select_set_def bond_option_ad_user_port_key_set_def
       bond_option_coupled_control_set_def\<close>)

lemma empty_ok: "b_slaves b = [] \<Longrightarrow> bond_ok b"
  by (rule bond_okI [of "\<lambda>_. []"]) (auto simp: lag_inv_def lists_ok_def one_active_def)

lemma reachable_ok:
  assumes "ad_reachable w b" "\<not> collecting_state (zero_mux (w_env w))"
  shows "bond_ok b"
  using assms(1)
proof induction
  case (created b)
  then show ?case by (rule empty_ok)
next
  case (event b ev b')
  with happens_ok [OF event.IH event.hyps(2) assms(2)] show ?case by simp
qed

lemma reachable_lag: "ad_reachable w b \<Longrightarrow> \<not> collecting_state (zero_mux (w_env w)) \<Longrightarrow> \<exists>L. lag_inv L b"
  using reachable_ok by (auto simp: bond_ok_def)

lemma lseg_closed: "lseg nxt h xs \<Longrightarrow> set_option h \<subseteq> set xs \<and> (\<forall>i\<in>set xs. set_option (nxt i) \<subseteq> set xs)"
proof (induction xs arbitrary: h)
  case (Cons x xs)
  then have "set_option (nxt x) \<subseteq> set xs \<and> (\<forall>i\<in>set xs. set_option (nxt i) \<subseteq> set xs)" "h = Some x" by auto
  then show ?case by auto
qed simp

subsection \<open>The properties of every bond\<close>


definition sample_world :: ad_world where
  "sample_world = \<lparr>w_env = sample_env, w_frame = \<lparr>AD_TYPE_LACPDU = 1, AD_TYPE_MARKER = 2, AD_MARKER_INFORMATION_SUBTYPE = 1,
     AD_MARKER_RESPONSE_SUBTYPE = 2, as_marker = (\<lambda>l. \<lparr>tlv_type = 1, marker_body = []\<rparr>)\<rparr>, w_multicast = (\<lambda>_. False)\<rparr>"

definition new_bond :: ad_bond where
  "new_bond = sample_bond\<lparr>b_slaves := []\<rparr>"

definition new_slave :: "nat \<Rightarrow> ad_event" where
  "new_slave s = Enslave s (sample_slave s) ((sample_port 1 1)\<lparr>p_slave := None\<rparr>) (sample_agg s)"

lemma sample_world_zero: "\<not> collecting_state (zero_mux (w_env sample_world))"
  by (simp add: sample_world_def sample_env_def collecting_state_def)

lemma new_bond_reachable: "ad_reachable sample_world new_bond"
  by (rule ad_reachable.created) (simp add: new_bond_def)

text \<open>A bond with one slave, reached by enslaving it.\<close>

lemma first_slave:
  "\<exists>b. ad_happens sample_world (new_slave 0) new_bond = Some b \<and> b_slaves b = [0] \<and> ad_reachable sample_world b"
proof -
  have "bond_ok new_bond" by (rule empty_ok) (simp add: new_bond_def)
  from enslave_ok [OF this _ _ _ sample_world_zero, of 0 "(sample_port 1 1)\<lparr>p_slave := None\<rparr>" "sample_slave 0" "sample_agg 0"]
  obtain b where b: "ad_happens sample_world (new_slave 0) new_bond = Some b" "b_slaves b = [0]"
    by (auto simp: new_bond_def new_slave_def)
  moreover have "ad_reachable sample_world b"
    by (rule ad_reachable.event [OF new_bond_reachable _ b(1)]) (simp add: new_bond_def new_slave_def)
  ultimately show ?thesis by blast
qed


text \<open>
  C2: The bookkeeping of a reachable bond is exact: the list of an aggregator is finite, has no port
  twice and holds the ports that point to this aggregator and no others; \<open>num_of_ports\<close> is its length,
  and no two aggregators are active.
\<close>

theorem reachable_lists:
  assumes "ad_reachable w b" "\<not> collecting_state (zero_mux (w_env w))" "a \<in> set (b_slaves b)"
  shows "\<exists>ps. agg_ports b a = Some ps \<and> distinct ps \<and> set ps = {i \<in> set (b_slaves b). p_aggregator (b_port b i) = Some a} \<and>
    unat (num_of_ports (b_agg b a)) = length ps \<and>
    (is_active (b_agg b a) \<longrightarrow> (\<forall>t\<in>set (b_slaves b). is_active (b_agg b t) \<longrightarrow> t = a))"
proof -
  obtain L where L: "lag_inv L b" using reachable_lag [OF assms(1,2)] by blast
  note D = lag_invD [OF L assms(3)]
  have "set (L a) = {i \<in> set (b_slaves b). p_aggregator (b_port b i) = Some a}"
    using D(3,7) lag_inv_port(2) [OF L] by blast
  moreover have "distinct (L a)" by (rule lseg_distinct [OF D(4)])
  moreover have "one_active b" using reachable_ok [OF assms(1,2)] by (simp add: bond_ok_def)
  ultimately show ?thesis using D(1,5) assms(3) unfolding one_active_def by blast
qed

theorem reachable_lists_witness:
  "\<exists>b ps. ad_happens sample_world (new_slave 0) new_bond = Some b \<and> agg_ports b 0 = Some ps \<and> distinct ps \<and> set ps \<subseteq> {0}"
proof -
  obtain b where b: "ad_happens sample_world (new_slave 0) new_bond = Some b" "b_slaves b = [0]" "ad_reachable sample_world b"
    using first_slave by blast
  have "0 \<in> set (b_slaves b)" using b(2) by simp
  from reachable_lists [OF b(3) sample_world_zero this] b(1,2) show ?thesis by auto
qed





lemma background_slaves:
  assumes "bond_ok b" "may_happen ev b" "background ev" "ad_happens w ev b = Some b'"
  shows "b_slaves b' = b_slaves b"
proof (cases ev)
  case (Tick alloc)
  with run_machines_ok [OF assms(1), of "w_env w" alloc] assms(4) show ?thesis by (auto simp: bond_3ad_state_machine_handler_def)
next
  case (Receive alloc skb s)
  with lacpdu_recv_benign [OF bond_ok_slave [OF assms(1)], of s "w_env w" "w_frame w" alloc skb] assms(2,4) benign_view(1)
  show ?thesis by auto
qed (use assms(3) in simp_all)

lemma background_run_slaves:
  assumes "\<not> collecting_state (zero_mux (w_env w))"
  shows "ad_reachable w b \<Longrightarrow> list_all background evs \<Longrightarrow> ad_run w evs b = Some b' \<Longrightarrow> b_slaves b' = b_slaves b"
proof (induction evs arbitrary: b)
  case (Cons ev evs)
  then obtain b1 where b1: "may_happen ev b" "ad_happens w ev b = Some b1" "ad_run w evs b1 = Some b'"
    by (auto split: if_splits bind_splits)
  have "b_slaves b1 = b_slaves b"
    using background_slaves [OF reachable_ok [OF Cons.prems(1) assms] b1(1) _ b1(2)] Cons.prems(2) by simp
  with Cons.IH [OF ad_reachable.event [OF Cons.prems(1) b1(1,2)] _ b1(3)] Cons.prems(2) show ?case by simp
qed simp

text \<open>
  C12: When \<open>bond_enslave\<close> fails after the new slave has been linked, its error path unlinks and frees
  the slave but does not unbind it. Ticks and received LACPDUs do not wait for \<open>bond_enslave\<close>: if those that come between the
  linking and the failure have put the port of the slave into the list of another aggregator, that list goes on
  through the freed port after the error path.
\<close>

theorem failed_enslave_dangles:
  assumes "ad_reachable w b" "\<not> collecting_state (zero_mux (w_env w))"
    and "may_happen (Enslave s x p g) b" "ad_happens w (Enslave s x p g) b = Some b1"
    and "list_all background evs" "ad_run w evs b1 = Some b2" "p_aggregator (b_port b2 s) = Some a" "a \<noteq> s"
  shows "\<exists>b3. bond_enslave_undo s b2 = Some b3 \<and> a \<in> set (b_slaves b3) \<and> s \<notin> set (b_slaves b3) \<and>
    (\<exists>ps. agg_ports b3 a = Some ps \<and> s \<in> set ps)"
proof -
  have 1: "ad_reachable w b1" by (rule ad_reachable.event [OF assms(1,3,4)])
  have "s \<in> set (b_slaves b1)" using enslave_ok [OF reachable_ok [OF assms(1,2)] _ _ _ assms(2), of s p x g] assms(3,4) by auto
  then have s: "s \<in> set (b_slaves b2)" using background_run_slaves [OF assms(2) 1 assms(5,6)] by simp
  obtain L where L: "lag_inv L b2" using reachable_lag [OF run_reachable [OF 1 assms(6)] assms(2)] by blast
  have a: "a \<in> set (b_slaves b2)" "s \<in> set (L a)" using lag_inv_port(2) [OF L s assms(7)] by auto
  have "agg_ports (bond_upper_dev_unlink s b2) a = agg_ports b2 a" by (simp add: agg_ports_def bond_upper_dev_unlink_def)
  moreover have "distinct (b_slaves b2)" using lag_inv_slaves [OF L] by simp
  ultimately show ?thesis using a assms(8) lag_invD(1) [OF L a(1)] by (simp add: bond_enslave_undo_def bond_upper_dev_unlink_def)
qed

text \<open>
  A run in which this happens: two equal slaves are enslaved; after a tick both receive LACPDUs from the same
  partner, and the next tick puts both ports into the list of the first aggregator. The data of the
  slaves are kept in two slots, which the simplifier can update.
\<close>

definition two_slots :: "'a \<Rightarrow> 'a \<Rightarrow> 'a \<Rightarrow> nat \<Rightarrow> 'a" where
  "two_slots x y z i = (if i = 0 then x else if i = 1 then y else z)"

lemma two_slots_simps:
  "two_slots x y z 0 = x" "two_slots x y z (Suc 0) = y" "(two_slots x y z)(0 := v) = two_slots v y z"
  "(two_slots x y z)(Suc 0 := v) = two_slots x v z"
  by (auto simp: two_slots_def fun_eq_iff)

definition zeroed_port :: ad_port where
  "zeroed_port = (sample_port 1 1)\<lparr>p_slave := None\<rparr>"

definition blank_bond :: ad_bond where
  "blank_bond = sample_bond\<lparr>b_slaves := [], b_slave := two_slots (sample_slave 0) (sample_slave 0) (sample_slave 0),
     b_port := two_slots zeroed_port zeroed_port zeroed_port, b_agg := two_slots (sample_agg 0) (sample_agg 0) (sample_agg 0)\<rparr>"

definition twin :: "nat \<Rightarrow> ad_event" where
  "twin s = Enslave s (sample_slave 0) zeroed_port (sample_agg 0)"

definition partner_frame :: rx_skb where
  "partner_frame = \<lparr>is_lacp_protocol = True, h_dest = lacpdu_mcast_addr,
     header_lacpdu = Some ((p_lacpdu (update_lacpdu_from_port (sample_port 2 7)))\<lparr>subtype := 1\<rparr>)\<rparr>"

definition joining :: "ad_event list" where
  "joining = [Tick (\<lambda>_. True), Receive True partner_frame 0, Receive True partner_frame 0, Receive True partner_frame 1,
     Receive True partner_frame 1, Tick (\<lambda>_. True)]"

lemma bind_weak_cong: "x = y \<Longrightarrow> Option.bind x f = Option.bind y f"
  by simp

lemmas eval_port = AD_PORT_BEGIN_def AD_PORT_LACP_ENABLED_def AD_PORT_ACTOR_CHURN_def AD_PORT_PARTNER_CHURN_def AD_PORT_READY_def
  AD_PORT_READY_N_def AD_PORT_MATCHED_def AD_PORT_STANDBY_def AD_PORT_SELECTED_def AD_PORT_CHURNED_def on_def
  MAC_ADDRESS_EQUAL_def is_zero_ether_addr_def ad_timer_to_ticks_def choose_matched_def record_pdu_def record_default_def
  update_selected_def update_default_selected_def update_ntt_def update_lacpdu_from_port_def rx_transition_def rx_action_def
  rx_machine_def churn_actor_def churn_partner_def ad_churn_machine_def tx_machine_def periodic_transition_def ad_periodic_machine_def

lemmas eval_agg = get_first_agg_def agg_has_partner_def on_slave_def on_up_slave_def disable_distributing_port_def
  enable_collecting_port_def disable_port_def enable_port_def get_agg_selection_mode_def check_agg_selection_timer_def
  speed_code_def get_link_speed_def get_duplex_def lag_list.simps agg_ports_def agg_ports_are_ready_def set_ready_def
  set_agg_ports_ready_def agg_active_ports_def agg_ports_priority_def code_bandwidth_def get_agg_bandwidth_def get_active_agg_def
  ad_clear_agg_def ad_initialize_agg_def bandwidth_test_def count_test_def prio_test_def ad_agg_selection_test_def agg_device_up_def
  bond_3ad_set_carrier_def keeps_stable_def stable_step_def activate_best_def enable_individuals_def
  ad_agg_selection_logic_def suits_def join_agg_def found_agg_def detach_port_def attach_port_def ad_port_selection_logic_def

lemmas eval_mux = count_stat_def ad_lacpdu_send_def ad_rx_machine_def ad_tx_machine_def ad_cond_set_peer_notif_def
  ad_enable_collecting_def ad_disable_distributing_def ad_enable_collecting_distributing_def
  ad_disable_collecting_distributing_def port_move_to_attached_state_def port_is_collecting_distributing_def
  update_ready_def mux_state_def unready_detach_def wait_tick_def mux_waiting_def mux_attached_def mux_keep_enabled_def
  mux_collecting_def mux_distributing_def mux_transition_def oper_bits_def need_tx_def mux_action_def ad_mux_machine_def

lemmas eval_bond = ad_actor_update_port_def ad_update_actor_keys_def port_tmpl_def lacpdu_tmpl_def ad_initialize_port_def
  bond_3ad_initiate_agg_selection_def bond_3ad_initialize_def bond_3ad_bind_slave_def bond_agg_timer_advance_def run_port_def
  run_machines_def bond_3ad_state_machine_handler_def bond_3ad_rx_indication_def bond_3ad_lacpdu_recv_def
  bond_alloc_slave_def enslave_3ad_def bond_master_upper_dev_link_def bond_enslave_def

lemmas eval_data = two_slots_simps no_params_def no_lacpdu_def sample_port_def sample_env_def sample_agg_def no_stats_def
  sample_slave_def sample_params_def sample_bond_def sample_world_def zeroed_port_def blank_bond_def twin_def
  partner_frame_def joining_def

lemma joining_run:
  "\<exists>b. ad_run sample_world (twin 0 # twin 1 # joining) blank_bond = Some b \<and> p_aggregator (b_port b 1) = Some 0"
  by (simp add: eval_port eval_agg eval_mux eval_bond eval_data Let_def
      cong: bind_weak_cong let_weak_cong prod.case_cong_weak option.case_cong_weak if_weak_cong)

theorem failed_enslave_dangles_witness:
  "\<exists>b b1 b2 b3 ps. ad_happens sample_world (twin 0) blank_bond = Some b \<and> ad_happens sample_world (twin 1) b = Some b1 \<and>
     ad_run sample_world joining b1 = Some b2 \<and> bond_enslave_undo 1 b2 = Some b3 \<and> 1 \<notin> set (b_slaves b3) \<and>
     agg_ports b3 0 = Some ps \<and> 1 \<in> set ps"
proof -
  obtain b2 where run: "ad_run sample_world (twin 0 # twin 1 # joining) blank_bond = Some b2" "p_aggregator (b_port b2 1) = Some 0"
    using joining_run by blast
  then obtain b b1 where b: "may_happen (twin 0) blank_bond" "ad_happens sample_world (twin 0) blank_bond = Some b"
    "may_happen (twin 1) b" "ad_happens sample_world (twin 1) b = Some b1" "ad_run sample_world joining b1 = Some b2"
    by (auto split: if_splits bind_splits)
  have "ad_reachable sample_world blank_bond" by (rule ad_reachable.created) (simp add: blank_bond_def)
  then have r: "ad_reachable sample_world b" by (rule ad_reachable.event [OF _ b(1,2)])
  have j: "list_all background joining" by (simp add: joining_def)
  from failed_enslave_dangles [OF r sample_world_zero b(3,4) [unfolded twin_def] j b(5) run(2)] b(2,4,5)
  show ?thesis by (auto simp: twin_def)
qed

end
