(* ===== verification/Index_List.thy ===== *)
theory Index_List
  imports Prelude
begin

text \<open>
  Doubly linked lists whose links are indices into a table, as the hash tables of servers/bond_alb.c
  thread them through their entries: insertion at the head, removal from any place, and the two forms
  of the loop over such a list. The predecessor of the first element is a parameter: it is no index
  for a list of its own and the index of the list head for a list that starts in a table entry.
\<close>

fun dseg :: "('i \<Rightarrow> 'i option) \<Rightarrow> ('i \<Rightarrow> 'i option) \<Rightarrow> 'i option \<Rightarrow> 'i option \<Rightarrow> 'i list \<Rightarrow> bool" where
  "dseg nxt prv p h [] = (h = None)"
| "dseg nxt prv p h (x # xs) = (h = Some x \<and> prv x = p \<and> dseg nxt prv (Some x) (nxt x) xs)"

lemma dseg_None [simp]: "dseg nxt prv p None xs = (xs = [])"
  by (cases xs) auto

lemma dseg_cong:
  "(\<And>i. i \<in> set xs \<Longrightarrow> nxt i = nxt' i \<and> prv i = prv' i) \<Longrightarrow> dseg nxt prv p h xs = dseg nxt' prv' p h xs"
  by (induction xs arbitrary: p h) auto

lemma dseg_unique: "dseg nxt prv p h xs \<Longrightarrow> dseg nxt prv q h ys \<Longrightarrow> xs = ys"
proof (induction xs arbitrary: p q h ys)
  case Nil
  then show ?case by simp
next
  case (Cons x xs)
  then show ?case by (cases ys) auto
qed

lemma dseg_append: "dseg nxt prv p h (xs @ ys) \<Longrightarrow> \<exists>q h'. dseg nxt prv q h' ys"
  by (induction xs arbitrary: p h) auto

lemma dseg_distinct: "dseg nxt prv p h xs \<Longrightarrow> distinct xs"
proof (induction xs arbitrary: p h)
  case (Cons x xs)
  have "x \<notin> set xs"
  proof
    assume "x \<in> set xs"
    then obtain us vs where xs: "xs = us @ x # vs" by (auto dest: split_list)
    with Cons.prems have "dseg nxt prv (Some x) (nxt x) (us @ x # vs)" by simp
    then obtain q h' where "dseg nxt prv q h' (x # vs)" using dseg_append by blast
    then have "dseg nxt prv (Some x) (nxt x) vs" by simp
    moreover have "dseg nxt prv (Some x) (nxt x) xs" using Cons.prems by simp
    ultimately have "vs = xs" using dseg_unique by blast
    with xs show False by (simp add: append_eq_Cons_conv)
  qed
  with Cons show ?case by auto
qed simp

text \<open>The neighbours of an element.\<close>

definition hd_opt :: "'i list \<Rightarrow> 'i option" where
  "hd_opt xs = (case xs of [] \<Rightarrow> None | x # _ \<Rightarrow> Some x)"

lemma hd_opt_simps [simp]: "hd_opt [] = None" "hd_opt (x # xs) = Some x"
  by (simp_all add: hd_opt_def)

lemma hd_opt_Some: "hd_opt xs = Some x \<Longrightarrow> x \<in> set xs"
  by (cases xs) auto

lemma dseg_head: "dseg nxt prv p h xs \<Longrightarrow> h = hd_opt xs"
  by (cases xs) auto

lemma dseg_mid:
  assumes "dseg nxt prv p h (xs @ x # ys)"
  shows "nxt x = hd_opt ys" "prv x = (if xs = [] then p else Some (last xs))" "dseg nxt prv (Some x) (nxt x) ys"
  using assms by (induction xs arbitrary: p h) (auto dest: dseg_head)

text \<open>Insertion at the head: \<open>x\<close> takes the place of the first element, which points back to it.\<close>

lemma dseg_push:
  assumes "dseg nxt prv p h xs" "nxt' x = h" "prv' x = p"
    and "\<And>i. i \<in> set xs \<Longrightarrow> nxt' i = nxt i \<and> prv' i = (if h = Some i then Some x else prv i)"
  shows "dseg nxt' prv' p (Some x) (x # xs)"
proof (cases xs)
  case Nil
  with assms(1-3) show ?thesis by simp
next
  case (Cons y ys)
  have "y \<notin> set ys" using dseg_distinct [OF assms(1)] Cons by simp
  then have "nxt i = nxt' i \<and> prv i = prv' i" if "i \<in> set ys" for i
    using assms(1) assms(4) [of i] that Cons by auto
  then have "dseg nxt prv (Some y) (nxt y) ys = dseg nxt' prv' (Some y) (nxt y) ys" by (rule dseg_cong)
  with assms(1-3) assms(4) [of y] Cons show ?thesis by auto
qed

text \<open>Removal: the neighbours of \<open>x\<close> are linked to each other.\<close>

lemma dseg_remove:
  assumes "dseg nxt prv p h (xs @ x # ys)"
    and "\<And>i. i \<in> set xs \<union> set ys \<Longrightarrow> nxt' i = (if xs \<noteq> [] \<and> i = last xs then hd_opt ys else nxt i)"
    and "\<And>i. i \<in> set xs \<union> set ys \<Longrightarrow> prv' i = (if hd_opt ys = Some i then prv x else prv i)"
  shows "dseg nxt' prv' p (hd_opt (xs @ ys)) (xs @ ys)"
  using assms
proof (induction xs arbitrary: p h)
  case Nil
  have d: "distinct (x # ys)" using dseg_distinct [OF Nil.prems(1)] by simp
  show ?case
  proof (cases ys)
    case (Cons y zs)
    then have "nxt i = nxt' i \<and> prv i = prv' i" if "i \<in> set zs" for i
      using Nil.prems(2,3) [of i] that d by auto
    then have "dseg nxt prv (Some y) (nxt y) zs = dseg nxt' prv' (Some y) (nxt y) zs" by (rule dseg_cong)
    with Nil.prems Cons show ?thesis by auto
  qed simp
next
  case (Cons w xs)
  have d: "distinct (w # xs @ x # ys)" using dseg_distinct [OF Cons.prems(1)] by simp
  have rest: "dseg nxt prv (Some w) (nxt w) (xs @ x # ys)" using Cons.prems(1) by simp
  have tail: "dseg nxt' prv' (Some w) (hd_opt (xs @ ys)) (xs @ ys)"
    by (rule Cons.IH [OF rest]) (use Cons.prems(2,3) d in \<open>auto split: if_splits\<close>)
  have "nxt' w = hd_opt (xs @ ys)"
  proof (cases xs)
    case Nil
    with Cons.prems(2) [of w] show ?thesis by simp
  next
    case (Cons v vs)
    with Cons.prems(1) Cons.prems(2) [of w] d show ?thesis by (auto split: if_splits)
  qed
  moreover have "prv' w = p"
    using Cons.prems(1) Cons.prems(3) [of w] d hd_opt_Some [of ys w] by auto
  ultimately show ?case using tail by simp
qed

text \<open>
  The loops over a list: \<open>walk_before\<close> reads the next index before the body runs, \<open>walk_after\<close>
  afterwards. A loop that runs in a circle never ends (\<open>None\<close>).
\<close>

partial_function (option) walk_before ::
  "('s \<Rightarrow> 'i \<Rightarrow> 'i option) \<Rightarrow> ('i \<Rightarrow> 's \<Rightarrow> 's) \<Rightarrow> 'i option \<Rightarrow> 's \<Rightarrow> 's option" where
  "walk_before nxt body h s = (case h of None \<Rightarrow> Some s | Some i \<Rightarrow> walk_before nxt body (nxt s i) (body i s))"

partial_function (option) walk_after ::
  "('s \<Rightarrow> 'i \<Rightarrow> 'i option) \<Rightarrow> ('i \<Rightarrow> 's \<Rightarrow> 's) \<Rightarrow> 'i option \<Rightarrow> 's \<Rightarrow> 's option" where
  "walk_after nxt body h s = (case h of None \<Rightarrow> Some s
     | Some i \<Rightarrow> (let s = body i s in walk_after nxt body (nxt s i) s))"

declare walk_before.simps [code] walk_after.simps [code]

text \<open>\<open>I xs s\<close> holds before the elements \<open>xs\<close> are visited.\<close>

lemma walk_before_fold:
  assumes "\<And>i zs s. I (i # zs) s \<Longrightarrow> nxt s i = hd_opt zs \<and> I zs (body i s)" and "I xs s"
  shows "walk_before nxt body (hd_opt xs) s = Some (fold body xs s)" "I [] (fold body xs s)"
proof -
  have "walk_before nxt body (hd_opt xs) s = Some (fold body xs s) \<and> I [] (fold body xs s)"
    using assms(2)
  proof (induction xs arbitrary: s)
    case (Cons i zs)
    then show ?case using assms(1) [OF Cons.prems] by (subst walk_before.simps) simp
  qed (simp add: walk_before.simps)
  then show "walk_before nxt body (hd_opt xs) s = Some (fold body xs s)" "I [] (fold body xs s)" by simp_all
qed

lemma walk_after_fold:
  assumes "\<And>i zs s. I (i # zs) s \<Longrightarrow> nxt (body i s) i = hd_opt zs \<and> I zs (body i s)" and "I xs s"
  shows "walk_after nxt body (hd_opt xs) s = Some (fold body xs s)" "I [] (fold body xs s)"
proof -
  have "walk_after nxt body (hd_opt xs) s = Some (fold body xs s) \<and> I [] (fold body xs s)"
    using assms(2)
  proof (induction xs arbitrary: s)
    case (Cons i zs)
    then show ?case using assms(1) [OF Cons.prems] by (subst walk_after.simps) (simp add: Let_def)
  qed (simp add: walk_after.simps)
  then show "walk_after nxt body (hd_opt xs) s = Some (fold body xs s)" "I [] (fold body xs s)" by simp_all
qed

end
