(* ===== verification/Alb_Base.thy ===== *)
theory Alb_Base
  imports Net_Base Index_List "HOL-Library.Monad_Syntax"
begin

text \<open>
  servers/bond_alb.c (load balancing of a bond): the data, and the balancing of the transmitted
  traffic. The structures and constants of net/bonding.h and net/bond_alb.h are not part of the
  sources: the records have the fields that bond_alb.c uses, with the widths of the kernel's headers, and
  the constants are fields of \<open>alb_env\<close>, next to the outcomes of the calls into the rest of the kernel
  (memory, device drivers, the lock of the network configuration) during one call.

  The hash of a client is 8 bits wide and the tables have one entry for every hash: an index into them is
  an 8-bit word, and \<open>None\<close> is \<open>TLB_NULL_INDEX\<close> or \<open>RLB_NULL_INDEX\<close>. A slave is known by a number.
\<close>

type_synonym ip_addr = "u8 list"

type_synonym index = "u8 option"

record tlb_client_info =
  tx_slave :: "nat option"
  tx_bytes :: u32
  load_history :: u32
  tlb_next :: index
  tlb_prev :: index

record rlb_client_info =
  c_ip_src :: ip_addr
  c_ip_dst :: ip_addr
  c_mac_src :: mac_addr
  c_mac_dst :: mac_addr
  used_next :: index
  used_prev :: index
  src_next :: index
  src_prev :: index
  src_first :: index
  assigned :: bool
  c_ntt :: bool
  c_slave :: "nat option"
  vlan_id :: u16

text \<open>The receive table with the head of the list of its used entries, which is empty while there is no table.\<close>

record rlb_table =
  entry :: "u8 \<Rightarrow> rlb_client_info"
  used_head :: index

record alb_slave =
  can_tx :: bool
  speed :: u32
  tlb_head :: index
  tlb_load :: u32
  hw_addr :: mac_addr
  perm_addr :: mac_addr
  prog_addr :: mac_addr

datatype alb_frame = ArpReply nat ip_addr ip_addr mac_addr mac_addr u16 | LearningPacket nat mac_addr u16

record alb_bond =
  alb_slaves :: "nat list"
  alb_slave :: "nat \<Rightarrow> alb_slave"
  curr_active_slave :: "nat option"
  usable_slaves :: "nat list"
  bond_addr :: mac_addr
  mode_tlb :: bool
  tlb_dynamic_lb :: bool
  tx_hashtbl :: "(u8 \<Rightarrow> tlb_client_info) option"
  unbalanced_load :: u32
  tx_rebalance_counter :: u32
  lp_counter :: u32
  rlb_enabled :: bool
  rx_hashtbl :: "rlb_table option"
  rx_ntt :: bool
  rx_slave :: "nat option"
  primary_is_promisc :: bool
  rlb_promisc_timeout_counter :: u32
  rlb_update_delay_counter :: u32
  rlb_update_retry_counter :: u32
  do_rlb_rebalance :: bool
  promiscuity :: "nat \<Rightarrow> int"
  alb_frames :: "alb_frame list"

text \<open>A device on top of the bond, as \<open>alb_upper_dev_walk\<close> sees it.\<close>

record upper_dev =
  vlan_above :: bool
  addr_stolen :: bool
  upper_addr :: mac_addr
  vlan_dev_id :: u16
  is_macvlan :: bool
  path_tags :: "u16 option"

record alb_env =
  BOND_TLB_REBALANCE_INTERVAL :: u32
  BOND_TLB_REBALANCE_TICKS :: u32
  BOND_ALB_LP_TICKS :: u32
  RLB_UPDATE_DELAY :: u32
  RLB_UPDATE_RETRY :: u32
  RLB_PROMISC_TIMEOUT :: u32
  RLB_ARP_BURST_SIZE :: nat
  is_valid_ether_addr :: "mac_addr \<Rightarrow> bool"
  is_broadcast_ether_addr :: "mac_addr \<Rightarrow> bool"
  upper_devs :: "upper_dev list"
  alloc_ok :: "nat \<Rightarrow> bool"
  set_mac_ok :: "nat \<Rightarrow> mac_addr \<Rightarrow> bool"
  set_promisc_ok :: bool
  rtnl_free :: bool
  slave_arr_mem :: bool

abbreviation upd_slave_alb :: "nat \<Rightarrow> (alb_slave \<Rightarrow> alb_slave) \<Rightarrow> alb_bond \<Rightarrow> alb_bond" where
  "upd_slave_alb s f b \<equiv> b\<lparr>alb_slave := (alb_slave b)(s := f (alb_slave b s))\<rparr>"

definition simple_hash :: "u8 list \<Rightarrow> u8" where
  "simple_hash bs = fold (\<lambda>x hash. hash XOR x) bs 0"

subsection \<open>The transmit table\<close>

definition tlb_init_table_entry :: "alb_env \<Rightarrow> bool \<Rightarrow> tlb_client_info \<Rightarrow> tlb_client_info" where
  "tlb_init_table_entry e save_load c =
     (let c = (if save_load then c\<lparr>load_history := 1 + tx_bytes c div BOND_TLB_REBALANCE_INTERVAL e, tx_bytes := 0\<rparr> else c)
      in c\<lparr>tx_slave := None, tlb_next := None, tlb_prev := None\<rparr>)"

definition tlb_init_slave :: "alb_slave \<Rightarrow> alb_slave" where
  "tlb_init_slave s = s\<lparr>tlb_load := 0, tlb_head := None\<rparr>"

definition tlb_clear_list :: "alb_env \<Rightarrow> bool \<Rightarrow> index \<Rightarrow> (u8 \<Rightarrow> tlb_client_info) \<Rightarrow> (u8 \<Rightarrow> tlb_client_info) defined" where
  "tlb_clear_list e save_load =
     walk_before (\<lambda>t i. tlb_next (t i)) (\<lambda>i t. t(i := tlb_init_table_entry e save_load (t i)))"

definition tlb_clear_slave :: "alb_env \<Rightarrow> bool \<Rightarrow> nat \<Rightarrow> alb_bond \<Rightarrow> alb_bond defined" where
  "tlb_clear_slave e save_load s b = do {
     b \<leftarrow> (case tx_hashtbl b of
         None \<Rightarrow> Some b
       | Some t \<Rightarrow> do {
           t \<leftarrow> tlb_clear_list e save_load (tlb_head (alb_slave b s)) t;
           Some (b\<lparr>tx_hashtbl := Some t\<rparr>)
         });
     Some (upd_slave_alb s tlb_init_slave b)
   }"

text \<open>\<open>mem\<close> is whether \<open>kzalloc\<close> finds the memory.\<close>

definition zero_tlb :: tlb_client_info where
  "zero_tlb = \<lparr>tx_slave = None, tx_bytes = 0, load_history = 0, tlb_next = Some 0, tlb_prev = Some 0\<rparr>"

definition tlb_initialize :: "alb_env \<Rightarrow> bool \<Rightarrow> alb_bond \<Rightarrow> int \<times> alb_bond" where
  "tlb_initialize e mem b =
     (if \<not> mem then (- ENOMEM, b) else (0, b\<lparr>tx_hashtbl := Some (\<lambda>i. tlb_init_table_entry e False zero_tlb)\<rparr>))"

definition tlb_deinitialize :: "alb_bond \<Rightarrow> alb_bond" where
  "tlb_deinitialize b = b\<lparr>tx_hashtbl := None\<rparr>"

text \<open>Both shifts are done in 32 bits, before the conversion to 64 bits.\<close>

definition compute_gap :: "alb_slave \<Rightarrow> int" where
  "compute_gap s = uint (push_bit 20 (speed s)) - uint (push_bit 3 (tlb_load s))"

fun least_loop :: "alb_bond \<Rightarrow> nat list \<Rightarrow> nat option \<Rightarrow> int \<Rightarrow> nat option" where
  "least_loop b [] least_loaded max_gap = least_loaded"
| "least_loop b (s # ss) least_loaded max_gap =
     (if can_tx (alb_slave b s) \<and> max_gap < compute_gap (alb_slave b s)
      then least_loop b ss (Some s) (compute_gap (alb_slave b s))
      else least_loop b ss least_loaded max_gap)"

definition LLONG_MIN :: int where "LLONG_MIN = - 9223372036854775808"

definition tlb_get_least_loaded_slave :: "alb_bond \<Rightarrow> nat option" where
  "tlb_get_least_loaded_slave b = least_loop b (alb_slaves b) None LLONG_MIN"

definition tlb_assign :: "u8 \<Rightarrow> nat \<Rightarrow> (u8 \<Rightarrow> tlb_client_info) \<Rightarrow> alb_bond \<Rightarrow> alb_bond" where
  "tlb_assign h s t b =
     (let next_index = tlb_head (alb_slave b s);
          t = t(h := (t h)\<lparr>tx_slave := Some s, tlb_next := next_index, tlb_prev := None\<rparr>);
          t = (case next_index of None \<Rightarrow> t | Some n \<Rightarrow> t(n := (t n)\<lparr>tlb_prev := Some h\<rparr>))
      in upd_slave_alb s (\<lambda>x. x\<lparr>tlb_head := Some h, tlb_load := tlb_load x + load_history (t h)\<rparr>) (b\<lparr>tx_hashtbl := Some t\<rparr>))"

definition count_bytes :: "u8 \<Rightarrow> u32 \<Rightarrow> alb_bond \<Rightarrow> alb_bond" where
  "count_bytes h len b =
     b\<lparr>tx_hashtbl := map_option (\<lambda>t. t(h := (t h)\<lparr>tx_bytes := tx_bytes (t h) + len\<rparr>)) (tx_hashtbl b)\<rparr>"

definition tlb_choose_channel :: "u8 \<Rightarrow> u32 \<Rightarrow> alb_bond \<Rightarrow> (nat option \<times> alb_bond) defined" where
  "tlb_choose_channel h skb_len b = do {
     t \<leftarrow> tx_hashtbl b;
     case tx_slave (t h) of
       Some s \<Rightarrow> Some (Some s, count_bytes h skb_len b)
     | None \<Rightarrow> (case tlb_get_least_loaded_slave b of
           Some s \<Rightarrow> Some (Some s, count_bytes h skb_len (tlb_assign h s t b))
         | None \<Rightarrow> Some (None, b))
   }"

subsection \<open>The first maximum of a list\<close>

definition better :: "('a \<Rightarrow> 'b::linorder) \<Rightarrow> 'a \<Rightarrow> 'a option \<Rightarrow> 'a option" where
  "better f x m = (case m of None \<Rightarrow> Some x | Some y \<Rightarrow> if f y < f x then Some x else m)"

definition first_max :: "('a \<Rightarrow> 'b::linorder) \<Rightarrow> 'a list \<Rightarrow> 'a option" where
  "first_max f xs = fold (better f) xs None"

lemma first_max_snoc [simp]: "first_max f (xs @ [x]) = better f x (first_max f xs)"
  by (simp add: first_max_def)

lemma first_max_Nil [simp]: "first_max f [] = None"
  by (simp add: first_max_def)

lemma first_max_None [simp]: "first_max f xs = None \<longleftrightarrow> xs = []"
  by (cases xs rule: rev_cases) (auto simp: better_def split: option.splits)

lemma first_max_Some:
  assumes "first_max f xs = Some m"
  shows "\<exists>us vs. xs = us @ m # vs \<and> (\<forall>x\<in>set us. f x < f m) \<and> (\<forall>x\<in>set vs. f x \<le> f m)"
  using assms
proof (induction xs arbitrary: m rule: rev_induct)
  case (snoc x xs)
  show ?case
  proof (cases "first_max f xs")
    case None
    with snoc.prems have "xs @ [x] = [] @ m # []" by (simp add: better_def)
    then show ?thesis by fastforce
  next
    case (Some y)
    then obtain us vs where y: "xs = us @ y # vs" "\<forall>x\<in>set us. f x < f y" "\<forall>x\<in>set vs. f x \<le> f y"
      using snoc.IH by blast
    show ?thesis
    proof (cases "f y < f x")
      case True
      with snoc.prems Some have "m = x" by (simp add: better_def)
      moreover have "\<forall>z\<in>set xs. f z < f x" using y True by auto
      ultimately show ?thesis by fastforce
    next
      case False
      with snoc.prems Some have "m = y" by (simp add: better_def)
      then have "xs @ [x] = us @ m # (vs @ [x])" using y(1) by simp
      moreover have "\<forall>z\<in>set (vs @ [x]). f z \<le> f m" using y(3) False \<open>m = y\<close> by auto
      moreover have "\<forall>z\<in>set us. f z < f m" using y(2) \<open>m = y\<close> by simp
      ultimately show ?thesis by (intro exI [of _ us] exI [of _ "vs @ [x]"] conjI)
    qed
  qed
qed simp

lemma first_max_append:
  "first_max f (xs @ ys) = (case first_max f xs of None \<Rightarrow> first_max f ys
     | Some x \<Rightarrow> (case first_max f ys of None \<Rightarrow> Some x | Some y \<Rightarrow> if f x < f y then Some y else Some x))"
proof (induction ys rule: rev_induct)
  case Nil
  then show ?case by (simp split: option.split)
next
  case (snoc y ys)
  have "first_max f (xs @ ys @ [y]) = better f y (first_max f (xs @ ys))" using first_max_snoc [of f "xs @ ys" y] by simp
  with snoc show ?case by (auto simp: better_def split: option.splits)
qed

subsection \<open>The choice of a slave\<close>

abbreviation gap_of :: "alb_bond \<Rightarrow> nat \<Rightarrow> int" where
  "gap_of b s \<equiv> compute_gap (alb_slave b s)"

definition eligible :: "alb_bond \<Rightarrow> nat list" where
  "eligible b = filter (\<lambda>s. can_tx (alb_slave b s)) (alb_slaves b)"

lemma gap_above_min: "LLONG_MIN < compute_gap x"
proof -
  have "uint (push_bit 3 (tlb_load x)) < 4294967296" "0 \<le> uint (push_bit 20 (speed x))"
    using uint_lt2p [of "push_bit 3 (tlb_load x)"] by simp_all
  then show ?thesis unfolding compute_gap_def LLONG_MIN_def by linarith
qed

lemma least_loop_fold:
  "least_loop b ss m (case m of None \<Rightarrow> LLONG_MIN | Some x \<Rightarrow> gap_of b x) =
     fold (better (gap_of b)) (filter (\<lambda>s. can_tx (alb_slave b s)) ss) m"
proof (induction ss arbitrary: m)
  case (Cons s ss)
  show ?case
  proof (cases "can_tx (alb_slave b s)")
    case True
    with Cons.IH [of "better (gap_of b) s m"] Cons.IH [of m] gap_above_min [of "alb_slave b s"] show ?thesis
      by (cases m) (auto simp: better_def)
  qed (use Cons.IH [of m] in simp)
qed simp

lemma least_loaded: "tlb_get_least_loaded_slave b = first_max (gap_of b) (eligible b)"
  using least_loop_fold [of b "alb_slaves b" None] by (simp add: tlb_get_least_loaded_slave_def first_max_def eligible_def)

subsection \<open>The lists of the transmit table\<close>

inductive on_list :: "(u8 \<Rightarrow> tlb_client_info) \<Rightarrow> index \<Rightarrow> u8 \<Rightarrow> bool" for t where
  here: "on_list t (Some i) i"
| later: "on_list t h i \<Longrightarrow> tlb_next (t i) = Some j \<Longrightarrow> on_list t h j"

inductive_cases on_list_NoneE: "on_list t None i"

lemma on_list_None [simp]: "\<not> on_list t None i"
proof
  assume "on_list t None i"
  then show False by (induction "None :: index" i) auto
qed

lemma on_list_trans: "on_list t h i \<Longrightarrow> on_list t (Some i) j \<Longrightarrow> on_list t h j"
  by (rotate_tac, induction "Some i" j rule: on_list.induct) (auto intro: on_list.intros)

text \<open>A path that avoids the changed entries is a path of the changed table.\<close>

lemma on_list_mono:
  assumes "on_list t h i" and "\<And>j k. on_list t h j \<Longrightarrow> on_list t (Some j) i \<Longrightarrow> tlb_next (t j) = Some k \<Longrightarrow> on_list t (Some k) i \<Longrightarrow> tlb_next (t' j) = Some k"
  shows "on_list t' h i"
  using assms
proof induction
  case (here i)
  show ?case by (rule on_list.here)
next
  case (later h i j)
  have step: "on_list t (Some i) j" using on_list.here later.hyps(2) by (rule on_list.later)
  have "on_list t' h i"
  proof (rule later.IH)
    fix a k assume "on_list t h a" "on_list t (Some a) i" "tlb_next (t a) = Some k" "on_list t (Some k) i"
    then show "tlb_next (t' a) = Some k" using later.prems on_list_trans step by blast
  qed
  moreover have "tlb_next (t' i) = Some j" by (rule later.prems [OF later.hyps(1) step later.hyps(2) on_list.here])
  ultimately show ?case by (rule on_list.later)
qed

text \<open>Clearing a list always ends, also when it runs into a circle, and clears all that is on it.\<close>

definition linked :: "(u8 \<Rightarrow> tlb_client_info) \<Rightarrow> u8 set" where
  "linked t = {i. tlb_next (t i) \<noteq> None}"

lemma finite_linked [simp]: "finite (linked t)"
  by (rule finite)

lemma init_entry [simp]:
  "tx_slave (tlb_init_table_entry e save c) = None" "tlb_next (tlb_init_table_entry e save c) = None"
  by (simp_all add: tlb_init_table_entry_def Let_def)

lemma on_list_first:
  assumes "tlb_next (c :: tlb_client_info) = None"
  shows "on_list t (Some k) i \<longleftrightarrow> i = k \<or> on_list (t(k := c)) (tlb_next (t k)) i"
proof
  assume "on_list t (Some k) i"
  then show "i = k \<or> on_list (t(k := c)) (tlb_next (t k)) i"
  proof (induction "Some k" i rule: on_list.induct)
    case (later i j)
    then show ?case
      by (metis fun_upd_other on_list.here on_list.later)
  qed simp
next
  have "on_list t (Some k) i" if "on_list (t(k := c)) h i" "h = tlb_next (t k)" for h
    using that
  proof induction
    case (here i)
    then show ?case using on_list.later [of t "Some k" k i] on_list.here [of t k] by simp
  next
    case (later h i j)
    then show ?case using assms on_list.later [of t "Some k" i j] by (auto split: if_splits)
  qed
  then show "i = k \<or> on_list (t(k := c)) (tlb_next (t k)) i \<Longrightarrow> on_list t (Some k) i"
    using on_list.here by blast
qed

lemma clear_list:
  "\<exists>t'. tlb_clear_list e save h t = Some t' \<and>
    (\<forall>i. if on_list t h i then tx_slave (t' i) = None \<and> tlb_next (t' i) = None else t' i = t i)"
proof (induction "card (linked t)" arbitrary: t h rule: less_induct)
  case less
  show ?case
  proof (cases h)
    case None
    then show ?thesis by (simp add: tlb_clear_list_def walk_before.simps)
  next
    case (Some k)
    let ?c = "tlb_init_table_entry e save (t k)" and ?n = "tlb_next (t k)"
    have unfold: "tlb_clear_list e save h t = tlb_clear_list e save ?n (t(k := ?c))"
      unfolding tlb_clear_list_def Some by (subst walk_before.simps) simp
    have first: "on_list t h i \<longleftrightarrow> i = k \<or> on_list (t(k := ?c)) ?n i" for i
      unfolding Some by (rule on_list_first) simp
    show ?thesis
    proof (cases ?n)
      case None
      then show ?thesis using unfold first by (auto simp: tlb_clear_list_def walk_before.simps)
    next
      case (Some n)
      have "linked (t(k := ?c)) \<subset> linked t" using Some by (auto simp: linked_def split: if_splits)
      then have "card (linked (t(k := ?c))) < card (linked t)" by (rule psubset_card_mono [rotated]) simp
      from less.hyps [OF this, of ?n] obtain t' where
        t': "tlb_clear_list e save ?n (t(k := ?c)) = Some t'"
          "\<forall>i. if on_list (t(k := ?c)) ?n i then tx_slave (t' i) = None \<and> tlb_next (t' i) = None else t' i = (t(k := ?c)) i"
        by blast
      have "if on_list t h i then tx_slave (t' i) = None \<and> tlb_next (t' i) = None else t' i = t i" for i
        using t'(2) [rule_format, of i] first [of i] by (cases "i = k") (auto split: if_splits)
      with t'(1) unfold show ?thesis by auto
    qed
  qed
qed

text \<open>
  The invariant of the transmit table: an assigned entry is on the list of its slave, and a free entry
  has no successor. The lists of different slaves may have entries in common: they do after a bond
  has been closed and opened again, since this replaces the table but not the heads of the slaves.
\<close>

definition tlb_lists :: "(u8 \<Rightarrow> tlb_client_info) \<Rightarrow> (nat \<Rightarrow> index) \<Rightarrow> bool" where
  "tlb_lists t hs = (\<forall>i. case tx_slave (t i) of None \<Rightarrow> tlb_next (t i) = None | Some s \<Rightarrow> on_list t (hs s) i)"

definition tlb_ok :: "alb_bond \<Rightarrow> bool" where
  "tlb_ok b = (\<forall>t. tx_hashtbl b = Some t \<longrightarrow> tlb_lists t (\<lambda>s. tlb_head (alb_slave b s)))"

definition tlb_users :: "alb_bond \<Rightarrow> nat set" where
  "tlb_users b = {s. \<exists>t i. tx_hashtbl b = Some t \<and> tx_slave (t i) = Some s}"

lemma tlb_listsD:
  assumes "tlb_lists t hs"
  shows "tx_slave (t i) = Some s \<Longrightarrow> on_list t (hs s) i" "tx_slave (t i) = None \<Longrightarrow> tlb_next (t i) = None"
  using assms [unfolded tlb_lists_def, rule_format, of i] by simp_all

text \<open>Steps that change only the transmit table and what it keeps in the slaves.\<close>

definition tx_only :: "alb_bond \<Rightarrow> alb_bond \<Rightarrow> bool" where
  "tx_only b b' = (\<exists>t hs ld. b' = b\<lparr>tx_hashtbl := t, alb_slave := (\<lambda>s. (alb_slave b s)\<lparr>tlb_head := hs s, tlb_load := ld s\<rparr>)\<rparr>)"

lemma tx_only_refl: "tx_only b b"
  unfolding tx_only_def
  by (rule exI [of _ "tx_hashtbl b"], rule exI [of _ "\<lambda>s. tlb_head (alb_slave b s)"],
      rule exI [of _ "\<lambda>s. tlb_load (alb_slave b s)"]) simp

lemma tx_only_trans: "tx_only b b' \<Longrightarrow> tx_only b' b'' \<Longrightarrow> tx_only b b''"
  unfolding tx_only_def by (elim exE) (simp, intro exI, rule refl)

lemma tx_only_upd:
  "tx_only b (upd_slave_alb s (\<lambda>x. x\<lparr>tlb_head := h, tlb_load := l x\<rparr>) (b\<lparr>tx_hashtbl := t\<rparr>))"
  unfolding tx_only_def
  by (rule exI [of _ t], rule exI [of _ "(\<lambda>u. tlb_head (alb_slave b u))(s := h)"],
      rule exI [of _ "(\<lambda>u. tlb_load (alb_slave b u))(s := l (alb_slave b s))"]) (auto simp: fun_eq_iff)

lemma tlb_init_slave_alt: "tlb_init_slave x = x\<lparr>tlb_head := None, tlb_load := 0\<rparr>"
  by (cases x) (simp add: tlb_init_slave_def)

text \<open>Clearing a slave removes every reference to it from the table.\<close>

lemma clear_lists:
  assumes ok: "tlb_lists t hs"
    and t': "\<forall>i. if on_list t (hs s) i then tx_slave (t' i) = None \<and> tlb_next (t' i) = None else t' i = t i"
  shows "tlb_lists t' (hs(s := None))" "tx_slave (t' i) = Some u \<Longrightarrow> u \<noteq> s \<and> tx_slave (t i) = Some u"
proof -
  have keep: "\<not> on_list t (hs s) i \<and> u \<noteq> s \<and> tx_slave (t i) = Some u" if "tx_slave (t' i) = Some u" for i u
  proof -
    have n: "\<not> on_list t (hs s) i" using t' [rule_format, of i] that by (auto split: if_splits)
    then have "tx_slave (t i) = Some u" using t' [rule_format, of i] that by simp
    with n tlb_listsD(1) [OF ok] show ?thesis by auto
  qed
  then show "tx_slave (t' i) = Some u \<Longrightarrow> u \<noteq> s \<and> tx_slave (t i) = Some u" by blast
  have "on_list t' ((hs(s := None)) u) i" if u: "tx_slave (t' i) = Some u" for i u
  proof -
    have "on_list t' (hs u) i"
    proof (rule on_list_mono)
      show "on_list t (hs u) i" using keep [OF u] tlb_listsD(1) [OF ok] by blast
      fix j k assume "on_list t (Some j) i" "tlb_next (t j) = Some k"
      then have "\<not> on_list t (hs s) j" using keep [OF u] on_list_trans by blast
      then show "tlb_next (t' j) = Some k" using t' [rule_format, of j] \<open>tlb_next (t j) = Some k\<close> by simp
    qed
    then show ?thesis using keep [OF u] by simp
  qed
  moreover have "tlb_next (t' i) = None" if "tx_slave (t' i) = None" for i
    using t' [rule_format, of i] tlb_listsD(2) [OF ok, of i] that by (auto split: if_splits)
  ultimately show "tlb_lists t' (hs(s := None))" unfolding tlb_lists_def by (simp split: option.split)
qed

lemma tlb_clear_ok:
  assumes ok: "tlb_ok b"
  shows "\<exists>b'. tlb_clear_slave e save s b = Some b' \<and> tlb_ok b' \<and> tx_only b b' \<and> tlb_users b' \<subseteq> tlb_users b - {s} \<and>
    (tx_hashtbl b' = None \<longleftrightarrow> tx_hashtbl b = None)"
proof (cases "tx_hashtbl b")
  case None
  let ?b = "upd_slave_alb s tlb_init_slave b"
  have "tx_only b ?b" using tx_only_upd [where b = b and s = s and h = None and l = "\<lambda>_. 0" and t = "tx_hashtbl b"] by (simp add: tlb_init_slave_alt)
  with None show ?thesis by (simp add: tlb_clear_slave_def tlb_ok_def tlb_users_def)
next
  case (Some t)
  let ?hs = "\<lambda>s. tlb_head (alb_slave b s)"
  obtain t' where c: "tlb_clear_list e save (?hs s) t = Some t'"
    and t': "\<forall>i. if on_list t (?hs s) i then tx_slave (t' i) = None \<and> tlb_next (t' i) = None else t' i = t i"
    using clear_list by blast
  let ?b = "upd_slave_alb s tlb_init_slave (b\<lparr>tx_hashtbl := Some t'\<rparr>)"
  have l: "tlb_lists t ?hs" using ok Some by (simp add: tlb_ok_def)
  note new = clear_lists [OF l t']
  have "(\<lambda>u. tlb_head (alb_slave ?b u)) = ?hs(s := None)" by (auto simp: tlb_init_slave_def fun_eq_iff)
  then have "tlb_ok ?b" using new(1) by (simp add: tlb_ok_def del: fun_upd_apply)
  moreover have "tx_only b ?b" using tx_only_upd [where b = b and s = s and h = None and l = "\<lambda>_. 0" and t = "Some t'"] by (simp add: tlb_init_slave_alt)
  moreover have "tlb_users ?b \<subseteq> tlb_users b - {s}" using new(2) Some by (auto simp: tlb_users_def)
  ultimately show ?thesis using Some c by (simp add: tlb_clear_slave_def)
qed

text \<open>Assigning a free entry puts it in front of the list of its slave.\<close>

lemma assign_lists:
  assumes ok: "tlb_lists t hs" and h: "tx_slave (t h) = None"
    and t': "tx_slave (t' h) = Some s" "tlb_next (t' h) = hs s"
      "\<And>i. i \<noteq> h \<Longrightarrow> tx_slave (t' i) = tx_slave (t i) \<and> tlb_next (t' i) = tlb_next (t i)"
  shows "tlb_lists t' (hs(s := Some h))"
proof -
  have end_h: "tlb_next (t h) = None" using tlb_listsD(2) [OF ok h] .
  have old: "on_list t' g i" if "on_list t g i" for g i
    by (rule on_list_mono [OF that]) (use t'(3) end_h in \<open>metis option.distinct(1)\<close>)
  have push: "on_list t' (Some h) i" if "on_list t' (hs s) i" for i
    using that
  proof (induction "hs s" i rule: on_list.induct)
    case (here i)
    then show ?case using on_list.later [of t' "Some h" h i] on_list.here [of t' h] t'(2) by simp
  next
    case (later i j)
    then show ?case using on_list.later by blast
  qed
  have "on_list t' ((hs(s := Some h)) u) i" if u: "tx_slave (t' i) = Some u" for i u
  proof (cases "i = h")
    case True
    with u t'(1) show ?thesis using on_list.here by simp
  next
    case False
    with u t'(3) have "on_list t' (hs u) i" using old tlb_listsD(1) [OF ok] by simp
    then show ?thesis using push by auto
  qed
  moreover have "tlb_next (t' i) = None" if "tx_slave (t' i) = None" for i
    using that t' tlb_listsD(2) [OF ok, of i] by (cases "i = h") auto
  ultimately show ?thesis unfolding tlb_lists_def by (simp split: option.split)
qed

definition assigned_table :: "u8 \<Rightarrow> nat \<Rightarrow> index \<Rightarrow> (u8 \<Rightarrow> tlb_client_info) \<Rightarrow> u8 \<Rightarrow> tlb_client_info" where
  "assigned_table h s n t =
     (let t = t(h := (t h)\<lparr>tx_slave := Some s, tlb_next := n, tlb_prev := None\<rparr>)
      in case n of None \<Rightarrow> t | Some n \<Rightarrow> t(n := (t n)\<lparr>tlb_prev := Some h\<rparr>))"

lemma assigned_table_simps:
  "tx_slave (assigned_table h s n t i) = (if i = h then Some s else tx_slave (t i))"
  "tlb_next (assigned_table h s n t i) = (if i = h then n else tlb_next (t i))"
  "load_history (assigned_table h s n t i) = load_history (t i)"
  "tx_bytes (assigned_table h s n t i) = tx_bytes (t i)"
  by (simp_all add: assigned_table_def Let_def split: option.split)

lemma tlb_assign_alt:
  "tlb_assign h s t b = upd_slave_alb s (\<lambda>x. x\<lparr>tlb_head := Some h, tlb_load := tlb_load x + load_history (t h)\<rparr>)
     (b\<lparr>tx_hashtbl := Some (assigned_table h s (tlb_head (alb_slave b s)) t)\<rparr>)"
  using assigned_table_simps(3) [of h s "tlb_head (alb_slave b s)" t h]
  unfolding tlb_assign_def assigned_table_def Let_def by simp

lemma count_bytes_ok:
  "tlb_ok (count_bytes h len b) = tlb_ok b" "tlb_users (count_bytes h len b) = tlb_users b"
  "tx_only b (count_bytes h len b)"
proof -
  have on: "on_list (t(h := (t h)\<lparr>tx_bytes := n\<rparr>)) g i = on_list t g i" for t n g i
    by (rule iffI; erule on_list_mono) (auto split: if_splits)
  have f: "tx_slave ((t(h := (t h)\<lparr>tx_bytes := n\<rparr>)) i) = tx_slave (t i)" "tlb_next ((t(h := (t h)\<lparr>tx_bytes := n\<rparr>)) i) = tlb_next (t i)"
    for t n i by simp_all
  have "tlb_lists (t(h := (t h)\<lparr>tx_bytes := n\<rparr>)) hs = tlb_lists t hs" for t n hs
    unfolding tlb_lists_def by (simp only: on f)
  then show "tlb_ok (count_bytes h len b) = tlb_ok b" unfolding tlb_ok_def count_bytes_def by (cases "tx_hashtbl b") simp_all
  show "tlb_users (count_bytes h len b) = tlb_users b"
    unfolding tlb_users_def count_bytes_def by (cases "tx_hashtbl b") (auto split: if_splits)
  show "tx_only b (count_bytes h len b)"
    unfolding count_bytes_def tx_only_def
    by (rule exI, rule exI [of _ "\<lambda>s. tlb_head (alb_slave b s)"], rule exI [of _ "\<lambda>s. tlb_load (alb_slave b s)"]) simp
qed

lemma tlb_assign_ok:
  assumes ok: "tlb_ok b" and t: "tx_hashtbl b = Some t" "tx_slave (t h) = None"
  shows "tlb_ok (tlb_assign h s t b)" "tlb_users (tlb_assign h s t b) \<subseteq> insert s (tlb_users b)" "tx_only b (tlb_assign h s t b)"
proof -
  let ?hs = "\<lambda>s. tlb_head (alb_slave b s)"
  have l: "tlb_lists t ?hs" using ok t(1) by (simp add: tlb_ok_def)
  have "tlb_lists (assigned_table h s (?hs s) t) (?hs(s := Some h))"
    by (rule assign_lists [OF l t(2)]) (simp_all add: assigned_table_simps)
  moreover have "(\<lambda>u. tlb_head (alb_slave (tlb_assign h s t b) u)) = ?hs(s := Some h)"
    by (auto simp: tlb_assign_alt fun_eq_iff)
  ultimately show "tlb_ok (tlb_assign h s t b)" by (simp add: tlb_ok_def tlb_assign_alt del: fun_upd_apply)
  show "tlb_users (tlb_assign h s t b) \<subseteq> insert s (tlb_users b)"
    using t by (auto simp: tlb_users_def tlb_assign_alt assigned_table_simps split: if_splits)
  show "tx_only b (tlb_assign h s t b)" unfolding tlb_assign_alt by (rule tx_only_upd)
qed

lemma first_max_in: "first_max f xs = Some m \<Longrightarrow> m \<in> set xs"
  using first_max_Some by fastforce

lemma tlb_choose_ok:
  assumes ok: "tlb_ok b" and t: "tx_hashtbl b = Some t"
  shows "\<exists>r b'. tlb_choose_channel h len b = Some (r, b') \<and> tlb_ok b' \<and> tx_only b b' \<and>
    tlb_users b' \<subseteq> tlb_users b \<union> set (alb_slaves b) \<and> (\<forall>s. r = Some s \<longrightarrow> s \<in> tlb_users b \<union> set (alb_slaves b)) \<and>
    tx_hashtbl b' \<noteq> None"
proof (cases "tx_slave (t h)")
  case (Some s)
  then have "s \<in> tlb_users b" using t by (auto simp: tlb_users_def)
  with Some t ok show ?thesis by (auto simp: tlb_choose_channel_def count_bytes_ok) (simp add: count_bytes_def)
next
  case None
  show ?thesis
  proof (cases "tlb_get_least_loaded_slave b")
    case (Some s)
    then have "s \<in> set (alb_slaves b)" using first_max_in [of _ "eligible b"] by (auto simp: least_loaded eligible_def)
    moreover have "tx_only b (count_bytes h len (tlb_assign h s t b))"
      using tx_only_trans tlb_assign_ok(3) [OF ok t None] count_bytes_ok(3) by blast
    moreover have "tx_hashtbl (count_bytes h len (tlb_assign h s t b)) \<noteq> None" by (simp add: count_bytes_def tlb_assign_alt)
    ultimately show ?thesis using None Some t tlb_assign_ok(1,2) [OF ok t None, of s]
      by (auto simp: tlb_choose_channel_def count_bytes_ok)
  qed (use None t ok tx_only_refl in \<open>auto simp: tlb_choose_channel_def\<close>)
qed
end
