(* ===== verification/Alb_Rlb.thy ===== *)
theory Alb_Rlb
  imports Alb_Base
begin

text \<open>
  servers/bond_alb.c, the balancing of the received traffic: the table of clients, whose used entries are
  on one list and whose entries with the same hash of the source address are on another, and the
  functions that answer ARP traffic and inform the clients.
\<close>

datatype arp_op = ARPOP_REPLY | ARPOP_REQUEST | ARPOP_OTHER

record arp_pkt =
  op_code :: arp_op
  mac_src :: mac_addr
  ip_src :: ip_addr
  mac_dst :: mac_addr
  ip_dst :: ip_addr

abbreviation upd_entry :: "u8 \<Rightarrow> (rlb_client_info \<Rightarrow> rlb_client_info) \<Rightarrow> rlb_table \<Rightarrow> rlb_table" where
  "upd_entry i f t \<equiv> t\<lparr>entry := (entry t)(i := f (entry t i))\<rparr>"

definition upd_client :: "u8 \<Rightarrow> (rlb_client_info \<Rightarrow> rlb_client_info) \<Rightarrow> alb_bond \<Rightarrow> alb_bond" where
  "upd_client i f b = b\<lparr>rx_hashtbl := map_option (upd_entry i f) (rx_hashtbl b)\<rparr>"

definition rx_head :: "alb_bond \<Rightarrow> index" where
  "rx_head b = (case rx_hashtbl b of None \<Rightarrow> None | Some t \<Rightarrow> used_head t)"

definition rx_next :: "alb_bond \<Rightarrow> u8 \<Rightarrow> index" where
  "rx_next b i = (case rx_hashtbl b of None \<Rightarrow> None | Some t \<Rightarrow> used_next (entry t i))"

subsection \<open>Entries of the table\<close>

definition rlb_init_table_entry_dst :: "rlb_client_info \<Rightarrow> rlb_client_info" where
  "rlb_init_table_entry_dst c = c\<lparr>used_next := None, used_prev := None, assigned := False, c_slave := None, vlan_id := 0\<rparr>"

definition rlb_init_table_entry_src :: "rlb_client_info \<Rightarrow> rlb_client_info" where
  "rlb_init_table_entry_src c = c\<lparr>src_first := None, src_prev := None, src_next := None\<rparr>"

definition zero_rlb :: rlb_client_info where
  "zero_rlb = \<lparr>c_ip_src = [0, 0, 0, 0], c_ip_dst = [0, 0, 0, 0], c_mac_src = [0, 0, 0, 0, 0, 0],
     c_mac_dst = [0, 0, 0, 0, 0, 0], used_next = Some 0, used_prev = Some 0, src_next = Some 0, src_prev = Some 0,
     src_first = Some 0, assigned = False, c_ntt = False, c_slave = None, vlan_id = 0\<rparr>"

definition rlb_init_table_entry :: rlb_client_info where
  "rlb_init_table_entry = rlb_init_table_entry_src (rlb_init_table_entry_dst zero_rlb)"

definition rlb_delete_table_entry_dst :: "u8 \<Rightarrow> rlb_table \<Rightarrow> rlb_table" where
  "rlb_delete_table_entry_dst i t =
     (let next_index = used_next (entry t i); prev_index = used_prev (entry t i);
          t = (if used_head t = Some i then t\<lparr>used_head := next_index\<rparr> else t);
          t = (case prev_index of None \<Rightarrow> t | Some p \<Rightarrow> upd_entry p (\<lambda>c. c\<lparr>used_next := next_index\<rparr>) t)
      in case next_index of None \<Rightarrow> t | Some n \<Rightarrow> upd_entry n (\<lambda>c. c\<lparr>used_prev := prev_index\<rparr>) t)"

definition rlb_src_unlink :: "u8 \<Rightarrow> rlb_table \<Rightarrow> rlb_table" where
  "rlb_src_unlink i t =
     (let next_index = src_next (entry t i); prev_index = src_prev (entry t i);
          t = upd_entry i (\<lambda>c. c\<lparr>src_next := None, src_prev := None\<rparr>) t;
          t = (case next_index of None \<Rightarrow> t | Some n \<Rightarrow> upd_entry n (\<lambda>c. c\<lparr>src_prev := prev_index\<rparr>) t)
      in case prev_index of None \<Rightarrow> t
         | Some p \<Rightarrow> if src_first (entry t p) = Some i then upd_entry p (\<lambda>c. c\<lparr>src_first := next_index\<rparr>) t
                     else upd_entry p (\<lambda>c. c\<lparr>src_next := next_index\<rparr>) t)"

definition rlb_delete_table_entry :: "u8 \<Rightarrow> rlb_table \<Rightarrow> rlb_table" where
  "rlb_delete_table_entry i t = rlb_src_unlink i (upd_entry i rlb_init_table_entry_dst (rlb_delete_table_entry_dst i t))"

definition rlb_src_link :: "u8 \<Rightarrow> u8 \<Rightarrow> rlb_table \<Rightarrow> rlb_table" where
  "rlb_src_link ip_src_hash ip_dst_hash t =
     (let t = upd_entry ip_dst_hash (\<lambda>c. c\<lparr>src_prev := Some ip_src_hash\<rparr>) t;
          nxt = src_first (entry t ip_src_hash);
          t = upd_entry ip_dst_hash (\<lambda>c. c\<lparr>src_next := nxt\<rparr>) t;
          t = (case nxt of None \<Rightarrow> t | Some n \<Rightarrow> upd_entry n (\<lambda>c. c\<lparr>src_prev := Some ip_dst_hash\<rparr>) t)
      in upd_entry ip_src_hash (\<lambda>c. c\<lparr>src_first := Some ip_dst_hash\<rparr>) t)"

definition rlb_purge_src_ip :: "arp_pkt \<Rightarrow> rlb_table \<Rightarrow> rlb_table defined" where
  "rlb_purge_src_ip arp t =
     walk_before (\<lambda>t i. src_next (entry t i))
       (\<lambda>i t. if c_ip_src (entry t i) = ip_src arp \<and> mac_src arp \<noteq> c_mac_src (entry t i)
              then rlb_delete_table_entry i t else t)
       (src_first (entry t (simple_hash (ip_src arp)))) t"

definition rlb_clear_vlan_table :: "u16 \<Rightarrow> rlb_table \<Rightarrow> rlb_table defined" where
  "rlb_clear_vlan_table vid t =
     walk_before (\<lambda>t i. used_next (entry t i))
       (\<lambda>i t. if vlan_id (entry t i) = vid then rlb_delete_table_entry i t else t) (used_head t) t"

definition rlb_clear_vlan :: "u16 \<Rightarrow> alb_bond \<Rightarrow> alb_bond defined" where
  "rlb_clear_vlan vid b = (case rx_hashtbl b of None \<Rightarrow> Some b
     | Some t \<Rightarrow> do { t \<leftarrow> rlb_clear_vlan_table vid t; Some (b\<lparr>rx_hashtbl := Some t\<rparr>) })"

definition rlb_initialize :: "bool \<Rightarrow> alb_bond \<Rightarrow> int \<times> alb_bond" where
  "rlb_initialize mem b =
     (if \<not> mem then (- 1, b) else (0, b\<lparr>rx_hashtbl := Some \<lparr>entry = (\<lambda>_. rlb_init_table_entry), used_head = None\<rparr>\<rparr>))"

definition rlb_deinitialize :: "alb_bond \<Rightarrow> alb_bond" where
  "rlb_deinitialize b = b\<lparr>rx_hashtbl := None\<rparr>"

subsection \<open>Learning packets\<close>

definition alb_send_lp_vid :: "alb_env \<Rightarrow> nat \<Rightarrow> mac_addr \<Rightarrow> u16 \<Rightarrow> alb_bond \<Rightarrow> alb_bond" where
  "alb_send_lp_vid e s mac vid b =
     (if alloc_ok e (length (alb_frames b)) then b\<lparr>alb_frames := alb_frames b @ [LearningPacket s mac vid]\<rparr> else b)"

text \<open>The first component of the result tells \<open>netdev_walk_all_upper_dev_rcu\<close> to stop.\<close>

definition alb_upper_dev_walk :: "alb_env \<Rightarrow> nat \<Rightarrow> mac_addr \<Rightarrow> bool \<Rightarrow> upper_dev \<Rightarrow> alb_bond \<Rightarrow> bool \<times> alb_bond" where
  "alb_upper_dev_walk e s mac strict_match u b =
     (let b = (if vlan_above u then alb_send_lp_vid e s (if addr_stolen u then mac else upper_addr u) (vlan_dev_id u) b else b)
      in if is_macvlan u \<and> \<not> strict_match then
           (case path_tags u of None \<Rightarrow> (True, b) | Some vid \<Rightarrow> (False, alb_send_lp_vid e s (upper_addr u) vid b))
         else (False, b))"

fun walk_upper_devs :: "alb_env \<Rightarrow> nat \<Rightarrow> mac_addr \<Rightarrow> bool \<Rightarrow> upper_dev list \<Rightarrow> alb_bond \<Rightarrow> alb_bond" where
  "walk_upper_devs e s mac strict_match [] b = b"
| "walk_upper_devs e s mac strict_match (u # us) b =
     (case alb_upper_dev_walk e s mac strict_match u b of (stop, b) \<Rightarrow> if stop then b else walk_upper_devs e s mac strict_match us b)"

definition alb_send_learning_packets :: "alb_env \<Rightarrow> nat \<Rightarrow> mac_addr \<Rightarrow> bool \<Rightarrow> alb_bond \<Rightarrow> alb_bond" where
  "alb_send_learning_packets e s mac strict_match b =
     walk_upper_devs e s mac strict_match (upper_devs e) (alb_send_lp_vid e s mac 0 b)"

subsection \<open>The slave that receives\<close>

definition faster :: "alb_bond \<Rightarrow> nat option \<Rightarrow> nat \<Rightarrow> nat option" where
  "faster b cur s = (case cur of None \<Rightarrow> Some s
     | Some c \<Rightarrow> if speed (alb_slave b c) < speed (alb_slave b s) then Some s else cur)"

fun next_rx_loop :: "alb_bond \<Rightarrow> nat list \<Rightarrow> nat option \<Rightarrow> nat option \<Rightarrow> bool \<Rightarrow> nat option \<times> nat option" where
  "next_rx_loop b [] before rx found = (before, rx)"
| "next_rx_loop b (s # ss) before rx found =
     (if \<not> can_tx (alb_slave b s) then next_rx_loop b ss before rx found
      else if \<not> found then next_rx_loop b ss (faster b before s) rx (rx_slave b = Some s)
      else next_rx_loop b ss before (faster b rx s) True)"

definition rlb_next_rx_slave :: "alb_bond \<Rightarrow> nat option \<times> alb_bond" where
  "rlb_next_rx_slave b =
     (let (before, rx) = next_rx_loop b (alb_slaves b) None None False;
          rx = (case rx of None \<Rightarrow> before
            | Some r \<Rightarrow> (case before of
                Some x \<Rightarrow> if speed (alb_slave b r) < speed (alb_slave b x) then before else rx
              | None \<Rightarrow> rx))
      in case rx of None \<Rightarrow> (None, b) | Some r \<Rightarrow> (Some r, b\<lparr>rx_slave := Some r\<rparr>))"

definition rlb_teach_disabled_mac_on_primary :: "alb_env \<Rightarrow> mac_addr \<Rightarrow> alb_bond \<Rightarrow> alb_bond" where
  "rlb_teach_disabled_mac_on_primary e addr b = (case curr_active_slave b of
     None \<Rightarrow> b
   | Some c \<Rightarrow>
       (let b = (if primary_is_promisc b then b
                 else if set_promisc_ok e
                 then b\<lparr>promiscuity := (promiscuity b)(c := promiscuity b c + 1), primary_is_promisc := True\<rparr>
                 else b\<lparr>primary_is_promisc := False\<rparr>)
        in alb_send_learning_packets e c addr True (b\<lparr>rlb_promisc_timeout_counter := 0\<rparr>)))"

subsection \<open>Clients of a slave\<close>

definition clear_client :: "alb_env \<Rightarrow> nat \<Rightarrow> u8 \<Rightarrow> alb_bond \<Rightarrow> alb_bond" where
  "clear_client e s i b = (case rx_hashtbl b of None \<Rightarrow> b | Some t \<Rightarrow>
     if c_slave (entry t i) \<noteq> Some s then b
     else (case rlb_next_rx_slave b of
         (Some r, b) \<Rightarrow>
           if is_valid_ether_addr e (c_mac_dst (entry t i))
           then (upd_client i (\<lambda>c. c\<lparr>c_slave := Some r, c_ntt := True\<rparr>) b)
             \<lparr>rx_ntt := True, rlb_update_retry_counter := RLB_UPDATE_RETRY e\<rparr>
           else upd_client i (\<lambda>c. c\<lparr>c_slave := Some r\<rparr>) b
       | (None, b) \<Rightarrow> upd_client i (\<lambda>c. c\<lparr>c_slave := None\<rparr>) b))"

definition rlb_clear_slave :: "alb_env \<Rightarrow> nat \<Rightarrow> alb_bond \<Rightarrow> alb_bond defined" where
  "rlb_clear_slave e s b = do {
     b \<leftarrow> walk_before rx_next (clear_client e s) (rx_head b) b;
     Some (if curr_active_slave b \<noteq> Some s then rlb_teach_disabled_mac_on_primary e (hw_addr (alb_slave b s)) b else b)
   }"

definition rlb_update_client :: "alb_env \<Rightarrow> rlb_client_info \<Rightarrow> alb_bond \<Rightarrow> alb_bond" where
  "rlb_update_client e c b = (case c_slave c of
     None \<Rightarrow> b
   | Some s \<Rightarrow>
       if \<not> is_valid_ether_addr e (c_mac_dst c) then b
       else b\<lparr>alb_frames := alb_frames b @ replicate (length (filter (alloc_ok e) [0..<RLB_ARP_BURST_SIZE e]))
         (ArpReply s (c_ip_dst c) (c_ip_src c) (c_mac_dst c) (hw_addr (alb_slave b s)) (vlan_id c))\<rparr>)"

definition update_rx_client :: "alb_env \<Rightarrow> u8 \<Rightarrow> alb_bond \<Rightarrow> alb_bond" where
  "update_rx_client e i b = (case rx_hashtbl b of None \<Rightarrow> b | Some t \<Rightarrow>
     if \<not> c_ntt (entry t i) then b
     else (let b = rlb_update_client e (entry t i) b
           in if rlb_update_retry_counter b = 0 then upd_client i (\<lambda>c. c\<lparr>c_ntt := False\<rparr>) b else b))"

definition rlb_update_rx_clients :: "alb_env \<Rightarrow> alb_bond \<Rightarrow> alb_bond defined" where
  "rlb_update_rx_clients e b = do {
     b \<leftarrow> walk_after rx_next (update_rx_client e) (rx_head b) b;
     Some (b\<lparr>rlb_update_delay_counter := RLB_UPDATE_DELAY e\<rparr>)
   }"

definition req_slave_client :: "alb_env \<Rightarrow> nat \<Rightarrow> u8 \<Rightarrow> alb_bond \<times> bool \<Rightarrow> alb_bond \<times> bool" where
  "req_slave_client e s i x = (case x of (b, ntt) \<Rightarrow> case rx_hashtbl b of None \<Rightarrow> x | Some t \<Rightarrow>
     if c_slave (entry t i) = Some s \<and> is_valid_ether_addr e (c_mac_dst (entry t i))
     then (upd_client i (\<lambda>c. c\<lparr>c_ntt := True\<rparr>) b, True) else x)"

definition rlb_req_update_slave_clients :: "alb_env \<Rightarrow> nat \<Rightarrow> alb_bond \<Rightarrow> alb_bond defined" where
  "rlb_req_update_slave_clients e s b = do {
     (b, ntt) \<leftarrow> walk_after (\<lambda>x. rx_next (fst x)) (req_slave_client e s) (rx_head b) (b, False);
     Some (if ntt then b\<lparr>rx_ntt := True, rlb_update_retry_counter := RLB_UPDATE_RETRY e\<rparr> else b)
   }"

definition req_subnet_client :: "alb_env \<Rightarrow> ip_addr \<Rightarrow> u8 \<Rightarrow> alb_bond \<Rightarrow> alb_bond" where
  "req_subnet_client e ip i b = (case rx_hashtbl b of None \<Rightarrow> b | Some t \<Rightarrow>
     (case c_slave (entry t i) of
        None \<Rightarrow> b
      | Some s \<Rightarrow>
          if c_ip_src (entry t i) = ip \<and> hw_addr (alb_slave b s) \<noteq> bond_addr b \<and> is_valid_ether_addr e (c_mac_dst (entry t i))
          then (upd_client i (\<lambda>c. c\<lparr>c_ntt := True\<rparr>) b)\<lparr>rx_ntt := True\<rparr> else b))"

definition rlb_req_update_subnet_clients :: "alb_env \<Rightarrow> ip_addr \<Rightarrow> alb_bond \<Rightarrow> alb_bond defined" where
  "rlb_req_update_subnet_clients e ip b = walk_after rx_next (req_subnet_client e ip) (rx_head b) b"

definition rebalance_client :: "u8 \<Rightarrow> alb_bond \<times> bool \<Rightarrow> alb_bond \<times> bool" where
  "rebalance_client i x = (case x of (b, ntt) \<Rightarrow> case rx_hashtbl b of None \<Rightarrow> x | Some t \<Rightarrow>
     (case rlb_next_rx_slave b of
        (None, b) \<Rightarrow> (b, ntt)
      | (Some r, b) \<Rightarrow>
          if c_slave (entry t i) = Some r then (b, ntt)
          else if is_zero_ether_addr (c_mac_dst (entry t i)) then (upd_client i (\<lambda>c. c\<lparr>c_slave := Some r\<rparr>) b, ntt)
          else (upd_client i (\<lambda>c. c\<lparr>c_slave := Some r, c_ntt := True\<rparr>) b, True)))"

definition rlb_rebalance :: "alb_bond \<Rightarrow> alb_bond defined" where
  "rlb_rebalance b = do {
     (b, ntt) \<leftarrow> walk_after (\<lambda>x. rx_next (fst x)) rebalance_client (rx_head b) (b, False);
     Some (if ntt then b\<lparr>rx_ntt := True\<rparr> else b)
   }"

subsection \<open>ARP traffic\<close>

definition rlb_update_entry_from_arp :: "arp_pkt \<Rightarrow> alb_bond \<Rightarrow> alb_bond defined" where
  "rlb_update_entry_from_arp arp b = do {
     t \<leftarrow> rx_hashtbl b;
     let i = simple_hash (ip_src arp);
     let c = entry t i;
     Some (if assigned c \<and> c_ip_src c = ip_dst arp \<and> c_ip_dst c = ip_src arp \<and> c_mac_dst c \<noteq> mac_src arp
       then (upd_client i (\<lambda>c. c\<lparr>c_mac_dst := mac_src arp, c_ntt := True\<rparr>) b)\<lparr>rx_ntt := True\<rparr> else b)
   }"

text \<open>The argument is the ARP packet of the frame, if its protocol is ARP and its header can be read.\<close>

definition rlb_arp_recv :: "arp_pkt option \<Rightarrow> alb_bond \<Rightarrow> alb_bond defined" where
  "rlb_arp_recv skb b = (case skb of
     None \<Rightarrow> Some b
   | Some arp \<Rightarrow> do {
       t \<leftarrow> rx_hashtbl b;
       t \<leftarrow> rlb_purge_src_ip arp t;
       let b = b\<lparr>rx_hashtbl := Some t\<rparr>;
       if op_code arp = ARPOP_REPLY then rlb_update_entry_from_arp arp b else Some b
     })"

definition rlb_push_used :: "u8 \<Rightarrow> rlb_table \<Rightarrow> rlb_table" where
  "rlb_push_used h t =
     (let prev_tbl_head = used_head t;
          t = upd_entry h (\<lambda>c. c\<lparr>used_next := prev_tbl_head\<rparr>) (t\<lparr>used_head := Some h\<rparr>);
          t = (case prev_tbl_head of None \<Rightarrow> t | Some p \<Rightarrow> upd_entry p (\<lambda>c. c\<lparr>used_prev := Some h\<rparr>) t)
      in upd_entry h (\<lambda>c. c\<lparr>assigned := True\<rparr>) t)"

definition rlb_fill :: "alb_env \<Rightarrow> u16 option \<Rightarrow> arp_pkt \<Rightarrow> u8 \<Rightarrow> nat \<Rightarrow> rlb_table \<Rightarrow> rlb_table" where
  "rlb_fill e vlan arp h s t =
     (let t = (if assigned (entry t h) \<and> c_ip_src (entry t h) = ip_src arp then t
               else rlb_src_link (simple_hash (ip_src arp)) h (rlb_src_unlink h t));
          t = upd_entry h (\<lambda>c. c\<lparr>c_ip_src := ip_src arp, c_ip_dst := ip_dst arp, c_mac_dst := mac_dst arp,
                c_mac_src := mac_src arp, c_slave := Some s, c_ntt := is_valid_ether_addr e (mac_dst arp),
                vlan_id := (case vlan of None \<Rightarrow> 0 | Some v \<Rightarrow> v)\<rparr>) t
      in if assigned (entry t h) then t else rlb_push_used h t)"

definition rlb_assign :: "alb_env \<Rightarrow> u16 option \<Rightarrow> arp_pkt \<Rightarrow> u8 \<Rightarrow> alb_bond \<Rightarrow> nat option \<times> alb_bond" where
  "rlb_assign e vlan arp h b = (case rlb_next_rx_slave b of
     (None, b) \<Rightarrow> (None, b)
   | (Some s, b) \<Rightarrow> (Some s, b\<lparr>rx_hashtbl := map_option (rlb_fill e vlan arp h s) (rx_hashtbl b),
       rx_ntt := (rx_ntt b \<or> is_valid_ether_addr e (mac_dst arp))\<rparr>))"

definition rlb_choose_channel :: "alb_env \<Rightarrow> u16 option \<Rightarrow> arp_pkt \<Rightarrow> alb_bond \<Rightarrow> (nat option \<times> alb_bond) defined" where
  "rlb_choose_channel e vlan arp b = do {
     t \<leftarrow> rx_hashtbl b;
     let h = simple_hash (ip_dst arp);
     let c = entry t h;
     if assigned c \<and> c_ip_src c = ip_src arp \<and> c_ip_dst c = ip_dst arp then do {
       let b = upd_client h (\<lambda>c. c\<lparr>c_mac_dst := (if is_broadcast_ether_addr e (mac_dst arp) then c_mac_dst c else mac_dst arp),
             c_mac_src := mac_src arp\<rparr>) b;
       if c_slave c \<noteq> None then Some (c_slave c, b) else Some (rlb_assign e vlan arp h b)
     }
     else do {
       let b = (if assigned c \<and> curr_active_slave b \<noteq> None \<and> c_slave c \<noteq> curr_active_slave b
             then rlb_update_client e (c\<lparr>c_slave := curr_active_slave b\<rparr>)
               (upd_client h (\<lambda>c. c\<lparr>c_slave := curr_active_slave b\<rparr>) b)
             else b);
       Some (rlb_assign e vlan arp h b)
     }
   }"

text \<open>
  \<open>arp\<close> is the packet if it can be read, \<open>bridged\<close> whether the source address belongs to a bridge;
  the source address of a sent reply is replaced by the one of the chosen slave.
\<close>

definition rlb_arp_xmit :: "alb_env \<Rightarrow> u16 option \<Rightarrow> bool \<Rightarrow> arp_pkt option \<Rightarrow> alb_bond \<Rightarrow> (nat option \<times> arp_pkt option \<times> alb_bond) defined" where
  "rlb_arp_xmit e vlan bridged skb b = (case skb of
     None \<Rightarrow> Some (None, skb, b)
   | Some arp \<Rightarrow>
       if \<not> list_ex (\<lambda>s. hw_addr (alb_slave b s) = mac_src arp) (alb_slaves b) \<or> bridged then Some (None, skb, b)
       else (case op_code arp of
           ARPOP_REPLY \<Rightarrow> do {
             (tx_slave, b) \<leftarrow> rlb_choose_channel e vlan arp b;
             Some (tx_slave, Some (case tx_slave of None \<Rightarrow> arp | Some s \<Rightarrow> arp\<lparr>mac_src := hw_addr (alb_slave b s)\<rparr>), b)
           }
         | ARPOP_REQUEST \<Rightarrow> do {
             (tx_slave, b) \<leftarrow> rlb_choose_channel e vlan arp b;
             b \<leftarrow> rlb_req_update_subnet_clients e (ip_src arp) (b\<lparr>rlb_update_delay_counter := RLB_UPDATE_DELAY e\<rparr>);
             Some (tx_slave, skb, b)
           }
         | ARPOP_OTHER \<Rightarrow> Some (None, skb, b)))"

end
