(* ===== verification/Alb_Table.thy ===== *)
theory Alb_Table
  imports Alb_Rlb
begin

text \<open>
  The receive table of servers/bond_alb.c as a map from hashes to clients: the lists threaded through the
  entries stay consistent, and the functions that delete clients delete exactly those they should.
\<close>

subsection \<open>The list of the entries with one source hash\<close>

abbreviation snext :: "rlb_table \<Rightarrow> u8 \<Rightarrow> index" where "snext t i \<equiv> src_next (entry t i)"
abbreviation sprev :: "rlb_table \<Rightarrow> u8 \<Rightarrow> index" where "sprev t i \<equiv> src_prev (entry t i)"
abbreviation sfirst :: "rlb_table \<Rightarrow> u8 \<Rightarrow> index" where "sfirst t i \<equiv> src_first (entry t i)"
abbreviation unext :: "rlb_table \<Rightarrow> u8 \<Rightarrow> index" where "unext t i \<equiv> used_next (entry t i)"
abbreviation uprev :: "rlb_table \<Rightarrow> u8 \<Rightarrow> index" where "uprev t i \<equiv> used_prev (entry t i)"

text \<open>\<open>S h\<close> is the list that starts in entry \<open>h\<close>; an entry is on one list at most.\<close>

definition src_inv :: "rlb_table \<Rightarrow> (u8 \<Rightarrow> u8 list) \<Rightarrow> bool" where
  "src_inv t S = ((\<forall>h. dseg (snext t) (sprev t) (Some h) (sfirst t h) (S h)) \<and>
     (\<forall>g h i. i \<in> set (S g) \<longrightarrow> i \<in> set (S h) \<longrightarrow> g = h) \<and>
     (\<forall>i. (\<forall>h. i \<notin> set (S h)) \<longrightarrow> snext t i = None \<and> sprev t i = None))"

lemma src_invD:
  assumes "src_inv t S"
  shows "dseg (snext t) (sprev t) (Some h) (sfirst t h) (S h)" "i \<in> set (S g) \<Longrightarrow> i \<in> set (S h) \<Longrightarrow> g = h"
    "(\<And>h. i \<notin> set (S h)) \<Longrightarrow> snext t i = None \<and> sprev t i = None" "sfirst t h = Some i \<Longrightarrow> i \<in> set (S h)"
proof -
  show d: "dseg (snext t) (sprev t) (Some h) (sfirst t h) (S h)" for h using assms by (simp add: src_inv_def)
  show "i \<in> set (S g) \<Longrightarrow> i \<in> set (S h) \<Longrightarrow> g = h" "(\<And>h. i \<notin> set (S h)) \<Longrightarrow> snext t i = None \<and> sprev t i = None"
    using assms by (auto simp: src_inv_def)
  show "sfirst t h = Some i \<Longrightarrow> i \<in> set (S h)" using dseg_head [OF d] hd_opt_Some by metis
qed

lemma unlink_fields:
  "snext (rlb_src_unlink i t) j = (if sprev t i = Some j \<and> sfirst t j \<noteq> Some i then snext t i
     else if j = i then None else snext t j)"
  "sprev (rlb_src_unlink i t) j = (if snext t i = Some j then sprev t i else if j = i then None else sprev t j)"
  "sfirst (rlb_src_unlink i t) j = (if sprev t i = Some j \<and> sfirst t j = Some i then snext t i else sfirst t j)"
  by (auto simp: rlb_src_unlink_def Let_def split: option.splits)

text \<open>What the functions on the source lists leave alone.\<close>

definition same_dst :: "rlb_table \<Rightarrow> rlb_table \<Rightarrow> bool" where
  "same_dst t t' = (used_head t' = used_head t \<and> (\<forall>j. unext t' j = unext t j \<and> uprev t' j = uprev t j \<and>
     assigned (entry t' j) = assigned (entry t j) \<and> c_ip_src (entry t' j) = c_ip_src (entry t j) \<and>
     c_ip_dst (entry t' j) = c_ip_dst (entry t j) \<and> c_mac_src (entry t' j) = c_mac_src (entry t j) \<and>
     c_mac_dst (entry t' j) = c_mac_dst (entry t j) \<and> c_ntt (entry t' j) = c_ntt (entry t j) \<and>
     c_slave (entry t' j) = c_slave (entry t j) \<and> vlan_id (entry t' j) = vlan_id (entry t j)))"

lemma same_dst_trans: "same_dst t t' \<Longrightarrow> same_dst t' t'' \<Longrightarrow> same_dst t t''"
  by (simp add: same_dst_def)

lemma unlink_dst: "same_dst t (rlb_src_unlink i t)"
  by (simp add: same_dst_def rlb_src_unlink_def Let_def split: option.split)

lemma link_dst: "same_dst t (rlb_src_link g i t)"
  by (simp add: same_dst_def rlb_src_link_def Let_def split: option.split)

lemma link_fields:
  "snext (rlb_src_link g i t) j = (if j = i then sfirst t g else snext t j)"
  "sprev (rlb_src_link g i t) j = (if sfirst t g = Some j then Some i else if j = i then Some g else sprev t j)"
  "sfirst (rlb_src_link g i t) j = (if j = g then Some i else sfirst t j)"
  by (auto simp: rlb_src_link_def Let_def split: option.splits)

lemma src_cong:
  assumes "src_inv t S" "\<And>i. snext t' i = snext t i \<and> sprev t' i = sprev t i \<and> sfirst t' i = sfirst t i"
  shows "src_inv t' S"
proof -
  have "snext t' = snext t" "sprev t' = sprev t" "sfirst t' = sfirst t" using assms(2) by auto
  then show ?thesis using assms(1) unfolding src_inv_def by metis
qed

text \<open>Where an entry is on a list.\<close>

lemma src_split:
  assumes "src_inv t S" "i \<in> set (S g)"
  obtains xs ys where "S g = xs @ i # ys" "snext t i = hd_opt ys" "sprev t i = Some (if xs = [] then g else last xs)"
    "i \<notin> set xs" "i \<notin> set ys" "sfirst t g = hd_opt (xs @ [i])"
proof -
  obtain xs ys where s: "S g = xs @ i # ys" using assms(2) by (auto dest: split_list)
  note d = src_invD(1) [OF assms(1), of g, unfolded s]
  have "sfirst t g = hd_opt (xs @ [i])" using dseg_head [OF d] by (cases xs) auto
  with dseg_mid [OF d] dseg_distinct [OF d] s show ?thesis by (intro that) auto
qed

lemma last_not_first:
  assumes "src_inv t S" "S g = xs @ i # ys" "xs \<noteq> []"
  shows "sfirst t h \<noteq> Some i"
proof
  assume f: "sfirst t h = Some i"
  have "h = g" using src_invD(2) [OF assms(1)] src_invD(4) [OF assms(1) f] assms(2) by auto
  then have "hd_opt (S g) = Some i" using f dseg_head [OF src_invD(1) [OF assms(1), of g]] by simp
  then show False using assms(2,3) dseg_distinct [OF src_invD(1) [OF assms(1), of g]] by (cases xs) auto
qed

lemma src_unlink_inv:
  assumes inv: "src_inv t S"
  shows "src_inv (rlb_src_unlink i t) (\<lambda>h. remove1 i (S h))"
proof (cases "\<exists>g. i \<in> set (S g)")
  case False
  then have "snext t i = None \<and> sprev t i = None" using src_invD(3) [OF inv, of i] by blast
  then have "src_inv (rlb_src_unlink i t) S" by (intro src_cong [OF inv]) (auto simp: unlink_fields)
  moreover have "(\<lambda>h. remove1 i (S h)) = S" using False by (simp add: remove1_idem fun_eq_iff)
  ultimately show ?thesis by simp
next
  case True
  then obtain g where g: "i \<in> set (S g)" by blast
  obtain xs ys where s: "S g = xs @ i # ys" and n: "snext t i = hd_opt ys"
    and p: "sprev t i = Some (if xs = [] then g else last xs)" and i: "i \<notin> set xs" "i \<notin> set ys"
    and f: "sfirst t g = hd_opt (xs @ [i])"
    using src_split [OF inv g] by metis
  let ?t = "rlb_src_unlink i t"
  have pos: "xs \<noteq> [] \<and> j = last xs" if "sprev t i = Some j" "sfirst t j \<noteq> Some i" for j
    using that p f by (cases "xs = []") auto
  have nxt: "snext ?t j = (if xs \<noteq> [] \<and> j = last xs then hd_opt ys else if j = i then None else snext t j)" for j
    using pos [of j] p last_not_first [OF inv s] by (auto simp: unlink_fields n)
  have prv: "sprev ?t j = (if hd_opt ys = Some j then sprev t i else if j = i then None else sprev t j)" for j
    by (simp add: unlink_fields n)
  have fst: "sfirst ?t j = (if j = g then hd_opt (xs @ ys) else sfirst t j)" for j
  proof (cases "sfirst t j = Some i")
    case True
    then have "j = g" using src_invD(2) [OF inv] src_invD(4) [OF inv True] g by blast
    with True f i show ?thesis by (cases xs) (auto simp: unlink_fields n p)
  next
    case False
    with f show ?thesis by (cases xs) (auto simp: unlink_fields n)
  qed
  have g': "dseg (snext ?t) (sprev ?t) (Some g) (sfirst ?t g) (remove1 i (S g))"
  proof -
    have "dseg (snext ?t) (sprev ?t) (Some g) (hd_opt (xs @ ys)) (xs @ ys)"
      by (rule dseg_remove [OF src_invD(1) [OF inv, of g, unfolded s]]) (use i in \<open>auto simp: nxt prv\<close>)
    then show ?thesis using i(1) by (simp add: fst s remove1_append)
  qed
  have other: "dseg (snext ?t) (sprev ?t) (Some h) (sfirst ?t h) (remove1 i (S h))" if "h \<noteq> g" for h
  proof -
    have away: "j \<noteq> i \<and> j \<notin> set xs \<and> j \<notin> set ys" if "j \<in> set (S h)" for j
      using src_invD(2) [OF inv that, of g] s \<open>h \<noteq> g\<close> by auto
    have "snext t j = snext ?t j \<and> sprev t j = sprev ?t j" if "j \<in> set (S h)" for j
      using away [OF that] hd_opt_Some [of ys j] last_in_set [of xs] by (auto simp: nxt prv)
    then have "dseg (snext ?t) (sprev ?t) (Some h) (sfirst t h) (S h)"
      using src_invD(1) [OF inv, of h] dseg_cong [of "S h" "snext t" "snext ?t" "sprev t" "sprev ?t"] by blast
    moreover have "i \<notin> set (S h)" using src_invD(2) [OF inv g, of h] that by auto
    ultimately show ?thesis using that by (simp add: fst remove1_idem)
  qed
  have free: "snext ?t j = None \<and> sprev ?t j = None" if j: "\<And>h. j \<notin> set (remove1 i (S h))" for j
  proof -
    have "j \<notin> set xs" "j \<notin> set ys" using j [of g] i by (auto simp: s remove1_append)
    moreover have "snext t j = None \<and> sprev t j = None" if "j \<noteq> i"
      by (rule src_invD(3) [OF inv]) (use j that in \<open>metis in_set_remove1\<close>)
    ultimately show ?thesis using hd_opt_Some [of ys j] last_in_set [of xs] i by (auto simp: nxt prv)
  qed
  have "dseg (snext ?t) (sprev ?t) (Some h) (sfirst ?t h) (remove1 i (S h))" for h using g' other by (cases "h = g") auto
  moreover have "a = b" if "j \<in> set (remove1 i (S a))" "j \<in> set (remove1 i (S b))" for j a b
    using src_invD(2) [OF inv] that notin_set_remove1 by metis
  ultimately show ?thesis unfolding src_inv_def using free by blast
qed

lemma src_link_inv:
  assumes inv: "src_inv t S" and i: "\<And>h. i \<notin> set (S h)"
  shows "src_inv (rlb_src_link g i t) (S(g := i # S g))"
proof -
  let ?t = "rlb_src_link g i t"
  have f: "sfirst t g \<noteq> Some i" using src_invD(4) [OF inv, of g i] i by blast
  have own: "dseg (snext ?t) (sprev ?t) (Some g) (Some i) (i # S g)"
    by (rule dseg_push [OF src_invD(1) [OF inv, of g]]) (use i f in \<open>auto simp: link_fields\<close>)
  have other: "dseg (snext ?t) (sprev ?t) (Some h) (sfirst ?t h) (S h)" if "h \<noteq> g" for h
  proof -
    have "snext t j = snext ?t j \<and> sprev t j = sprev ?t j" if "j \<in> set (S h)" for j
      using that i src_invD(4) [OF inv, of g j] src_invD(2) [OF inv that, of g] \<open>h \<noteq> g\<close> by (auto simp: link_fields)
    then show ?thesis
      using src_invD(1) [OF inv, of h] dseg_cong [of "S h" "snext t" "snext ?t" "sprev t" "sprev ?t"] that
      by (simp add: link_fields)
  qed
  have "dseg (snext ?t) (sprev ?t) (Some h) (sfirst ?t h) ((S(g := i # S g)) h)" for h
    using own other by (cases "h = g") (simp_all add: link_fields(3))
  moreover have "a = b" if "j \<in> set ((S(g := i # S g)) a)" "j \<in> set ((S(g := i # S g)) b)" for j a b
    using that i src_invD(2) [OF inv, of j a b] by (auto split: if_splits)
  moreover have "snext ?t j = None \<and> sprev ?t j = None" if j: "\<And>h. j \<notin> set ((S(g := i # S g)) h)" for j
  proof -
    have "j \<noteq> i" using j [of g] by simp
    moreover have "j \<notin> set (S h)" for h using j [of h] by (cases "h = g") simp_all
    ultimately show ?thesis using src_invD(3) [OF inv, of j] src_invD(4) [OF inv, of g j] by (auto simp: link_fields)
  qed
  ultimately show ?thesis unfolding src_inv_def by blast
qed

subsection \<open>The list of the used entries\<close>

definition used_inv :: "rlb_table \<Rightarrow> u8 list \<Rightarrow> bool" where
  "used_inv t U = (dseg (unext t) (uprev t) None (used_head t) U \<and> (\<forall>i. i \<notin> set U \<longrightarrow> uprev t i = None))"

lemma used_cong:
  assumes "used_inv t U" "used_head t' = used_head t" "\<And>i. unext t' i = unext t i \<and> uprev t' i = uprev t i"
  shows "used_inv t' U"
proof -
  have "unext t' = unext t" "uprev t' = uprev t" using assms(3) by auto
  then show ?thesis using assms(1,2) unfolding used_inv_def by metis
qed

text \<open>Removing an entry from the list of used entries.\<close>

definition drop_used :: "u8 \<Rightarrow> rlb_table \<Rightarrow> rlb_table" where
  "drop_used i t = upd_entry i rlb_init_table_entry_dst (rlb_delete_table_entry_dst i t)"

lemma drop_fields:
  "used_head (drop_used i t) = (if used_head t = Some i then unext t i else used_head t)"
  "unext (drop_used i t) j = (if j = i then None else if uprev t i = Some j then unext t i else unext t j)"
  "uprev (drop_used i t) j = (if j = i then None else if unext t i = Some j then uprev t i else uprev t j)"
  by (auto simp: drop_used_def rlb_delete_table_entry_dst_def rlb_init_table_entry_dst_def Let_def split: option.splits)

lemma drop_src:
  "snext (drop_used i t) j = snext t j" "sprev (drop_used i t) j = sprev t j" "sfirst (drop_used i t) j = sfirst t j"
  by (auto simp: drop_used_def rlb_delete_table_entry_dst_def rlb_init_table_entry_dst_def Let_def split: option.splits)

lemma drop_data:
  "assigned (entry (drop_used i t) j) = (j \<noteq> i \<and> assigned (entry t j))"
  "c_slave (entry (drop_used i t) j) = (if j = i then None else c_slave (entry t j))"
  "vlan_id (entry (drop_used i t) j) = (if j = i then 0 else vlan_id (entry t j))"
  "c_ip_src (entry (drop_used i t) j) = c_ip_src (entry t j)" "c_ip_dst (entry (drop_used i t) j) = c_ip_dst (entry t j)"
  "c_mac_src (entry (drop_used i t) j) = c_mac_src (entry t j)" "c_mac_dst (entry (drop_used i t) j) = c_mac_dst (entry t j)"
  "c_ntt (entry (drop_used i t) j) = c_ntt (entry t j)"
  by (auto simp: drop_used_def rlb_delete_table_entry_dst_def rlb_init_table_entry_dst_def Let_def split: option.splits)

lemma drop_used_inv:
  assumes inv: "used_inv t U" and i: "i \<in> set U"
  shows "used_inv (drop_used i t) (remove1 i U)"
proof -
  obtain xs ys where U: "U = xs @ i # ys" using i by (auto dest: split_list)
  have d: "dseg (unext t) (uprev t) None (used_head t) (xs @ i # ys)" using inv U by (simp add: used_inv_def)
  note m = dseg_mid [OF d] and ds = dseg_distinct [OF d] and hd = dseg_head [OF d]
  let ?t = "drop_used i t"
  have nxt: "unext ?t j = (if j = i then None else if xs \<noteq> [] \<and> j = last xs then hd_opt ys else unext t j)" for j
    using m(1,2) by (auto simp: drop_fields)
  have prv: "uprev ?t j = (if j = i then None else if hd_opt ys = Some j then uprev t i else uprev t j)" for j
    using m(1) by (simp add: drop_fields)
  have "used_head ?t = hd_opt (xs @ ys)" using hd m(1) ds by (cases xs) (auto simp: drop_fields)
  moreover have "dseg (unext ?t) (uprev ?t) None (hd_opt (xs @ ys)) (xs @ ys)"
    by (rule dseg_remove [OF d]) (use ds in \<open>auto simp: nxt prv\<close>)
  moreover have "uprev ?t j = None" if "j \<notin> set (xs @ ys)" for j
    using that inv hd_opt_Some [of ys j] by (auto simp: prv used_inv_def U)
  moreover have "remove1 i U = xs @ ys" using ds U by (simp add: remove1_append)
  ultimately show ?thesis by (simp add: used_inv_def)
qed

lemma push_fields:
  "used_head (rlb_push_used h t) = Some h"
  "unext (rlb_push_used h t) j = (if j = h then used_head t else unext t j)"
  "uprev (rlb_push_used h t) j = (if used_head t = Some j then Some h else uprev t j)"
  "assigned (entry (rlb_push_used h t) j) = (j = h \<or> assigned (entry t j))"
  "snext (rlb_push_used h t) j = snext t j" "sprev (rlb_push_used h t) j = sprev t j" "sfirst (rlb_push_used h t) j = sfirst t j"
  by (auto simp: rlb_push_used_def Let_def split: option.splits)

lemma push_data:
  "c_slave (entry (rlb_push_used h t) j) = c_slave (entry t j)" "vlan_id (entry (rlb_push_used h t) j) = vlan_id (entry t j)"
  "c_ip_src (entry (rlb_push_used h t) j) = c_ip_src (entry t j)" "c_ip_dst (entry (rlb_push_used h t) j) = c_ip_dst (entry t j)"
  "c_mac_src (entry (rlb_push_used h t) j) = c_mac_src (entry t j)" "c_mac_dst (entry (rlb_push_used h t) j) = c_mac_dst (entry t j)"
  "c_ntt (entry (rlb_push_used h t) j) = c_ntt (entry t j)"
  by (auto simp: rlb_push_used_def Let_def split: option.splits)

lemma push_used_inv:
  assumes inv: "used_inv t U" and h: "h \<notin> set U"
  shows "used_inv (rlb_push_used h t) (h # U)"
proof -
  have "used_head t \<noteq> Some h" using inv h dseg_head [of "unext t" "uprev t" None "used_head t" U] hd_opt_Some [of U h]
    by (auto simp: used_inv_def)
  then have "dseg (unext (rlb_push_used h t)) (uprev (rlb_push_used h t)) None (Some h) (h # U)"
    using inv h by (intro dseg_push [of "unext t" "uprev t" None "used_head t"]) (auto simp: used_inv_def push_fields)
  moreover have "uprev (rlb_push_used h t) j = None" if "j \<notin> set (h # U)" for j
    using that inv dseg_head [of "unext t" "uprev t" None "used_head t" U] hd_opt_Some [of U j]
    by (auto simp: used_inv_def push_fields)
  ultimately show ?thesis by (simp add: used_inv_def push_fields(1))
qed

subsection \<open>The invariant of the table\<close>

definition rlb_rel :: "rlb_table \<Rightarrow> u8 list \<Rightarrow> (u8 \<Rightarrow> u8 list) \<Rightarrow> bool" where
  "rlb_rel t U S = (used_inv t U \<and> src_inv t S \<and> (\<forall>i. (i \<in> set U) = assigned (entry t i)) \<and>
     (\<forall>h i. (i \<in> set (S h)) = (assigned (entry t i) \<and> simple_hash (c_ip_src (entry t i)) = h)) \<and>
     (\<forall>i. assigned (entry t i) \<longrightarrow> simple_hash (c_ip_dst (entry t i)) = i) \<and>
     (\<forall>i. \<not> assigned (entry t i) \<longrightarrow> c_slave (entry t i) = None))"

definition rlb_ok :: "rlb_table \<Rightarrow> bool" where
  "rlb_ok t = (\<exists>U S. rlb_rel t U S)"

lemma rlb_relD:
  assumes "rlb_rel t U S"
  shows "used_inv t U" "src_inv t S" "(i \<in> set U) = assigned (entry t i)"
    "(i \<in> set (S h)) = (assigned (entry t i) \<and> simple_hash (c_ip_src (entry t i)) = h)"
    "assigned (entry t i) \<Longrightarrow> simple_hash (c_ip_dst (entry t i)) = i" "\<not> assigned (entry t i) \<Longrightarrow> c_slave (entry t i) = None"
  using assms by (auto simp: rlb_rel_def)

lemma rlb_relI:
  assumes "used_inv t U" "src_inv t S" "\<And>i. (i \<in> set U) = assigned (entry t i)"
    "\<And>h i. (i \<in> set (S h)) = (assigned (entry t i) \<and> simple_hash (c_ip_src (entry t i)) = h)"
    "\<And>i. assigned (entry t i) \<Longrightarrow> simple_hash (c_ip_dst (entry t i)) = i" "\<And>i. \<not> assigned (entry t i) \<Longrightarrow> c_slave (entry t i) = None"
  shows "rlb_rel t U S"
  using assms unfolding rlb_rel_def by blast

text \<open>The table as a map from hashes to what is known of a client.\<close>

type_synonym client = "ip_addr \<times> ip_addr \<times> mac_addr \<times> mac_addr \<times> bool \<times> nat option \<times> u16"

definition client_view :: "rlb_client_info \<Rightarrow> client" where
  "client_view c = (c_ip_src c, c_ip_dst c, c_mac_src c, c_mac_dst c, c_ntt c, c_slave c, vlan_id c)"

definition clients :: "rlb_table \<Rightarrow> u8 \<rightharpoonup> client" where
  "clients t i = (if assigned (entry t i) then Some (client_view (entry t i)) else None)"

lemma same_dst_clients: "same_dst t t' \<Longrightarrow> clients t' = clients t"
  by (simp add: same_dst_def clients_def client_view_def fun_eq_iff)

lemma delete_alt: "rlb_delete_table_entry i t = rlb_src_unlink i (drop_used i t)"
  by (simp add: rlb_delete_table_entry_def drop_used_def)

lemma delete_rel:
  assumes rel: "rlb_rel t U S" and i: "assigned (entry t i)"
  shows "rlb_rel (rlb_delete_table_entry i t) (remove1 i U) (\<lambda>h. remove1 i (S h))"
    "clients (rlb_delete_table_entry i t) = (clients t)(i := None)"
proof -
  let ?d = "drop_used i t" and ?t = "rlb_delete_table_entry i t"
  note D = rlb_relD [OF rel]
  have same: "same_dst ?d ?t" unfolding delete_alt by (rule unlink_dst)
  have du: "distinct U" using D(1) dseg_distinct by (auto simp: used_inv_def)
  have ds: "distinct (S h)" for h using src_invD(1) [OF D(2)] dseg_distinct by blast
  have "used_inv ?d (remove1 i U)" by (rule drop_used_inv) (use D(1,3) i in auto)
  then have u: "used_inv ?t (remove1 i U)" by (rule used_cong) (use same in \<open>auto simp: same_dst_def\<close>)
  have "src_inv ?d S" by (rule src_cong [OF D(2)]) (simp add: drop_src)
  then have s: "src_inv ?t (\<lambda>h. remove1 i (S h))" unfolding delete_alt by (rule src_unlink_inv)
  have f: "assigned (entry ?t j) = (j \<noteq> i \<and> assigned (entry t j))" "c_ip_src (entry ?t j) = c_ip_src (entry t j)"
    "c_ip_dst (entry ?t j) = c_ip_dst (entry t j)" "c_slave (entry ?t j) = (if j = i then None else c_slave (entry t j))" for j
    using same drop_data [of i t j] by (simp_all add: same_dst_def)
  show "rlb_rel ?t (remove1 i U) (\<lambda>h. remove1 i (S h))"
    by (rule rlb_relI [OF u s]) (use du ds D(3-6) in \<open>auto simp: f\<close>)
  show "clients ?t = (clients t)(i := None)"
    unfolding same_dst_clients [OF same] by (auto simp: clients_def client_view_def drop_data fun_eq_iff)
qed

subsection \<open>Loops that delete clients\<close>

definition hit :: "(client \<Rightarrow> bool) \<Rightarrow> client option \<Rightarrow> bool" where
  "hit B x = (case x of None \<Rightarrow> False | Some v \<Rightarrow> B v)"

lemma hit_simps [simp]: "\<not> hit B None" "hit B (Some v) = B v"
  by (simp_all add: hit_def)

text \<open>
  A list of entries that a loop can follow while it deletes some of them: what the loop reads as next
  index is the next entry of the list, and a deletion takes the entry out of the list.
\<close>

locale client_list =
  fixes nxt :: "rlb_table \<Rightarrow> u8 \<Rightarrow> index"
    and lst :: "u8 list \<Rightarrow> (u8 \<Rightarrow> u8 list) \<Rightarrow> u8 list"
  assumes next_index: "rlb_rel t U S \<Longrightarrow> lst U S = ws @ i # zs \<Longrightarrow> nxt t i = hd_opt zs"
    and deleted: "lst (remove1 i U) (\<lambda>h. remove1 i (S h)) = remove1 i (lst U S)"
    and assigned_entries: "rlb_rel t U S \<Longrightarrow> i \<in> set (lst U S) \<Longrightarrow> assigned (entry t i)"
    and distinct_entries: "rlb_rel t U S \<Longrightarrow> distinct (lst U S)"
begin

text \<open>Before the entries \<open>zs\<close> are visited, the clients that satisfy \<open>B\<close> are gone from the part before them.\<close>

definition visited :: "(client \<Rightarrow> bool) \<Rightarrow> (u8 \<rightharpoonup> client) \<Rightarrow> u8 set \<Rightarrow> u8 list \<Rightarrow> rlb_table \<Rightarrow> bool" where
  "visited B m all zs t = (\<exists>U S ws. rlb_rel t U S \<and> lst U S = ws @ zs \<and> set zs \<subseteq> all \<and>
     clients t = (\<lambda>i. if i \<in> all - set zs \<and> hit B (m i) then None else m i))"

lemma visited_step:
  assumes "visited B m all (i # zs) t"
  shows "nxt t i = hd_opt zs \<and> visited B m all zs (if B (client_view (entry t i)) then rlb_delete_table_entry i t else t)"
proof -
  obtain U S ws where rel: "rlb_rel t U S" and l: "lst U S = ws @ i # zs" and all: "set (i # zs) \<subseteq> all"
    and c: "clients t = (\<lambda>j. if j \<in> all - set (i # zs) \<and> hit B (m j) then None else m j)"
    using assms unfolding visited_def by blast
  have d: "i \<notin> set ws" "i \<notin> set zs" using distinct_entries [OF rel] l by auto
  have a: "assigned (entry t i)" by (rule assigned_entries [OF rel]) (simp add: l)
  then have mi: "m i = Some (client_view (entry t i))" using c all by (simp add: clients_def fun_eq_iff) (metis list.set_intros(1))
  show ?thesis
  proof (cases "B (client_view (entry t i))")
    case True
    have "clients (rlb_delete_table_entry i t) = (\<lambda>j. if j \<in> all - set zs \<and> hit B (m j) then None else m j)"
      using True mi all d unfolding delete_rel(2) [OF rel a] c by (auto simp: fun_eq_iff)
    moreover have "lst (remove1 i U) (\<lambda>h. remove1 i (S h)) = ws @ zs" using d l by (simp add: deleted remove1_append)
    ultimately have "visited B m all zs (rlb_delete_table_entry i t)"
      using delete_rel(1) [OF rel a] all unfolding visited_def by fastforce
    with True next_index [OF rel l] show ?thesis by simp
  next
    case False
    have "clients t = (\<lambda>j. if j \<in> all - set zs \<and> hit B (m j) then None else m j)"
      using False mi unfolding c by (auto simp: fun_eq_iff)
    moreover have "lst U S = (ws @ [i]) @ zs" using l by simp
    ultimately have "visited B m all zs t" using rel all unfolding visited_def by fastforce
    with False next_index [OF rel l] show ?thesis by simp
  qed
qed

lemma delete_walk:
  assumes rel: "rlb_rel t U S"
  shows "\<exists>t'. walk_before nxt (\<lambda>i t. if B (client_view (entry t i)) then rlb_delete_table_entry i t else t) (hd_opt (lst U S)) t = Some t' \<and>
    rlb_ok t' \<and> clients t' = (\<lambda>i. if i \<in> set (lst U S) \<and> hit B (clients t i) then None else clients t i)"
proof -
  let ?body = "\<lambda>i t. if B (client_view (entry t i)) then rlb_delete_table_entry i t else t"
  let ?I = "visited B (clients t) (set (lst U S))"
  have start: "?I (lst U S) t" using rel unfolding visited_def by fastforce
  note w = walk_before_fold [where I = ?I and nxt = nxt and body = ?body, OF visited_step start]
  obtain U' S' where "rlb_rel (fold ?body (lst U S) t) U' S'"
    "clients (fold ?body (lst U S) t) = (\<lambda>i. if i \<in> set (lst U S) \<and> hit B (clients t i) then None else clients t i)"
    using w(2) unfolding visited_def by auto
  with w(1) show ?thesis unfolding rlb_ok_def by blast
qed

end

interpretation used_entries: client_list unext "\<lambda>U S. U"
proof
  fix t U S ws i zs
  assume "rlb_rel t U S" "U = ws @ i # zs"
  then show "unext t i = hd_opt zs" using rlb_relD(1) dseg_mid(1) by (fastforce simp: used_inv_def)
next
  fix t U S
  assume "rlb_rel t U S"
  then show "distinct U" using rlb_relD(1) dseg_distinct by (fastforce simp: used_inv_def)
qed (auto simp: rlb_relD(3))

interpretation src_entries: client_list snext "\<lambda>U S. S h"
proof
  fix t U S ws i zs
  assume "rlb_rel t U S" "S h = ws @ i # zs"
  then show "snext t i = hd_opt zs" using src_invD(1) [OF rlb_relD(2), of t U S h] dseg_mid(1) by metis
next
  fix t U S
  assume "rlb_rel t U S"
  then show "distinct (S h)" using src_invD(1) [OF rlb_relD(2), of t U S h] dseg_distinct by blast
qed (auto simp: rlb_relD(4))

lemma purge_result:
  assumes "rlb_ok t"
  shows "\<exists>t'. rlb_purge_src_ip arp t = Some t' \<and> rlb_ok t' \<and>
    clients t' = (\<lambda>i. if hit (\<lambda>v. fst v = ip_src arp \<and> mac_src arp \<noteq> fst (snd (snd v))) (clients t i) then None else clients t i)"
proof -
  obtain U S where rel: "rlb_rel t U S" using assms by (auto simp: rlb_ok_def)
  let ?h = "simple_hash (ip_src arp)" and ?B = "\<lambda>v :: client. fst v = ip_src arp \<and> mac_src arp \<noteq> fst (snd (snd v))"
  have "sfirst t ?h = hd_opt (S ?h)" using dseg_head [OF src_invD(1) [OF rlb_relD(2) [OF rel]]] .
  moreover have "i \<in> set (S ?h)" if "hit ?B (clients t i)" for i
    using that rlb_relD(4) [OF rel, of i ?h] by (simp add: clients_def client_view_def split: if_splits)
  moreover have "(\<lambda>i t. if c_ip_src (entry t i) = ip_src arp \<and> mac_src arp \<noteq> c_mac_src (entry t i) then rlb_delete_table_entry i t else t) =
      (\<lambda>i t. if ?B (client_view (entry t i)) then rlb_delete_table_entry i t else t)"
    by (simp add: client_view_def)
  ultimately show ?thesis using src_entries.delete_walk [OF rel, where h = ?h and B = ?B]
    unfolding rlb_purge_src_ip_def by (auto simp: fun_eq_iff)
qed

lemma clear_vlan_result:
  assumes "rlb_ok t"
  shows "\<exists>t'. rlb_clear_vlan_table vid t = Some t' \<and> rlb_ok t' \<and>
    clients t' = (\<lambda>i. if hit (\<lambda>v. snd (snd (snd (snd (snd (snd v))))) = vid) (clients t i) then None else clients t i)"
proof -
  obtain U S where rel: "rlb_rel t U S" using assms by (auto simp: rlb_ok_def)
  let ?B = "\<lambda>v :: client. snd (snd (snd (snd (snd (snd v))))) = vid"
  have "used_head t = hd_opt U" using rlb_relD(1) [OF rel] dseg_head by (auto simp: used_inv_def)
  moreover have "i \<in> set U" if "hit ?B (clients t i)" for i
    using that rlb_relD(3) [OF rel, of i] by (simp add: clients_def split: if_splits)
  moreover have "(\<lambda>i t. if vlan_id (entry t i) = vid then rlb_delete_table_entry i t else t) =
      (\<lambda>i t. if ?B (client_view (entry t i)) then rlb_delete_table_entry i t else t)"
    by (simp add: client_view_def)
  ultimately show ?thesis using used_entries.delete_walk [OF rel, where B = ?B]
    unfolding rlb_clear_vlan_table_def by (auto simp: fun_eq_iff)
qed

subsection \<open>New clients\<close>

lemma initial_table: "rlb_ok \<lparr>entry = (\<lambda>_. rlb_init_table_entry), used_head = None\<rparr>"
  unfolding rlb_ok_def
  by (intro exI [of _ "[]"] exI [of _ "\<lambda>_. []"] rlb_relI)
    (simp_all add: used_inv_def src_inv_def rlb_init_table_entry_def rlb_init_table_entry_dst_def
      rlb_init_table_entry_src_def zero_rlb_def)

text \<open>The entry moves to the list of its new source hash.\<close>

definition relinked :: "arp_pkt \<Rightarrow> u8 \<Rightarrow> rlb_table \<Rightarrow> rlb_table" where
  "relinked arp h t = (if assigned (entry t h) \<and> c_ip_src (entry t h) = ip_src arp then t
     else rlb_src_link (simple_hash (ip_src arp)) h (rlb_src_unlink h t))"

lemma relinked_dst: "same_dst t (relinked arp h t)"
  unfolding relinked_def using same_dst_trans [OF unlink_dst link_dst] by (simp add: same_dst_def)

lemma relinked_src:
  assumes rel: "rlb_rel t U S"
  shows "\<exists>S'. src_inv (relinked arp h t) S' \<and> (\<forall>g i. (i \<in> set (S' g)) =
    (if i = h then g = simple_hash (ip_src arp) else assigned (entry t i) \<and> simple_hash (c_ip_src (entry t i)) = g))"
proof (cases "assigned (entry t h) \<and> c_ip_src (entry t h) = ip_src arp")
  case True
  then show ?thesis using rlb_relD(2,4) [OF rel] unfolding relinked_def by (intro exI [of _ S]) auto
next
  case False
  let ?g = "simple_hash (ip_src arp)" and ?S = "\<lambda>g. remove1 h (S g)"
  have d: "distinct (S g)" for g using src_invD(1) [OF rlb_relD(2) [OF rel]] dseg_distinct by blast
  then have "h \<notin> set (?S g)" for g by simp
  from src_link_inv [OF src_unlink_inv [OF rlb_relD(2) [OF rel]] this] False
  have "src_inv (relinked arp h t) (?S(?g := h # ?S ?g))" unfolding relinked_def by (simp only: if_False)
  moreover have "(i \<in> set ((?S(?g := h # ?S ?g)) g)) = (if i = h then g = ?g else assigned (entry t i) \<and> simple_hash (c_ip_src (entry t i)) = g)"
    for g i using rlb_relD(4) [OF rel, of i g] d [of g] by auto
  ultimately show ?thesis by blast
qed

definition filled :: "alb_env \<Rightarrow> u16 option \<Rightarrow> arp_pkt \<Rightarrow> nat \<Rightarrow> client" where
  "filled e vlan arp s = (ip_src arp, ip_dst arp, mac_src arp, mac_dst arp, is_valid_ether_addr e (mac_dst arp), Some s,
     case vlan of None \<Rightarrow> 0 | Some v \<Rightarrow> v)"

lemma fill_result:
  assumes ok: "rlb_ok t" and h: "h = simple_hash (ip_dst arp)"
  shows "rlb_ok (rlb_fill e vlan arp h s t)" "clients (rlb_fill e vlan arp h s t) = (clients t)(h \<mapsto> filled e vlan arp s)"
proof -
  obtain U S where rel: "rlb_rel t U S" using ok by (auto simp: rlb_ok_def)
  obtain S' where S': "src_inv (relinked arp h t) S'" "\<forall>g i. (i \<in> set (S' g)) =
      (if i = h then g = simple_hash (ip_src arp) else assigned (entry t i) \<and> simple_hash (c_ip_src (entry t i)) = g)"
    using relinked_src [OF rel] by blast
  define t1 where "t1 = relinked arp h t"
  define t2 where "t2 = upd_entry h (\<lambda>c. c\<lparr>c_ip_src := ip_src arp, c_ip_dst := ip_dst arp, c_mac_dst := mac_dst arp,
    c_mac_src := mac_src arp, c_slave := Some s, c_ntt := is_valid_ether_addr e (mac_dst arp),
    vlan_id := (case vlan of None \<Rightarrow> 0 | Some v \<Rightarrow> v)\<rparr>) t1"
  have same: "same_dst t t1" unfolding t1_def by (rule relinked_dst)
  have f: "used_head t2 = used_head t" "unext t2 j = unext t j" "uprev t2 j = uprev t j"
    "assigned (entry t2 j) = assigned (entry t j)" "snext t2 j = snext t1 j" "sprev t2 j = sprev t1 j" "sfirst t2 j = sfirst t1 j"
    "c_ip_src (entry t2 j) = (if j = h then ip_src arp else c_ip_src (entry t j))"
    "c_ip_dst (entry t2 j) = (if j = h then ip_dst arp else c_ip_dst (entry t j))"
    "c_slave (entry t2 j) = (if j = h then Some s else c_slave (entry t j))" for j
    using same by (simp_all add: t2_def same_dst_def)
  have v: "client_view (entry t2 j) = (if j = h then filled e vlan arp s else client_view (entry t j))" for j
    using same by (simp add: t2_def same_dst_def client_view_def filled_def)
  have u2: "used_inv t2 U" by (rule used_cong [OF rlb_relD(1) [OF rel]]) (simp_all add: f)
  have s2: "src_inv t2 S'" by (rule src_cong [OF S'(1) [folded t1_def]]) (simp add: f)
  have fill: "rlb_fill e vlan arp h s t = (if assigned (entry t h) then t2 else rlb_push_used h t2)"
    unfolding rlb_fill_def Let_def relinked_def [symmetric] t1_def [symmetric] t2_def [symmetric] f(4) ..
  show "rlb_ok (rlb_fill e vlan arp h s t)"
  proof (cases "assigned (entry t h)")
    case True
    have "rlb_rel t2 U S'" by (rule rlb_relI [OF u2 s2]) (use True S'(2) rlb_relD [OF rel] h in \<open>auto simp: f\<close>)
    with True fill show ?thesis by (auto simp: rlb_ok_def)
  next
    case False
    have "used_inv (rlb_push_used h t2) (h # U)" by (rule push_used_inv [OF u2]) (use False rlb_relD(3) [OF rel] in simp)
    moreover have "src_inv (rlb_push_used h t2) S'" by (rule src_cong [OF s2]) (simp add: push_fields)
    ultimately have "rlb_rel (rlb_push_used h t2) (h # U) S'"
      by (rule rlb_relI) (use False S'(2) rlb_relD [OF rel] h in \<open>auto simp: f push_fields push_data split: if_splits\<close>)
    with False fill show ?thesis by (auto simp: rlb_ok_def)
  qed
  have "client_view (entry (rlb_push_used h t2) j) = client_view (entry t2 j)" for j by (simp add: client_view_def push_data)
  then show "clients (rlb_fill e vlan arp h s t) = (clients t)(h \<mapsto> filled e vlan arp s)"
    unfolding fill by (auto simp: clients_def f v push_fields fun_eq_iff)
qed
end
