(* ===== verification/Alb_Bond.thy ===== *)
theory Alb_Bond
  imports Alb_Rlb
begin

text \<open>
  servers/bond_alb.c, the functions shared by both directions and the entry points: the addresses of
  the slaves, the transmit functions, the monitor, and the changes of slaves, links and the active slave;
  and the two functions of servers/bonding.c that maintain the array of usable slaves. A device has the
  address \<open>hw_addr\<close> in its \<open>net_device\<close> and the address \<open>prog_addr\<close> that its driver was last told.
\<close>

text \<open>\<open>bond_slave_has_mac\<close> of net/bonding.h: the first slave with that address.\<close>

definition bond_slave_has_mac :: "alb_bond \<Rightarrow> mac_addr \<Rightarrow> nat option" where
  "bond_slave_has_mac b mac = find (\<lambda>s. hw_addr (alb_slave b s) = mac) (alb_slaves b)"

subsection \<open>The array of usable slaves\<close>

fun bond_skip_slave :: "nat list \<Rightarrow> nat \<Rightarrow> nat list" where
  "bond_skip_slave [] s = []"
| "bond_skip_slave (x # xs) s = (if x = s then (if xs = [] then [] else last xs # butlast xs) else x # bond_skip_slave xs s)"

definition bond_update_slave_arr :: "alb_env \<Rightarrow> nat option \<Rightarrow> alb_bond \<Rightarrow> alb_bond" where
  "bond_update_slave_arr e skip b =
     (if slave_arr_mem e then b\<lparr>usable_slaves := filter (\<lambda>s. Some s \<noteq> skip \<and> can_tx (alb_slave b s)) (alb_slaves b)\<rparr>
      else case skip of None \<Rightarrow> b | Some s \<Rightarrow> b\<lparr>usable_slaves := bond_skip_slave (usable_slaves b) s\<rparr>)"

subsection \<open>Addresses\<close>

text \<open>\<open>dev_set_mac_address\<close> of the kernel: the driver may refuse.\<close>

definition dev_set_mac_address :: "alb_env \<Rightarrow> nat \<Rightarrow> mac_addr \<Rightarrow> alb_bond \<Rightarrow> bool \<times> alb_bond" where
  "dev_set_mac_address e s addr b =
     (if set_mac_ok e s addr then (True, upd_slave_alb s (\<lambda>x. x\<lparr>hw_addr := addr, prog_addr := addr\<rparr>) b) else (False, b))"

definition alb_set_slave_mac_addr :: "alb_env \<Rightarrow> nat \<Rightarrow> mac_addr \<Rightarrow> alb_bond \<Rightarrow> int \<times> alb_bond" where
  "alb_set_slave_mac_addr e s addr b =
     (if mode_tlb b then (0, upd_slave_alb s (\<lambda>x. x\<lparr>hw_addr := addr\<rparr>) b)
      else (case dev_set_mac_address e s addr b of (ok, b) \<Rightarrow> (if ok then 0 else - EOPNOTSUPP, b)))"

definition alb_swap_mac_addr :: "alb_env \<Rightarrow> nat \<Rightarrow> nat \<Rightarrow> alb_bond \<Rightarrow> alb_bond" where
  "alb_swap_mac_addr e s1 s2 b =
     (let tmp = hw_addr (alb_slave b s1);
          b = snd (alb_set_slave_mac_addr e s1 (hw_addr (alb_slave b s2)) b)
      in snd (alb_set_slave_mac_addr e s2 tmp b))"

text \<open>One half of \<open>alb_fasten_mac_swap\<close>: a slave that can transmit announces its address.\<close>

definition announce_slave :: "alb_env \<Rightarrow> nat \<Rightarrow> nat option \<Rightarrow> alb_bond \<Rightarrow> (nat option \<times> alb_bond) defined" where
  "announce_slave e s disabled b =
     (if can_tx (alb_slave b s) then do {
        let b = alb_send_learning_packets e s (hw_addr (alb_slave b s)) False b;
        b \<leftarrow> (if rlb_enabled b then rlb_req_update_slave_clients e s b else Some b);
        Some (disabled, b)
      }
      else Some (Some s, b))"

definition alb_fasten_mac_swap :: "alb_env \<Rightarrow> nat \<Rightarrow> nat \<Rightarrow> alb_bond \<Rightarrow> alb_bond defined" where
  "alb_fasten_mac_swap e s1 s2 b = do {
     let slaves_state_differ = (can_tx (alb_slave b s1) \<noteq> can_tx (alb_slave b s2));
     (disabled, b) \<leftarrow> announce_slave e s1 None b;
     (disabled, b) \<leftarrow> announce_slave e s2 disabled b;
     if rlb_enabled b \<and> slaves_state_differ then do {
       d \<leftarrow> disabled;
       Some (rlb_teach_disabled_mac_on_primary e (hw_addr (alb_slave b d)) b)
     }
     else Some b
   }"

definition alb_change_hw_addr_on_detach :: "alb_env \<Rightarrow> nat \<Rightarrow> alb_bond \<Rightarrow> alb_bond defined" where
  "alb_change_hw_addr_on_detach e s b =
     (let x = alb_slave b s
      in if perm_addr x \<noteq> hw_addr x \<and> perm_addr x \<noteq> bond_addr b then
           (case bond_slave_has_mac b (perm_addr x) of
              None \<Rightarrow> Some b
            | Some f \<Rightarrow> alb_fasten_mac_swap e s f (alb_swap_mac_addr e s f b))
         else Some b)"

fun free_mac_loop :: "alb_bond \<Rightarrow> nat list \<Rightarrow> nat option \<Rightarrow> nat option \<times> nat option" where
  "free_mac_loop b [] has = (None, has)"
| "free_mac_loop b (s # ss) has =
     (if bond_slave_has_mac b (perm_addr (alb_slave b s)) = None then (Some s, has)
      else free_mac_loop b ss (if has = None \<and> hw_addr (alb_slave b s) = bond_addr b then Some s else has))"

definition alb_handle_addr_collision_on_attach :: "alb_env \<Rightarrow> nat \<Rightarrow> alb_bond \<Rightarrow> int \<times> alb_bond" where
  "alb_handle_addr_collision_on_attach e s b =
     (if alb_slaves b = [] then (0, b)
      else if perm_addr (alb_slave b s) \<noteq> bond_addr b \<and> bond_slave_has_mac b (hw_addr (alb_slave b s)) = None then (0, b)
      else
        (let b = (if perm_addr (alb_slave b s) \<noteq> bond_addr b then snd (alb_set_slave_mac_addr e s (bond_addr b) b) else b)
         in case free_mac_loop b (alb_slaves b) (curr_active_slave b) of
              (Some f, _) \<Rightarrow> (0, snd (alb_set_slave_mac_addr e s (perm_addr (alb_slave b f)) b))
            | (None, Some _) \<Rightarrow> (- EFAULT, b)
            | (None, None) \<Rightarrow> (0, b)))"

text \<open>Setting the address of a device while its \<open>net_device\<close> keeps the old one.\<close>

definition program_addr :: "alb_env \<Rightarrow> mac_addr \<Rightarrow> nat \<Rightarrow> alb_bond \<Rightarrow> bool \<times> alb_bond" where
  "program_addr e addr s b =
     (let tmp = hw_addr (alb_slave b s)
      in case dev_set_mac_address e s addr b of (ok, b) \<Rightarrow> (ok, upd_slave_alb s (\<lambda>x. x\<lparr>hw_addr := tmp\<rparr>) b))"

fun set_mac_loop :: "alb_env \<Rightarrow> mac_addr \<Rightarrow> nat list \<Rightarrow> alb_bond \<Rightarrow> nat option \<times> alb_bond" where
  "set_mac_loop e addr [] b = (None, b)"
| "set_mac_loop e addr (s # ss) b = (case program_addr e addr s b of
     (True, b) \<Rightarrow> set_mac_loop e addr ss b
   | (False, b) \<Rightarrow> (Some s, b))"

fun unwind_loop :: "alb_env \<Rightarrow> nat \<Rightarrow> nat list \<Rightarrow> alb_bond \<Rightarrow> alb_bond" where
  "unwind_loop e stop [] b = b"
| "unwind_loop e stop (s # ss) b = (if s = stop then b else unwind_loop e stop ss (snd (program_addr e (bond_addr b) s b)))"

text \<open>The result is whether all devices took the address; the error number is the one of the driver.\<close>

definition alb_set_mac_address :: "alb_env \<Rightarrow> mac_addr \<Rightarrow> alb_bond \<Rightarrow> bool \<times> alb_bond" where
  "alb_set_mac_address e addr b =
     (if rlb_enabled b then (True, b)
      else (case set_mac_loop e addr (alb_slaves b) b of
          (None, b) \<Rightarrow> (True, b)
        | (Some s, b) \<Rightarrow> (False, unwind_loop e s (alb_slaves b) b)))"

subsection \<open>Setting up and tearing down\<close>

definition bond_alb_initialize :: "alb_env \<Rightarrow> bool \<Rightarrow> bool \<Rightarrow> bool \<Rightarrow> alb_bond \<Rightarrow> int \<times> alb_bond" where
  "bond_alb_initialize e mem mem2 rlb b = (case tlb_initialize e mem b of (res, b) \<Rightarrow>
     if res \<noteq> 0 then (res, b)
     else if rlb then (case rlb_initialize mem2 b of (res, b) \<Rightarrow>
       if res \<noteq> 0 then (res, tlb_deinitialize b) else (0, b\<lparr>rlb_enabled := True\<rparr>))
     else (0, b\<lparr>rlb_enabled := False\<rparr>))"

definition bond_alb_deinitialize :: "alb_bond \<Rightarrow> alb_bond" where
  "bond_alb_deinitialize b = (let b = tlb_deinitialize b in if rlb_enabled b then rlb_deinitialize b else b)"

definition bond_alb_init_slave :: "alb_env \<Rightarrow> nat \<Rightarrow> alb_bond \<Rightarrow> int \<times> alb_bond" where
  "bond_alb_init_slave e s b = (case alb_set_slave_mac_addr e s (perm_addr (alb_slave b s)) b of (res, b) \<Rightarrow>
     if res \<noteq> 0 then (res, b)
     else (case alb_handle_addr_collision_on_attach e s b of (res, b) \<Rightarrow>
       if res \<noteq> 0 then (res, b)
       else (0, (upd_slave_alb s tlb_init_slave b)\<lparr>tx_rebalance_counter := BOND_TLB_REBALANCE_TICKS e,
              do_rlb_rebalance := (do_rlb_rebalance b \<or> rlb_enabled b)\<rparr>)))"

definition bond_alb_deinit_slave :: "alb_env \<Rightarrow> nat \<Rightarrow> alb_bond \<Rightarrow> alb_bond defined" where
  "bond_alb_deinit_slave e s b = do {
     b \<leftarrow> (if alb_slaves b \<noteq> [] then alb_change_hw_addr_on_detach e s b else Some b);
     b \<leftarrow> tlb_clear_slave e False s b;
     if rlb_enabled b then rlb_clear_slave e s (b\<lparr>rx_slave := None\<rparr>) else Some b
   }"

subsection \<open>Transmission\<close>

datatype alb_proto = ETH_P_IP | ETH_P_IPV6 | ETH_P_ARP | ETH_P_OTHER

text \<open>
  What the transmit functions read of a packet. A header that cannot be pulled is \<open>None\<close>;
  \<open>v6_nd\<close> is the test of the ICMPv6 type, if the packet is ICMPv6.
\<close>

record ip6_view =
  v6_saddr_any :: bool
  v6_daddr :: "u8 list"
  v6_icmp :: bool
  v6_nd :: "bool option"

record alb_pkt =
  proto :: alb_proto
  dest_multicast :: bool
  dest_broadcast :: bool
  dest_allmcast :: bool
  skb_len :: u32
  xmit_hash :: u32
  ip4 :: "(ip_addr \<times> bool) option"
  ip6 :: "ip6_view option"
  arp_hdr :: "arp_pkt option"
  vlan_tag :: "u16 option"
  from_bridge :: bool

datatype xmit_result = Sent nat "mac_addr option" | Dropped

definition alb_determine_nd :: "alb_pkt \<Rightarrow> bool" where
  "alb_determine_nd p = (case ip6 p of
     None \<Rightarrow> True
   | Some h \<Rightarrow> if \<not> v6_icmp h then False else case v6_nd h of None \<Rightarrow> True | Some nd \<Rightarrow> nd)"

definition bond_do_alb_xmit :: "alb_env \<Rightarrow> u32 \<Rightarrow> nat option \<Rightarrow> alb_bond \<Rightarrow> (xmit_result \<times> alb_bond) defined" where
  "bond_do_alb_xmit e len tx b =
     (let (tx, b) = (case tx of
            None \<Rightarrow> (curr_active_slave b, if tlb_dynamic_lb b then b\<lparr>unbalanced_load := unbalanced_load b + len\<rparr> else b)
          | Some s \<Rightarrow> (Some s, b))
      in case tx of
           None \<Rightarrow> Some (Dropped, b)
         | Some s \<Rightarrow>
             if can_tx (alb_slave b s) then
               Some (Sent s (if curr_active_slave b \<noteq> Some s then Some (hw_addr (alb_slave b s)) else None), b)
             else if tlb_dynamic_lb b then do { b \<leftarrow> tlb_clear_slave e False s b; Some (Dropped, b) }
             else Some (Dropped, b))"

definition hashed_slave :: "u32 \<Rightarrow> alb_bond \<Rightarrow> nat option" where
  "hashed_slave hash b = (if usable_slaves b = [] then None else Some (usable_slaves b ! (unat hash mod length (usable_slaves b))))"

definition bond_xmit_tlb_slave_get :: "alb_pkt \<Rightarrow> alb_bond \<Rightarrow> (nat option \<times> alb_bond) defined" where
  "bond_xmit_tlb_slave_get p b =
     (if dest_multicast p \<or> proto p \<in> {ETH_P_ARP, ETH_P_OTHER} \<or> proto p = ETH_P_IPV6 \<and> alb_determine_nd p then Some (None, b)
      else if tlb_dynamic_lb b then tlb_choose_channel (ucast (xmit_hash p AND 0xFF)) (skb_len p) b
      else Some (hashed_slave (xmit_hash p) b, b))"

definition bond_tlb_xmit :: "alb_env \<Rightarrow> alb_pkt \<Rightarrow> alb_bond \<Rightarrow> (xmit_result \<times> alb_bond) defined" where
  "bond_tlb_xmit e p b = do {
     (tx_slave, b) \<leftarrow> bond_xmit_tlb_slave_get p b;
     bond_do_alb_xmit e (skb_len p) tx_slave b
   }"

text \<open>The bytes over which a packet is balanced, \<open>None\<close> when it is not balanced.\<close>

definition balance_key :: "alb_pkt \<Rightarrow> u8 list option" where
  "balance_key p = (case proto p of
     ETH_P_IP \<Rightarrow> (if dest_broadcast p then None else case ip4 p of
         None \<Rightarrow> None
       | Some (daddr, igmp) \<Rightarrow> if daddr = [0xff, 0xff, 0xff, 0xff] \<or> igmp then None else Some daddr)
   | ETH_P_IPV6 \<Rightarrow> (if dest_broadcast p \<or> dest_allmcast p \<or> alb_determine_nd p then None else case ip6 p of
         None \<Rightarrow> None
       | Some h \<Rightarrow> if v6_saddr_any h then None else Some (v6_daddr h))
   | _ \<Rightarrow> None)"

definition bond_xmit_alb_slave_get :: "alb_env \<Rightarrow> alb_pkt \<Rightarrow> alb_bond \<Rightarrow> (nat option \<times> arp_pkt option \<times> alb_bond) defined" where
  "bond_xmit_alb_slave_get e p b =
     (if proto p = ETH_P_ARP then
        (if rlb_enabled b then rlb_arp_xmit e (vlan_tag p) (from_bridge p) (arp_hdr p) b else Some (None, arp_hdr p, b))
      else (case balance_key p of
          None \<Rightarrow> Some (None, arp_hdr p, b)
        | Some key \<Rightarrow>
            if tlb_dynamic_lb b then do {
              (tx_slave, b) \<leftarrow> tlb_choose_channel (simple_hash key) (skb_len p) b;
              Some (tx_slave, arp_hdr p, b)
            }
            else Some (hashed_slave (xmit_hash p) b, arp_hdr p, b)))"

definition bond_alb_xmit :: "alb_env \<Rightarrow> alb_pkt \<Rightarrow> alb_bond \<Rightarrow> (xmit_result \<times> alb_bond) defined" where
  "bond_alb_xmit e p b = do {
     (tx_slave, _, b) \<leftarrow> bond_xmit_alb_slave_get e p b;
     bond_do_alb_xmit e (skb_len p) tx_slave b
   }"

subsection \<open>The monitor\<close>

definition send_all_learning :: "alb_env \<Rightarrow> alb_bond \<Rightarrow> alb_bond" where
  "send_all_learning e b = fold (\<lambda>s b. alb_send_learning_packets e s (hw_addr (alb_slave b s))
     (curr_active_slave b \<noteq> Some s \<or> rlb_enabled b) b) (alb_slaves b) b"

fun rebalance_tx :: "alb_env \<Rightarrow> nat list \<Rightarrow> alb_bond \<Rightarrow> alb_bond defined" where
  "rebalance_tx e [] b = Some b"
| "rebalance_tx e (s # ss) b = do {
     b \<leftarrow> tlb_clear_slave e True s b;
     rebalance_tx e ss
       (if curr_active_slave b = Some s
        then (upd_slave_alb s (\<lambda>x. x\<lparr>tlb_load := unbalanced_load b div BOND_TLB_REBALANCE_INTERVAL e\<rparr>) b)\<lparr>unbalanced_load := 0\<rparr>
        else b)
   }"

text \<open>The part of the monitor for the received traffic after the promiscuous mode has been dealt with.\<close>

definition monitor_clients :: "alb_env \<Rightarrow> alb_bond \<Rightarrow> alb_bond defined" where
  "monitor_clients e b = do {
     b \<leftarrow> (if do_rlb_rebalance b then rlb_rebalance (b\<lparr>do_rlb_rebalance := False\<rparr>) else Some b);
     if \<not> rx_ntt b then Some b
     else if rlb_update_delay_counter b \<noteq> 0 then Some (b\<lparr>rlb_update_delay_counter := rlb_update_delay_counter b - 1\<rparr>)
     else do {
       b \<leftarrow> rlb_update_rx_clients e b;
       Some (if rlb_update_retry_counter b \<noteq> 0 then b\<lparr>rlb_update_retry_counter := rlb_update_retry_counter b - 1\<rparr>
             else b\<lparr>rx_ntt := False\<rparr>)
     }
   }"

definition monitor_rlb :: "alb_env \<Rightarrow> alb_bond \<Rightarrow> alb_bond defined" where
  "monitor_rlb e b =
     (if \<not> primary_is_promisc b then monitor_clients e b
      else
        (let b = b\<lparr>rlb_promisc_timeout_counter := rlb_promisc_timeout_counter b + 1\<rparr>
         in if rlb_promisc_timeout_counter b < RLB_PROMISC_TIMEOUT e then monitor_clients e b
            else if \<not> rtnl_free e then Some b
            else do {
              c \<leftarrow> curr_active_slave b;
              monitor_clients e (b\<lparr>rlb_promisc_timeout_counter := 0, promiscuity := (promiscuity b)(c := promiscuity b c - 1),
                primary_is_promisc := False\<rparr>)
            }))"

definition bond_alb_monitor :: "alb_env \<Rightarrow> alb_bond \<Rightarrow> alb_bond defined" where
  "bond_alb_monitor e b =
     (if alb_slaves b = [] then Some (b\<lparr>tx_rebalance_counter := 0, lp_counter := 0\<rparr>)
      else do {
        let b = b\<lparr>tx_rebalance_counter := tx_rebalance_counter b + 1, lp_counter := lp_counter b + 1\<rparr>;
        let b = (if BOND_ALB_LP_TICKS e \<le> lp_counter b then (send_all_learning e b)\<lparr>lp_counter := 0\<rparr> else b);
        b \<leftarrow> (if BOND_TLB_REBALANCE_TICKS e \<le> tx_rebalance_counter b then do {
               b \<leftarrow> rebalance_tx e (alb_slaves b) b;
               Some (b\<lparr>tx_rebalance_counter := 0\<rparr>)
             } else Some b);
        if rlb_enabled b then monitor_rlb e b else Some b
      })"

subsection \<open>Links, the active slave and the address of the bond\<close>

datatype bond_link = BOND_LINK_DOWN | BOND_LINK_UP | BOND_LINK_OTHER

definition bond_alb_handle_link_change :: "alb_env \<Rightarrow> nat \<Rightarrow> bond_link \<Rightarrow> alb_bond \<Rightarrow> alb_bond defined" where
  "bond_alb_handle_link_change e s link b = do {
     b \<leftarrow> (case link of
         BOND_LINK_DOWN \<Rightarrow> do {
           b \<leftarrow> tlb_clear_slave e False s b;
           if rlb_enabled b then rlb_clear_slave e s b else Some b
         }
       | BOND_LINK_UP \<Rightarrow> Some (b\<lparr>tx_rebalance_counter := BOND_TLB_REBALANCE_TICKS e,
           do_rlb_rebalance := (do_rlb_rebalance b \<or> rlb_enabled b)\<rparr>)
       | BOND_LINK_OTHER \<Rightarrow> Some b);
     Some (if mode_tlb b \<and> \<not> tlb_dynamic_lb b then bond_update_slave_arr e None b else b)
   }"

definition bond_alb_handle_active_change :: "alb_env \<Rightarrow> nat option \<Rightarrow> alb_bond \<Rightarrow> alb_bond defined" where
  "bond_alb_handle_active_change e new_slave b =
     (let curr_active = curr_active_slave b
      in if curr_active = new_slave then Some b
         else do {
           let b = (case curr_active of
               Some c \<Rightarrow> if primary_is_promisc b
                 then b\<lparr>promiscuity := (promiscuity b)(c := promiscuity b c - 1), primary_is_promisc := False,
                        rlb_promisc_timeout_counter := 0\<rparr> else b
             | None \<Rightarrow> b);
           let b = b\<lparr>curr_active_slave := new_slave\<rparr>;
           case new_slave of
             None \<Rightarrow> Some b
           | Some n \<Rightarrow>
               if alb_slaves b = [] then Some b
               else do {
                 let swap_slave = (if curr_active = None then bond_slave_has_mac b (bond_addr b) else curr_active);
                 b \<leftarrow> (case swap_slave of None \<Rightarrow> Some b | Some s \<Rightarrow> tlb_clear_slave e True s b);
                 b \<leftarrow> tlb_clear_slave e True n b;
                 let b = (if mode_tlb b then snd (program_addr e (bond_addr b) n b) else b);
                 case swap_slave of
                   Some s \<Rightarrow> alb_fasten_mac_swap e s n (alb_swap_mac_addr e s n b)
                 | None \<Rightarrow> Some (let b = snd (alb_set_slave_mac_addr e n (bond_addr b) b)
                     in alb_send_learning_packets e n (bond_addr b) False b)
               }
         })"

text \<open>The result is 0, \<open>- EADDRNOTAVAIL\<close>, or the error of a driver, for which \<open>err\<close> stands.\<close>

definition bond_alb_set_mac_address :: "alb_env \<Rightarrow> int \<Rightarrow> mac_addr \<Rightarrow> alb_bond \<Rightarrow> (int \<times> alb_bond) defined" where
  "bond_alb_set_mac_address e err addr b =
     (if \<not> is_valid_ether_addr e addr then Some (- EADDRNOTAVAIL, b)
      else (case alb_set_mac_address e addr b of (ok, b) \<Rightarrow>
        if \<not> ok then Some (err, b)
        else (let b = b\<lparr>bond_addr := addr\<rparr>
              in case curr_active_slave b of
                   None \<Rightarrow> Some (0, b)
                 | Some c \<Rightarrow> (case bond_slave_has_mac b (bond_addr b) of
                       Some s \<Rightarrow> do { b \<leftarrow> alb_fasten_mac_swap e s c (alb_swap_mac_addr e s c b); Some (0, b) }
                     | None \<Rightarrow> do {
                         let b = snd (alb_set_slave_mac_addr e c (bond_addr b) b);
                         let b = alb_send_learning_packets e c (bond_addr b) False b;
                         b \<leftarrow> (if rlb_enabled b then rlb_req_update_slave_clients e c b else Some b);
                         Some (0, b)
                       }))))"

definition bond_alb_clear_vlan :: "u16 \<Rightarrow> alb_bond \<Rightarrow> alb_bond defined" where
  "bond_alb_clear_vlan vid b = (if rlb_enabled b then rlb_clear_vlan vid b else Some b)"

subsection \<open>Adding and releasing a slave\<close>

text \<open>The parts of \<open>bond_enslave\<close> and \<open>__bond_release_one\<close> of servers/bonding.c that concern the load balancing.\<close>

definition alb_enslave :: "alb_env \<Rightarrow> nat \<Rightarrow> alb_slave \<Rightarrow> alb_bond \<Rightarrow> alb_bond" where
  "alb_enslave e s x b = (case bond_alb_init_slave e s (upd_slave_alb s (\<lambda>_. x) b) of (res, b) \<Rightarrow>
     if res \<noteq> 0 then b else bond_update_slave_arr e None (b\<lparr>alb_slaves := alb_slaves b @ [s]\<rparr>))"

definition alb_release_one :: "alb_env \<Rightarrow> bool \<Rightarrow> nat \<Rightarrow> alb_bond \<Rightarrow> alb_bond defined" where
  "alb_release_one e all s b = do {
     let oldcurrent = curr_active_slave b;
     let b = bond_update_slave_arr e (Some s) (b\<lparr>alb_slaves := remove1 s (alb_slaves b)\<rparr>);
     b \<leftarrow> (if oldcurrent = Some s then bond_alb_handle_active_change e None b else Some b);
     b \<leftarrow> bond_alb_deinit_slave e s b;
     Some (if all then b\<lparr>curr_active_slave := None\<rparr> else b)
   }"

fun alb_release_all :: "alb_env \<Rightarrow> nat list \<Rightarrow> alb_bond \<Rightarrow> alb_bond defined" where
  "alb_release_all e [] b = Some b"
| "alb_release_all e (s # ss) b = do { b \<leftarrow> alb_release_one e True s b; alb_release_all e ss b }"

end
