(* ===== verification/Alb_System.thy ===== *)
theory Alb_System
  imports Alb_Table Alb_Bond
begin

text \<open>
  The load balancing of servers/bond_alb.c as a whole: an invariant of its tables that every entry point
  keeps, from which it follows that no entry point faults and that no table refers to a slave that
  has been released.
\<close>

text \<open>A computation that returns, with a result that satisfies \<open>P\<close>.\<close>

definition gives :: "('a \<Rightarrow> bool) \<Rightarrow> 'a defined \<Rightarrow> bool" where
  "gives P r = (\<exists>x. r = Some x \<and> P x)"

lemma gives_Some [simp]: "gives P (Some x) = P x"
  by (simp add: gives_def)

lemma gives_bind: "gives P r \<Longrightarrow> (\<And>x. P x \<Longrightarrow> gives Q (f x)) \<Longrightarrow> gives Q (r \<bind> f)"
  by (auto simp: gives_def)

lemma gives_mono: "gives P r \<Longrightarrow> (\<And>x. P x \<Longrightarrow> Q x) \<Longrightarrow> gives Q r"
  by (auto simp: gives_def)

lemma gives_if: "(c \<Longrightarrow> gives P x) \<Longrightarrow> (\<not> c \<Longrightarrow> gives P y) \<Longrightarrow> gives P (if c then x else y)"
  by simp

subsection \<open>The receiving slave\<close>

lemma faster_better: "faster b m s = better (\<lambda>s. speed (alb_slave b s)) s m"
  by (simp add: faster_def better_def)

text \<open>The slaves that can transmit, in the order in which they follow the current receiver.\<close>

definition after_receiver :: "alb_bond \<Rightarrow> nat list" where
  "after_receiver b = (case rx_slave b of
     None \<Rightarrow> eligible b
   | Some c \<Rightarrow> if c \<in> set (eligible b)
       then tl (dropWhile (\<lambda>s. s \<noteq> c) (eligible b)) @ takeWhile (\<lambda>s. s \<noteq> c) (eligible b) @ [c] else eligible b)"

abbreviation speed_of :: "alb_bond \<Rightarrow> nat \<Rightarrow> u32" where
  "speed_of b s \<equiv> speed (alb_slave b s)"

lemma next_rx_found:
  "next_rx_loop b ss m r True = (m, fold (better (speed_of b)) (filter (\<lambda>s. can_tx (alb_slave b s)) ss) r)"
  by (induction ss arbitrary: r) (simp_all add: faster_better)

lemma next_rx_not_found:
  fixes b ss defines "E \<equiv> filter (\<lambda>s. can_tx (alb_slave b s)) ss"
  shows "next_rx_loop b ss m r False =
    (if rx_slave b \<in> Some ` set E
     then (fold (better (speed_of b)) (takeWhile (\<lambda>s. rx_slave b \<noteq> Some s) E @ [the (rx_slave b)]) m,
           fold (better (speed_of b)) (tl (dropWhile (\<lambda>s. rx_slave b \<noteq> Some s) E)) r)
     else (fold (better (speed_of b)) E m, r))"
  unfolding E_def
proof (induction ss arbitrary: m)
  case (Cons s ss)
  show ?case
  proof (cases "can_tx (alb_slave b s)")
    case True
    then show ?thesis using Cons.IH [of "better (speed_of b) s m"] by (auto simp: next_rx_found faster_better)
  next
    case False
    then show ?thesis using Cons.IH [of m] by simp
  qed
qed simp

lemma next_rx_result:
  "fst (rlb_next_rx_slave b) = first_max (speed_of b) (after_receiver b)"
  "snd (rlb_next_rx_slave b) = (case fst (rlb_next_rx_slave b) of None \<Rightarrow> b | Some r \<Rightarrow> b\<lparr>rx_slave := Some r\<rparr>)"
proof -
  let ?E = "eligible b" and ?f = "speed_of b"
  show "fst (rlb_next_rx_slave b) = first_max ?f (after_receiver b)"
  proof (cases "rx_slave b \<in> Some ` set ?E")
    case True
    then obtain c where c: "rx_slave b = Some c" "c \<in> set ?E" by auto
    let ?xs = "takeWhile (\<lambda>s. s \<noteq> c) ?E" and ?ys = "tl (dropWhile (\<lambda>s. s \<noteq> c) ?E)"
    have neq: "(\<lambda>s. rx_slave b \<noteq> Some s) = (\<lambda>s. s \<noteq> c)" using c(1) by auto
    have "next_rx_loop b (alb_slaves b) None None False = (first_max ?f (?xs @ [c]), first_max ?f ?ys)"
      using True unfolding next_rx_not_found eligible_def [symmetric] neq by (simp add: c(1) first_max_def)
    moreover have "after_receiver b = ?ys @ (?xs @ [c])" using c by (simp add: after_receiver_def)
    moreover have "first_max ?f (?xs @ [c]) \<noteq> None" by (simp del: first_max_snoc)
    ultimately show ?thesis
      by (auto simp: rlb_next_rx_slave_def first_max_append simp del: first_max_snoc split: option.split)
  next
    case False
    have "next_rx_loop b (alb_slaves b) None None False = (first_max ?f ?E, None)"
      using False unfolding next_rx_not_found eligible_def [symmetric] by (simp add: first_max_def)
    moreover have "after_receiver b = ?E" using False by (auto simp: after_receiver_def split: option.split)
    ultimately show ?thesis by (simp add: rlb_next_rx_slave_def split: option.split)
  qed
  show "snd (rlb_next_rx_slave b) = (case fst (rlb_next_rx_slave b) of None \<Rightarrow> b | Some r \<Rightarrow> b\<lparr>rx_slave := Some r\<rparr>)"
    by (simp add: rlb_next_rx_slave_def Let_def split: prod.split option.split)
qed

lemma after_receiver_set: "set (after_receiver b) = set (eligible b)"
proof (cases "rx_slave b \<in> Some ` set (eligible b)")
  case True
  then obtain c where c: "rx_slave b = Some c" "c \<in> set (eligible b)" by auto
  then obtain xs ys where E: "eligible b = xs @ c # ys" "c \<notin> set xs" by (metis split_list_first)
  then have t: "takeWhile (\<lambda>s. s \<noteq> c) (eligible b) = xs" and d: "dropWhile (\<lambda>s. s \<noteq> c) (eligible b) = c # ys"
    by (auto simp: takeWhile_append2 dropWhile_append2 takeWhile_append dropWhile_append)
  have "after_receiver b = ys @ xs @ [c]" using c by (simp add: after_receiver_def t d)
  then show ?thesis using E(1) by auto
qed (auto simp: after_receiver_def split: option.split)

lemma next_rx_eligible: "fst (rlb_next_rx_slave b) = Some r \<Longrightarrow> r \<in> set (eligible b)"
  unfolding next_rx_result(1) after_receiver_set [symmetric] by (rule first_max_in)

subsection \<open>The invariant\<close>

definition rx_ok :: "alb_bond \<Rightarrow> bool" where
  "rx_ok b = (\<forall>t. rx_hashtbl b = Some t \<longrightarrow> rlb_ok t)"

definition rx_users :: "alb_bond \<Rightarrow> nat set" where
  "rx_users b = {s. \<exists>t i. rx_hashtbl b = Some t \<and> c_slave (entry t i) = Some s} \<union> set_option (rx_slave b)"

text \<open>The active slave alone is in promiscuous mode because of the bond, and only while the bond knows it.\<close>

definition promisc_ok :: "alb_bond \<Rightarrow> bool" where
  "promisc_ok b = ((primary_is_promisc b \<longrightarrow> curr_active_slave b \<noteq> None) \<and>
     (\<forall>s. promiscuity b s = (if primary_is_promisc b \<and> curr_active_slave b = Some s then 1 else 0)))"

text \<open>While the transmit table exists, so does the receive table of a bond that balances the received traffic.\<close>

definition open_ok :: "alb_bond \<Rightarrow> bool" where
  "open_ok b = (tx_hashtbl b \<noteq> None \<longrightarrow> rlb_enabled b \<longrightarrow> rx_hashtbl b \<noteq> None)"

text \<open>A receive table belongs to an open bond, and only a bond in the mode for it knows a receiver.\<close>

definition rest_ok :: "alb_bond \<Rightarrow> bool" where
  "rest_ok b = ((tx_hashtbl b = None \<longrightarrow> rx_hashtbl b = None) \<and>
     (rx_hashtbl b = None \<and> rx_slave b = None \<or> rlb_enabled b \<and> \<not> mode_tlb b))"

text \<open>
  The invariant of a bond with the slaves \<open>ss\<close>, whose tables refer to slaves of \<open>T\<close> (transmit table),
  \<open>R\<close> (receive table) and \<open>C\<close> (active and usable slaves).
\<close>

definition alb_core :: "nat set \<Rightarrow> nat set \<Rightarrow> nat set \<Rightarrow> nat list \<Rightarrow> alb_bond \<Rightarrow> bool" where
  "alb_core T R C ss b = (alb_slaves b = ss \<and> set ss \<subseteq> T \<and> set ss \<subseteq> C \<and> C \<subseteq> R \<and> tlb_ok b \<and> tlb_users b \<subseteq> T \<and>
     rx_ok b \<and> rx_users b \<subseteq> R \<and> set_option (curr_active_slave b) \<union> set (usable_slaves b) \<subseteq> C \<and> promisc_ok b \<and> open_ok b \<and>
     rest_ok b \<and> distinct (usable_slaves b))"

lemmas alb_parts = tlb_ok_def tlb_users_def rx_ok_def rx_users_def promisc_ok_def open_ok_def rest_ok_def

text \<open>Fields that the invariant does not depend on.\<close>

lemma alb_core_upd [simp]:
  "alb_core T R C ss (b\<lparr>alb_frames := x1\<rparr>) = alb_core T R C ss b"
  "alb_core T R C ss (b\<lparr>rx_ntt := x2\<rparr>) = alb_core T R C ss b"
  "alb_core T R C ss (b\<lparr>rlb_update_retry_counter := x3\<rparr>) = alb_core T R C ss b"
  "alb_core T R C ss (b\<lparr>rlb_update_delay_counter := x4\<rparr>) = alb_core T R C ss b"
  "alb_core T R C ss (b\<lparr>rlb_promisc_timeout_counter := x5\<rparr>) = alb_core T R C ss b"
  "alb_core T R C ss (b\<lparr>do_rlb_rebalance := x6\<rparr>) = alb_core T R C ss b"
  "alb_core T R C ss (b\<lparr>tx_rebalance_counter := x7\<rparr>) = alb_core T R C ss b"
  "alb_core T R C ss (b\<lparr>lp_counter := x8\<rparr>) = alb_core T R C ss b"
  "alb_core T R C ss (b\<lparr>unbalanced_load := x9\<rparr>) = alb_core T R C ss b"
  "alb_core T R C ss (b\<lparr>bond_addr := x10\<rparr>) = alb_core T R C ss b"
  by (simp_all add: alb_core_def alb_parts)

lemma alb_core_slave:
  assumes "\<And>x. tlb_head (f x) = tlb_head x"
  shows "alb_core T R C ss (upd_slave_alb s f b) = alb_core T R C ss b"
proof -
  have "(\<lambda>u. tlb_head (alb_slave (upd_slave_alb s f b) u)) = (\<lambda>u. tlb_head (alb_slave b u))" using assms by auto
  then have "tlb_ok (upd_slave_alb s f b) = tlb_ok b" unfolding tlb_ok_def by simp
  then show ?thesis by (simp add: alb_core_def tlb_users_def rx_ok_def rx_users_def promisc_ok_def open_ok_def rest_ok_def)
qed

lemma alb_core_hw [simp]:
  "alb_core T R C ss (upd_slave_alb s (\<lambda>x. x\<lparr>hw_addr := a\<rparr>) b) = alb_core T R C ss b"
  "alb_core T R C ss (upd_slave_alb s (\<lambda>x. x\<lparr>hw_addr := a, prog_addr := a'\<rparr>) b) = alb_core T R C ss b"
  "alb_core T R C ss (upd_slave_alb s (\<lambda>x. x\<lparr>tlb_load := l\<rparr>) b) = alb_core T R C ss b"
  by (rule alb_core_slave, simp)+

subsection \<open>The transmit table\<close>

lemma tx_only_parts:
  assumes "tx_only b b'"
  shows "alb_slaves b' = alb_slaves b" "rx_hashtbl b' = rx_hashtbl b" "rx_slave b' = rx_slave b"
    "curr_active_slave b' = curr_active_slave b" "usable_slaves b' = usable_slaves b" "primary_is_promisc b' = primary_is_promisc b"
    "promiscuity b' = promiscuity b" "rlb_enabled b' = rlb_enabled b" "mode_tlb b' = mode_tlb b" "can_tx (alb_slave b' s) = can_tx (alb_slave b s)"
  using assms by (auto simp: tx_only_def)

lemma tx_only_core:
  assumes core: "alb_core T R C ss b" and tx: "tx_only b b'" and b': "tlb_ok b'" "tlb_users b' \<subseteq> T'" "set ss \<subseteq> T'"
    "tx_hashtbl b' = None \<longleftrightarrow> tx_hashtbl b = None"
  shows "alb_core T' R C ss b'"
proof -
  note p = tx_only_parts [OF tx]
  have "rx_ok b' = rx_ok b" "rx_users b' = rx_users b" "promisc_ok b' = promisc_ok b"
    by (simp_all add: rx_ok_def rx_users_def promisc_ok_def p)
  moreover have "open_ok b'" "rest_ok b'" using core b'(4) by (auto simp: alb_core_def open_ok_def rest_ok_def p)
  ultimately show ?thesis using core b'(1-3) by (simp add: alb_core_def p)
qed

lemma tlb_clear_core:
  assumes core: "alb_core T R C ss b" and ss: "set ss \<subseteq> T'" "T - {s} \<subseteq> T'"
  shows "gives (\<lambda>b'. alb_core T' R C ss b' \<and> tx_only b b') (tlb_clear_slave e save s b)"
proof -
  have ok: "tlb_ok b" using core by (simp add: alb_core_def)
  obtain b' where b': "tlb_clear_slave e save s b = Some b'" "tlb_ok b'" "tx_only b b'" "tlb_users b' \<subseteq> tlb_users b - {s}"
    "tx_hashtbl b' = None \<longleftrightarrow> tx_hashtbl b = None"
    using tlb_clear_ok [OF ok, of e save s] by (elim exE conjE) (rule that)
  have "tlb_users b' \<subseteq> T'" using core b'(4) ss(2) unfolding alb_core_def by blast
  from tx_only_core [OF core b'(3,2) this ss(1)] b'(1,3,5) show ?thesis by simp
qed

lemma tlb_choose_core:
  assumes core: "alb_core T R C ss b" and t: "tx_hashtbl b \<noteq> None"
  shows "gives (\<lambda>(r, b'). alb_core T R C ss b' \<and> set_option r \<subseteq> T) (tlb_choose_channel h len b)"
proof -
  obtain t where t: "tx_hashtbl b = Some t" using t by blast
  have ok: "tlb_ok b" using core by (simp add: alb_core_def)
  obtain r b' where b': "tlb_choose_channel h len b = Some (r, b')" "tlb_ok b'" "tx_only b b'"
    "tlb_users b' \<subseteq> tlb_users b \<union> set (alb_slaves b)" "\<forall>s. r = Some s \<longrightarrow> s \<in> tlb_users b \<union> set (alb_slaves b)"
    "tx_hashtbl b' \<noteq> None"
    using tlb_choose_ok [OF ok t, of h len] by (elim exE conjE) (rule that)
  have T: "tlb_users b \<union> set (alb_slaves b) \<subseteq> T" "set ss \<subseteq> T" using core by (auto simp: alb_core_def)
  have "alb_core T R C ss b'" by (rule tx_only_core [OF core b'(3,2)]) (use b'(4,6) T t in auto)
  moreover have "set_option r \<subseteq> T" using b'(5) T by auto
  ultimately show ?thesis using b'(1) by simp
qed

subsection \<open>Steps that change only what is known of the clients\<close>

definition assigned_at :: "alb_bond \<Rightarrow> u8 \<Rightarrow> bool" where
  "assigned_at b i = (\<exists>t. rx_hashtbl b = Some t \<and> assigned (entry t i))"

definition soft_table :: "rlb_table \<Rightarrow> rlb_table \<Rightarrow> bool" where
  "soft_table t t' = (used_head t' = used_head t \<and> (\<forall>j. unext t' j = unext t j \<and> uprev t' j = uprev t j \<and>
     snext t' j = snext t j \<and> sprev t' j = sprev t j \<and> sfirst t' j = sfirst t j \<and>
     assigned (entry t' j) = assigned (entry t j) \<and> c_ip_src (entry t' j) = c_ip_src (entry t j) \<and>
     c_ip_dst (entry t' j) = c_ip_dst (entry t j) \<and> (assigned (entry t j) \<or> c_slave (entry t' j) = c_slave (entry t j))))"

lemma soft_table_refl [simp]: "soft_table t t"
  by (simp add: soft_table_def)

lemma soft_table_trans: "soft_table t t' \<Longrightarrow> soft_table t' t'' \<Longrightarrow> soft_table t t''"
  unfolding soft_table_def by (intro conjI allI) metis+

lemma soft_table_rel:
  assumes soft: "soft_table t t'" and rel: "rlb_rel t U S"
  shows "rlb_rel t' U S"
proof (rule rlb_relI)
  show "used_inv t' U" by (rule used_cong [OF rlb_relD(1) [OF rel]]) (use soft in \<open>simp_all add: soft_table_def\<close>)
  show "src_inv t' S" by (rule src_cong [OF rlb_relD(2) [OF rel]]) (use soft in \<open>simp add: soft_table_def\<close>)
  show "(i \<in> set U) = assigned (entry t' i)" "(i \<in> set (S h)) = (assigned (entry t' i) \<and> simple_hash (c_ip_src (entry t' i)) = h)"
    "assigned (entry t' i) \<Longrightarrow> simple_hash (c_ip_dst (entry t' i)) = i" for i h
    using soft rlb_relD(3-5) [OF rel] by (simp_all add: soft_table_def)
  show "\<not> assigned (entry t' i) \<Longrightarrow> c_slave (entry t' i) = None" for i
    using soft rlb_relD(6) [OF rel, of i] by (simp add: soft_table_def) metis
qed

lemma soft_table_ok: "soft_table t t' \<Longrightarrow> rlb_ok t \<Longrightarrow> rlb_ok t'"
  unfolding rlb_ok_def by (blast intro: soft_table_rel)

definition soft :: "alb_bond \<Rightarrow> alb_bond \<Rightarrow> bool" where
  "soft b b' = (alb_slaves b' = alb_slaves b \<and> alb_slave b' = alb_slave b \<and> tx_hashtbl b' = tx_hashtbl b \<and>
     curr_active_slave b' = curr_active_slave b \<and> usable_slaves b' = usable_slaves b \<and>
     primary_is_promisc b' = primary_is_promisc b \<and> promiscuity b' = promiscuity b \<and> rlb_enabled b' = rlb_enabled b \<and>
     mode_tlb b' = mode_tlb b \<and> (rx_hashtbl b = None \<longrightarrow> rx_slave b' = rx_slave b) \<and> rel_option soft_table (rx_hashtbl b) (rx_hashtbl b') \<and>
     rx_users b' \<subseteq> rx_users b \<union> set (alb_slaves b) \<union> set_option (curr_active_slave b))"

lemma soft_refl [simp]: "soft b b"
  by (auto simp: soft_def option.rel_refl)

lemma softD:
  assumes "soft b b'"
  shows "alb_slaves b' = alb_slaves b" "alb_slave b' = alb_slave b" "tx_hashtbl b' = tx_hashtbl b"
    "curr_active_slave b' = curr_active_slave b" "usable_slaves b' = usable_slaves b"
    "primary_is_promisc b' = primary_is_promisc b" "promiscuity b' = promiscuity b" "rlb_enabled b' = rlb_enabled b"
    "mode_tlb b' = mode_tlb b" "rx_hashtbl b = None \<Longrightarrow> rx_slave b' = rx_slave b"
    "rel_option soft_table (rx_hashtbl b) (rx_hashtbl b')" "rx_hashtbl b' = None \<longleftrightarrow> rx_hashtbl b = None"
    "rx_users b' \<subseteq> rx_users b \<union> set (alb_slaves b) \<union> set_option (curr_active_slave b)"
  using assms unfolding soft_def by (auto elim: option.rel_cases)

lemma soft_trans:
  assumes a: "soft b b'" and b: "soft b' b''"
  shows "soft b b''"
proof -
  note A = softD [OF a] and B = softD [OF b]
  have "rel_option soft_table (rx_hashtbl b) (rx_hashtbl b'')"
    using A(11) B(11) soft_table_trans by (auto elim!: option.rel_cases)
  moreover have "rx_users b'' \<subseteq> rx_users b \<union> set (alb_slaves b) \<union> set_option (curr_active_slave b)"
    using A(13) B(13) unfolding A(1,4) by blast
  moreover have "rx_slave b'' = rx_slave b" if "rx_hashtbl b = None" using A(10) [OF that] B(10) A(12) that by simp
  ultimately show ?thesis unfolding soft_def by (simp add: A(1-9) B(1-9))
qed

lemma soft_core:
  assumes soft: "soft b b'" and core: "alb_core T R C ss b"
  shows "alb_core T R C ss b'"
proof -
  note S = softD [OF soft]
  have "rx_ok b" "open_ok b" "rest_ok b" using core by (simp_all add: alb_core_def)
  then have "rx_ok b'" "open_ok b'" "rest_ok b'"
    using soft_table_ok S(10,11) by (auto simp: rx_ok_def open_ok_def rest_ok_def S(3,8,9,12) elim: option.rel_cases)
  moreover have "tlb_ok b' = tlb_ok b" "tlb_users b' = tlb_users b" "promisc_ok b' = promisc_ok b"
    by (simp_all add: tlb_ok_def tlb_users_def promisc_ok_def S(1-7))
  moreover have "rx_users b' \<subseteq> R"
  proof -
    have "rx_users b \<subseteq> R" "set (alb_slaves b) \<subseteq> R" "set_option (curr_active_slave b) \<subseteq> R" using core by (auto simp: alb_core_def)
    with S(13) show ?thesis by blast
  qed
  ultimately show ?thesis using core by (simp add: alb_core_def S(1,4,5))
qed

text \<open>A loop over the used entries with such steps visits every used entry and ends.\<close>

lemma soft_walk:
  fixes \<pi> :: "'s \<Rightarrow> alb_bond"
  assumes body: "\<And>i x. assigned_at (\<pi> x) i \<Longrightarrow> soft (\<pi> x) (\<pi> (body i x))" and ok: "rx_ok (\<pi> x)"
  shows "\<exists>U. walk_after (\<lambda>x. rx_next (\<pi> x)) body (rx_head (\<pi> x)) x = Some (fold body U x) \<and>
    walk_before (\<lambda>x. rx_next (\<pi> x)) body (rx_head (\<pi> x)) x = Some (fold body U x) \<and> soft (\<pi> x) (\<pi> (fold body U x)) \<and>
    distinct U \<and> (\<forall>i. (i \<in> set U) = assigned_at (\<pi> x) i)"
proof (cases "rx_hashtbl (\<pi> x)")
  case None
  then show ?thesis
    by (intro exI [of _ "[]"]) (simp add: rx_head_def assigned_at_def walk_after.simps walk_before.simps)
next
  case (Some t)
  obtain U S where rel: "rlb_rel t U S" using ok Some by (auto simp: rx_ok_def rlb_ok_def)
  define I where "I zs y = (soft (\<pi> x) (\<pi> y) \<and> (\<exists>ws. U = ws @ zs))" for zs y
  have rel': "\<exists>t'. rx_hashtbl (\<pi> y) = Some t' \<and> rlb_rel t' U S" if "soft (\<pi> x) (\<pi> y)" for y
    using that Some soft_table_rel [OF _ rel] by (auto simp: soft_def elim!: option.rel_cases)
  have nxt: "rx_next (\<pi> y) i = hd_opt zs" if "I (i # zs) y" for i zs y
    using that rel' [of y] used_entries.next_index by (auto simp: I_def rx_next_def)
  have asg: "assigned_at (\<pi> y) i" if "I (i # zs) y" for i zs y
    using that rel' [of y] rlb_relD(3) [of _ U S i] by (auto simp: I_def assigned_at_def)
  have step: "I zs (body i y) \<and> I (i # zs) (body i y)" if "I (i # zs) y" for i zs y
    using that body [OF asg [OF that]] soft_trans by (auto simp: I_def)
  have start: "I U x" by (simp add: I_def)
  have hd: "rx_head (\<pi> x) = hd_opt U" using rlb_relD(1) [OF rel] dseg_head Some by (auto simp: rx_head_def used_inv_def)
  have "walk_after (\<lambda>x. rx_next (\<pi> x)) body (hd_opt U) x = Some (fold body U x)"
    by (rule walk_after_fold [where I = I, OF _ start]) (use nxt step in blast)
  moreover have "walk_before (\<lambda>x. rx_next (\<pi> x)) body (hd_opt U) x = Some (fold body U x)" "I [] (fold body U x)"
    by (rule walk_before_fold [where I = I and nxt = "\<lambda>x. rx_next (\<pi> x)", OF _ start]; use nxt step in blast)+
  moreover have "(i \<in> set U) = assigned_at (\<pi> x) i" for i using rlb_relD(3) [OF rel, of i] Some by (simp add: assigned_at_def)
  moreover have "distinct U" using used_entries.distinct_entries [OF rel] .
  ultimately show ?thesis unfolding hd I_def by blast
qed

subsection \<open>The functions on clients\<close>

lemma soft_client:
  assumes "assigned_at b i" "\<And>c. \<exists>s n m1 m2. f c = c\<lparr>c_slave := s, c_ntt := n, c_mac_src := m1, c_mac_dst := m2\<rparr> \<and>
      set_option s \<subseteq> set_option (c_slave c) \<union> set (alb_slaves b) \<union> set_option (curr_active_slave b)"
  shows "soft b (upd_client i f b)"
proof -
  obtain t where t: "rx_hashtbl b = Some t" "assigned (entry t i)" using assms(1) by (auto simp: assigned_at_def)
  obtain s n m1 m2 where f: "f (entry t i) = (entry t i)\<lparr>c_slave := s, c_ntt := n, c_mac_src := m1, c_mac_dst := m2\<rparr>"
    "set_option s \<subseteq> set_option (c_slave (entry t i)) \<union> set (alb_slaves b) \<union> set_option (curr_active_slave b)"
    using assms(2) by blast
  have "soft_table t (upd_entry i f t)" using t(2) by (simp add: soft_table_def f(1))
  moreover have "rx_users (upd_client i f b) \<subseteq> rx_users b \<union> set (alb_slaves b) \<union> set_option (curr_active_slave b)"
    using t(1) f by (auto simp: rx_users_def upd_client_def split: if_splits)
  ultimately show ?thesis using t(1) by (simp add: soft_def upd_client_def)
qed

lemma soft_fields [simp]:
  "soft b (b'\<lparr>alb_frames := x1\<rparr>) = soft b b'" "soft b (b'\<lparr>rx_ntt := x2\<rparr>) = soft b b'"
  "soft b (b'\<lparr>rlb_update_retry_counter := x3\<rparr>) = soft b b'" "soft b (b'\<lparr>rlb_update_delay_counter := x4\<rparr>) = soft b b'"
  by (simp_all add: soft_def rx_users_def)

lemma soft_receiver: "r \<in> set (alb_slaves b) \<Longrightarrow> rx_hashtbl b \<noteq> None \<Longrightarrow> soft b (b\<lparr>rx_slave := Some r\<rparr>)"
  by (auto simp: soft_def rx_users_def option.rel_refl)

lemma next_rx_soft:
  assumes "rlb_next_rx_slave b = (r, b')" "rx_hashtbl b \<noteq> None"
  shows "soft b b'" "set_option r \<subseteq> set (alb_slaves b)" "rx_hashtbl b' = rx_hashtbl b"
proof -
  have r: "r = fst (rlb_next_rx_slave b)" "b' = snd (rlb_next_rx_slave b)" using assms(1) by simp_all
  show sub: "set_option r \<subseteq> set (alb_slaves b)" using next_rx_eligible [of b] r(1) by (auto simp: eligible_def)
  show "rx_hashtbl b' = rx_hashtbl b" using next_rx_result(2) [of b] r by (simp split: option.splits)
  show "soft b b'" using next_rx_result(2) [of b] r sub soft_receiver assms(2) by (auto split: option.splits)
qed

lemma soft_upd:
  assumes "assigned_at b i" "soft b0 b" "rx_hashtbl b = rx_hashtbl b0"
    "\<And>c. \<exists>s n m1 m2. f c = c\<lparr>c_slave := s, c_ntt := n, c_mac_src := m1, c_mac_dst := m2\<rparr> \<and>
      set_option s \<subseteq> set_option (c_slave c) \<union> set (alb_slaves b0) \<union> set_option (curr_active_slave b0)"
  shows "soft b0 (upd_client i f b)"
proof (rule soft_trans [OF assms(2)])
  have "alb_slaves b = alb_slaves b0" "curr_active_slave b = curr_active_slave b0" using assms(2) by (simp_all add: soft_def)
  then show "soft b (upd_client i f b)" using soft_client [OF assms(1)] assms(4) by simp
qed

lemma client_fields:
  "c\<lparr>c_slave := s, c_ntt := n\<rparr> = c\<lparr>c_slave := s, c_ntt := n, c_mac_src := c_mac_src c, c_mac_dst := c_mac_dst c\<rparr>"
  "c\<lparr>c_slave := s\<rparr> = c\<lparr>c_slave := s, c_ntt := c_ntt c, c_mac_src := c_mac_src c, c_mac_dst := c_mac_dst c\<rparr>"
  "c\<lparr>c_ntt := n\<rparr> = c\<lparr>c_slave := c_slave c, c_ntt := n, c_mac_src := c_mac_src c, c_mac_dst := c_mac_dst c\<rparr>"
  "c\<lparr>c_mac_dst := m2, c_ntt := n\<rparr> = c\<lparr>c_slave := c_slave c, c_ntt := n, c_mac_src := c_mac_src c, c_mac_dst := m2\<rparr>"
  "c\<lparr>c_mac_dst := m2, c_mac_src := m1\<rparr> = c\<lparr>c_slave := c_slave c, c_ntt := c_ntt c, c_mac_src := m1, c_mac_dst := m2\<rparr>"
  by (cases c; simp)+

lemma set_slave_soft:
  assumes "assigned_at b i" "soft b0 b" "rx_hashtbl b = rx_hashtbl b0"
    "set_option s \<subseteq> set (alb_slaves b0) \<union> set_option (curr_active_slave b0)"
  shows "soft b0 (upd_client i (\<lambda>c. c\<lparr>c_slave := s, c_ntt := n\<rparr>) b)" "soft b0 (upd_client i (\<lambda>c. c\<lparr>c_slave := s\<rparr>) b)"
  by (rule soft_upd [OF assms(1-3)]; use assms(4) client_fields(1,2) in blast)+

lemma set_ntt_soft:
  assumes "assigned_at b i"
  shows "soft b (upd_client i (\<lambda>c. c\<lparr>c_ntt := n\<rparr>) b)" "soft b (upd_client i (\<lambda>c. c\<lparr>c_mac_dst := m2, c_ntt := n\<rparr>) b)"
    "soft b (upd_client i (\<lambda>c. c\<lparr>c_mac_dst := f c, c_mac_src := m1\<rparr>) b)"
  by (rule soft_upd [OF assms soft_refl refl]; use client_fields(3-5) in blast)+

lemma assigned_at_table: "rx_hashtbl b' = rx_hashtbl b \<Longrightarrow> assigned_at b' i = assigned_at b i"
  by (simp add: assigned_at_def)

lemma update_client_soft [simp]: "soft b0 (rlb_update_client e c b) = soft b0 b"
  by (simp add: rlb_update_client_def split: option.split)

lemma update_client_table [simp]: "rx_hashtbl (rlb_update_client e c b) = rx_hashtbl b"
  by (simp add: rlb_update_client_def split: option.split)

lemma clear_client_soft:
  assumes i: "assigned_at b i"
  shows "soft b (clear_client e s i b)"
proof -
  have has_table: "rx_hashtbl b \<noteq> None" using i by (auto simp: assigned_at_def)
  obtain r b' where n: "rlb_next_rx_slave b = (r, b')" by (rule prod.exhaust)
  note N = next_rx_soft [OF n has_table]
  have a: "assigned_at b' i" using i assigned_at_table [OF N(3)] by simp
  have "set_option r \<subseteq> set (alb_slaves b) \<union> set_option (curr_active_slave b)" using N(2) by blast
  note set_slave_soft [OF a N(1,3) this]
  then show ?thesis by (auto simp: clear_client_def n split: option.split)
qed

lemma update_rx_client_soft:
  assumes i: "assigned_at b i"
  shows "soft b (update_rx_client e i b)"
proof -
  have "soft b (upd_client i (\<lambda>c. c\<lparr>c_ntt := False\<rparr>) (rlb_update_client e c b))" for c
  proof (rule soft_trans)
    show "soft b (rlb_update_client e c b)" by simp
    have "assigned_at (rlb_update_client e c b) i" using i assigned_at_table [OF update_client_table] by simp
    then show "soft (rlb_update_client e c b) (upd_client i (\<lambda>c. c\<lparr>c_ntt := False\<rparr>) (rlb_update_client e c b))" by (rule set_ntt_soft(1))
  qed
  then show ?thesis by (simp add: update_rx_client_def Let_def split: option.split)
qed

lemma request_soft:
  assumes i: "assigned_at (fst x) i"
  shows "soft (fst x) (fst (req_slave_client e s i x))" "soft (fst x) (fst (rebalance_client i x))"
proof -
  obtain b ntt where x: "x = (b, ntt)" by (rule prod.exhaust)
  have has_table: "rx_hashtbl b \<noteq> None" using i x by (auto simp: assigned_at_def)
  obtain r b' where n: "rlb_next_rx_slave b = (r, b')" by (rule prod.exhaust)
  note N = next_rx_soft [OF n has_table]
  have a: "assigned_at b i" "assigned_at b' i" using i x assigned_at_table [OF N(3)] by simp_all
  show "soft (fst x) (fst (req_slave_client e s i x))"
    using set_ntt_soft(1) [OF a(1)] by (simp add: req_slave_client_def x split: option.split)
  have "set_option r \<subseteq> set (alb_slaves b) \<union> set_option (curr_active_slave b)" using N(2) by blast
  note set_slave_soft [OF a(2) N(1,3) this] N(1)
  then show "soft (fst x) (fst (rebalance_client i x))" by (auto simp: rebalance_client_def x n split: option.split)
qed

lemma req_subnet_client_soft: "assigned_at b i \<Longrightarrow> soft b (req_subnet_client e ip i b)"
  using set_ntt_soft(1) by (simp add: req_subnet_client_def split: option.split)
end
