(* ===== verification/Alb_Calls.thy ===== *)
theory Alb_Calls
  imports Alb_System
begin

text \<open>
  The functions of servers/bond_alb.c return and keep the invariant \<open>alb_core\<close>, from the loops over
  the clients up to the entry points that servers/bonding.c calls.
\<close>

subsection \<open>Loops over the clients\<close>

lemma core_rx_ok: "alb_core T R C ss b \<Longrightarrow> rx_ok b"
  by (simp add: alb_core_def)

lemma soft_walk_gives:
  fixes \<pi> :: "'s \<Rightarrow> alb_bond"
  assumes "\<And>i x. assigned_at (\<pi> x) i \<Longrightarrow> soft (\<pi> x) (\<pi> (body i x))" "rx_ok (\<pi> x)"
  shows "gives (\<lambda>x'. soft (\<pi> x) (\<pi> x')) (walk_after (\<lambda>x. rx_next (\<pi> x)) body (rx_head (\<pi> x)) x)"
    "gives (\<lambda>x'. soft (\<pi> x) (\<pi> x')) (walk_before (\<lambda>x. rx_next (\<pi> x)) body (rx_head (\<pi> x)) x)"
  using soft_walk [of \<pi> body x, OF assms] by (auto simp: gives_def)

lemma gives_core: "alb_core T R C ss b \<Longrightarrow> gives (soft b) r \<Longrightarrow> gives (alb_core T R C ss) r"
  by (erule gives_mono) (rule soft_core)

lemma update_rx_clients_soft: "rx_ok b \<Longrightarrow> gives (soft b) (rlb_update_rx_clients e b)"
  unfolding rlb_update_rx_clients_def
  by (rule gives_bind [OF soft_walk_gives(1) [of "\<lambda>x. x" "update_rx_client e", OF update_rx_client_soft]]) simp_all

lemma req_slave_clients_soft:
  assumes "rx_ok b"
  shows "gives (soft b) (rlb_req_update_slave_clients e s b)"
proof -
  have "gives (\<lambda>x'. soft b (fst x')) (walk_after (\<lambda>x. rx_next (fst x)) (req_slave_client e s) (rx_head b) (b, False))"
    using soft_walk_gives(1) [of fst "req_slave_client e s" "(b, False)", OF request_soft(1)] assms by simp
  then show ?thesis unfolding rlb_req_update_slave_clients_def by (rule gives_bind) (auto split: prod.split)
qed

lemma req_subnet_clients_soft: "rx_ok b \<Longrightarrow> gives (soft b) (rlb_req_update_subnet_clients e ip b)"
  unfolding rlb_req_update_subnet_clients_def
  using soft_walk_gives(1) [of "\<lambda>x. x" "req_subnet_client e ip" b, OF req_subnet_client_soft] by simp

lemma rebalance_soft:
  assumes "rx_ok b"
  shows "gives (soft b) (rlb_rebalance b)"
proof -
  have "gives (\<lambda>x'. soft b (fst x')) (walk_after (\<lambda>x. rx_next (fst x)) rebalance_client (rx_head b) (b, False))"
    using soft_walk_gives(1) [of fst rebalance_client "(b, False)", OF request_soft(2)] assms by simp
  then show ?thesis unfolding rlb_rebalance_def by (rule gives_bind) (auto split: prod.split)
qed

subsection \<open>Learning packets\<close>

definition frames_only :: "alb_bond \<Rightarrow> alb_bond \<Rightarrow> bool" where
  "frames_only b b' = (\<exists>fs. b' = b\<lparr>alb_frames := fs\<rparr>)"

lemma frames_refl [simp]: "frames_only b b"
  unfolding frames_only_def by (rule exI [of _ "alb_frames b"]) simp

lemma frames_trans: "frames_only b b' \<Longrightarrow> frames_only b' b'' \<Longrightarrow> frames_only b b''"
  by (auto simp: frames_only_def)

lemma lp_vid_frames: "frames_only b (alb_send_lp_vid e s m v b)"
  by (auto simp: alb_send_lp_vid_def frames_only_def intro: exI [of _ "alb_frames b"])

lemma upper_walk_frames: "frames_only b (snd (alb_upper_dev_walk e s m st u b))"
proof -
  define b1 where "b1 = (if vlan_above u then alb_send_lp_vid e s (if addr_stolen u then m else upper_addr u) (vlan_dev_id u) b else b)"
  have b1: "frames_only b b1" unfolding b1_def using lp_vid_frames by simp
  have "frames_only b1 (snd (alb_upper_dev_walk e s m st u b))"
    unfolding alb_upper_dev_walk_def Let_def b1_def [symmetric] using lp_vid_frames by (simp split: option.split)
  with b1 show ?thesis by (rule frames_trans)
qed

lemma walk_upper_frames: "frames_only b (walk_upper_devs e s m st us b)"
proof (induction us arbitrary: b)
  case (Cons u us)
  obtain stop b1 where b1: "alb_upper_dev_walk e s m st u b = (stop, b1)" by (rule prod.exhaust)
  then have "frames_only b b1" using upper_walk_frames [of b e s m st u] by simp
  then show ?case using frames_trans Cons.IH [of b1] by (auto simp: b1)
qed simp

lemma learning_frames: "frames_only b (alb_send_learning_packets e s m st b)"
  unfolding alb_send_learning_packets_def by (rule frames_trans [OF lp_vid_frames walk_upper_frames])

lemma learning_core [simp]: "alb_core T R C ss (alb_send_learning_packets e s m st b) = alb_core T R C ss b"
  using learning_frames [of b e s m st] by (auto simp: frames_only_def)

lemma learning_fields [simp]:
  "alb_slave (alb_send_learning_packets e s m st b) = alb_slave b" "alb_slaves (alb_send_learning_packets e s m st b) = alb_slaves b"
  "rlb_enabled (alb_send_learning_packets e s m st b) = rlb_enabled b" "mode_tlb (alb_send_learning_packets e s m st b) = mode_tlb b"
  "rx_hashtbl (alb_send_learning_packets e s m st b) = rx_hashtbl b" "tx_hashtbl (alb_send_learning_packets e s m st b) = tx_hashtbl b"
  "curr_active_slave (alb_send_learning_packets e s m st b) = curr_active_slave b"
  "primary_is_promisc (alb_send_learning_packets e s m st b) = primary_is_promisc b"
  using learning_frames [of b e s m st] by (auto simp: frames_only_def)

subsection \<open>The active slave in promiscuous mode\<close>

lemma promisc_core:
  assumes core: "alb_core T R C ss b" and p: "promisc_ok b'" and b': "b' = b\<lparr>promiscuity := x, primary_is_promisc := y\<rparr>"
  shows "alb_core T R C ss b'"
proof -
  have "tlb_ok b' = tlb_ok b" "tlb_users b' = tlb_users b" "rx_ok b' = rx_ok b" "rx_users b' = rx_users b"
    "open_ok b' = open_ok b" "rest_ok b' = rest_ok b"
    by (simp_all add: b' alb_parts)
  then show ?thesis using core p by (simp add: alb_core_def) (simp add: b')
qed

lemma teach_core:
  assumes core: "alb_core T R C ss b"
  shows "alb_core T R C ss (rlb_teach_disabled_mac_on_primary e a b)"
proof (cases "curr_active_slave b")
  case (Some c)
  have p: "promisc_ok b" using core by (simp add: alb_core_def)
  let ?on = "b\<lparr>promiscuity := (promiscuity b)(c := promiscuity b c + 1), primary_is_promisc := True\<rparr>"
  have "alb_core T R C ss ?on" if "\<not> primary_is_promisc b"
    by (rule promisc_core [OF core _ refl]) (use that p Some in \<open>auto simp: promisc_ok_def\<close>)
  moreover have "alb_core T R C ss (b\<lparr>primary_is_promisc := False\<rparr>)" if "\<not> primary_is_promisc b"
    using core that by (cases b) simp
  ultimately show ?thesis using core Some by (simp add: rlb_teach_disabled_mac_on_primary_def Let_def)
qed (use core in \<open>simp add: rlb_teach_disabled_mac_on_primary_def\<close>)

subsection \<open>Clearing a slave\<close>

definition slave_at :: "alb_bond \<Rightarrow> u8 \<Rightarrow> nat option" where
  "slave_at b j = (case rx_hashtbl b of None \<Rightarrow> None | Some t \<Rightarrow> c_slave (entry t j))"

lemma rx_users_at: "u \<in> rx_users b \<longleftrightarrow> (\<exists>j. slave_at b j = Some u) \<or> rx_slave b = Some u"
  by (auto simp: rx_users_def slave_at_def split: option.splits)

text \<open>A client of a slave that is no longer one of the bond moves to another slave, or to none.\<close>

lemma upd_client_fields [simp]:
  "rx_slave (upd_client i f b) = rx_slave b" "alb_slaves (upd_client i f b) = alb_slaves b"
  by (simp_all add: upd_client_def)

lemma clear_client_gone:
  assumes s: "s \<notin> set (alb_slaves b)" "rx_slave b \<noteq> Some s"
  shows "rx_slave (clear_client e s i b) \<noteq> Some s" "alb_slaves (clear_client e s i b) = alb_slaves b"
    "j = i \<or> slave_at b j \<noteq> Some s \<Longrightarrow> slave_at (clear_client e s i b) j \<noteq> Some s"
proof -
  obtain r b' where n: "rlb_next_rx_slave b = (r, b')" by (rule prod.exhaust)
  have r: "r \<noteq> Some s" using next_rx_eligible [of b s] s(1) n by (auto simp: eligible_def)
  have b': "rx_slave b' \<noteq> Some s" "alb_slaves b' = alb_slaves b" "rx_hashtbl b' = rx_hashtbl b"
    using next_rx_result(2) [of b] n r s(2) by (auto split: option.splits)
  show "rx_slave (clear_client e s i b) \<noteq> Some s" "alb_slaves (clear_client e s i b) = alb_slaves b"
    using s b' by (auto simp: clear_client_def n split: option.split)
  show "slave_at (clear_client e s i b) j \<noteq> Some s" if "j = i \<or> slave_at b j \<noteq> Some s"
    using that r b'(3) by (auto simp: clear_client_def n upd_client_def slave_at_def split: option.splits if_splits)
qed

lemma clear_clients_gone:
  assumes "s \<notin> set (alb_slaves b)" "rx_slave b \<noteq> Some s"
  shows "rx_slave (fold (clear_client e s) U b) \<noteq> Some s \<and>
    (\<forall>j. j \<in> set U \<or> slave_at b j \<noteq> Some s \<longrightarrow> slave_at (fold (clear_client e s) U b) j \<noteq> Some s)"
  using assms
proof (induction U arbitrary: b)
  case (Cons i U)
  note c = clear_client_gone [OF Cons.prems, where e = e and i = i]
  from Cons.IH [of "clear_client e s i b"] c(1,2) Cons.prems(1) c(3) show ?case by auto
qed simp

lemma unassigned_no_slave: "rx_ok b \<Longrightarrow> \<not> assigned_at b j \<Longrightarrow> slave_at b j = None"
  using rlb_relD(6) by (auto simp: rx_ok_def rlb_ok_def assigned_at_def slave_at_def split: option.splits)

lemma clear_slave_gone:
  assumes core: "alb_core T R C ss b" and s: "s \<notin> C" "rx_slave b \<noteq> Some s"
  shows "gives (alb_core T (R - {s}) C ss) (rlb_clear_slave e s b)"
proof -
  note ok = core_rx_ok [OF core]
  obtain U where U: "walk_before rx_next (clear_client e s) (rx_head b) b = Some (fold (clear_client e s) U b)"
    "soft b (fold (clear_client e s) U b)" "\<forall>i. (i \<in> set U) = assigned_at b i"
    using soft_walk [of "\<lambda>x. x" "clear_client e s" b, OF clear_client_soft ok] by auto
  let ?b = "fold (clear_client e s) U b"
  have s': "s \<notin> set (alb_slaves b)" using core s(1) by (auto simp: alb_core_def)
  have core': "alb_core T R C ss ?b" by (rule soft_core [OF U(2) core])
  have "slave_at ?b j \<noteq> Some s" for j
    using clear_clients_gone [OF s' s(2), where e = e and U = U] U(3) unassigned_no_slave [OF ok, of j] by auto
  then have "s \<notin> rx_users ?b" using clear_clients_gone [OF s' s(2), where e = e and U = U] by (simp add: rx_users_at)
  then have "alb_core T (R - {s}) C ss ?b" using core' s(1) by (auto simp: alb_core_def)
  then show ?thesis unfolding rlb_clear_slave_def U(1) by (simp add: teach_core)
qed

subsection \<open>Addresses\<close>

definition hw_only :: "alb_bond \<Rightarrow> alb_bond \<Rightarrow> bool" where
  "hw_only b b' = (\<exists>hw pa. b' = b\<lparr>alb_slave := (\<lambda>s. (alb_slave b s)\<lparr>hw_addr := hw s, prog_addr := pa s\<rparr>)\<rparr>)"

lemma hw_refl [simp]: "hw_only b b"
  unfolding hw_only_def
  by (rule exI [of _ "\<lambda>s. hw_addr (alb_slave b s)"], rule exI [of _ "\<lambda>s. prog_addr (alb_slave b s)"]) simp

lemma hw_trans: "hw_only b b' \<Longrightarrow> hw_only b' b'' \<Longrightarrow> hw_only b b''"
  unfolding hw_only_def by (elim exE) (simp, intro exI, rule refl)

lemma hw_upd:
  "hw_only b (upd_slave_alb s (\<lambda>x. x\<lparr>hw_addr := a\<rparr>) b)" "hw_only b (upd_slave_alb s (\<lambda>x. x\<lparr>hw_addr := a, prog_addr := a'\<rparr>) b)"
  unfolding hw_only_def
  by (rule exI [of _ "(\<lambda>u. hw_addr (alb_slave b u))(s := a)"], rule exI [of _ "\<lambda>u. prog_addr (alb_slave b u)"], auto simp: fun_eq_iff)
    (rule exI [of _ "(\<lambda>u. hw_addr (alb_slave b u))(s := a)"], rule exI [of _ "(\<lambda>u. prog_addr (alb_slave b u))(s := a')"], auto simp: fun_eq_iff)

lemma hw_fields:
  assumes "hw_only b b'"
  shows "alb_slaves b' = alb_slaves b" "rlb_enabled b' = rlb_enabled b" "mode_tlb b' = mode_tlb b" "bond_addr b' = bond_addr b"
    "curr_active_slave b' = curr_active_slave b" "can_tx (alb_slave b' s) = can_tx (alb_slave b s)"
    "tlb_head (alb_slave b' s) = tlb_head (alb_slave b s)" "perm_addr (alb_slave b' s) = perm_addr (alb_slave b s)"
  using assms by (auto simp: hw_only_def)

lemma hw_core:
  assumes hw: "hw_only b b'" and core: "alb_core T R C ss b"
  shows "alb_core T R C ss b'"
proof -
  obtain hw pa where b': "b' = b\<lparr>alb_slave := (\<lambda>s. (alb_slave b s)\<lparr>hw_addr := hw s, prog_addr := pa s\<rparr>)\<rparr>"
    using assms(1) by (auto simp: hw_only_def)
  show ?thesis using core by (simp add: b' alb_core_def alb_parts)
qed

lemma dev_set_hw: "hw_only b (snd (dev_set_mac_address e s a b))"
  using hw_upd(2) by (simp add: dev_set_mac_address_def)

lemma set_slave_hw: "hw_only b (snd (alb_set_slave_mac_addr e s a b))"
  using hw_upd(1) dev_set_hw [of b e s a] by (auto simp: alb_set_slave_mac_addr_def split: prod.split)

lemma swap_hw: "hw_only b (alb_swap_mac_addr e s1 s2 b)"
  unfolding alb_swap_mac_addr_def Let_def by (rule hw_trans [OF set_slave_hw set_slave_hw])

lemma program_hw: "hw_only b (snd (program_addr e a s b))"
  using dev_set_hw [of b e s a] by (auto simp: program_addr_def Let_def split: prod.split intro: hw_trans [OF _ hw_upd(1)])

lemma set_mac_loop_hw: "hw_only b (snd (set_mac_loop e a ss b))"
proof (induction ss arbitrary: b)
  case (Cons s ss)
  obtain ok b1 where b1: "program_addr e a s b = (ok, b1)" by (rule prod.exhaust)
  then have "hw_only b b1" using program_hw [of b e a s] by simp
  then show ?case using Cons.IH [of b1] hw_trans [of b b1] by (cases ok) (simp_all add: b1)
qed simp

lemma unwind_hw: "hw_only b (unwind_loop e stop ss b)"
proof (induction ss arbitrary: b)
  case (Cons s ss)
  show ?case using hw_trans [OF program_hw [of b e "bond_addr b" s] Cons.IH] by simp
qed simp

lemma set_mac_hw: "hw_only b (snd (alb_set_mac_address e a b))"
proof -
  obtain f b1 where b1: "set_mac_loop e a (alb_slaves b) b = (f, b1)" by (rule prod.exhaust)
  then have "hw_only b b1" using set_mac_loop_hw [of b e a "alb_slaves b"] by simp
  then show ?thesis using hw_trans [OF _ unwind_hw, of b b1] by (cases f) (simp_all add: alb_set_mac_address_def b1)
qed

lemma collision_hw: "hw_only b (snd (alb_handle_addr_collision_on_attach e s b))"
proof -
  define b1 where "b1 = (if perm_addr (alb_slave b s) \<noteq> bond_addr b then snd (alb_set_slave_mac_addr e s (bond_addr b) b) else b)"
  have "hw_only b b1" unfolding b1_def using set_slave_hw by simp
  then show ?thesis unfolding alb_handle_addr_collision_on_attach_def Let_def b1_def [symmetric]
    using hw_trans [OF _ set_slave_hw] by (auto split: prod.split option.split)
qed

subsection \<open>Swapping addresses\<close>

text \<open>
  What an invariant has to withstand so that the functions that swap the addresses of two slaves keep it:
  changes of the clients, of addresses and of the sent frames, and the teaching of an address.
\<close>

locale bond_invariant =
  fixes I :: "alb_bond \<Rightarrow> bool"
  assumes rx_table: "I b \<Longrightarrow> rx_ok b"
    and soft_step: "I b \<Longrightarrow> soft b b' \<Longrightarrow> I b'"
    and hw_step: "I b \<Longrightarrow> hw_only b b' \<Longrightarrow> I b'"
    and frames_step: "I b \<Longrightarrow> frames_only b b' \<Longrightarrow> I b'"
    and teach_step: "I b \<Longrightarrow> I (rlb_teach_disabled_mac_on_primary e a b)"
begin

lemma request_keeps:
  assumes x: "I x"
  shows "gives (\<lambda>b'. I b' \<and> alb_slave b' = alb_slave x) (if rlb_enabled x then rlb_req_update_slave_clients e c x else Some x)"
  using x gives_mono [OF req_slave_clients_soft [OF rx_table [OF x]], where Q = "\<lambda>b'. I b' \<and> alb_slave b' = alb_slave x"]
    soft_step [OF x] softD(2) by simp

lemma announce_keeps:
  assumes b: "I b"
  shows "gives (\<lambda>(d', b'). I b' \<and> alb_slave b' = alb_slave b \<and> d' = (if can_tx (alb_slave b s) then d else Some s)) (announce_slave e s d b)"
proof (cases "can_tx (alb_slave b s)")
  case True
  let ?b = "alb_send_learning_packets e s (hw_addr (alb_slave b s)) False b"
  have "I ?b" using b learning_frames by (rule frames_step)
  from request_keeps [OF this]
  have "gives (\<lambda>(d', b'). I b' \<and> alb_slave b' = alb_slave b \<and> d' = d)
      (do { b \<leftarrow> (if rlb_enabled ?b then rlb_req_update_slave_clients e s ?b else Some ?b); Some (d, b) })"
    by (rule gives_bind) simp
  then show ?thesis using True by (simp add: announce_slave_def Let_def)
qed (use b in \<open>simp add: announce_slave_def\<close>)

lemma fasten_keeps:
  assumes b: "I b"
  shows "gives I (alb_fasten_mac_swap e s1 s2 b)"
proof -
  obtain d1 b1 where 1: "announce_slave e s1 None b = Some (d1, b1)" "I b1" "alb_slave b1 = alb_slave b"
    "d1 = (if can_tx (alb_slave b s1) then None else Some s1)"
    using announce_keeps [OF b, of s1 None e] by (auto simp: gives_def)
  obtain d2 b2 where 2: "announce_slave e s2 d1 b1 = Some (d2, b2)" "I b2" "d2 = (if can_tx (alb_slave b1 s2) then d1 else Some s2)"
    using announce_keeps [OF 1(2), of s2 d1 e] by (auto simp: gives_def)
  have "d2 \<noteq> None" if "can_tx (alb_slave b s1) \<noteq> can_tx (alb_slave b s2)" using that 1(3,4) 2(3) by auto
  then show ?thesis using teach_step [OF 2(2)] 2(2) by (auto simp: alb_fasten_mac_swap_def Let_def 1(1) 2(1) split: if_splits)
qed

lemma swap_keeps: "I b \<Longrightarrow> gives I (alb_fasten_mac_swap e s1 s2 (alb_swap_mac_addr e s1 s2 b))"
  by (rule fasten_keeps) (rule hw_step [OF _ swap_hw])

lemma detach_keeps: "I b \<Longrightarrow> gives I (alb_change_hw_addr_on_detach e s b)"
  using swap_keeps by (simp add: alb_change_hw_addr_on_detach_def Let_def split: option.split)

lemma clear_keeps_inv:
  assumes b: "I b"
  shows "gives I (rlb_clear_slave e s b)"
  unfolding rlb_clear_slave_def
proof (rule gives_bind)
  show "gives I (walk_before rx_next (clear_client e s) (rx_head b) b)"
    by (rule gives_mono [OF soft_walk_gives(2) [of "\<lambda>x. x" "clear_client e s" b, OF clear_client_soft rx_table [OF b]]])
      (assumption, rule soft_step [OF b])
qed (simp add: teach_step)

end

interpretation core: bond_invariant "alb_core T R C ss" for T R C ss
proof
  fix b b' assume c: "alb_core T R C ss b"
  show "rx_ok b" by (rule core_rx_ok [OF c])
  show "soft b b' \<Longrightarrow> alb_core T R C ss b'" "hw_only b b' \<Longrightarrow> alb_core T R C ss b'"
    using soft_core [OF _ c] hw_core [OF _ c] by blast+
  show "frames_only b b' \<Longrightarrow> alb_core T R C ss b'" using c by (auto simp: frames_only_def)
  show "alb_core T R C ss (rlb_teach_disabled_mac_on_primary e a b)" for e a by (rule teach_core [OF c])
qed

text \<open>Nor do they touch the active slave, or the promiscuous mode of any slave while there is no active one.\<close>

definition steady :: "nat list \<Rightarrow> nat option \<Rightarrow> bool \<Rightarrow> (nat \<Rightarrow> int) \<Rightarrow> alb_bond \<Rightarrow> bool" where
  "steady ss a r p b = (rx_ok b \<and> tlb_ok b \<and> alb_slaves b = ss \<and> curr_active_slave b = a \<and> rlb_enabled b = r \<and> (a = None \<longrightarrow> promiscuity b = p))"

lemma teach_fields:
  "rx_hashtbl (rlb_teach_disabled_mac_on_primary e m b) = rx_hashtbl b" "tx_hashtbl (rlb_teach_disabled_mac_on_primary e m b) = tx_hashtbl b"
  "alb_slave (rlb_teach_disabled_mac_on_primary e m b) = alb_slave b"
  "curr_active_slave (rlb_teach_disabled_mac_on_primary e m b) = curr_active_slave b"
  "rlb_enabled (rlb_teach_disabled_mac_on_primary e m b) = rlb_enabled b"
  "curr_active_slave b = None \<Longrightarrow> rlb_teach_disabled_mac_on_primary e m b = b"
  "curr_active_slave b \<noteq> None \<Longrightarrow> set_promisc_ok e \<Longrightarrow> primary_is_promisc (rlb_teach_disabled_mac_on_primary e m b)"
  "alb_slaves (rlb_teach_disabled_mac_on_primary e m b) = alb_slaves b"
  by (auto simp: rlb_teach_disabled_mac_on_primary_def Let_def split: option.split)

interpretation steady: bond_invariant "steady ss a r p" for ss a r p
proof
  fix b b' assume c: "steady ss a r p b"
  show "rx_ok b" using c by (simp add: steady_def)
  show "steady ss a r p b'" if s: "soft b b'"
  proof -
    note S = softD [OF s]
    have "rx_ok b'" using c S(11) soft_table_ok by (auto simp: steady_def rx_ok_def elim: option.rel_cases)
    then show ?thesis using c by (simp add: steady_def tlb_ok_def S(1-4,7,8))
  qed
  show "hw_only b b' \<Longrightarrow> steady ss a r p b'" "frames_only b b' \<Longrightarrow> steady ss a r p b'"
    using c by (auto simp: hw_only_def frames_only_def steady_def rx_ok_def tlb_ok_def)
  show "steady ss a r p (rlb_teach_disabled_mac_on_primary e m b)" for e m
    using c by (cases "curr_active_slave b") (simp_all add: steady_def rx_ok_def tlb_ok_def teach_fields)
qed

lemma steady_clear:
  assumes "steady ss a r p b"
  shows "gives (steady ss a r p) (tlb_clear_slave e save s b)"
proof -
  have ok: "tlb_ok b" using assms by (simp add: steady_def)
  obtain b' where b': "tlb_clear_slave e save s b = Some b'" "tlb_ok b'" "tx_only b b'"
    using tlb_clear_ok [OF ok, of e save s] by (elim exE conjE) (rule that)
  note p = tx_only_parts [OF b'(3)]
  show ?thesis using assms b'(1,2) by (simp add: steady_def rx_ok_def p)
qed

lemma steady_deinit:
  assumes b: "steady ss a r p b"
  shows "gives (\<lambda>b'. steady ss a r p b' \<and> (a \<noteq> None \<longrightarrow> a \<noteq> Some s \<longrightarrow> r \<longrightarrow> set_promisc_ok e \<longrightarrow> primary_is_promisc b'))
    (bond_alb_deinit_slave e s b)"
proof -
  let ?P = "\<lambda>b'. steady ss a r p b' \<and> (a \<noteq> None \<longrightarrow> a \<noteq> Some s \<longrightarrow> r \<longrightarrow> set_promisc_ok e \<longrightarrow> primary_is_promisc b')"
  have clear: "gives ?P (if rlb_enabled x then rlb_clear_slave e s (x\<lparr>rx_slave := None\<rparr>) else Some x)" if x: "steady ss a r p x" for x
  proof (rule gives_if)
    let ?x = "x\<lparr>rx_slave := None\<rparr>"
    have "steady ss a r p ?x" using x by (simp add: steady_def rx_ok_def tlb_ok_def)
    then have "gives (steady ss a r p) (walk_before rx_next (clear_client e s) (rx_head ?x) ?x)"
      by (intro gives_mono [OF soft_walk_gives(2) [of "\<lambda>x. x" "clear_client e s" ?x, OF clear_client_soft steady.rx_table]])
        (assumption, assumption, rule steady.soft_step)
    then show "gives ?P (rlb_clear_slave e s ?x)" unfolding rlb_clear_slave_def
    proof (rule gives_bind)
      fix y assume y: "steady ss a r p y"
      then have "curr_active_slave y = a" by (simp add: steady_def)
      then show "gives ?P (Some (if curr_active_slave y \<noteq> Some s then rlb_teach_disabled_mac_on_primary e (hw_addr (alb_slave y s)) y else y))"
        using y steady.teach_step [OF y] teach_fields(7) [of y e] by auto
    qed
  next
    assume "\<not> rlb_enabled x"
    then show "gives ?P (Some x)" using x by (auto simp: steady_def)
  qed
  have "gives (steady ss a r p) (if alb_slaves b \<noteq> [] then alb_change_hw_addr_on_detach e s b else Some b)"
    using steady.detach_keeps [OF b] b by simp
  then show ?thesis unfolding bond_alb_deinit_slave_def
    by (rule gives_bind, intro gives_bind [OF steady_clear clear])
qed

lemmas swap_core = core.swap_keeps

lemma request_core:
  assumes "alb_core T R C ss x"
  shows "gives (alb_core T R C ss) (if rlb_enabled x then rlb_req_update_slave_clients e c x else Some x)"
  using core.request_keeps [OF assms] by (rule gives_mono) (erule conjunct1)

lemma set_mac_address_core:
  assumes core: "alb_core T R C ss b"
  shows "gives (\<lambda>(r, b'). alb_core T R C ss b') (bond_alb_set_mac_address e err a b)"
proof -
  obtain ok b1 where b1: "alb_set_mac_address e a b = (ok, b1)" by (rule prod.exhaust)
  define q where "q = b1\<lparr>bond_addr := a\<rparr>"
  have core1: "alb_core T R C ss b1" "alb_core T R C ss q" using hw_core [OF set_mac_hw core, of e a] b1 by (simp_all add: q_def)
  define y where "y c = (let b = snd (alb_set_slave_mac_addr e c (bond_addr q) q) in alb_send_learning_packets e c (bond_addr b) False b)" for c
  have y: "alb_core T R C ss (y c)" for c using hw_core [OF set_slave_hw core1(2)] by (simp add: y_def Let_def)
  have swapped: "gives (\<lambda>(r, b'). alb_core T R C ss b') (do { b \<leftarrow> alb_fasten_mac_swap e s c (alb_swap_mac_addr e s c q); Some (0 :: int, b) })"
    for s c by (rule gives_bind [OF swap_core [OF core1(2)]]) simp
  have direct: "gives (\<lambda>(r, b'). alb_core T R C ss b')
      (do { b \<leftarrow> (if rlb_enabled (y c) then rlb_req_update_slave_clients e c (y c) else Some (y c)); Some (0 :: int, b) })"
    for c by (rule gives_bind [OF request_core [OF y]]) simp
  have "gives (\<lambda>(r, b'). alb_core T R C ss b') (case curr_active_slave q of None \<Rightarrow> Some (0 :: int, q)
      | Some c \<Rightarrow> (case bond_slave_has_mac q (bond_addr q) of
          Some s \<Rightarrow> do { b \<leftarrow> alb_fasten_mac_swap e s c (alb_swap_mac_addr e s c q); Some (0, b) }
        | None \<Rightarrow> do { b \<leftarrow> (if rlb_enabled (y c) then rlb_req_update_slave_clients e c (y c) else Some (y c)); Some (0, b) }))"
    by (cases "curr_active_slave q"; cases "bond_slave_has_mac q (bond_addr q)")
      (simp_all only: option.case gives_Some prod.case core1(2) swapped direct)
  then show ?thesis using core core1(1) unfolding bond_alb_set_mac_address_def b1 y_def q_def Let_def by simp
qed

subsection \<open>Adding and removing slaves\<close>

lemma update_arr_core:
  assumes core: "alb_core T R C ss b" and d: "distinct ss"
  shows "alb_core T R C ss (bond_update_slave_arr e None b)"
proof -
  let ?u = "filter (\<lambda>s. can_tx (alb_slave b s)) (alb_slaves b)"
  have "alb_core T R C ss (b\<lparr>usable_slaves := ?u\<rparr>)" using core d by (auto simp: alb_core_def alb_parts)
  then show ?thesis using core by (simp add: bond_update_slave_arr_def)
qed

lemma tlb_ok_head:
  assumes "s \<notin> tlb_users b"
  shows "tlb_ok (upd_slave_alb s f b) = tlb_ok b"
proof -
  have "tlb_lists t (\<lambda>u. tlb_head (alb_slave (upd_slave_alb s f b) u)) = tlb_lists t (\<lambda>u. tlb_head (alb_slave b u))"
    if "tx_hashtbl b = Some t" for t
    using assms that unfolding tlb_lists_def tlb_users_def by (auto split: option.splits) metis+
  then show ?thesis by (simp add: tlb_ok_def)
qed

lemma alb_core_fresh:
  assumes "s \<notin> T"
  shows "alb_core T R C ss (upd_slave_alb s f b) = alb_core T R C ss b"
proof (cases "tlb_users b \<subseteq> T")
  case True
  with assms have "tlb_ok (upd_slave_alb s f b) = tlb_ok b" using tlb_ok_head by blast
  then show ?thesis by (simp add: alb_core_def tlb_users_def rx_ok_def rx_users_def promisc_ok_def open_ok_def rest_ok_def)
qed (simp add: alb_core_def tlb_users_def)

lemma init_slave_core:
  assumes core: "alb_core T R C ss b" and s: "s \<notin> T"
  shows "alb_core T R C ss (snd (bond_alb_init_slave e s b))"
proof -
  obtain r1 b1 where b1: "alb_set_slave_mac_addr e s (perm_addr (alb_slave b s)) b = (r1, b1)" by (rule prod.exhaust)
  obtain r2 b2 where b2: "alb_handle_addr_collision_on_attach e s b1 = (r2, b2)" by (rule prod.exhaust)
  have core1: "alb_core T R C ss b1" using hw_core [OF set_slave_hw core, of e s "perm_addr (alb_slave b s)"] b1 by simp
  have core2: "alb_core T R C ss b2" using hw_core [OF collision_hw core1, of e s] b2 by simp
  then have "alb_core T R C ss (upd_slave_alb s tlb_init_slave b2)" by (simp only: alb_core_fresh [OF s])
  then show ?thesis using core1 core2 by (simp add: bond_alb_init_slave_def b1 b2)
qed

lemma alb_core_slaves:
  assumes core: "alb_core T R C ss b"
    and sub: "T \<subseteq> T'" "R \<subseteq> R'" "C \<subseteq> C'" "C' \<subseteq> R'" "set ss' \<subseteq> T'" "set ss' \<subseteq> C'"
  shows "alb_core T' R' C' ss' (b\<lparr>alb_slaves := ss'\<rparr>)"
proof -
  let ?b = "b\<lparr>alb_slaves := ss'\<rparr>"
  have "tlb_ok ?b = tlb_ok b" "tlb_users ?b = tlb_users b" "rx_ok ?b = rx_ok b" "rx_users ?b = rx_users b"
    "open_ok ?b = open_ok b" "rest_ok ?b = rest_ok b" "promisc_ok ?b = promisc_ok b"
    by (simp_all add: alb_parts)
  then show ?thesis using core sub by (auto simp: alb_core_def)
qed

lemma enslave_core:
  assumes core: "alb_core T R C ss b" and s: "s \<notin> T" "distinct ss"
  shows "alb_core T R C ss (alb_enslave e s x b) \<or>
    alb_core (insert s T) (insert s R) (insert s C) (ss @ [s]) (alb_enslave e s x b)"
proof -
  obtain r b1 where b1: "bond_alb_init_slave e s (upd_slave_alb s (\<lambda>_. x) b) = (r, b1)" by (rule prod.exhaust)
  have "alb_core T R C ss (upd_slave_alb s (\<lambda>_. x) b)" using alb_core_fresh [OF s(1), where f = "\<lambda>_. x"] core by simp
  from init_slave_core [OF this s(1), of e] b1 have core1: "alb_core T R C ss b1" by simp
  have ss: "alb_slaves b1 = ss" using core1 by (simp add: alb_core_def)
  have "alb_core (insert s T) (insert s R) (insert s C) (ss @ [s]) (b1\<lparr>alb_slaves := alb_slaves b1 @ [s]\<rparr>)"
    unfolding ss by (rule alb_core_slaves [OF core1]) (use core1 in \<open>auto simp: alb_core_def\<close>)
  moreover have "distinct (ss @ [s])" using core s by (auto simp: alb_core_def)
  ultimately show ?thesis using core1 update_arr_core unfolding alb_enslave_def b1 by auto
qed

lemma deinit_slave_gone:
  assumes core: "alb_core T R C ss b" and s: "s \<notin> C"
  shows "gives (alb_core (T - {s}) (R - {s}) C ss) (bond_alb_deinit_slave e s b)"
proof -
  have ss: "set ss \<subseteq> T - {s}" using core s by (auto simp: alb_core_def)
  have step: "gives (alb_core (T - {s}) (R - {s}) C ss) (if rlb_enabled x then rlb_clear_slave e s (x\<lparr>rx_slave := None\<rparr>) else Some x)"
    if x: "alb_core (T - {s}) R C ss x" for x
  proof (cases "rlb_enabled x")
    case True
    have "alb_core (T - {s}) R C ss (x\<lparr>rx_slave := None\<rparr>)" using x by (auto simp: alb_core_def alb_parts)
    from clear_slave_gone [OF this s] True show ?thesis by simp
  next
    case False
    then have "rx_users x = {}" using x by (auto simp: alb_core_def rest_ok_def rx_users_def)
    then show ?thesis using x s False by (auto simp: alb_core_def)
  qed
  have "gives (alb_core T R C ss) (if alb_slaves b \<noteq> [] then alb_change_hw_addr_on_detach e s b else Some b)"
    using core.detach_keeps [OF core] core by simp
  then show ?thesis unfolding bond_alb_deinit_slave_def
  proof (rule gives_bind)
    fix x assume "alb_core T R C ss x"
    then have "gives (alb_core (T - {s}) R C ss) (tlb_clear_slave e False s x)"
      by (rule gives_mono [OF tlb_clear_core [OF _ ss order_refl]]) simp
    then show "gives (alb_core (T - {s}) (R - {s}) C ss)
        (tlb_clear_slave e False s x \<bind> (\<lambda>b. if rlb_enabled b then rlb_clear_slave e s (b\<lparr>rx_slave := None\<rparr>) else Some b))"
      by (rule gives_bind) (rule step)
  qed
qed

subsection \<open>The active slave\<close>

text \<open>The old active slave leaves the promiscuous mode before the bond forgets it.\<close>

definition without_promisc :: "alb_bond \<Rightarrow> alb_bond" where
  "without_promisc b = (case curr_active_slave b of
     Some c \<Rightarrow> if primary_is_promisc b
       then b\<lparr>promiscuity := (promiscuity b)(c := promiscuity b c - 1), primary_is_promisc := False, rlb_promisc_timeout_counter := 0\<rparr>
       else b
   | None \<Rightarrow> b)"

lemma without_promisc_core:
  assumes core: "alb_core T R C ss b" and new: "set_option new \<subseteq> C"
  shows "alb_core T R C ss ((without_promisc b)\<lparr>curr_active_slave := new\<rparr>)"
proof -
  have p: "promisc_ok b" using core by (simp add: alb_core_def)
  let ?b = "(without_promisc b)\<lparr>curr_active_slave := new\<rparr>"
  have "primary_is_promisc ?b = False" "promiscuity ?b = (\<lambda>_. 0)"
    using p by (auto simp: without_promisc_def promisc_ok_def fun_eq_iff split: option.split)
  then have "promisc_ok ?b" by (simp add: promisc_ok_def)
  moreover have "tlb_ok ?b = tlb_ok b" "tlb_users ?b = tlb_users b" "rx_ok ?b = rx_ok b" "rx_users ?b = rx_users b"
    "open_ok ?b = open_ok b" "rest_ok ?b = rest_ok b" "usable_slaves ?b = usable_slaves b" "alb_slaves ?b = alb_slaves b"
    by (simp_all add: without_promisc_def tlb_ok_def tlb_users_def rx_ok_def rx_users_def open_ok_def rest_ok_def split: option.split)
  ultimately show ?thesis using core new by (simp add: alb_core_def)
qed

lemma clear_keeps:
  assumes core: "alb_core T R C ss b"
  shows "gives (alb_core T R C ss) (tlb_clear_slave e save s b)"
proof -
  have "set ss \<subseteq> T" "T - {s} \<subseteq> T" using core by (auto simp: alb_core_def)
  from tlb_clear_core [OF core this] show ?thesis by (rule gives_mono) simp
qed

lemma active_change_core:
  assumes core: "alb_core T R C ss b" and new: "set_option new \<subseteq> C"
  shows "gives (alb_core T R C ss) (bond_alb_handle_active_change e new b)"
proof (cases "curr_active_slave b = new \<or> new = None \<or> alb_slaves b = []")
  case True
  then show ?thesis using core without_promisc_core [OF core new]
    by (auto simp: bond_alb_handle_active_change_def without_promisc_def Let_def split: option.splits)
next
  case False
  then obtain n where n: "new = Some n" by auto
  define q where "q = (without_promisc b)\<lparr>curr_active_slave := Some n\<rparr>"
  have q: "alb_core T R C ss q" using without_promisc_core [OF core new] by (simp add: q_def n)
  define sw where "sw = (if curr_active_slave b = None then bond_slave_has_mac q (bond_addr q) else curr_active_slave b)"
  have last: "gives (alb_core T R C ss) (case sw of
       Some s \<Rightarrow> alb_fasten_mac_swap e s n (alb_swap_mac_addr e s n x)
     | None \<Rightarrow> Some (let b = snd (alb_set_slave_mac_addr e n (bond_addr x) x) in alb_send_learning_packets e n (bond_addr b) False b))"
    if "alb_core T R C ss x" for x
    using swap_core [OF that] hw_core [OF set_slave_hw that] by (simp add: Let_def split: option.split)
  have prog: "alb_core T R C ss (if mode_tlb x then snd (program_addr e (bond_addr x) n x) else x)" if "alb_core T R C ss x" for x
    using hw_core [OF program_hw that] that by simp
  have "gives (alb_core T R C ss) (case sw of None \<Rightarrow> Some q | Some s \<Rightarrow> tlb_clear_slave e True s q)"
    using q clear_keeps [OF q] by (simp split: option.split)
  then have "gives (alb_core T R C ss) (do {
      b \<leftarrow> (case sw of None \<Rightarrow> Some q | Some s \<Rightarrow> tlb_clear_slave e True s q);
      b \<leftarrow> tlb_clear_slave e True n b;
      let b = (if mode_tlb b then snd (program_addr e (bond_addr b) n b) else b);
      case sw of Some s \<Rightarrow> alb_fasten_mac_swap e s n (alb_swap_mac_addr e s n b)
        | None \<Rightarrow> Some (let b = snd (alb_set_slave_mac_addr e n (bond_addr b) b) in alb_send_learning_packets e n (bond_addr b) False b) })"
    unfolding Let_def [where s = "if mode_tlb _ then _ else _"]
    by (rule gives_bind, intro gives_bind [OF clear_keeps]) (assumption, rule last, rule prog)
  moreover have "alb_slaves q \<noteq> []" using False by (auto simp: q_def without_promisc_def split: option.split)
  ultimately show ?thesis using False
    unfolding bond_alb_handle_active_change_def n sw_def q_def without_promisc_def Let_def by (simp split del: if_split)
qed

subsection \<open>Releasing a slave\<close>

lemma skip_slave:
  "distinct us \<Longrightarrow> set (bond_skip_slave us s) = set us - {s} \<and> distinct (bond_skip_slave us s)"
proof (induction us)
  case (Cons u us)
  have "us \<noteq> [] \<Longrightarrow> set (last us # butlast us) = set us \<and> distinct (last us # butlast us) = distinct us"
    by (induction us rule: rev_induct) auto
  with Cons show ?case by auto
qed simp

lemma update_arr_skip:
  assumes core: "alb_core T R C ss b" and d: "distinct ss"
  shows "alb_core T R C ss (bond_update_slave_arr e (Some s) b)" "s \<notin> set (usable_slaves (bond_update_slave_arr e (Some s) b))"
    "curr_active_slave (bond_update_slave_arr e (Some s) b) = curr_active_slave b"
proof -
  let ?b = "bond_update_slave_arr e (Some s) b"
  have u: "distinct (usable_slaves b)" "set (usable_slaves b) \<subseteq> C" "alb_slaves b = ss" "set ss \<subseteq> C" using core by (simp_all add: alb_core_def)
  have "set (usable_slaves ?b) \<subseteq> C - {s} \<and> distinct (usable_slaves ?b)"
    using u d skip_slave [OF u(1), of s] by (auto simp: bond_update_slave_arr_def)
  moreover have "tlb_ok ?b = tlb_ok b" "tlb_users ?b = tlb_users b" "rx_ok ?b = rx_ok b" "rx_users ?b = rx_users b"
    "open_ok ?b = open_ok b" "rest_ok ?b = rest_ok b" "promisc_ok ?b = promisc_ok b" "alb_slaves ?b = alb_slaves b"
    "curr_active_slave ?b = curr_active_slave b"
    by (simp_all add: alb_parts bond_update_slave_arr_def)
  ultimately show "alb_core T R C ss ?b" "s \<notin> set (usable_slaves ?b)" "curr_active_slave ?b = curr_active_slave b"
    using core by (auto simp: alb_core_def)
qed

lemma alb_core_forget:
  assumes "alb_core T R C ss b" "s \<notin> set ss" "curr_active_slave b \<noteq> Some s" "s \<notin> set (usable_slaves b)"
  shows "alb_core T R (C - {s}) ss b"
  using assms by (auto simp: alb_core_def)

lemma release_core:
  assumes core: "alb_core (set ss) (set ss) (set ss) ss b" and d: "distinct ss" and s: "s \<in> set ss"
  shows "gives (alb_core (set ss - {s}) (set ss - {s}) (set ss - {s}) (remove1 s ss)) (alb_release_one e False s b)"
proof -
  let ?S = "set ss" and ?ss = "remove1 s ss"
  have ss: "alb_slaves b = ss" using core by (simp add: alb_core_def)
  define b1 where "b1 = bond_update_slave_arr e (Some s) (b\<lparr>alb_slaves := ?ss\<rparr>)"
  have "alb_core ?S ?S ?S ?ss (b\<lparr>alb_slaves := ?ss\<rparr>)" by (rule alb_core_slaves [OF core]) (use d in \<open>auto dest: notin_set_remove1\<close>)
  note b1 = update_arr_skip [OF this distinct_remove1 [OF d], where e = e and s = s, folded b1_def]
  have out: "s \<notin> set ?ss" using d by simp
  have "gives (alb_core ?S ?S (?S - {s}) ?ss) (if curr_active_slave b = Some s then bond_alb_handle_active_change e None b1 else Some b1)"
  proof (cases "curr_active_slave b = Some s")
    case True
    let ?b = "(without_promisc b1)\<lparr>curr_active_slave := None\<rparr>"
    have "alb_core ?S ?S ?S ?ss ?b" by (rule without_promisc_core [OF b1(1)]) simp
    then have "alb_core ?S ?S (?S - {s}) ?ss ?b"
      by (rule alb_core_forget) (use out b1(2) in \<open>auto simp: without_promisc_def split: option.split\<close>)
    moreover have "bond_alb_handle_active_change e None b1 = Some ?b"
      using True b1(3) by (simp add: bond_alb_handle_active_change_def without_promisc_def)
    ultimately show ?thesis using True by simp
  next
    case False
    then show ?thesis using alb_core_forget [OF b1(1) out _ b1(2)] b1(3) by simp
  qed
  then show ?thesis unfolding alb_release_one_def ss Let_def b1_def [symmetric]
    by (rule gives_bind, intro gives_bind [OF deinit_slave_gone]) (assumption, simp_all)
qed

subsection \<open>Links and the monitor\<close>

lemma link_change_core:
  assumes core: "alb_core T R C ss b" and d: "distinct ss"
  shows "gives (alb_core T R C ss) (bond_alb_handle_link_change e s l b)"
  unfolding bond_alb_handle_link_change_def
proof (rule gives_bind)
  show "gives (alb_core T R C ss) (case l of
      BOND_LINK_DOWN \<Rightarrow> do { b \<leftarrow> tlb_clear_slave e False s b; if rlb_enabled b then rlb_clear_slave e s b else Some b }
    | BOND_LINK_UP \<Rightarrow> Some (b\<lparr>tx_rebalance_counter := BOND_TLB_REBALANCE_TICKS e, do_rlb_rebalance := (do_rlb_rebalance b \<or> rlb_enabled b)\<rparr>)
    | BOND_LINK_OTHER \<Rightarrow> Some b)"
    using core gives_bind [OF clear_keeps [OF core], where Q = "alb_core T R C ss" and f = "\<lambda>b. if rlb_enabled b then rlb_clear_slave e s b else Some b"]
      core.clear_keeps_inv by (auto split: bond_link.split)
qed (use update_arr_core d in simp)

lemma send_all_core: "alb_core T R C ss b \<Longrightarrow> alb_core T R C ss (send_all_learning e b)"
proof -
  have "alb_core T R C ss (fold (\<lambda>s b. alb_send_learning_packets e s (hw_addr (alb_slave b s)) (curr_active_slave b \<noteq> Some s \<or> rlb_enabled b) b) xs b) =
      alb_core T R C ss b" for xs by (induction xs arbitrary: b) simp_all
  then show "alb_core T R C ss b \<Longrightarrow> alb_core T R C ss (send_all_learning e b)" by (simp add: send_all_learning_def)
qed

lemma rebalance_tx_core: "alb_core T R C ss b \<Longrightarrow> gives (alb_core T R C ss) (rebalance_tx e xs b)"
proof (induction xs arbitrary: b)
  case (Cons s xs)
  show ?case unfolding rebalance_tx.simps
    by (rule gives_bind [OF clear_keeps [OF Cons.prems]]) (rule Cons.IH, simp split: if_split)
qed simp

lemma monitor_clients_core:
  assumes core: "alb_core T R C ss b"
  shows "gives (alb_core T R C ss) (monitor_clients e b)"
  unfolding monitor_clients_def
proof (rule gives_bind)
  have core': "alb_core T R C ss (b\<lparr>do_rlb_rebalance := False\<rparr>)" using core by simp
  show "gives (alb_core T R C ss) (if do_rlb_rebalance b then rlb_rebalance (b\<lparr>do_rlb_rebalance := False\<rparr>) else Some b)"
    using gives_core [OF core' rebalance_soft [OF core_rx_ok [OF core']]] core by simp
next
  fix x assume x: "alb_core T R C ss x"
  have "gives (alb_core T R C ss) (rlb_update_rx_clients e x \<bind> (\<lambda>b. Some
      (if rlb_update_retry_counter b \<noteq> 0 then b\<lparr>rlb_update_retry_counter := rlb_update_retry_counter b - 1\<rparr> else b\<lparr>rx_ntt := False\<rparr>)))"
    by (rule gives_bind [OF gives_core [OF x update_rx_clients_soft [OF core_rx_ok [OF x]]]]) simp
  then show "gives (alb_core T R C ss) (if \<not> rx_ntt x then Some x
      else if rlb_update_delay_counter x \<noteq> 0 then Some (x\<lparr>rlb_update_delay_counter := rlb_update_delay_counter x - 1\<rparr>)
      else rlb_update_rx_clients e x \<bind> (\<lambda>b. Some
        (if rlb_update_retry_counter b \<noteq> 0 then b\<lparr>rlb_update_retry_counter := rlb_update_retry_counter b - 1\<rparr> else b\<lparr>rx_ntt := False\<rparr>)))"
    using x by simp
qed

lemma monitor_rlb_core:
  assumes core: "alb_core T R C ss b"
  shows "gives (alb_core T R C ss) (monitor_rlb e b)"
proof (cases "primary_is_promisc b")
  case True
  have p: "promisc_ok b" using core by (simp add: alb_core_def)
  then obtain c where c: "curr_active_slave b = Some c" "promiscuity b c = 1" using True by (auto simp: promisc_ok_def)
  let ?b = "b\<lparr>rlb_promisc_timeout_counter := rlb_promisc_timeout_counter b + 1\<rparr>"
  let ?off = "?b\<lparr>rlb_promisc_timeout_counter := 0, promiscuity := (promiscuity b)(c := promiscuity b c - 1), primary_is_promisc := False\<rparr>"
  have "alb_core T R C ss (b\<lparr>promiscuity := (promiscuity b)(c := promiscuity b c - 1), primary_is_promisc := False\<rparr>)"
    by (rule promisc_core [OF core _ refl]) (use p c in \<open>auto simp: promisc_ok_def\<close>)
  then have "alb_core T R C ss (b\<lparr>promiscuity := (promiscuity b)(c := promiscuity b c - 1), primary_is_promisc := False,
      rlb_promisc_timeout_counter := 0\<rparr>)" by simp
  moreover have "b\<lparr>promiscuity := (promiscuity b)(c := promiscuity b c - 1), primary_is_promisc := False, rlb_promisc_timeout_counter := 0\<rparr> = ?off"
    by (cases b) simp
  ultimately have "alb_core T R C ss ?off" by simp
  from monitor_clients_core [OF this] monitor_clients_core [of T R C ss ?b e] core True c(1) show ?thesis
    by (simp add: monitor_rlb_def Let_def)
qed (use monitor_clients_core [OF core] in \<open>simp add: monitor_rlb_def\<close>)

lemma monitor_core:
  assumes core: "alb_core T R C ss b"
  shows "gives (alb_core T R C ss) (bond_alb_monitor e b)"
proof (cases "alb_slaves b = []")
  case False
  define q where "q = b\<lparr>tx_rebalance_counter := tx_rebalance_counter b + 1, lp_counter := lp_counter b + 1\<rparr>"
  define r where "r = (if BOND_ALB_LP_TICKS e \<le> lp_counter q then (send_all_learning e q)\<lparr>lp_counter := 0\<rparr> else q)"
  have q: "alb_core T R C ss q" using core by (simp add: q_def)
  then have r: "alb_core T R C ss r" using send_all_core [OF q] by (simp add: r_def)
  have "gives (alb_core T R C ss) (if BOND_TLB_REBALANCE_TICKS e \<le> tx_rebalance_counter r
      then rebalance_tx e (alb_slaves r) r \<bind> (\<lambda>b. Some (b\<lparr>tx_rebalance_counter := 0\<rparr>)) else Some r)"
    by (rule gives_if, rule gives_bind [OF rebalance_tx_core [OF r]]) (use r in simp_all)
  then have "gives (alb_core T R C ss) ((if BOND_TLB_REBALANCE_TICKS e \<le> tx_rebalance_counter r
      then rebalance_tx e (alb_slaves r) r \<bind> (\<lambda>b. Some (b\<lparr>tx_rebalance_counter := 0\<rparr>)) else Some r) \<bind>
      (\<lambda>b. if rlb_enabled b then monitor_rlb e b else Some b))"
    by (rule gives_bind) (simp add: monitor_rlb_core)
  then show ?thesis using False unfolding bond_alb_monitor_def Let_def q_def r_def by simp
qed (use core in \<open>simp add: bond_alb_monitor_def\<close>)

subsection \<open>Changes of the receive table\<close>

definition client_slaves :: "(u8 \<rightharpoonup> client) \<Rightarrow> nat set" where
  "client_slaves m = {s. \<exists>i. hit (\<lambda>v. fst (snd (snd (snd (snd (snd v))))) = Some s) (m i)}"

lemma table_users: "rlb_ok t \<Longrightarrow> {s. \<exists>i. c_slave (entry t i) = Some s} = client_slaves (clients t)"
  using rlb_relD(6) by (fastforce simp: rlb_ok_def client_slaves_def clients_def client_view_def split: if_splits)

lemma core_table:
  assumes "alb_core T R C ss b" "rx_hashtbl b = Some t"
  shows "rlb_ok t" "client_slaves (clients t) \<subseteq> R"
proof -
  show ok: "rlb_ok t" using assms by (simp add: alb_core_def rx_ok_def)
  have "{s. \<exists>i. c_slave (entry t i) = Some s} \<subseteq> rx_users b" using assms(2) by (auto simp: rx_users_def)
  then show "client_slaves (clients t) \<subseteq> R" using assms(1) table_users [OF ok] by (auto simp: alb_core_def)
qed

lemma new_table_core:
  assumes core: "alb_core T R C ss b" and t: "rx_hashtbl b \<noteq> None" "rlb_ok t" "client_slaves (clients t) \<subseteq> R"
  shows "alb_core T R C ss (b\<lparr>rx_hashtbl := Some t\<rparr>)"
proof -
  let ?b = "b\<lparr>rx_hashtbl := Some t\<rparr>"
  have "tlb_ok ?b = tlb_ok b" "tlb_users ?b = tlb_users b" "promisc_ok ?b = promisc_ok b" "open_ok ?b" "rx_ok ?b"
    using t(2) by (simp_all add: alb_parts)
  moreover have "rest_ok ?b" using core t(1) by (auto simp: alb_core_def rest_ok_def)
  moreover have "rx_users ?b = client_slaves (clients t) \<union> set_option (rx_slave b)"
    unfolding table_users [OF t(2), symmetric] by (auto simp: rx_users_def)
  moreover have "set_option (rx_slave b) \<subseteq> R" using core by (auto simp: alb_core_def rx_users_def)
  ultimately show ?thesis using core t(3) by (auto simp: alb_core_def)
qed

text \<open>A table with fewer clients.\<close>

lemma fewer_clients:
  assumes "clients t' = (\<lambda>i. if hit B (clients t i) then None else clients t i)"
  shows "client_slaves (clients t') \<subseteq> client_slaves (clients t)"
  using assms by (auto simp: client_slaves_def split: if_splits)

lemma clear_vlan_core:
  assumes core: "alb_core T R C ss b"
  shows "gives (alb_core T R C ss) (bond_alb_clear_vlan vid b)"
proof (cases "rx_hashtbl b")
  case (Some t)
  note t = core_table [OF core Some]
  obtain t' where t': "rlb_clear_vlan_table vid t = Some t'" "rlb_ok t'"
    "clients t' = (\<lambda>i. if hit (\<lambda>v. snd (snd (snd (snd (snd (snd v))))) = vid) (clients t i) then None else clients t i)"
    using clear_vlan_result [OF t(1), of vid] by (elim exE conjE) (rule that)
  have "alb_core T R C ss (b\<lparr>rx_hashtbl := Some t'\<rparr>)"
    by (rule new_table_core [OF core _ t'(2)]) (use Some fewer_clients [OF t'(3)] t(2) in auto)
  then show ?thesis using core Some t'(1) by (simp add: bond_alb_clear_vlan_def rlb_clear_vlan_def)
qed (use core in \<open>simp add: bond_alb_clear_vlan_def rlb_clear_vlan_def\<close>)

lemma update_entry_core:
  assumes core: "alb_core T R C ss b" and t: "rx_hashtbl b = Some t"
  shows "gives (alb_core T R C ss) (rlb_update_entry_from_arp arp b)"
proof -
  have "alb_core T R C ss (upd_client i (\<lambda>c. c\<lparr>c_mac_dst := m, c_ntt := n\<rparr>) b)" if "assigned (entry t i)" for i m n
    by (rule soft_core [OF set_ntt_soft(2) core]) (use that t in \<open>simp add: assigned_at_def\<close>)
  then show ?thesis using core t by (simp add: rlb_update_entry_from_arp_def Let_def)
qed

lemma arp_recv_core:
  assumes core: "alb_core T R C ss b" and t: "rx_hashtbl b = Some t"
  shows "gives (alb_core T R C ss) (rlb_arp_recv skb b)"
proof (cases skb)
  case (Some arp)
  note T = core_table [OF core t]
  obtain t' where t': "rlb_purge_src_ip arp t = Some t'" "rlb_ok t'"
    "clients t' = (\<lambda>i. if hit (\<lambda>v. fst v = ip_src arp \<and> mac_src arp \<noteq> fst (snd (snd v))) (clients t i) then None else clients t i)"
    using purge_result [OF T(1), of arp] by (elim exE conjE) (rule that)
  have core': "alb_core T R C ss (b\<lparr>rx_hashtbl := Some t'\<rparr>)"
    by (rule new_table_core [OF core _ t'(2)]) (use t fewer_clients [OF t'(3)] T(2) in auto)
  then show ?thesis using update_entry_core [OF core', of t' arp] Some t t'(1) by (simp add: rlb_arp_recv_def Let_def)
qed (use core in \<open>simp add: rlb_arp_recv_def\<close>)

subsection \<open>Transmission\<close>

lemma assign_core:
  assumes core: "alb_core T R C ss b" and t: "rx_hashtbl b = Some t" and h: "h = simple_hash (ip_dst arp)"
    and r: "rlb_assign e vlan arp h b = (r, b')"
  shows "alb_core T R C ss b' \<and> set_option r \<subseteq> R"
proof -
  have R: "set (alb_slaves b) \<subseteq> R" using core by (auto simp: alb_core_def)
  obtain n b1 where n: "rlb_next_rx_slave b = (n, b1)" by (rule prod.exhaust)
  have "rx_hashtbl b \<noteq> None" using t by simp
  note N = next_rx_soft [OF n this]
  have core1: "alb_core T R C ss b1" by (rule soft_core [OF N(1) core])
  have t1: "rx_hashtbl b1 = Some t" using N(3) t by simp
  note T = core_table [OF core1 t1]
  show ?thesis
  proof (cases n)
    case None
    then show ?thesis using r core1 by (simp add: rlb_assign_def n)
  next
    case (Some s)
    then have s: "s \<in> R" using N(2) R by auto
    let ?t = "rlb_fill e vlan arp h s t"
    have "client_slaves (clients ?t) \<subseteq> insert s (client_slaves (clients t))"
      unfolding fill_result(2) [OF T(1) h] by (auto simp: client_slaves_def filled_def split: if_splits)
    then have "alb_core T R C ss (b1\<lparr>rx_hashtbl := Some ?t\<rparr>)"
      by (intro new_table_core [OF core1 _ fill_result(1) [OF T(1) h]]) (use t1 T(2) s in auto)
    then show ?thesis using r s t1 Some by (auto simp: rlb_assign_def n)
  qed
qed

text \<open>A client of the table keeps its slave; otherwise a slave is assigned, for a new client after the old one has been told.\<close>

definition known_client :: "alb_env \<Rightarrow> arp_pkt \<Rightarrow> alb_bond \<Rightarrow> alb_bond" where
  "known_client e arp b = upd_client (simple_hash (ip_dst arp)) (\<lambda>c. c\<lparr>c_mac_dst := (if is_broadcast_ether_addr e (mac_dst arp)
     then c_mac_dst c else mac_dst arp), c_mac_src := mac_src arp\<rparr>) b"

lemma choose_cases:
  fixes arp e vlan
  defines "h \<equiv> simple_hash (ip_dst arp)"
  assumes core: "alb_core T R C ss b" and t: "rx_hashtbl b = Some t"
  obtains (known) s where "assigned (entry t h)" "c_ip_src (entry t h) = ip_src arp" "c_ip_dst (entry t h) = ip_dst arp"
      "c_slave (entry t h) = Some s" "alb_core T R C ss (known_client e arp b)"
      "rlb_choose_channel e vlan arp b = Some (Some s, known_client e arp b)"
  | (assign) x where "alb_core T R C ss x" "\<exists>tx. rx_hashtbl x = Some tx \<and> (\<forall>i. i \<noteq> h \<longrightarrow> entry tx i = entry t i)" "rlb_choose_channel e vlan arp b = Some (rlb_assign e vlan arp h x)"
proof -
  let ?c = "entry t h"
  define moved where "moved = rlb_update_client e (?c\<lparr>c_slave := curr_active_slave b\<rparr>) (upd_client h (\<lambda>c. c\<lparr>c_slave := curr_active_slave b\<rparr>) b)"
  have moved: "alb_core T R C ss moved" "\<exists>tx. rx_hashtbl moved = Some tx \<and> (\<forall>i. i \<noteq> h \<longrightarrow> entry tx i = entry t i)" if "assigned ?c"
  proof -
    have "soft b (upd_client h (\<lambda>c. c\<lparr>c_slave := curr_active_slave b\<rparr>) b)"
      by (rule set_slave_soft(2)) (use that t in \<open>auto simp: assigned_at_def\<close>)
    then show "alb_core T R C ss moved" unfolding moved_def by (intro soft_core [OF _ core]) simp
    show "\<exists>tx. rx_hashtbl moved = Some tx \<and> (\<forall>i. i \<noteq> h \<longrightarrow> entry tx i = entry t i)" using t by (simp add: moved_def upd_client_def)
  qed
  show thesis
  proof (cases "assigned ?c \<and> c_ip_src ?c = ip_src arp \<and> c_ip_dst ?c = ip_dst arp")
    case True
    have q: "alb_core T R C ss (known_client e arp b)"
      "\<exists>tx. rx_hashtbl (known_client e arp b) = Some tx \<and> (\<forall>i. i \<noteq> h \<longrightarrow> entry tx i = entry t i)"
      unfolding known_client_def h_def [symmetric]
      by (rule soft_core [OF set_ntt_soft(3) core]) (use True t in \<open>simp_all add: assigned_at_def upd_client_def\<close>)
    have eq: "rlb_choose_channel e vlan arp b =
        (if c_slave ?c \<noteq> None then Some (c_slave ?c, known_client e arp b) else Some (rlb_assign e vlan arp h (known_client e arp b)))"
      unfolding rlb_choose_channel_def known_client_def Let_def h_def [symmetric] using True by (simp add: t)
    show thesis
    proof (cases "c_slave ?c")
      case None
      then show thesis using assign [OF q] eq by simp
    next
      case (Some s)
      then show thesis using known [OF _ _ _ Some q(1)] True eq by simp
    qed
  next
    case False
    let ?x = "if assigned ?c \<and> curr_active_slave b \<noteq> None \<and> c_slave ?c \<noteq> curr_active_slave b then moved else b"
    have "rlb_choose_channel e vlan arp b = Some (rlb_assign e vlan arp h ?x)"
      unfolding rlb_choose_channel_def moved_def Let_def h_def [symmetric] t by (simp only: bind.bind_lunit if_not_P [OF False])
    then show thesis by (rule assign [rotated 2]) (use moved core t in auto)
  qed
qed

lemma rx_choose_core:
  assumes core: "alb_core T R C ss b" and t: "rx_hashtbl b = Some t"
  shows "gives (\<lambda>(r, b'). alb_core T R C ss b' \<and> set_option r \<subseteq> R) (rlb_choose_channel e vlan arp b)"
  using core t
proof (cases rule: choose_cases [where e = e and vlan = vlan and arp = arp])
  case (known s)
  moreover have "s \<in> R" using core t known(4) by (auto simp: alb_core_def rx_users_def)
  ultimately show ?thesis by simp
next
  case (assign x)
  obtain tx where tx: "rx_hashtbl x = Some tx" using assign(2) by blast
  obtain r b' where r: "rlb_assign e vlan arp (simple_hash (ip_dst arp)) x = (r, b')" by (rule prod.exhaust)
  show ?thesis using assign_core [OF assign(1) tx refl r] assign(3) r by simp
qed

lemma arp_xmit_core:
  assumes core: "alb_core T R C ss b" and t: "rx_hashtbl b = Some t"
  shows "gives (\<lambda>(r, p, b'). alb_core T R C ss b' \<and> set_option r \<subseteq> R) (rlb_arp_xmit e vlan bridged skb b)"
proof -
  let ?P = "\<lambda>(r, p, b'). alb_core T R C ss b' \<and> set_option r \<subseteq> R"
  have reply: "gives ?P (do { (tx, b) \<leftarrow> rlb_choose_channel e vlan arp b; Some (tx, f tx b, b) })" for arp and f :: "nat option \<Rightarrow> alb_bond \<Rightarrow> arp_pkt option"
    by (rule gives_bind [OF rx_choose_core [OF core t]]) auto
  have request: "gives ?P (do { (tx, b) \<leftarrow> rlb_choose_channel e vlan arp b;
      b \<leftarrow> rlb_req_update_subnet_clients e ip (b\<lparr>rlb_update_delay_counter := n\<rparr>); Some (tx, a, b) })" for arp ip n and a :: "arp_pkt option"
  proof (rule gives_bind [OF rx_choose_core [OF core t]], clarsimp)
    fix r b' assume c: "alb_core T R C ss b'" "set_option r \<subseteq> R"
    then have c': "alb_core T R C ss (b'\<lparr>rlb_update_delay_counter := n\<rparr>)" by simp
    show "gives ?P (do { b \<leftarrow> rlb_req_update_subnet_clients e ip (b'\<lparr>rlb_update_delay_counter := n\<rparr>); Some (r, a, b) })"
      by (rule gives_bind [OF gives_core [OF c' req_subnet_clients_soft [OF core_rx_ok [OF c']]]]) (use c(2) in simp)
  qed
  show ?thesis using core reply request unfolding rlb_arp_xmit_def by (simp split: option.split arp_op.split)
qed

lemma hashed_core: "alb_core T R C ss b \<Longrightarrow> set_option (hashed_slave h b) \<subseteq> C"
  by (auto simp: alb_core_def hashed_slave_def)

text \<open>A packet leaves through a slave that can transmit, with its address unless it is the active one.\<close>

definition leaves_by :: "nat set \<Rightarrow> xmit_result \<Rightarrow> alb_bond \<Rightarrow> bool" where
  "leaves_by D r b = (\<forall>s m. r = Sent s m \<longrightarrow> s \<in> D \<and> can_tx (alb_slave b s) \<and>
     m = (if curr_active_slave b = Some s then None else Some (hw_addr (alb_slave b s))))"

lemma do_xmit_core:
  assumes core: "alb_core T R C ss b" and tx: "set_option tx \<subseteq> D" "C \<subseteq> D"
  shows "gives (\<lambda>(r, b'). alb_core T R C ss b' \<and> leaves_by D r b') (bond_do_alb_xmit e len tx b)"
proof -
  let ?P = "\<lambda>(r, b'). alb_core T R C ss b' \<and> leaves_by D r b'"
  define q where "q = (case tx of None \<Rightarrow> (if tlb_dynamic_lb b then b\<lparr>unbalanced_load := unbalanced_load b + len\<rparr> else b) | Some _ \<Rightarrow> b)"
  define x where "x = (case tx of None \<Rightarrow> curr_active_slave b | Some s \<Rightarrow> Some s)"
  have q: "alb_core T R C ss q" using core by (simp add: q_def split: option.split)
  have x: "set_option x \<subseteq> D" using core tx by (auto simp: x_def alb_core_def split: option.splits)
  have drop: "gives ?P (do { b \<leftarrow> tlb_clear_slave e False s q; Some (Dropped, b) })" for s
    by (rule gives_bind [OF clear_keeps [OF q]]) (simp add: leaves_by_def)
  have "(case tx of None \<Rightarrow> (curr_active_slave b, if tlb_dynamic_lb b then b\<lparr>unbalanced_load := unbalanced_load b + len\<rparr> else b)
      | Some s \<Rightarrow> (Some s, b)) = (x, q)" by (cases tx) (simp_all add: x_def q_def)
  then have "bond_do_alb_xmit e len tx b = (case x of None \<Rightarrow> Some (Dropped, q)
      | Some s \<Rightarrow> if can_tx (alb_slave q s) then Some (Sent s (if curr_active_slave q \<noteq> Some s then Some (hw_addr (alb_slave q s)) else None), q)
          else if tlb_dynamic_lb q then do { b \<leftarrow> tlb_clear_slave e False s q; Some (Dropped, b) } else Some (Dropped, q))"
    unfolding bond_do_alb_xmit_def by (simp only: Let_def prod.case)
  then show ?thesis using q x drop by (cases x) (simp_all add: leaves_by_def)
qed

lemma tlb_get_core:
  assumes core: "alb_core T R C ss b" and t: "tx_hashtbl b \<noteq> None"
  shows "gives (\<lambda>(r, b'). alb_core T R C ss b' \<and> set_option r \<subseteq> T \<union> R) (bond_xmit_tlb_slave_get p b)"
proof -
  have sub: "C \<subseteq> T \<union> R" using core by (auto simp: alb_core_def)
  show ?thesis
    using gives_mono [OF tlb_choose_core [OF core t], where Q = "\<lambda>(r, b'). alb_core T R C ss b' \<and> set_option r \<subseteq> T \<union> R"]
      core hashed_core [OF core] sub by (fastforce simp: bond_xmit_tlb_slave_get_def)
qed

lemma alb_get_core:
  assumes core: "alb_core T R C ss b" and t: "tx_hashtbl b \<noteq> None"
  shows "gives (\<lambda>(r, a, b'). alb_core T R C ss b' \<and> set_option r \<subseteq> T \<union> R) (bond_xmit_alb_slave_get e p b)"
proof -
  let ?P = "\<lambda>(r, a, b'). alb_core T R C ss b' \<and> set_option r \<subseteq> T \<union> R"
  have sub: "C \<subseteq> T \<union> R" using core by (auto simp: alb_core_def)
  have arp: "gives ?P (rlb_arp_xmit e (vlan_tag p) (from_bridge p) (arp_hdr p) b)" if en: "rlb_enabled b"
  proof -
    obtain tr where "rx_hashtbl b = Some tr" using core t en by (auto simp: alb_core_def open_ok_def)
    from arp_xmit_core [OF core this] show ?thesis by (rule gives_mono) auto
  qed
  have ip: "gives ?P (do { (tx, b) \<leftarrow> tlb_choose_channel h n b; Some (tx, a, b) })" for h n and a :: "arp_pkt option"
    by (rule gives_bind [OF tlb_choose_core [OF core t]]) auto
  show ?thesis
    using core arp ip order_trans [OF hashed_core [OF core] sub] unfolding bond_xmit_alb_slave_get_def
    by (simp split: option.split)
qed

lemma tlb_xmit_core:
  assumes core: "alb_core T R C ss b" and t: "tx_hashtbl b \<noteq> None"
  shows "gives (\<lambda>(r, b'). alb_core T R C ss b' \<and> leaves_by (T \<union> R) r b') (bond_tlb_xmit e p b)"
proof -
  have sub: "C \<subseteq> T \<union> R" using core by (auto simp: alb_core_def)
  show ?thesis unfolding bond_tlb_xmit_def
    by (rule gives_bind [OF tlb_get_core [OF core t]]) (use do_xmit_core [OF _ _ sub] in \<open>auto simp del: Un_iff\<close>)
qed

lemma alb_xmit_core:
  assumes core: "alb_core T R C ss b" and t: "tx_hashtbl b \<noteq> None"
  shows "gives (\<lambda>(r, b'). alb_core T R C ss b' \<and> leaves_by (T \<union> R) r b') (bond_alb_xmit e p b)"
proof -
  have sub: "C \<subseteq> T \<union> R" using core by (auto simp: alb_core_def)
  show ?thesis unfolding bond_alb_xmit_def
    by (rule gives_bind [OF alb_get_core [OF core t]]) (use do_xmit_core [OF _ _ sub] in \<open>auto simp del: Un_iff\<close>)
qed

subsection \<open>Opening and closing the bond\<close>

lemma initialize_core:
  assumes core: "alb_core T R C ss b" and closed: "tx_hashtbl b = None"
  shows "alb_core T R C ss (snd (bond_alb_initialize e mem mem2 (\<not> mode_tlb b) b))"
proof -
  have rest: "rx_hashtbl b = None" "rx_slave b = None \<or> rlb_enabled b \<and> \<not> mode_tlb b" using core closed by (auto simp: alb_core_def rest_ok_def)
  define b1 where "b1 = b\<lparr>tx_hashtbl := Some (\<lambda>i. tlb_init_table_entry e False zero_tlb)\<rparr>"
  define b2 where "b2 = b1\<lparr>rx_hashtbl := Some \<lparr>entry = (\<lambda>_. rlb_init_table_entry), used_head = None\<rparr>, rlb_enabled := True\<rparr>"
  have "tlb_ok b1" "tlb_users b1 = {}" by (simp_all add: b1_def tlb_ok_def tlb_lists_def tlb_users_def)
  moreover have "c_slave rlb_init_table_entry = None"
    by (simp add: rlb_init_table_entry_def rlb_init_table_entry_src_def rlb_init_table_entry_dst_def)
  ultimately have tlb: "alb_core T R C ss (b1\<lparr>rlb_enabled := False\<rparr>)" if "mode_tlb b"
    using core rest that by (auto simp: b1_def alb_core_def alb_parts)
  have rlb: "alb_core T R C ss b2" if "\<not> mode_tlb b"
    using core rest that \<open>tlb_ok b1\<close> \<open>tlb_users b1 = {}\<close> \<open>c_slave rlb_init_table_entry = None\<close> initial_table
    by (auto simp: b1_def b2_def alb_core_def alb_parts)
  have off: "b1\<lparr>tx_hashtbl := None\<rparr> = b" using closed by (cases b) (simp add: b1_def)
  show ?thesis using core tlb rlb off
    by (auto simp: bond_alb_initialize_def tlb_initialize_def rlb_initialize_def tlb_deinitialize_def b1_def b2_def)
qed

lemma deinitialize_core:
  assumes core: "alb_core T R C ss b"
  shows "alb_core T R C ss (bond_alb_deinitialize b)"
proof -
  let ?b = "b\<lparr>tx_hashtbl := None, rx_hashtbl := None\<rparr>"
  have "rx_hashtbl b = None" if "\<not> rlb_enabled b" using core that by (auto simp: alb_core_def rest_ok_def)
  then have b: "bond_alb_deinitialize b = ?b"
    by (cases b) (simp add: bond_alb_deinitialize_def tlb_deinitialize_def rlb_deinitialize_def Let_def)
  have "tlb_ok ?b" "tlb_users ?b = {}" "rx_ok ?b" "rx_users ?b \<subseteq> rx_users b" "promisc_ok ?b = promisc_ok b" "open_ok ?b"
    by (auto simp: alb_parts)
  moreover have "rest_ok ?b" using core by (auto simp: alb_core_def rest_ok_def)
  ultimately show ?thesis unfolding b using core by (simp add: alb_core_def) blast
qed
end
