(* ===== verification/Alb_Reach.thy ===== *)
theory Alb_Reach
  imports Alb_Calls
begin

text \<open>
  The load balancing as servers/bonding.c drives it: a transition system whose events are the calls into
  servers/bond_alb.c, and what holds in every bond that it reaches.
\<close>

subsection \<open>The calls of the driver\<close>

text \<open>The parts of \<open>bond_open\<close>, \<open>bond_close\<close> and \<open>__bond_start_xmit\<close> that concern the load balancing.\<close>

definition alb_open :: "alb_env \<Rightarrow> bool \<Rightarrow> bool \<Rightarrow> alb_bond \<Rightarrow> alb_bond" where
  "alb_open e mem mem2 b = (case bond_alb_initialize e mem mem2 (\<not> mode_tlb b) b of (res, b) \<Rightarrow>
     if res \<noteq> 0 then b else bond_update_slave_arr e None b)"

definition alb_close :: "alb_bond \<Rightarrow> alb_bond" where
  "alb_close b = bond_alb_deinitialize b"

definition alb_start_xmit :: "alb_env \<Rightarrow> alb_pkt \<Rightarrow> alb_bond \<Rightarrow> (xmit_result \<times> alb_bond) defined" where
  "alb_start_xmit e p b = (if mode_tlb b then bond_tlb_xmit e p b else bond_alb_xmit e p b)"

text \<open>
  The part of \<open>bond_xmit_get_slave\<close> for the two modes: another driver asks by which slave a packet
  would leave. The answer is the device of the slave.
\<close>

definition alb_xmit_get_slave :: "alb_env \<Rightarrow> alb_pkt \<Rightarrow> alb_bond \<Rightarrow> (nat option \<times> alb_bond) defined" where
  "alb_xmit_get_slave e p b =
     (if mode_tlb b then bond_xmit_tlb_slave_get p b
      else do { (slave, _, b) \<leftarrow> bond_xmit_alb_slave_get e p b; Some (slave, b) })"

text \<open>
  \<open>bond_enslave\<close> up to the point where the slave is in the list, and its error path from there
  (\<open>err_upper_unlink\<close>), which takes the slave out of the list again.
\<close>

definition alb_link_slave :: "alb_env \<Rightarrow> nat \<Rightarrow> alb_slave \<Rightarrow> alb_bond \<Rightarrow> int \<times> alb_bond" where
  "alb_link_slave e s x b = (case bond_alb_init_slave e s (upd_slave_alb s (\<lambda>_. x) b) of (res, b) \<Rightarrow>
     if res \<noteq> 0 then (res, b) else (0, b\<lparr>alb_slaves := alb_slaves b @ [s]\<rparr>))"

definition alb_undo_enslave :: "alb_env \<Rightarrow> nat \<Rightarrow> alb_bond \<Rightarrow> alb_bond defined" where
  "alb_undo_enslave e s b =
     (let b = b\<lparr>alb_slaves := remove1 s (alb_slaves b)\<rparr>
      in if curr_active_slave b = Some s then bond_alb_handle_active_change e None b else Some b)"

text \<open>
  \<open>SlaveAdded\<close> is a whole \<open>bond_enslave\<close>; \<open>SlaveLinked\<close> is one that has got as far as the list of
  slaves and \<open>EnslaveUndone\<close> its error path, so that other calls may come in between.
  \<open>DeviceChanged\<close> is any change of what a slave knows of its device (whether it can transmit, its speed);
  \<open>ModeSet\<close> and \<open>DynamicSet\<close> are the options \<open>mode\<close> and \<open>tlb_dynamic_lb\<close>.
\<close>

datatype alb_event = BondOpened alb_env bool bool | BondClosed | SlaveAdded alb_env nat alb_slave | SlaveReleased alb_env nat
  | SlaveLinked alb_env nat alb_slave | EnslaveUndone alb_env nat | SlaveQueried alb_env alb_pkt
  | ActiveChanged alb_env "nat option" | LinkChanged alb_env nat bond_link | MonitorRuns alb_env | PacketSent alb_env alb_pkt
  | ArpReceived "arp_pkt option" | AddressSet alb_env int mac_addr | VlanRemoved u16 | ArrayUpdated alb_env
  | ModeSet bool | DynamicSet bool | DeviceChanged nat bool u32

fun alb_happens :: "alb_event \<Rightarrow> alb_bond \<Rightarrow> alb_bond defined" where
  "alb_happens (BondOpened e mem mem2) b = Some (alb_open e mem mem2 b)"
| "alb_happens BondClosed b = Some (alb_close b)"
| "alb_happens (SlaveAdded e s x) b = Some (alb_enslave e s x b)"
| "alb_happens (SlaveReleased e s) b = alb_release_one e False s b"
| "alb_happens (SlaveLinked e s x) b = Some (snd (alb_link_slave e s x b))"
| "alb_happens (EnslaveUndone e s) b = alb_undo_enslave e s b"
| "alb_happens (SlaveQueried e p) b = do { (_, b) \<leftarrow> alb_xmit_get_slave e p b; Some b }"
| "alb_happens (ActiveChanged e new) b = bond_alb_handle_active_change e new b"
| "alb_happens (LinkChanged e s l) b = bond_alb_handle_link_change e s l b"
| "alb_happens (MonitorRuns e) b = bond_alb_monitor e b"
| "alb_happens (PacketSent e p) b = do { (_, b) \<leftarrow> alb_start_xmit e p b; Some b }"
| "alb_happens (ArpReceived skb) b = rlb_arp_recv skb b"
| "alb_happens (AddressSet e err a) b = do { (_, b) \<leftarrow> bond_alb_set_mac_address e err a b; Some b }"
| "alb_happens (VlanRemoved vid) b = bond_alb_clear_vlan vid b"
| "alb_happens (ArrayUpdated e) b = Some (bond_update_slave_arr e None b)"
| "alb_happens (ModeSet tlb) b = Some (b\<lparr>mode_tlb := tlb\<rparr>)"
| "alb_happens (DynamicSet v) b = Some (b\<lparr>tlb_dynamic_lb := v\<rparr>)"
| "alb_happens (DeviceChanged s tx v) b = Some (upd_slave_alb s (\<lambda>x. x\<lparr>can_tx := tx, speed := v\<rparr>) b)"

text \<open>
  When a call is covered: a bond is opened when it is closed, packets are sent and received while
  it is open, a slave is enslaved once, the other calls are for slaves of the bond, and the options are
  set as their flags allow (\<open>BOND_OPTFLAG_IFDOWN\<close>, \<open>BOND_OPTFLAG_NOSLAVES\<close>). Two calls that the driver can
  make are not covered, because the code goes wrong in them: the error path of \<open>bond_enslave\<close> once a flow, a client, the
  receiver or the array refers to the slave, and \<open>bond_xmit_get_slave\<close> on a bond that is closed.
\<close>

definition unreferenced :: "nat \<Rightarrow> alb_bond \<Rightarrow> bool" where
  "unreferenced s b = (s \<notin> tlb_users b \<and> s \<notin> rx_users b \<and> s \<notin> set (usable_slaves b))"

fun alb_may :: "alb_event \<Rightarrow> alb_bond \<Rightarrow> bool" where
  "alb_may (BondOpened e mem mem2) b = (tx_hashtbl b = None)"
| "alb_may (SlaveAdded e s x) b = (s \<notin> set (alb_slaves b))"
| "alb_may (SlaveLinked e s x) b = (s \<notin> set (alb_slaves b))"
| "alb_may (EnslaveUndone e s) b = (s \<in> set (alb_slaves b) \<and> unreferenced s b)"
| "alb_may (SlaveQueried e p) b = (tx_hashtbl b \<noteq> None)"
| "alb_may (SlaveReleased e s) b = (s \<in> set (alb_slaves b))"
| "alb_may (ActiveChanged e new) b = (set_option new \<subseteq> set (alb_slaves b))"
| "alb_may (LinkChanged e s l) b = (s \<in> set (alb_slaves b))"
| "alb_may (PacketSent e p) b = (tx_hashtbl b \<noteq> None)"
| "alb_may (ArpReceived skb) b = (rx_hashtbl b \<noteq> None)"
| "alb_may (ModeSet tlb) b = (tx_hashtbl b = None \<and> alb_slaves b = [])"
| "alb_may (DynamicSet v) b = (tx_hashtbl b = None)"
| "alb_may ev b = True"

definition alb_created :: "alb_bond \<Rightarrow> bool" where
  "alb_created b = (alb_slaves b = [] \<and> curr_active_slave b = None \<and> usable_slaves b = [] \<and> tx_hashtbl b = None \<and>
     rx_hashtbl b = None \<and> rx_slave b = None \<and> \<not> rlb_enabled b \<and> \<not> primary_is_promisc b \<and> promiscuity b = (\<lambda>_. 0))"

inductive alb_reachable :: "alb_bond \<Rightarrow> bool" where
  created: "alb_created b \<Longrightarrow> alb_reachable b"
| event: "alb_reachable b \<Longrightarrow> alb_may ev b \<Longrightarrow> alb_happens ev b = Some b' \<Longrightarrow> alb_reachable b'"

subsection \<open>The invariant of reachable bonds\<close>

definition alb_inv :: "alb_bond \<Rightarrow> bool" where
  "alb_inv b = (distinct (alb_slaves b) \<and> alb_core (set (alb_slaves b)) (set (alb_slaves b)) (set (alb_slaves b)) (alb_slaves b) b)"

lemma alb_invI: "distinct ss \<Longrightarrow> alb_core (set ss) (set ss) (set ss) ss b \<Longrightarrow> alb_inv b"
  by (simp add: alb_inv_def alb_core_def)

lemma alb_invD:
  assumes "alb_inv b"
  obtains ss where "distinct ss" "alb_core (set ss) (set ss) (set ss) ss b" "alb_slaves b = ss"
  using assms by (auto simp: alb_inv_def)

lemma created_inv: "alb_created b \<Longrightarrow> alb_inv b"
  by (simp add: alb_created_def alb_inv_def alb_core_def alb_parts)

lemma gives_inv: "distinct ss \<Longrightarrow> gives (alb_core (set ss) (set ss) (set ss) ss) r \<Longrightarrow> gives alb_inv r"
  by (erule gives_mono) (rule alb_invI)

lemma open_inv:
  assumes "distinct ss" "alb_core (set ss) (set ss) (set ss) ss b" "tx_hashtbl b = None"
  shows "alb_inv (alb_open e mem mem2 b)"
proof -
  obtain r b1 where b1: "bond_alb_initialize e mem mem2 (\<not> mode_tlb b) b = (r, b1)" by (rule prod.exhaust)
  have c: "alb_core (set ss) (set ss) (set ss) ss b1" using initialize_core [OF assms(2,3), of e mem mem2] b1 by simp
  show ?thesis unfolding alb_open_def b1 using alb_invI [OF assms(1)] c update_arr_core [OF c assms(1)] by simp
qed

lemma enslave_inv:
  assumes "distinct ss" "alb_core (set ss) (set ss) (set ss) ss b" "s \<notin> set ss"
  shows "alb_inv (alb_enslave e s x b)"
  using enslave_core [OF assms(2,3,1), of e x]
proof
  assume "alb_core (insert s (set ss)) (insert s (set ss)) (insert s (set ss)) (ss @ [s]) (alb_enslave e s x b)"
  then show ?thesis using alb_invI [of "ss @ [s]"] assms(1,3) by simp
qed (rule alb_invI [OF assms(1)])

lemma release_inv:
  assumes "distinct ss" "alb_core (set ss) (set ss) (set ss) ss b" "s \<in> set ss"
  shows "gives alb_inv (alb_release_one e False s b)"
proof (rule gives_inv)
  show "distinct (remove1 s ss)" using assms(1) by simp
  show "gives (alb_core (set (remove1 s ss)) (set (remove1 s ss)) (set (remove1 s ss)) (remove1 s ss)) (alb_release_one e False s b)"
    using release_core [OF assms(2,1,3), of e] assms(1) by (simp add: set_remove1_eq)
qed

lemma link_slave_inv:
  assumes "distinct ss" "alb_core (set ss) (set ss) (set ss) ss b" "s \<notin> set ss"
  shows "alb_inv (snd (alb_link_slave e s x b))"
proof -
  obtain r b1 where b1: "bond_alb_init_slave e s (upd_slave_alb s (\<lambda>_. x) b) = (r, b1)" by (rule prod.exhaust)
  have "alb_core (set ss) (set ss) (set ss) ss (upd_slave_alb s (\<lambda>_. x) b)"
    using alb_core_fresh [OF assms(3), where f = "\<lambda>_. x"] assms(2) by simp
  from init_slave_core [OF this assms(3), of e] b1 have core1: "alb_core (set ss) (set ss) (set ss) ss b1" by simp
  then have ss: "alb_slaves b1 = ss" by (simp add: alb_core_def)
  have "alb_core (insert s (set ss)) (insert s (set ss)) (insert s (set ss)) (ss @ [s]) (b1\<lparr>alb_slaves := alb_slaves b1 @ [s]\<rparr>)"
    unfolding ss by (rule alb_core_slaves [OF core1]) auto
  then have "alb_inv (b1\<lparr>alb_slaves := alb_slaves b1 @ [s]\<rparr>)" using alb_invI [of "ss @ [s]"] assms(1,3) by simp
  then show ?thesis using alb_invI [OF assms(1) core1] by (simp add: alb_link_slave_def b1)
qed

lemma undo_enslave_inv:
  assumes d: "distinct ss" and core: "alb_core (set ss) (set ss) (set ss) ss b" and u: "unreferenced s b"
  shows "gives alb_inv (alb_undo_enslave e s b)"
proof -
  let ?ss = "remove1 s ss" and ?b = "b\<lparr>alb_slaves := remove1 s ss\<rparr>"
  have ss: "alb_slaves b = ss" using core by (simp add: alb_core_def)
  have out: "s \<notin> set ?ss" and sub: "set ?ss = set ss - {s}" using d by (simp_all add: set_remove1_eq)
  have wide: "alb_core (set ss) (set ss) (set ss) ?ss ?b" by (rule alb_core_slaves [OF core]) (use sub in auto)
  have narrow: "alb_inv x" if x: "alb_core (set ss) (set ss) (set ss) ?ss x" and "curr_active_slave x \<noteq> Some s"
    and same: "tlb_users x = tlb_users b" "rx_users x = rx_users b" "usable_slaves x = usable_slaves b" for x
  proof (rule alb_invI)
    show "alb_core (set ?ss) (set ?ss) (set ?ss) ?ss x"
      using alb_core_forget [OF x out that(2)] u sub unfolding unreferenced_def same [symmetric] by (auto simp: alb_core_def)
  qed (use d in simp)
  show ?thesis
  proof (cases "curr_active_slave b = Some s")
    case True
    let ?x = "(without_promisc ?b)\<lparr>curr_active_slave := None\<rparr>"
    have "alb_core (set ss) (set ss) (set ss) ?ss ?x" by (rule without_promisc_core [OF wide]) simp
    then have "alb_inv ?x"
      by (rule narrow) (simp_all add: without_promisc_def tlb_users_def rx_users_def split: option.split)
    moreover have "bond_alb_handle_active_change e None ?b = Some ?x"
      using True by (simp add: bond_alb_handle_active_change_def without_promisc_def)
    ultimately show ?thesis using True by (simp add: alb_undo_enslave_def ss)
  next
    case False
    have "alb_inv ?b" by (rule narrow [OF wide]) (use False in \<open>simp_all add: tlb_users_def rx_users_def\<close>)
    then show ?thesis using False by (simp add: alb_undo_enslave_def ss)
  qed
qed

lemma get_slave_core:
  assumes core: "alb_core T R C ss b" and t: "tx_hashtbl b \<noteq> None"
  shows "gives (\<lambda>(r, b'). alb_core T R C ss b' \<and> set_option r \<subseteq> T \<union> R) (alb_xmit_get_slave e p b)"
proof -
  have "gives (\<lambda>(r, b'). alb_core T R C ss b' \<and> set_option r \<subseteq> T \<union> R)
      (do { (slave, _, b) \<leftarrow> bond_xmit_alb_slave_get e p b; Some (slave, b) })"
    by (rule gives_bind [OF alb_get_core [OF core t]]) auto
  then show ?thesis unfolding alb_xmit_get_slave_def using tlb_get_core [OF core t] by (simp only: split: if_split) simp
qed

lemma start_xmit_core:
  assumes "alb_core T R C ss b" "tx_hashtbl b \<noteq> None"
  shows "gives (\<lambda>(r, b'). alb_core T R C ss b' \<and> leaves_by (T \<union> R) r b') (alb_start_xmit e p b)"
  unfolding alb_start_xmit_def using tlb_xmit_core [OF assms] alb_xmit_core [OF assms] by (cases "mode_tlb b") (simp_all only: if_True if_False)

lemma mode_inv:
  assumes "alb_inv b" "tx_hashtbl b = None" "alb_slaves b = []"
  shows "alb_inv (b\<lparr>mode_tlb := tlb\<rparr>)"
proof -
  have c: "alb_core {} {} {} [] b" using assms(1,3) by (simp add: alb_inv_def)
  then have "rx_slave b = None" "rx_hashtbl b = None" using assms(2) by (auto simp: alb_core_def rest_ok_def rx_users_def)
  then have "alb_core {} {} {} [] (b\<lparr>mode_tlb := tlb\<rparr>)" using c assms(2) by (auto simp: alb_core_def alb_parts)
  then show ?thesis using alb_invI [of "[]"] by simp
qed

lemma event_inv:
  assumes inv: "alb_inv b" and may: "alb_may ev b"
  shows "gives alb_inv (alb_happens ev b)"
proof -
  obtain ss where d: "distinct ss" and core: "alb_core (set ss) (set ss) (set ss) ss b" and ss: "alb_slaves b = ss"
    using inv by (rule alb_invD)
  note I = gives_inv [OF d] and J = alb_invI [OF d]
  show ?thesis
  proof (cases ev)
    case (BondOpened e mem mem2)
    then show ?thesis using open_inv [OF d core] may by simp
  next
    case BondClosed
    then show ?thesis using J [OF deinitialize_core [OF core]] by (simp add: alb_close_def)
  next
    case (SlaveAdded e s x)
    then show ?thesis using enslave_inv [OF d core] may ss by simp
  next
    case (SlaveReleased e s)
    then show ?thesis using release_inv [OF d core] may ss by simp
  next
    case (SlaveLinked e s x)
    then show ?thesis using link_slave_inv [OF d core] may ss by simp
  next
    case (EnslaveUndone e s)
    then show ?thesis using undo_enslave_inv [OF d core] may by simp
  next
    case (SlaveQueried e p)
    then have "gives alb_inv (do { (_, b) \<leftarrow> alb_xmit_get_slave e p b; Some b })"
      using may by (intro gives_bind [OF get_slave_core [OF core]]) (auto intro: J)
    then show ?thesis using SlaveQueried by simp
  next
    case (ActiveChanged e new)
    then show ?thesis using I [OF active_change_core [OF core]] may ss by simp
  next
    case (LinkChanged e s l)
    then show ?thesis using I [OF link_change_core [OF core d]] by simp
  next
    case (MonitorRuns e)
    then show ?thesis using I [OF monitor_core [OF core]] by simp
  next
    case (PacketSent e p)
    then have "gives alb_inv (do { (_, b) \<leftarrow> alb_start_xmit e p b; Some b })"
      using may by (intro gives_bind [OF start_xmit_core [OF core]]) (auto intro: J)
    then show ?thesis using PacketSent by simp
  next
    case (ArpReceived skb)
    then show ?thesis using I [OF arp_recv_core [OF core]] may by auto
  next
    case (AddressSet e err a)
    have "gives alb_inv (do { (_, b) \<leftarrow> bond_alb_set_mac_address e err a b; Some b })"
      by (rule gives_bind [OF set_mac_address_core [OF core]]) (auto intro: J)
    then show ?thesis using AddressSet by simp
  next
    case (VlanRemoved vid)
    then show ?thesis using I [OF clear_vlan_core [OF core]] by simp
  next
    case (ArrayUpdated e)
    then show ?thesis using J [OF update_arr_core [OF core d]] by simp
  next
    case (ModeSet tlb)
    then show ?thesis using mode_inv [OF inv] may by simp
  next
    case (DynamicSet v)
    have "alb_core (set ss) (set ss) (set ss) ss (b\<lparr>tlb_dynamic_lb := v\<rparr>)" using core by (simp add: alb_core_def alb_parts)
    then show ?thesis using DynamicSet J by simp
  next
    case (DeviceChanged s tx v)
    have "alb_core (set ss) (set ss) (set ss) ss (upd_slave_alb s (\<lambda>x. x\<lparr>can_tx := tx, speed := v\<rparr>) b)"
      using core alb_core_slave [where f = "\<lambda>x. x\<lparr>can_tx := tx, speed := v\<rparr>"] by simp
    then show ?thesis using DeviceChanged J by simp
  qed
qed

lemma reachable_inv: "alb_reachable b \<Longrightarrow> alb_inv b"
proof (induction rule: alb_reachable.induct)
  case (event b ev b')
  then show ?case using event_inv [of b ev] by simp
qed (rule created_inv)

subsection \<open>Sending\<close>

lemma start_xmit_eq:
  "alb_xmit_get_slave e p b = Some (tx, b1) \<Longrightarrow> alb_start_xmit e p b = bond_do_alb_xmit e (skb_len p) tx b1"
  by (auto simp: alb_xmit_get_slave_def alb_start_xmit_def bond_tlb_xmit_def bond_alb_xmit_def split: if_splits option.splits bind_splits)

lemma xmit_result:
  assumes "bond_do_alb_xmit e len tx b = Some (r, b')"
  shows "case (if tx = None then curr_active_slave b else tx) of
       None \<Rightarrow> r = Dropped
     | Some s \<Rightarrow> if can_tx (alb_slave b s)
          then r = Sent s (if curr_active_slave b = Some s then None else Some (hw_addr (alb_slave b s))) else r = Dropped"
  using assms by (auto simp: bond_do_alb_xmit_def Let_def split: option.splits if_splits bind_splits)

subsection \<open>The end of a bond\<close>

lemma gives_conj: "gives P r \<Longrightarrow> gives Q r \<Longrightarrow> gives (\<lambda>x. P x \<and> Q x) r"
  by (auto simp: gives_def)

lemma core_steady: "alb_core T R C ss b \<Longrightarrow> steady ss (curr_active_slave b) (rlb_enabled b) (promiscuity b) b"
  by (simp add: steady_def alb_core_def)

lemma update_arr_fields:
  "rx_hashtbl (bond_update_slave_arr e k b) = rx_hashtbl b" "tx_hashtbl (bond_update_slave_arr e k b) = tx_hashtbl b"
  "alb_slave (bond_update_slave_arr e k b) = alb_slave b" "alb_slaves (bond_update_slave_arr e k b) = alb_slaves b"
  "curr_active_slave (bond_update_slave_arr e k b) = curr_active_slave b" "rlb_enabled (bond_update_slave_arr e k b) = rlb_enabled b"
  "promiscuity (bond_update_slave_arr e k b) = promiscuity b"
  by (simp_all add: bond_update_slave_arr_def split: option.split)

lemma unlinked_steady:
  "steady ss a r p b \<Longrightarrow> steady (remove1 s ss) a r p (bond_update_slave_arr e (Some s) (b\<lparr>alb_slaves := remove1 s (alb_slaves b)\<rparr>))"
  by (simp add: steady_def rx_ok_def tlb_ok_def update_arr_fields)

lemma release_all_one: "alb_release_one e True s b = map_option (\<lambda>b. b\<lparr>curr_active_slave := None\<rparr>) (alb_release_one e False s b)"
  unfolding alb_release_one_def Let_def by (cases "curr_active_slave b = Some s") (simp_all add: map_option_bind comp_def map_conv_bind_option)

lemma release_quiet:
  assumes b: "steady ss None r p b"
  shows "gives (steady (remove1 s ss) None r p) (alb_release_one e True s b)"
proof -
  let ?b = "bond_update_slave_arr e (Some s) (b\<lparr>alb_slaves := remove1 s (alb_slaves b)\<rparr>)"
  have "gives (steady (remove1 s ss) None r p) (bond_alb_deinit_slave e s ?b)"
    by (rule gives_mono [OF steady_deinit [OF unlinked_steady [OF b]]]) simp
  then have "gives (steady (remove1 s ss) None r p)
      (bond_alb_deinit_slave e s ?b \<bind> (\<lambda>b. Some (if True then b\<lparr>curr_active_slave := None\<rparr> else b)))"
    by (rule gives_bind) (simp add: steady_def rx_ok_def tlb_ok_def)
  then show ?thesis using b by (simp add: alb_release_one_def Let_def steady_def)
qed

lemma release_rest: "steady ss None r p b \<Longrightarrow> gives (steady [] None r p) (alb_release_all e ss b)"
proof (induction ss arbitrary: b)
  case (Cons s ss)
  show ?case unfolding alb_release_all.simps
    by (rule gives_bind [OF release_quiet [OF Cons.prems]]) (use Cons.IH in simp)
qed simp

lemma uninit_returns:
  assumes "alb_inv b"
  shows "\<exists>b'. alb_release_all e (alb_slaves b) b = Some b' \<and> alb_slaves b' = []"
proof (cases "alb_slaves b")
  case (Cons s ss)
  have d: "distinct (s # ss)" and core: "alb_core (set (s # ss)) (set (s # ss)) (set (s # ss)) (s # ss) b"
    using assms Cons by (simp_all add: alb_inv_def)
  obtain x where x: "alb_release_one e False s b = Some x" "alb_slaves x = ss" "tlb_ok x" "rx_ok x"
    using release_core [OF core d, of s e] by (auto simp: gives_def alb_core_def)
  let ?x = "x\<lparr>curr_active_slave := None\<rparr>"
  have "steady ss None (rlb_enabled x) (promiscuity x) ?x" using x by (simp add: steady_def rx_ok_def tlb_ok_def)
  from release_rest [OF this, of e] show ?thesis
    using Cons x(1) release_all_one [of e s b] by (auto simp: gives_def steady_def)
qed simp

subsection \<open>A bond with two slaves\<close>

definition sample_env :: alb_env where
  "sample_env = \<lparr>BOND_TLB_REBALANCE_INTERVAL = 10, BOND_TLB_REBALANCE_TICKS = 100, BOND_ALB_LP_TICKS = 10, RLB_UPDATE_DELAY = 20,
     RLB_UPDATE_RETRY = 3, RLB_PROMISC_TIMEOUT = 100, RLB_ARP_BURST_SIZE = 2, is_valid_ether_addr = (\<lambda>a. \<not> is_zero_ether_addr a),
     is_broadcast_ether_addr = (\<lambda>a. a = [255, 255, 255, 255, 255, 255]), upper_devs = [], alloc_ok = (\<lambda>_. True),
     set_mac_ok = (\<lambda>_ _. True), set_promisc_ok = True, rtnl_free = True, slave_arr_mem = True\<rparr>"

definition sample_slave :: "u8 \<Rightarrow> u32 \<Rightarrow> alb_slave" where
  "sample_slave i v = \<lparr>can_tx = True, speed = v, tlb_head = None, tlb_load = 0, hw_addr = [0, 0, 0, 0, 0, i],
     perm_addr = [0, 0, 0, 0, 0, i], prog_addr = [0, 0, 0, 0, 0, i]\<rparr>"

definition sample_bond :: alb_bond where
  "sample_bond = \<lparr>alb_slaves = [], alb_slave = (\<lambda>_. sample_slave 0 0), curr_active_slave = None, usable_slaves = [],
     bond_addr = [0, 0, 0, 0, 0, 9], mode_tlb = False, tlb_dynamic_lb = True, tx_hashtbl = None, unbalanced_load = 0,
     tx_rebalance_counter = 0, lp_counter = 0, rlb_enabled = False, rx_hashtbl = None, rx_ntt = False, rx_slave = None,
     primary_is_promisc = False, rlb_promisc_timeout_counter = 0, rlb_update_delay_counter = 0, rlb_update_retry_counter = 0,
     do_rlb_rebalance = False, promiscuity = (\<lambda>_. 0), alb_frames = []\<rparr>"

definition sample_two :: alb_bond where
  "sample_two = alb_open sample_env True True
     (alb_enslave sample_env 2 (sample_slave 2 25000) (alb_enslave sample_env 1 (sample_slave 1 1000) sample_bond))"

definition sample_active :: alb_bond where
  "sample_active = the (bond_alb_handle_active_change sample_env (Some 2) sample_two)"

definition sample_pkt :: alb_pkt where
  "sample_pkt = \<lparr>proto = ETH_P_IP, dest_multicast = False, dest_broadcast = False, dest_allmcast = False, skb_len = 100, xmit_hash = 5,
     ip4 = Some ([10, 0, 0, 7], False), ip6 = None, arp_hdr = None, vlan_tag = None, from_bridge = False\<rparr>"

lemma sample_slaves:
  "alb_slaves sample_two = [1, 2]" "rlb_enabled sample_two" "tx_hashtbl sample_two \<noteq> None" "rx_hashtbl sample_two \<noteq> None"
  by code_simp+

lemma sample_active_fields:
  "alb_slaves sample_active = [1, 2]" "rlb_enabled sample_active" "curr_active_slave sample_active = Some 2"
  by code_simp+

lemma sample_two_reachable: "alb_reachable sample_two"
proof -
  have 0: "alb_reachable sample_bond" by (rule alb_reachable.created) (simp add: alb_created_def sample_bond_def)
  let ?b1 = "alb_enslave sample_env 1 (sample_slave 1 1000) sample_bond"
  let ?b2 = "alb_enslave sample_env 2 (sample_slave 2 25000) ?b1"
  have 1: "alb_reachable ?b1"
    by (rule alb_reachable.event [OF 0, of "SlaveAdded sample_env 1 (sample_slave 1 1000)"]) (simp_all add: sample_bond_def)
  have "alb_slaves ?b1 = [1]" by code_simp
  then have 2: "alb_reachable ?b2"
    by (intro alb_reachable.event [OF 1, of "SlaveAdded sample_env 2 (sample_slave 2 25000)"]) simp_all
  have "tx_hashtbl ?b2 = None" by code_simp
  then show ?thesis unfolding sample_two_def
    by (intro alb_reachable.event [OF 2, of "BondOpened sample_env True True"]) simp_all
qed

lemma sample_active_reachable: "alb_reachable sample_active"
proof (rule alb_reachable.event [OF sample_two_reachable])
  show "alb_may (ActiveChanged sample_env (Some 2)) sample_two" by (simp add: sample_slaves)
  have "bond_alb_handle_active_change sample_env (Some 2) sample_two \<noteq> None" by code_simp
  then show "alb_happens (ActiveChanged sample_env (Some 2)) sample_two = Some sample_active" by (auto simp: sample_active_def)
qed

subsection \<open>Properties of reachable bonds\<close>

text \<open>
  C13: No call of the driver into the load balancing that \<open>alb_may\<close> admits faults or runs forever: in every bond that
  a sequence of such calls can reach, every such call returns, and so does \<open>bond_uninit\<close>, which releases all
  slaves and ends the life of the bond. No pointer of the tables is null where
  the code follows it, and none of the loops over the clients or over the flows of a slave runs in a circle.
  Two calls of the driver are not admitted: the error path of \<open>bond_enslave\<close> once something refers to the slave
  (theory Alb_Faults shows what happens then), and \<open>bond_xmit_get_slave\<close> on a closed bond, for which
  the last line says that it follows the null pointer to the transmit table for a packet that is balanced.
\<close>

theorem alb_call_returns:
  assumes "alb_reachable b" "alb_may ev b"
  shows "(\<exists>b'. alb_happens ev b = Some b') \<and> (\<exists>b'. alb_release_all e (alb_slaves b) b = Some b' \<and> alb_slaves b' = []) \<and>
    (tx_hashtbl b = None \<and> \<not> mode_tlb b \<and> tlb_dynamic_lb b \<and> proto p \<noteq> ETH_P_ARP \<and> balance_key p \<noteq> None \<longrightarrow>
      alb_xmit_get_slave e p b = None)"
proof -
  have "tx_hashtbl b = None \<and> \<not> mode_tlb b \<and> tlb_dynamic_lb b \<and> proto p \<noteq> ETH_P_ARP \<and> balance_key p \<noteq> None \<longrightarrow>
      alb_xmit_get_slave e p b = None"
    by (auto simp: alb_xmit_get_slave_def bond_xmit_alb_slave_get_def tlb_choose_channel_def)
  with event_inv [OF reachable_inv [OF assms(1)] assms(2)] uninit_returns [OF reachable_inv [OF assms(1)], of e]
  show ?thesis by (auto simp: gives_def)
qed

theorem alb_call_returns_witness:
  "(\<exists>b'. alb_happens (MonitorRuns sample_env) sample_active = Some b') \<and> (\<exists>b'. alb_happens (SlaveReleased sample_env 2) sample_active = Some b') \<and>
   (\<exists>b'. alb_release_all sample_env [1, 2] sample_active = Some b') \<and> alb_xmit_get_slave sample_env sample_pkt sample_bond = None"
proof -
  have "alb_reachable sample_bond" by (rule alb_reachable.created) (simp add: alb_created_def sample_bond_def)
  from alb_call_returns [OF this, of "MonitorRuns sample_env" sample_env sample_pkt]
  have "alb_xmit_get_slave sample_env sample_pkt sample_bond = None"
    by (simp add: sample_bond_def sample_pkt_def balance_key_def)
  with alb_call_returns [OF sample_active_reachable, of "MonitorRuns sample_env" sample_env]
    alb_call_returns [OF sample_active_reachable, of "SlaveReleased sample_env 2" sample_env] show ?thesis
    by (simp add: sample_active_fields) blast
qed

text \<open>
  C14: No pointer to a released slave survives: in a bond reached by the calls that \<open>alb_may\<close> admits (all but
  the error path of \<open>bond_enslave\<close> for a slave that is already referred to, which does leave such a pointer, and
  queries of a closed bond) the flows of the transmit table, the clients
  of the receive table, the current receiver, the active slave and the array for the hash-based
  transmission refer to slaves of the bond only. The receive table is consistent: the used entries are on one list, and
  those with the same hash of the source address on another.
\<close>

theorem alb_no_dangling:
  assumes "alb_reachable b"
  shows "(tx_hashtbl b = Some t \<longrightarrow> tx_slave (t i) = Some s \<longrightarrow> s \<in> set (alb_slaves b)) \<and>
    (rx_hashtbl b = Some u \<longrightarrow> c_slave (entry u i) = Some s \<longrightarrow> s \<in> set (alb_slaves b)) \<and>
    (rx_hashtbl b = Some u \<longrightarrow> rlb_ok u) \<and>
    set_option (rx_slave b) \<union> set_option (curr_active_slave b) \<union> set (usable_slaves b) \<subseteq> set (alb_slaves b)"
proof -
  have c: "alb_core (set (alb_slaves b)) (set (alb_slaves b)) (set (alb_slaves b)) (alb_slaves b) b"
    using reachable_inv [OF assms] by (simp add: alb_inv_def)
  have "tx_hashtbl b = Some t \<Longrightarrow> tx_slave (t i) = Some s \<Longrightarrow> s \<in> tlb_users b"
    "rx_hashtbl b = Some u \<Longrightarrow> c_slave (entry u i) = Some s \<Longrightarrow> s \<in> rx_users b" "set_option (rx_slave b) \<subseteq> rx_users b"
    by (auto simp: tlb_users_def rx_users_def)
  moreover have "tlb_users b \<subseteq> set (alb_slaves b)" "rx_users b \<subseteq> set (alb_slaves b)" "rx_ok b"
    "set_option (curr_active_slave b) \<subseteq> set (alb_slaves b)" "set (usable_slaves b) \<subseteq> set (alb_slaves b)"
    using c by (simp_all add: alb_core_def)
  ultimately show ?thesis by (auto simp: rx_ok_def)
qed

theorem alb_no_dangling_witness:
  "set_option (rx_slave sample_active) \<union> set_option (curr_active_slave sample_active) \<union> set (usable_slaves sample_active) \<subseteq> {1, 2} \<and>
    tx_slave (the (tx_hashtbl sample_active) 7) \<in> {None, Some 1, Some 2}"
proof -
  have "tx_hashtbl sample_active \<noteq> None" by code_simp
  then obtain t where t: "tx_hashtbl sample_active = Some t" by blast
  show ?thesis using alb_no_dangling [OF sample_active_reachable, of t 7 1] alb_no_dangling [OF sample_active_reachable, of t 7] t
    by (cases "tx_slave (t 7)") (auto simp: sample_active_fields)
qed


end
