(* ===== verification/Alb_Choice.thy ===== *)
theory Alb_Choice
  imports Alb_Reach
begin

text \<open>
  How servers/bond_alb.c distributes the traffic: which slave a flow or a client gets, that it keeps it,
  what a received ARP packet does to the table of clients, and that a refused change of the bond's address is undone.
\<close>

subsection \<open>Transmitted traffic\<close>

lemma uint_push_bit:
  "uint (push_bit 20 (w :: u32)) = (uint w * 1048576) mod 4294967296" "uint (push_bit 3 (w :: u32)) = (uint w * 8) mod 4294967296"
  by (simp_all add: push_bit_eq_mult uint_word_ariths)

lemma gap_value: "compute_gap x = 1048576 * (uint (speed x) mod 4096) - 8 * (uint (tlb_load x) mod 536870912)"
proof -
  have "uint (push_bit 20 (speed x)) = 1048576 * (uint (speed x) mod 4096)"
    using mult_mod_right [of 1048576 "uint (speed x)" 4096] by (simp add: uint_push_bit mult.commute)
  moreover have "uint (push_bit 3 (tlb_load x)) = 8 * (uint (tlb_load x) mod 536870912)"
    using mult_mod_right [of 8 "uint (tlb_load x)" 536870912] by (simp add: uint_push_bit mult.commute)
  ultimately show ?thesis by (simp add: compute_gap_def)
qed

text \<open>
  The capacity that a slave has left: the speed is in Mbit/s (of \<open>2 ^ 20\<close> bits), the load in bytes per second.
  The code computes it correctly below 4096 Mbit/s and 512 MByte/s.
\<close>

definition free_capacity :: "alb_bond \<Rightarrow> nat \<Rightarrow> int" where
  "free_capacity b s = 2 ^ 20 * uint (speed (alb_slave b s)) - 8 * uint (tlb_load (alb_slave b s))"

definition moderate :: "alb_bond \<Rightarrow> nat \<Rightarrow> bool" where
  "moderate b s = (uint (speed (alb_slave b s)) < 4096 \<and> uint (tlb_load (alb_slave b s)) < 2 ^ 29)"

lemma gap_is_capacity: "moderate b s \<Longrightarrow> gap_of b s = free_capacity b s"
  by (simp add: gap_value moderate_def free_capacity_def)

text \<open>
  C17: A flow that has a slave keeps it. A new flow goes to the slave with the most capacity left among
  those that can transmit, the first one in the order of the slaves if there are several, and the
  table remembers it; without such a slave nothing changes. The slaves that can transmit are assumed to be slower than
  4096 Mbit/s and to carry less than 512 MByte/s; beyond, the code computes another value (theory Alb_Faults).
\<close>

theorem flow_gets_least_loaded:
  assumes "tx_hashtbl b = Some t" "list_all (moderate b) (eligible b)"
  shows "case tx_slave (t h) of
      Some s \<Rightarrow> tlb_choose_channel h n b = Some (Some s, count_bytes h n b)
    | None \<Rightarrow> (if eligible b = [] then tlb_choose_channel h n b = Some (None, b)
        else \<exists>us s vs t' b'. tlb_choose_channel h n b = Some (Some s, b') \<and> eligible b = us @ s # vs \<and>
          (\<forall>x\<in>set us. free_capacity b x < free_capacity b s) \<and> (\<forall>x\<in>set vs. free_capacity b x \<le> free_capacity b s) \<and>
          tx_hashtbl b' = Some t' \<and> tx_slave (t' h) = Some s)"
proof (cases "tx_slave (t h)")
  case None
  show ?thesis
  proof (cases "first_max (gap_of b) (eligible b)")
    case None
    then show ?thesis using \<open>tx_slave (t h) = None\<close> assms(1) by (simp add: tlb_choose_channel_def least_loaded)
  next
    case (Some s)
    then have "tlb_choose_channel h n b = Some (Some s, count_bytes h n (tlb_assign h s t b))"
      using \<open>tx_slave (t h) = None\<close> assms(1) by (simp add: tlb_choose_channel_def least_loaded)
    moreover obtain us vs where e: "eligible b = us @ s # vs" "\<forall>x\<in>set us. gap_of b x < gap_of b s" "\<forall>x\<in>set vs. gap_of b x \<le> gap_of b s"
      using first_max_Some [OF Some] by blast
    moreover have "gap_of b x = free_capacity b x" if "x \<in> set (eligible b)" for x
      using assms(2) that by (auto simp: list_all_iff intro: gap_is_capacity)
    then have "\<forall>x\<in>set us. free_capacity b x < free_capacity b s" "\<forall>x\<in>set vs. free_capacity b x \<le> free_capacity b s"
      using e by auto
    moreover have "\<exists>t'. tx_hashtbl (count_bytes h n (tlb_assign h s t b)) = Some t' \<and> tx_slave (t' h) = Some s"
      by (simp add: count_bytes_def tlb_assign_alt assigned_table_simps)
    ultimately show ?thesis using \<open>tx_slave (t h) = None\<close> by (simp only: option.case) auto
  qed
qed (use assms in \<open>simp add: tlb_choose_channel_def\<close>)

definition sample_moderate :: alb_bond where
  "sample_moderate = the (alb_happens (DeviceChanged 2 True 2500) sample_two)"

theorem flow_gets_least_loaded_witness:
  "list_all (moderate sample_moderate) (eligible sample_moderate) \<and> (\<exists>b'. tlb_choose_channel 7 100 sample_moderate = Some (Some 2, b'))"
proof -
  let ?b = sample_moderate
  have e: "eligible ?b = [1, 2]" and m: "list_all (moderate ?b) (eligible ?b)" by code_simp+
  have g: "free_capacity ?b 1 = 1048576000" "free_capacity ?b 2 = 2621440000" by code_simp+
  have "map_option (\<lambda>t. tx_slave (t 7)) (tx_hashtbl ?b) = Some None" by code_simp
  then obtain t where t: "tx_hashtbl ?b = Some t" "tx_slave (t 7) = None" by auto
  with flow_gets_least_loaded [OF t(1) m, of 7 100] e
  obtain us s vs b' where c: "tlb_choose_channel 7 100 ?b = Some (Some s, b')" "[1, 2] = us @ s # vs"
    "\<forall>x\<in>set us. free_capacity ?b x < free_capacity ?b s" "\<forall>x\<in>set vs. free_capacity ?b x \<le> free_capacity ?b s" by auto
  have "s = 2" using c(2-4) g by (cases us; cases "tl us") auto
  with c(1) m show ?thesis by blast
qed

subsection \<open>Received traffic\<close>

lemma after_receiver_order:
  "rx_slave b = Some c \<Longrightarrow> eligible b = us @ c # vs \<Longrightarrow> c \<notin> set us \<Longrightarrow> after_receiver b = vs @ us @ [c]"
  "set_option (rx_slave b) \<inter> set (eligible b) = {} \<Longrightarrow> after_receiver b = eligible b"
proof -
  assume c: "rx_slave b = Some c" and e: "eligible b = us @ c # vs" and out: "c \<notin> set us"
  have "takeWhile (\<lambda>s. s \<noteq> c) (eligible b) = us" "dropWhile (\<lambda>s. s \<noteq> c) (eligible b) = c # vs"
    unfolding e using out by (auto simp: takeWhile_append dropWhile_append)
  with c e show "after_receiver b = vs @ us @ [c]" by (simp add: after_receiver_def)
qed (auto simp: after_receiver_def split: option.split)

text \<open>
  C18: The slave that is to receive the traffic of a client is, among those that can transmit, the first of the fastest ones
  in an order that depends on the previous receiver. If that one can still transmit, the order is the cyclic one that starts after it,
  so that between slaves of the same speed the receivers take turns; if it cannot transmit any more, or if there is none, the order starts
  again at the head of the list of slaves, wherever the previous receiver was.
\<close>

theorem receiver_is_next_fastest:
  "(\<forall>c us vs. rx_slave b = Some c \<and> eligible b = us @ c # vs \<and> c \<notin> set us \<longrightarrow> after_receiver b = vs @ us @ [c]) \<and>
   (set_option (rx_slave b) \<inter> set (eligible b) = {} \<longrightarrow> after_receiver b = eligible b) \<and>
   (case rlb_next_rx_slave b of
      (None, b') \<Rightarrow> eligible b = [] \<and> b' = b
    | (Some r, b') \<Rightarrow> b' = b\<lparr>rx_slave := Some r\<rparr> \<and> (\<exists>us vs. after_receiver b = us @ r # vs \<and>
        (\<forall>x\<in>set us. speed_of b x < speed_of b r) \<and> (\<forall>x\<in>set vs. speed_of b x \<le> speed_of b r)))"
proof -
  obtain r b' where r: "rlb_next_rx_slave b = (r, b')" by (rule prod.exhaust)
  note R = next_rx_result [of b, unfolded r fst_conv snd_conv]
  show ?thesis
  proof (cases r)
    case None
    then have "after_receiver b = []" using R(1) by (metis first_max_None)
    then have "eligible b = []" using after_receiver_set [of b] by simp
    then show ?thesis using after_receiver_order [of b] R(2) None by (simp add: r)
  next
    case (Some s)
    then show ?thesis using after_receiver_order [of b] R(2) first_max_Some [OF R(1) [symmetric, unfolded Some]] by (simp add: r)
  qed
qed

theorem receiver_is_next_fastest_witness:
  "fst (rlb_next_rx_slave (sample_two\<lparr>rx_slave := Some 2\<rparr>)) = Some 2"
proof -
  let ?b = "sample_two\<lparr>rx_slave := Some 2\<rparr>"
  have f: "eligible ?b = [1] @ 2 # []" "speed_of ?b 1 = 1000" "speed_of ?b 2 = 25000" by code_simp+
  have "after_receiver ?b = [] @ [1] @ [2]"
    by (rule receiver_is_next_fastest [of ?b, THEN conjunct1, rule_format]) (simp add: f(1))
  then have "after_receiver ?b = [1, 2]" by simp
  with f receiver_is_next_fastest [of ?b] show ?thesis
    by (cases "fst (rlb_next_rx_slave ?b)") (auto simp: Cons_eq_append_conv split: prod.splits option.splits)
qed

lemma assigned_client:
  assumes core: "alb_core T R C ss b" and t: "rx_hashtbl b = Some t"
    and r: "rlb_assign e vlan arp (simple_hash (ip_dst arp)) b = (Some s, b')"
  obtains t' where "rx_hashtbl b' = Some t'" "clients t' = (clients t)(simple_hash (ip_dst arp) \<mapsto> filled e vlan arp s)"
proof -
  let ?h = "simple_hash (ip_dst arp)"
  obtain n b1 where n: "rlb_next_rx_slave b = (n, b1)" by (rule prod.exhaust)
  have n': "n = Some s" using r by (auto simp: rlb_assign_def n split: option.splits)
  have "rx_hashtbl b1 = Some t" using next_rx_result(2) [of b] n n' t by simp
  then have "rx_hashtbl b' = Some (rlb_fill e vlan arp ?h s t)" using r by (auto simp: rlb_assign_def n n')
  then show thesis by (rule that) (rule fill_result(2) [OF core_table(1) [OF core t] refl])
qed

lemma chosen_client:
  assumes core: "alb_core T R C ss b" and t: "rx_hashtbl b = Some t" and r: "rlb_choose_channel e vlan arp b = Some (Some s, b')"
  shows "\<exists>t'. rx_hashtbl b' = Some t' \<and> assigned (entry t' (simple_hash (ip_dst arp))) \<and>
    c_ip_src (entry t' (simple_hash (ip_dst arp))) = ip_src arp \<and> c_ip_dst (entry t' (simple_hash (ip_dst arp))) = ip_dst arp \<and>
    c_slave (entry t' (simple_hash (ip_dst arp))) = Some s"
  using core t
proof (cases rule: choose_cases [where e = e and vlan = vlan and arp = arp])
  case (known s')
  then show ?thesis using r t by (auto simp: known_client_def upd_client_def)
next
  case (assign x)
  obtain tx where tx: "rx_hashtbl x = Some tx" using assign(2) by blast
  have "rlb_assign e vlan arp (simple_hash (ip_dst arp)) x = (Some s, b')" using assign(3) r by simp
  from assigned_client [OF assign(1) tx this] obtain t' where
    t': "rx_hashtbl b' = Some t'" "clients t' = (clients tx)(simple_hash (ip_dst arp) \<mapsto> filled e vlan arp s)" by blast
  have "clients t' (simple_hash (ip_dst arp)) = Some (filled e vlan arp s)" using t'(2) by simp
  then show ?thesis using t'(1) by (simp add: clients_def client_view_def filled_def split: if_splits)
qed

lemma choose_other:
  assumes core: "alb_core T R C ss b" and t: "rx_hashtbl b = Some t" and r: "rlb_choose_channel e vlan arp b = Some (r, b')"
    and h: "h \<noteq> simple_hash (ip_dst arp)"
  shows "\<exists>t'. rx_hashtbl b' = Some t' \<and> clients t' h = clients t h"
  using core t
proof (cases rule: choose_cases [where e = e and vlan = vlan and arp = arp])
  case (known s)
  then have "b' = known_client e arp b" using r by simp
  then show ?thesis using t h by (simp add: known_client_def upd_client_def clients_def)
next
  case (assign x)
  then obtain tx where tx: "rx_hashtbl x = Some tx" "entry tx h = entry t h" using h by blast
  have x: "rlb_assign e vlan arp (simple_hash (ip_dst arp)) x = (r, b')" using assign(3) r by simp
  have "\<exists>t'. rx_hashtbl b' = Some t' \<and> clients t' h = clients tx h"
  proof (cases r)
    case None
    then have "rlb_next_rx_slave x = (None, b')" using x by (auto simp: rlb_assign_def split: prod.splits option.splits)
    then show ?thesis using next_rx_result(2) [of x] tx(1) by simp
  next
    case (Some s)
    from assigned_client [OF assign(1) tx(1) x [unfolded Some]] obtain t' where
      "rx_hashtbl b' = Some t'" "clients t' = (clients tx)(simple_hash (ip_dst arp) \<mapsto> filled e vlan arp s)" by blast
    then show ?thesis using h by simp
  qed
  moreover have "clients tx h = clients t h" using tx(2) by (simp add: clients_def)
  ultimately show ?thesis by simp
qed

text \<open>
  A sequence of ARP packets that are sent, and those that do not take the entry of a given client: they are for other entries of
  the table, or for the same client.
\<close>

fun choose_all :: "(alb_env \<times> u16 option \<times> arp_pkt) list \<Rightarrow> alb_bond \<Rightarrow> alb_bond defined" where
  "choose_all [] b = Some b"
| "choose_all ((e, vlan, arp) # xs) b = do { (_, b) \<leftarrow> rlb_choose_channel e vlan arp b; choose_all xs b }"

definition leaves_alone :: "arp_pkt \<Rightarrow> arp_pkt \<Rightarrow> bool" where
  "leaves_alone arp x = (simple_hash (ip_dst x) \<noteq> simple_hash (ip_dst arp) \<or> ip_src x = ip_src arp \<and> ip_dst x = ip_dst arp)"

definition served :: "arp_pkt \<Rightarrow> nat \<Rightarrow> alb_bond \<Rightarrow> bool" where
  "served arp s b = (\<exists>t msrc mdst ntt vid. rx_hashtbl b = Some t \<and>
     clients t (simple_hash (ip_dst arp)) = Some (ip_src arp, ip_dst arp, msrc, mdst, ntt, Some s, vid))"

lemma served_iff:
  "served arp s b = (\<exists>t. rx_hashtbl b = Some t \<and> assigned (entry t (simple_hash (ip_dst arp))) \<and>
    c_ip_src (entry t (simple_hash (ip_dst arp))) = ip_src arp \<and> c_ip_dst (entry t (simple_hash (ip_dst arp))) = ip_dst arp \<and>
    c_slave (entry t (simple_hash (ip_dst arp))) = Some s)"
  by (auto simp: served_def clients_def client_view_def)

lemma served_same:
  assumes "served arp s b" "ip_src x = ip_src arp" "ip_dst x = ip_dst arp"
  shows "\<exists>b'. rlb_choose_channel e vlan x b = Some (Some s, b')"
  using assms by (auto simp: served_iff rlb_choose_channel_def Let_def)

lemma served_step:
  assumes core: "alb_core T R C ss b" and b: "served arp s b" and x: "leaves_alone arp x"
  shows "\<exists>r b'. rlb_choose_channel e vlan x b = Some (r, b') \<and> alb_core T R C ss b' \<and> served arp s b'"
proof -
  obtain t where t: "rx_hashtbl b = Some t" using b by (auto simp: served_def)
  obtain r b' where r: "rlb_choose_channel e vlan x b = Some (r, b')" "alb_core T R C ss b'"
    using rx_choose_core [OF core t, of e vlan x] by (auto simp: gives_def)
  have "served arp s b'"
  proof (cases "simple_hash (ip_dst x) = simple_hash (ip_dst arp)")
    case True
    then have same: "ip_src x = ip_src arp" "ip_dst x = ip_dst arp" using x by (auto simp: leaves_alone_def)
    then have "r = Some s" using served_same [OF b same, of e vlan] r(1) by simp
    from chosen_client [OF core t r(1) [unfolded this]] same show ?thesis by (simp add: served_iff)
  next
    case False
    from choose_other [OF core t r(1) False [symmetric]] b t show ?thesis by (auto simp: served_def)
  qed
  with r show ?thesis by blast
qed

lemma served_all:
  assumes "alb_core T R C ss b" "served arp s b" "list_all (\<lambda>(e, vlan, x). leaves_alone arp x) xs"
  shows "\<exists>b'. choose_all xs b = Some b' \<and> served arp s b'"
  using assms
proof (induction xs arbitrary: b)
  case (Cons x xs)
  obtain e vlan a where x: "x = (e, vlan, a)" by (rule prod_cases3)
  from served_step [OF Cons.prems(1,2), of a e vlan] Cons.prems(3) obtain r b1 where
    b1: "rlb_choose_channel e vlan a b = Some (r, b1)" "alb_core T R C ss b1" "served arp s b1" by (auto simp: x)
  from Cons.IH [OF b1(2,3)] Cons.prems(3) b1(1) show ?case by (simp add: x)
qed simp


definition sample_arp :: arp_pkt where
  "sample_arp = \<lparr>op_code = ARPOP_REPLY, mac_src = [0, 0, 0, 0, 0, 1], ip_src = [10, 0, 0, 1], mac_dst = [0, 0, 0, 0, 0, 77],
     ip_dst = [10, 0, 0, 2]\<rparr>"


text \<open>What a received ARP packet means for the table, as a function on the map of the clients.\<close>

definition arp_purges :: "arp_pkt \<Rightarrow> client \<Rightarrow> bool" where
  "arp_purges arp v = (fst v = ip_src arp \<and> mac_src arp \<noteq> fst (snd (snd v)))"

definition arp_learns :: "arp_pkt \<Rightarrow> client \<Rightarrow> client" where
  "arp_learns arp v = (case v of (src, dst, msrc, mdst, ntt, s, vid) \<Rightarrow>
     if src = ip_dst arp \<and> dst = ip_src arp \<and> mdst \<noteq> mac_src arp then (src, dst, msrc, mac_src arp, True, s, vid) else v)"

definition arp_effect :: "arp_pkt \<Rightarrow> (u8 \<rightharpoonup> client) \<Rightarrow> u8 \<rightharpoonup> client" where
  "arp_effect arp m = (\<lambda>i. if hit (arp_purges arp) (m i) then None
     else if op_code arp = ARPOP_REPLY \<and> i = simple_hash (ip_src arp) then map_option (arp_learns arp) (m i) else m i)"

lemma update_entry_clients:
  assumes t: "rx_hashtbl b = Some t"
  shows "\<exists>b' t'. rlb_update_entry_from_arp arp b = Some b' \<and> rx_hashtbl b' = Some t' \<and>
    clients t' = (clients t)(simple_hash (ip_src arp) := map_option (arp_learns arp) (clients t (simple_hash (ip_src arp))))"
proof -
  let ?i = "simple_hash (ip_src arp)"
  let ?hit = "assigned (entry t ?i) \<and> c_ip_src (entry t ?i) = ip_dst arp \<and> c_ip_dst (entry t ?i) = ip_src arp \<and> c_mac_dst (entry t ?i) \<noteq> mac_src arp"
  let ?t = "if ?hit then upd_entry ?i (\<lambda>c. c\<lparr>c_mac_dst := mac_src arp, c_ntt := True\<rparr>) t else t"
  have "\<exists>b'. rlb_update_entry_from_arp arp b = Some b' \<and> rx_hashtbl b' = Some ?t"
    using t by (simp add: rlb_update_entry_from_arp_def Let_def upd_client_def)
  moreover have "clients ?t = (clients t)(?i := map_option (arp_learns arp) (clients t ?i))"
    by (auto simp: fun_eq_iff clients_def client_view_def arp_learns_def)
  ultimately show ?thesis by blast
qed

text \<open>
  C15: A received ARP packet removes exactly the clients that have its source address with another link-layer address,
  wherever they are in the table, and a reply updates the link-layer address of the client it comes from.
\<close>

theorem arp_recv_refines:
  assumes "alb_reachable b" "rx_hashtbl b = Some t"
  shows "\<exists>b' t'. rlb_arp_recv (Some arp) b = Some b' \<and> rx_hashtbl b' = Some t' \<and> clients t' = arp_effect arp (clients t)"
proof -
  have ok: "rlb_ok t" using reachable_inv [OF assms(1)] assms(2) by (simp add: alb_inv_def alb_core_def rx_ok_def)
  have p: "(\<lambda>v :: client. fst v = ip_src arp \<and> mac_src arp \<noteq> fst (snd (snd v))) = arp_purges arp" by (rule ext) (simp add: arp_purges_def)
  from purge_result [OF ok, of arp, unfolded p] obtain t1 where t1: "rlb_purge_src_ip arp t = Some t1"
    "clients t1 = (\<lambda>i. if hit (arp_purges arp) (clients t i) then None else clients t i)"
    by (elim exE conjE) (rule that)
  let ?b = "b\<lparr>rx_hashtbl := Some t1\<rparr>"
  show ?thesis
  proof (cases "op_code arp = ARPOP_REPLY")
    case True
    obtain b' t' where b': "rlb_update_entry_from_arp arp ?b = Some b'" "rx_hashtbl b' = Some t'"
      "clients t' = (clients t1)(simple_hash (ip_src arp) := map_option (arp_learns arp) (clients t1 (simple_hash (ip_src arp))))"
      using update_entry_clients [of ?b t1 arp] by auto
    have "clients t' = arp_effect arp (clients t)" unfolding b'(3) t1(2) using True by (auto simp: arp_effect_def fun_eq_iff)
    with b'(1,2) show ?thesis using True assms(2) t1(1) by (simp add: rlb_arp_recv_def Let_def)
  next
    case False
    then show ?thesis using assms(2) t1 by (simp add: rlb_arp_recv_def Let_def arp_effect_def fun_eq_iff)
  qed
qed

theorem arp_recv_refines_witness:
  "\<exists>t b' t'. rx_hashtbl sample_two = Some t \<and> rlb_arp_recv (Some sample_arp) sample_two = Some b' \<and> rx_hashtbl b' = Some t' \<and>
     clients t' = arp_effect sample_arp (clients t)"
proof -
  obtain t where t: "rx_hashtbl sample_two = Some t" using sample_slaves(4) by blast
  from arp_recv_refines [OF sample_two_reachable t, of sample_arp] t show ?thesis by blast
qed

subsection \<open>A refused address\<close>

definition programmed :: "mac_addr \<Rightarrow> nat \<Rightarrow> alb_bond \<Rightarrow> alb_bond" where
  "programmed a s b = upd_slave_alb s (\<lambda>x. x\<lparr>prog_addr := a\<rparr>) b"

lemma programmed_fields [simp]: "bond_addr (programmed a s b) = bond_addr b" "alb_slaves (programmed a s b) = alb_slaves b"
  by (simp_all add: programmed_def)

lemma program_addr_result: "program_addr e a s b = (set_mac_ok e s a, if set_mac_ok e s a then programmed a s b else b)"
  by (cases b) (auto simp: program_addr_def dev_set_mac_address_def programmed_def)

lemma set_mac_loop_result:
  "set_mac_loop e a ss b =
     (if \<forall>s\<in>set ss. set_mac_ok e s a then None else Some (hd (dropWhile (\<lambda>s. set_mac_ok e s a) ss)),
      fold (programmed a) (takeWhile (\<lambda>s. set_mac_ok e s a) ss) b)"
  by (induction ss arbitrary: b) (simp_all add: program_addr_result)

lemma unwind_result:
  assumes "\<And>s. s \<in> set ss \<Longrightarrow> set_mac_ok e s (bond_addr b)"
  shows "unwind_loop e stop ss b = fold (programmed (bond_addr b)) (takeWhile (\<lambda>s. s \<noteq> stop) ss) b"
  using assms
proof (induction ss arbitrary: b)
  case (Cons s ss)
  then show ?case using Cons.IH [of "programmed (bond_addr b) s b"] by (simp add: program_addr_result)
qed simp

lemma program_fold:
  "fold (programmed a) ss b = b\<lparr>alb_slave := (\<lambda>s. if s \<in> set ss then (alb_slave b s)\<lparr>prog_addr := a\<rparr> else alb_slave b s)\<rparr>"
proof (induction ss arbitrary: b)
  case (Cons s ss)
  show ?case unfolding fold_Cons comp_def Cons.IH by (cases b) (auto simp: programmed_def fun_eq_iff)
qed simp

lemma takeWhile_refused:
  assumes "distinct ss" "\<not> (\<forall>s\<in>set ss. P s)"
  shows "takeWhile (\<lambda>s. s \<noteq> hd (dropWhile P ss)) ss = takeWhile P ss"
proof -
  obtain xs y ys where ss: "ss = xs @ y # ys" "\<not> P y" "\<forall>x\<in>set xs. P x"
    using assms(2) split_list_first_prop [of ss "\<lambda>s. \<not> P s"] by auto
  then have "dropWhile P ss = y # ys" "takeWhile P ss = xs" by (simp_all add: dropWhile_append2 takeWhile_append2)
  moreover have "\<forall>x\<in>set xs. x \<noteq> y" using assms(1) ss(1) by auto
  then have "takeWhile (\<lambda>s. s \<noteq> y) ss = xs" unfolding ss(1) by (subst takeWhile_append2) simp_all
  ultimately show ?thesis by simp
qed

text \<open>
  When a driver refuses the new address of the bond, the addresses that the drivers before it have taken are replaced by
  the old one: if all slaves were programmed with the address of the bond and accept it again, the failed call changes nothing.
\<close>

theorem refused_address_undone:
  assumes "\<not> rlb_enabled b" "distinct (alb_slaves b)"
    and "\<forall>s\<in>set (alb_slaves b). prog_addr (alb_slave b s) = bond_addr b \<and> set_mac_ok e s (bond_addr b)"
    and "\<not> (\<forall>s\<in>set (alb_slaves b). set_mac_ok e s addr)"
  shows "alb_set_mac_address e addr b = (False, b)"
proof -
  let ?ss = "alb_slaves b" and ?P = "\<lambda>s. set_mac_ok e s addr"
  define stop where "stop = hd (dropWhile ?P ?ss)"
  define b1 where "b1 = fold (programmed addr) (takeWhile ?P ?ss) b"
  have b1: "alb_slaves b1 = ?ss" "bond_addr b1 = bond_addr b" by (simp_all add: b1_def program_fold)
  have "alb_set_mac_address e addr b = (False, unwind_loop e stop ?ss b1)"
    using assms(1,4) by (simp add: alb_set_mac_address_def set_mac_loop_result b1_def [symmetric] stop_def b1)
  also have "unwind_loop e stop ?ss b1 = fold (programmed (bond_addr b)) (takeWhile ?P ?ss) b1"
    using unwind_result [of ?ss e b1 stop] assms(3) takeWhile_refused [OF assms(2,4)] by (simp add: b1 stop_def)
  also have "\<dots> = b"
  proof -
    let ?S = "set (takeWhile ?P ?ss)"
    have "(alb_slave b s)\<lparr>prog_addr := bond_addr b\<rparr> = alb_slave b s" if "s \<in> ?S" for s
      using assms(3) set_takeWhileD [OF that] by (cases "alb_slave b s") auto
    then have "(\<lambda>s. if s \<in> ?S then (alb_slave b1 s)\<lparr>prog_addr := bond_addr b\<rparr> else alb_slave b1 s) = alb_slave b"
      unfolding b1_def program_fold by auto
    then show ?thesis unfolding program_fold by (simp add: b1_def program_fold)
  qed
  finally show ?thesis .
qed

theorem refused_address_undone_witness:
  "alb_set_mac_address (sample_env\<lparr>set_mac_ok := (\<lambda>s a. s = 1 \<or> a \<noteq> [0, 0, 0, 0, 0, 8])\<rparr>) [0, 0, 0, 0, 0, 8]
     (sample_bond\<lparr>alb_slaves := [1, 2], alb_slave := (\<lambda>_. sample_slave 9 1000)\<rparr>) =
   (False, sample_bond\<lparr>alb_slaves := [1, 2], alb_slave := (\<lambda>_. sample_slave 9 1000)\<rparr>)"
  by (rule refused_address_undone) (simp_all add: sample_bond_def sample_slave_def sample_env_def)
end
