(* ===== verification/Alb_Faults.thy ===== *)
theory Alb_Faults
  imports Alb_Choice
begin

text \<open>
  Where the load balancing does not do what it should: the gap that measures the free capacity of a slave wraps, the
  promiscuous mode of the active slave outlives the bond, and a failed enslave leaves flows on the slave.
\<close>

subsection \<open>The gap of a slave\<close>

text \<open>
  C20: The gap of a slave should be its speed in bits per second less its load, but both are computed in 32 bits before they are
  converted to 64: the speed counts modulo 4096 Mbit/s and the load modulo 512 MByte/s, whatever they are. Of two slaves that
  can transmit, the one with the larger value of this formula gets a new flow. So an idle slave with 25 Gbit/s, which has
  a smaller gap than an idle one with 1 Gbit/s, gets none.
\<close>

theorem gap_wraps:
  assumes "alb_slaves b = [s1, s2]" "can_tx (alb_slave b s1)" "can_tx (alb_slave b s2)"
  defines "g \<equiv> \<lambda>s. 1048576 * (uint (speed (alb_slave b s)) mod 4096) - 8 * (uint (tlb_load (alb_slave b s)) mod 536870912)"
  shows "compute_gap (alb_slave b s1) = g s1 \<and> compute_gap (alb_slave b s2) = g s2 \<and>
    tlb_get_least_loaded_slave b = Some (if g s1 < g s2 then s2 else s1)"
proof -
  have "eligible b = [s1, s2]" using assms(1-3) by (simp add: eligible_def)
  moreover have "gap_of b s = g s" for s by (simp add: gap_value g_def)
  ultimately show ?thesis by (simp add: least_loaded first_max_def better_def)
qed

theorem gap_wraps_witness:
  "tlb_get_least_loaded_slave sample_two = Some 1 \<and> speed (alb_slave sample_two 1) < speed (alb_slave sample_two 2)"
proof -
  have f: "speed (alb_slave sample_two 1) = 1000" "speed (alb_slave sample_two 2) = 25000" "tlb_load (alb_slave sample_two 1) = 0"
    "tlb_load (alb_slave sample_two 2) = 0" "can_tx (alb_slave sample_two 1)" "can_tx (alb_slave sample_two 2)" by code_simp+
  show ?thesis using gap_wraps [OF sample_slaves(1) f(5,6)] by (simp add: f del: One_nat_def)
qed

subsection \<open>The last promiscuous slave\<close>

text \<open>Releasing another slave than the active one teaches the active one the address, which makes it promiscuous.\<close>

lemma release_teaches:
  assumes b: "steady ss (Some c) True p b" and s: "s \<noteq> c" and e: "set_promisc_ok e"
  shows "gives (\<lambda>b'. steady (remove1 s ss) (Some c) True p b' \<and> primary_is_promisc b') (alb_release_one e False s b)"
proof -
  let ?b = "bond_update_slave_arr e (Some s) (b\<lparr>alb_slaves := remove1 s (alb_slaves b)\<rparr>)"
  have "gives (\<lambda>b'. steady (remove1 s ss) (Some c) True p b' \<and> primary_is_promisc b') (bond_alb_deinit_slave e s ?b)"
    by (rule gives_mono [OF steady_deinit [OF unlinked_steady [OF b]]]) (use s e in auto)
  then have "gives (\<lambda>b'. steady (remove1 s ss) (Some c) True p b' \<and> primary_is_promisc b')
      (bond_alb_deinit_slave e s ?b \<bind> (\<lambda>b. Some (if False then b\<lparr>curr_active_slave := None\<rparr> else b)))"
    by (rule gives_bind) simp
  then show ?thesis using b s by (simp add: alb_release_one_def Let_def steady_def)
qed

text \<open>
  C21: Destroying a bond leaves a slave in promiscuous mode: \<open>bond_uninit\<close> releases the slaves in the order of the
  list, and when the first one is not the active slave, its release puts the active slave into promiscuous mode and then
  forgets which slave was active, so that nothing takes it out of that mode again.
\<close>

theorem released_slave_stays_promiscuous:
  assumes "alb_reachable b" "rlb_enabled b" "alb_slaves b = s # ss" "curr_active_slave b = Some c" "c \<noteq> s" "set_promisc_ok e"
  shows "\<exists>b'. alb_release_all e (alb_slaves b) b = Some b' \<and> alb_slaves b' = [] \<and> promiscuity b' c = 1"
proof -
  have d: "distinct (s # ss)" and core: "alb_core (set (s # ss)) (set (s # ss)) (set (s # ss)) (s # ss) b"
    using reachable_inv [OF assms(1)] assms(3) by (simp_all add: alb_inv_def)
  have st: "steady (s # ss) (Some c) True (promiscuity b) b" using core_steady [OF core] assms(2,4) by simp
  have "gives (\<lambda>x. (steady ss (Some c) True (promiscuity b) x \<and> primary_is_promisc x) \<and> promisc_ok x) (alb_release_one e False s b)"
    using gives_conj [OF release_teaches [OF st assms(5) [symmetric] assms(6)]
      gives_mono [OF release_core [OF core d, of s e], where Q = promisc_ok]] by (simp add: alb_core_def)
  then obtain x where x: "alb_release_one e False s b = Some x" "steady ss (Some c) True (promiscuity b) x" "primary_is_promisc x" "promisc_ok x"
    by (auto simp: gives_def)
  let ?x = "x\<lparr>curr_active_slave := None\<rparr>"
  have one: "promiscuity ?x c = 1" using x(2-4) by (simp add: promisc_ok_def steady_def)
  have "steady ss None True (promiscuity ?x) ?x" using x(2) by (simp add: steady_def rx_ok_def tlb_ok_def)
  from release_rest [OF this, of e] obtain b' where b': "alb_release_all e ss ?x = Some b'" "steady [] None True (promiscuity ?x) b'"
    by (auto simp: gives_def)
  have "alb_release_all e (alb_slaves b) b = Some b'" using assms(3) b'(1) x(1) release_all_one [of e s b] by simp
  then show ?thesis using b'(2) one by (simp add: steady_def)
qed

theorem released_slave_stays_promiscuous_witness:
  "\<exists>b'. alb_release_all sample_env [1, 2] sample_active = Some b' \<and> alb_slaves b' = [] \<and> promiscuity b' 2 = 1"
  using released_slave_stays_promiscuous [OF sample_active_reachable sample_active_fields(2,1,3), of sample_env]
  by (simp add: sample_active_fields sample_env_def)

subsection \<open>A slave that is not enslaved after all\<close>

lemma link_slave_fields:
  assumes "alb_link_slave e s x b = (0, b1)"
  shows "alb_slaves b1 = alb_slaves b @ [s]" "tx_hashtbl b1 = tx_hashtbl b" "curr_active_slave b1 = curr_active_slave b"
proof -
  let ?b = "b\<lparr>alb_slave := (alb_slave b)(s := x)\<rparr>"
  obtain r1 q1 where q1: "alb_set_slave_mac_addr e s (perm_addr x) ?b = (r1, q1)" by (rule prod.exhaust)
  obtain r2 q2 where q2: "alb_handle_addr_collision_on_attach e s q1 = (r2, q2)" by (rule prod.exhaust)
  have "hw_only ?b q1" "hw_only q1 q2"
    using set_slave_hw [of ?b e s "perm_addr x"] collision_hw [of q1 e s] q1 q2 by simp_all
  then have hw: "hw_only ?b q2" by (rule hw_trans)
  have "b1 = (upd_slave_alb s tlb_init_slave q2)\<lparr>tx_rebalance_counter := BOND_TLB_REBALANCE_TICKS e,
      do_rlb_rebalance := (do_rlb_rebalance q2 \<or> rlb_enabled q2), alb_slaves := alb_slaves q2 @ [s]\<rparr>"
    using assms by (auto simp: alb_link_slave_def bond_alb_init_slave_def q1 q2 split: if_splits)
  then show "alb_slaves b1 = alb_slaves b @ [s]" "tx_hashtbl b1 = tx_hashtbl b" "curr_active_slave b1 = curr_active_slave b"
    using hw by (auto simp: hw_only_def)
qed

text \<open>
  C22: The error path of \<open>bond_enslave\<close> after the slave has been linked (the sysfs entry cannot be created) takes the slave out of the list
  and frees it, but does not call \<open>bond_alb_deinit_slave\<close>: a flow that has been assigned to the slave in between stays
  assigned to it, and its next packet is sent through the freed slave.
\<close>

theorem failed_enslave_keeps_flow:
  assumes "alb_reachable b" "s \<notin> set (alb_slaves b)" "tx_hashtbl b = Some t" "tx_slave (t h) = None"
    and "alb_link_slave e s x b = (0, b1)" "tlb_get_least_loaded_slave b1 = Some s"
  shows "\<exists>b2 b3 b4. tlb_choose_channel h n b1 = Some (Some s, b2) \<and> alb_undo_enslave e s b2 = Some b3 \<and>
    s \<notin> set (alb_slaves b3) \<and> tlb_choose_channel h n b3 = Some (Some s, b4)"
proof -
  note L = link_slave_fields [OF assms(5)]
  let ?b2 = "count_bytes h n (tlb_assign h s t b1)"
  have c: "curr_active_slave b \<noteq> Some s"
    using reachable_inv [OF assms(1)] assms(2) by (auto simp: alb_inv_def alb_core_def)
  have choose: "tlb_choose_channel h n b1 = Some (Some s, ?b2)" using assms(3,4,6) L(2) by (simp add: tlb_choose_channel_def)
  have f: "alb_slaves ?b2 = alb_slaves b @ [s]" "curr_active_slave ?b2 = curr_active_slave b"
    "\<exists>t'. tx_hashtbl ?b2 = Some t' \<and> tx_slave (t' h) = Some s"
    using L by (simp_all add: count_bytes_def tlb_assign_alt assigned_table_simps)
  let ?b3 = "?b2\<lparr>alb_slaves := remove1 s (alb_slaves ?b2)\<rparr>"
  have undo: "alb_undo_enslave e s ?b2 = Some ?b3" using c f(2) by (simp add: alb_undo_enslave_def)
  have "alb_slaves ?b3 = alb_slaves b" using f(1) assms(2) by (simp add: remove1_append)
  then have "s \<notin> set (alb_slaves ?b3)" using assms(2) by simp
  moreover have "\<exists>b4. tlb_choose_channel h n ?b3 = Some (Some s, b4)" using f(3) by (auto simp: tlb_choose_channel_def)
  ultimately show ?thesis using choose undo by blast
qed

theorem failed_enslave_keeps_flow_witness:
  "\<exists>b1 b2 b3 b4. alb_link_slave sample_env 3 (sample_slave 3 2500) sample_two = (0, b1) \<and> tlb_choose_channel 7 100 b1 = Some (Some 3, b2) \<and>
     alb_undo_enslave sample_env 3 b2 = Some b3 \<and> 3 \<notin> set (alb_slaves b3) \<and> tlb_choose_channel 7 100 b3 = Some (Some 3, b4)"
proof -
  obtain r b1 where b1: "alb_link_slave sample_env 3 (sample_slave 3 2500) sample_two = (r, b1)" by (rule prod.exhaust)
  have "fst (alb_link_slave sample_env 3 (sample_slave 3 2500) sample_two) = 0"
    "tlb_get_least_loaded_slave (snd (alb_link_slave sample_env 3 (sample_slave 3 2500) sample_two)) = Some 3" by code_simp+
  with b1 have b1': "alb_link_slave sample_env 3 (sample_slave 3 2500) sample_two = (0, b1)" "tlb_get_least_loaded_slave b1 = Some 3" by auto
  obtain t where t: "tx_hashtbl sample_two = Some t" using sample_slaves(3) by blast
  have "map_option (\<lambda>t. tx_slave (t 7)) (tx_hashtbl sample_two) = Some None" by code_simp
  then have h: "tx_slave (t 7) = None" using t by simp
  have "3 \<notin> set (alb_slaves sample_two)" by (simp add: sample_slaves)
  from failed_enslave_keeps_flow [OF sample_two_reachable this t h b1', of 100] b1'(1) show ?thesis by blast
qed
end
