(* ===== verification/Spec2Isabelle.thy ===== *)
theory Spec2Isabelle
  imports Task Signal Capability Cpu Atomic Spinlock Skbuff Netdev Checksum Inet Socket Types_Lib Cursor Printk Hardening Kasan Math64 Lacp_Reach Alb_Choice Alb_Faults
begin

text \<open>
  \<^bold>\<open>The program.\<close> The sources are a kernel tree: under kernel/ processes, signals, capabilities, CPU
  maps, atomic counters, locks, the text console and the log; under net/ socket buffers, devices,
  sockets and an IPv4 stack; under rust/ a conversion library and run-time defences; under io_uring/ headers of integer
  arithmetic; and under servers/ the bonding driver
  with its two protocols, link aggregation (IEEE 802.3ad) and adaptive load balancing. The parts
  meet where one calls another: the log writes to the console, the IPv4 stack builds its headers in socket buffers and
  hands them to devices, and bonding.c calls bond_3ad.c or bond_alb.c whenever slaves, links or packets change.

  \<^bold>\<open>Conventions.\<close> A C integer is a word of its width (\<open>u8\<close> to \<open>u64\<close>), so that arithmetic wraps as it does in C; a
  signed value whose overflow is undefined is an \<open>int\<close> with the overflow written out. A structure is a
  record, an enumeration a datatype, a heap a function from pointers or slave numbers to records. A function that can reach undefined
  behaviour, follow a null pointer or loop forever returns \<open>'a defined\<close>, and \<open>None\<close> is that outcome: a
  theorem that a call returns excludes all three. Loops without a bound are \<open>partial_function (option)\<close>; no
  definition has a fuel argument. Code that is not under src/ (drivers, allocators, the headers net/bonding.h,
  net/bond_3ad.h and net/bond_alb.h) is an argument: a record of constants and outcomes (\<open>ad_env\<close>, \<open>alb_env\<close>), a supply of
  answers, or a log of the calls that were made.

  \<^bold>\<open>Shared theories.\<close> Prelude has the types, counted loops and word lemmas. Linked_List, Index_List and
  Bitset_Spec are the interfaces that several components provide: the search in a null-terminated list (task list, device list),
  doubly linked lists of table indices (the receive table), and sets of keys kept in words (signal masks,
  capability sets, CPU maps, the bitmap of call targets). Net_Base has the error numbers and addresses that the drivers share.

  \<^bold>\<open>Kernel.\<close> Task models kernel/fork.c and the parts of kernel/exit.c that change a task: tasks and
  address spaces on two heaps, clone, exit and wait. It shows that a clone with CLONE_VM loses a reference.
  Signal models kernel/signal.c: signal sets as arrays of words refine sets of numbers, also through the system calls.
  Capability models kernel/capability.c: an unprivileged process cannot regain a capability or another identity.
  Cpu models kernel/cpu.c: the boot CPU stays online under any sequence of hot-plug requests that return (those for the
  CPUs 32 to 255 are undefined) and the count of online CPUs is right; notifier chains run in order, and registering twice makes them endless.
  Atomic and Spinlock model kernel/atomic.h and kernel/spinlock.h: reference counts release once under
  any interleaving, the reader-writer lock excludes for any number of CPUs (a step relation with separate reads and
  compare-and-swaps), and the ticket lock never serves its third user.
  Cursor models kernel/cursor.c: printing refines an abstract terminal of 25 rows of 80 cells, every function stays
  inside the screen except the one that a theorem names, and loops with an 8-bit bound of 255 never end.
  Printk models kernel/printk.c: the formatted text, its copy in the log buffer and the console calls; the text is that of
  printf except that a number is cut to its last digit.

  \<^bold>\<open>Network.\<close> Skbuff models net/skbuff.c and net/skbuff.h: the data area operations keep the buffer well formed, and the queue
  is a stack. Netdev models net/dev.c: registration keeps the list of devices well formed with distinct names.
  Checksum models the two checksum routines of net/af_inet.c: a stored checksum verifies, and the fast routine agrees with
  the plain one unless it loses a carry. Inet models the send and receive paths (net/ip_output.c, ip_input.c, icmp.c, udp.c, tcp.c,
  eth.c): a packet that the send path hands to a driver passes the checks of the receive path. Socket models net/socket_core.c, net/af_inet.c
  and net/af_netlink.c over an allocator: a socket is created completely or everything is given back.

  \<^bold>\<open>Library.\<close> Types_Lib models rust/types.c: division by shift and subtract divides, and number
  conversions are inverse to parsing. Math64 models io_uring/math64.h and io_uring/math.h: the product with 32-bit limbs equals the
  one with a 128-bit type, scaled and rounded divisions are exact or nearest, and rounding to powers of two is right up to
  the wrap-around at the top; \<open>do_div\<close> of the architecture is a parameter.

  \<^bold>\<open>Run-time defences.\<close> Hardening models rust/Stackprotectot.c and rust/cfi.c: once the bitmap exists, exactly the registered
  functions may be called, by the interface Bitset_Spec; with the initial values of the source it never exists and every call is
  allowed; the canary has a null byte only by chance. Kasan models rust/kasan.c: poisoning writes exactly the granules that a range touches, and no
  access is ever reported, because the check compares the poison values unsigned.

  \<^bold>\<open>Link aggregation.\<close> servers/bond_3ad.c, in the order of the file. Lacp_Base has the protocol data and the timers, Lacp_Rx the
  receive machine, Lacp_Tx the churn, transmit and periodic machines, Lacp_Agg the selection of aggregators,
  Lacp_Mux the mux machine and the frames, Lacp_Bond the entry points. The state is a bond with its slaves,
  each of which holds a port and an aggregator; the ports of an aggregator are a linked list. Of one machine: the
  receive machine records what the partner sent and expires a silent partner, the transmit machine spaces its frames, the periodic machine
  sends at its rate, and the mux machine refines the state diagram of the standard (\<open>mux_next\<close>). Of the selection:
  the active aggregator is one of the highest merit, if the enabled ports of each have the speed of its first port (Lacp_Select), and a port always finds a suitable aggregator (Lacp_Port).
  Of the whole: Lacp_System has the invariant of a bond and shows that a tick keeps it; Lacp_Unbind does this for the removal of a
  slave; Lacp_Reach makes the calls of bonding.c and bond_options.c the events of a transition system. In every bond that the covered events reach,
  every covered call returns, the lists are well formed and the back pointers are right, and a tick serves every port.
  The error path of bond_enslave is covered only while the new port is in no list; coming later, after a tick, it
  leaves a freed port in a list, which a theorem shows on a run of events.

  \<^bold>\<open>Load balancing.\<close> servers/bond_alb.c, all functions. Alb_Base has the data and the transmit table, whose entries are on a
  list per slave; Alb_Rlb the receive table, whose used entries are on one list and whose entries with the same source hash on
  another; Alb_Bond the addresses, packets, the monitor and the entry points, with the array of usable slaves of bonding.c. Alb_Table
  shows that the lists of the receive table stay consistent and that deletions delete exactly the clients they should, by one lemma for both lists
  (locale \<open>client_list\<close>). Alb_System has the invariant \<open>alb_core\<close>, which names the sets of slaves that each table may refer to,
  so that a release can shrink them one after the other; Alb_Calls shows that every function keeps it (locale
  \<open>bond_invariant\<close>, interpreted for \<open>alb_core\<close> and for the state that a release leaves alone). Alb_Reach is the transition system:
  every covered call returns, no table refers to a released slave, and one slave decides whether and how a packet leaves. Not covered are the error
  path of bond_enslave once a table refers to the slave and bond_xmit_get_slave on a closed bond; a theorem shows for each what goes wrong. Alb_Choice
  shows which slave a flow or a client gets, that a client keeps it while ARP packets of others are sent, that a received ARP packet acts as a function on the
  map of clients, and that a refused address is undone. Alb_Faults proves three faults: the gap of a slave wraps, a destroyed bond leaves a slave
  promiscuous, and a failed enslave leaves flows on a freed slave.

  \<^bold>\<open>Bounds.\<close> The tables of the load balancing have 256 entries, one for each value of the 8-bit hash; their
  indices are 8-bit words, so no access is out of range. A bond of the link aggregation has fewer than 65536 slaves, as its 16-bit
  aggregator numbers need. The product of __get_agg_bandwidth, an int that 1343 of the fastest ports would overflow, is taken to wrap. The other sizes (screen, log buffer, signal and capability words) are those of the sources.

  \<^bold>\<open>Not modelled.\<close> Locks around a whole function: each entry point of the bonding protocols is one step, which is what
  \<open>mode_lock\<close> and the network configuration lock enforce. The rest of bonding.c and its netlink, sysfs and procfs front ends, io_uring, SysV messages and ipc:
  their functions work on structures of the Linux kernel that the sources do not declare. Work queues, accounting and auditing are placeholders that
  do nothing. The handlers of rust/ubsan.c print and return, and rust/SMR.c is inline assembly around a printed list. Drivers, boot code, assembly, processor headers, gcc plugins, Rust, D and Python programs are
  register access, machine code or other languages. Functions of the modelled files that are empty or only return a constant keep
  no state and are left out, as the notes of the components say.
\<close>

end
